(* ===== verification/Prelude.thy ===== *)
theory Prelude
  imports Main "HOL-Library.Sublist"
begin

text \<open>
  Shared vocabulary of the Vitis development: the types that stand for Go's error values,
  64-bit integers, instants and durations, the generic list operations the components use
  (the position of the first match, trimming at the right end, the last elements of a list)
  and the lemmas about them.  A component adds its own facts to the \<open>named_theorems\<close>
  collections declared here, so that \<open>simp add:\<close> carries the proofs of its clients.
\<close>

named_theorems status_defs \<open>the string constants of the status and kind types\<close>
named_theorems wire_simps \<open>field access on encoded messages\<close>
named_theorems bus_simps \<open>equations of the in-process bus\<close>
named_theorems store_simps \<open>equations of the file store\<close>

section \<open>Errors\<close>

text \<open>
  A Go error is a message, one of the two context errors, or an error wrapped by
  \<open>fmt.Errorf\<close> with \<open>%w\<close>, whose text is the prefix followed by the text of the wrapped error.
\<close>

datatype go_error =
    ErrMsg string
  | ErrCanceled
  | ErrDeadline
  | ErrWrap string go_error

type_synonym 'a result = "go_error + 'a"

primrec err_text :: "go_error \<Rightarrow> string" where
  "err_text (ErrMsg m) = m"
| "err_text ErrCanceled = ''context canceled''"
| "err_text ErrDeadline = ''context deadline exceeded''"
| "err_text (ErrWrap p e) = p @ err_text e"

text \<open>\<open>errors.Is(err, context.Canceled) || errors.Is(err, context.DeadlineExceeded)\<close>.\<close>

primrec err_is_ctx :: "go_error \<Rightarrow> bool" where
  "err_is_ctx (ErrMsg m) = False"
| "err_is_ctx ErrCanceled = True"
| "err_is_ctx ErrDeadline = True"
| "err_is_ctx (ErrWrap p e) = err_is_ctx e"

section \<open>Integers, instants, durations\<close>

text \<open>
  Go's \<open>int\<close> and \<open>int64\<close> are 64-bit two's complement on the supported platforms.  A value is
  an \<open>int\<close> here; where an operation can leave the range, the wrap-around is written out with
  \<open>wrap64\<close>.  An instant counts nanoseconds from Go's zero \<open>time.Time\<close>, so that
  \<open>t.IsZero()\<close> is \<open>t = 0\<close>.
\<close>

type_synonym go_time = int
type_synonym duration = int

definition max_int64 :: int where "max_int64 = 9223372036854775807"
definition min_int64 :: int where "min_int64 = -9223372036854775808"

definition wrap64 :: "int \<Rightarrow> int" where
  "wrap64 x = (x + 9223372036854775808) mod 18446744073709551616 - 9223372036854775808"

lemma wrap64_id: "min_int64 \<le> x \<Longrightarrow> x \<le> max_int64 \<Longrightarrow> wrap64 x = x"
  by (simp add: wrap64_def min_int64_def max_int64_def)

lemma wrap64_range: "min_int64 \<le> wrap64 x \<and> wrap64 x \<le> max_int64"
proof -
  have "0 \<le> (x + 9223372036854775808) mod 18446744073709551616"
    and "(x + 9223372036854775808) mod 18446744073709551616 < 18446744073709551616"
    by simp_all
  then show ?thesis
    by (simp add: wrap64_def min_int64_def max_int64_def)
qed

section \<open>The position of the first match\<close>

fun find_index :: "('a \<Rightarrow> bool) \<Rightarrow> 'a list \<Rightarrow> nat option" where
  "find_index P [] = None"
| "find_index P (x # xs) = (if P x then Some 0 else map_option Suc (find_index P xs))"

lemma find_index_None [simp]: "find_index P xs = None \<longleftrightarrow> (\<forall>x \<in> set xs. \<not> P x)"
  by (induction xs) auto

lemma find_index_Some:
  "find_index P xs = Some i \<longleftrightarrow> i < length xs \<and> P (xs ! i) \<and> (\<forall>j < i. \<not> P (xs ! j))"
proof (induction xs arbitrary: i)
  case (Cons x xs)
  show ?case
  proof (cases i)
    case 0
    then show ?thesis by auto
  next
    case (Suc k)
    have "find_index P (x # xs) = Some (Suc k) \<longleftrightarrow> \<not> P x \<and> find_index P xs = Some k"
      by auto
    also have "\<dots> \<longleftrightarrow> \<not> P x \<and> k < length xs \<and> P (xs ! k) \<and> (\<forall>j < k. \<not> P (xs ! j))"
      by (simp only: Cons.IH)
    also have "\<dots> \<longleftrightarrow>
        Suc k < length (x # xs) \<and> P ((x # xs) ! Suc k) \<and> (\<forall>j < Suc k. \<not> P ((x # xs) ! j))"
      by (auto simp: less_Suc_eq_0_disj)
    finally show ?thesis using Suc by simp
  qed
qed simp

lemma find_index_nth_distinct:
  "distinct xs \<Longrightarrow> i < length xs \<Longrightarrow> find_index ((=) (xs ! i)) xs = Some i"
  by (auto simp: find_index_Some nth_eq_iff_index_eq)

section \<open>Trimming at the right end\<close>

definition trim_end :: "('a \<Rightarrow> bool) \<Rightarrow> 'a list \<Rightarrow> 'a list" where
  "trim_end P xs = rev (dropWhile P (rev xs))"

lemma trim_end_Nil [simp]: "trim_end P [] = []"
  by (simp add: trim_end_def)

lemma trim_end_snoc [simp]:
  "trim_end P (xs @ [x]) = (if P x then trim_end P xs else xs @ [x])"
  by (simp add: trim_end_def)

lemma trim_end_append_all: "\<forall>x \<in> set ys. P x \<Longrightarrow> trim_end P (xs @ ys) = trim_end P xs"
  by (simp add: trim_end_def dropWhile_append)

lemma trim_end_id: "xs = [] \<or> \<not> P (last xs) \<Longrightarrow> trim_end P xs = xs"
  by (cases xs rule: rev_cases) auto

lemma trim_end_split: "\<exists>ys. xs = trim_end P xs @ ys \<and> (\<forall>y \<in> set ys. P y)"
proof -
  have "xs = rev (takeWhile P (rev xs) @ dropWhile P (rev xs))"
    by simp
  then have "xs = trim_end P xs @ rev (takeWhile P (rev xs))"
    by (simp only: rev_append trim_end_def)
  then show ?thesis
    using set_takeWhileD [of _ P "rev xs"] by (metis set_rev)
qed

lemma trim_end_prefix: "prefix (trim_end P xs) xs"
  using trim_end_split [of xs P] by (auto simp: prefix_def)

lemma trim_end_last: "trim_end P xs \<noteq> [] \<Longrightarrow> \<not> P (last (trim_end P xs))"
  by (induction xs rule: rev_induct) (auto split: if_splits)

section \<open>The last elements of a list\<close>

text \<open>\<open>if n > 0 && len(xs) > n { xs = xs[len(xs)-n:] }\<close>, the tail selection of the store.\<close>

definition last_n :: "int \<Rightarrow> 'a list \<Rightarrow> 'a list" where
  "last_n n xs = (if n > 0 \<and> int (length xs) > n then drop (length xs - nat n) xs else xs)"

lemma last_n_suffix: "suffix (last_n n xs) xs"
  by (simp add: last_n_def suffix_drop)

lemma length_last_n: "0 < n \<Longrightarrow> length (last_n n xs) = min (nat n) (length xs)"
  by (auto simp: last_n_def)

end
