(* ===== verification/GoStrings.thy ===== *)
theory GoStrings
  imports Prelude
begin

text \<open>
  The part of Go's \<open>strings\<close>, \<open>bytes\<close>, \<open>strconv\<close> and \<open>unicode/utf8\<close> packages that the
  sources call.  A Go string is a byte sequence, and so is \<open>string\<close> here (a \<open>char\<close> is a byte).
\<close>

abbreviation nl :: char where "nl \<equiv> CHR 0x0A"
abbreviation cr :: char where "cr \<equiv> CHR 0x0D"
abbreviation tab :: char where "tab \<equiv> CHR 0x09"
abbreviation sp :: char where "sp \<equiv> CHR 0x20"
abbreviation esc :: char where "esc \<equiv> CHR 0x1B"
abbreviation dquote :: char where "dquote \<equiv> CHR 0x22"
abbreviation backslash :: char where "backslash \<equiv> CHR 0x5C"

text \<open>Horizontal white space: space, tab and carriage return; with newline, blank text.\<close>

definition horiz :: "char \<Rightarrow> bool" where
  "horiz c \<longleftrightarrow> c = sp \<or> c = tab \<or> c = cr"

definition blank_char :: "char \<Rightarrow> bool" where
  "blank_char c \<longleftrightarrow> horiz c \<or> c = nl"

lemma horiz_nl [simp]: "\<not> horiz nl"
  by (simp add: horiz_def)

lemma all_horiz_no_nl: "list_all horiz w \<Longrightarrow> nl \<notin> set w"
  by (induction w) auto

section \<open>Prefixes and substrings\<close>

text \<open>\<open>strings.HasPrefix\<close>, \<open>strings.HasSuffix\<close>, \<open>strings.Index\<close>, \<open>strings.Contains\<close>.\<close>

definition has_prefix :: "string \<Rightarrow> string \<Rightarrow> bool" where
  "has_prefix s p \<longleftrightarrow> take (length p) s = p"

definition has_suffix :: "string \<Rightarrow> string \<Rightarrow> bool" where
  "has_suffix s p \<longleftrightarrow> has_prefix (rev s) (rev p)"

fun str_index :: "string \<Rightarrow> string \<Rightarrow> nat option" where
  "str_index [] sub = (if sub = [] then Some 0 else None)"
| "str_index (c # s) sub =
     (if has_prefix (c # s) sub then Some 0 else map_option Suc (str_index s sub))"

definition str_contains :: "string \<Rightarrow> string \<Rightarrow> bool" where
  "str_contains s sub \<longleftrightarrow> str_index s sub \<noteq> None"

lemma has_prefix_iff: "has_prefix s p \<longleftrightarrow> prefix p s"
  by (metis append_eq_conv_conj append_take_drop_id has_prefix_def prefix_def)

lemma has_prefix_append [simp]: "has_prefix (p @ s) p"
  by (simp add: has_prefix_def)

lemma has_suffix_iff: "has_suffix s p \<longleftrightarrow> suffix p s"
  by (simp add: has_suffix_def has_prefix_iff suffix_to_prefix)

lemma str_index_Some_bound: "str_index s sub = Some i \<Longrightarrow> i + length sub \<le> length s"
proof (induction s arbitrary: i)
  case Nil
  then show ?case by (simp split: if_splits)
next
  case (Cons c s)
  show ?case
  proof (cases "has_prefix (c # s) sub")
    case True
    then have "length sub \<le> length (c # s)"
      using prefix_length_le [of sub "c # s"] by (simp add: has_prefix_iff)
    with True Cons.prems show ?thesis by simp
  next
    case False
    with Cons show ?thesis by (auto split: if_splits)
  qed
qed

lemma str_index_Some_iff:
  "str_index s sub = Some i \<longleftrightarrow>
     i \<le> length s \<and> has_prefix (drop i s) sub \<and> (\<forall>j < i. \<not> has_prefix (drop j s) sub)"
proof (induction s arbitrary: i)
  case Nil
  then show ?case by (auto simp: has_prefix_def)
next
  case (Cons c s)
  show ?case
  proof (cases "has_prefix (c # s) sub")
    case True
    then show ?thesis by (cases i) auto
  next
    case False
    then show ?thesis
      using Cons.IH by (cases i) (auto simp: less_Suc_eq_0_disj)
  qed
qed

lemma All_le_Suc_split: "(\<forall>i \<le> Suc n. P i) \<longleftrightarrow> P 0 \<and> (\<forall>i \<le> n. P (Suc i))"
  by (metis Suc_le_mono le0 not0_implies_Suc)

lemma str_index_None_iff: "str_index s sub = None \<longleftrightarrow> (\<forall>i \<le> length s. \<not> has_prefix (drop i s) sub)"
proof (induction s)
  case Nil
  then show ?case by (auto simp: has_prefix_def)
next
  case (Cons c s)
  have "(\<forall>i \<le> length (c # s). \<not> has_prefix (drop i (c # s)) sub) \<longleftrightarrow>
      \<not> has_prefix (c # s) sub \<and> (\<forall>i \<le> length s. \<not> has_prefix (drop i s) sub)"
    by (simp add: All_le_Suc_split)
  with Cons.IH show ?case by simp
qed

lemma str_contains_iff: "str_contains s sub \<longleftrightarrow> (\<exists>i \<le> length s. has_prefix (drop i s) sub)"
  by (auto simp: str_contains_def str_index_None_iff)

lemma str_contains_sublist: "str_contains s sub \<longleftrightarrow> sublist sub s"
proof
  assume "str_contains s sub"
  then obtain i where "prefix sub (drop i s)"
    by (auto simp: str_contains_iff has_prefix_iff)
  then obtain zs where "drop i s = sub @ zs"
    by (auto simp: prefix_def)
  then have "s = take i s @ sub @ zs"
    by (metis append_take_drop_id)
  then show "sublist sub s"
    by (metis sublist_appendI)
next
  assume "sublist sub s"
  then obtain xs zs where "s = xs @ sub @ zs"
    by (auto simp: sublist_def)
  then have "length xs \<le> length s" and "has_prefix (drop (length xs) s) sub"
    by simp_all
  then show "str_contains s sub"
    by (auto simp: str_contains_iff)
qed

section \<open>Splitting and joining\<close>

text \<open>\<open>strings.Split\<close> with a one-byte separator, and \<open>strings.Join\<close>.\<close>

fun split_char :: "char \<Rightarrow> string \<Rightarrow> string list" where
  "split_char c [] = [[]]"
| "split_char c (x # xs) =
     (if x = c then [] # split_char c xs
      else (case split_char c xs of [] \<Rightarrow> [[x]] | l # ls \<Rightarrow> (x # l) # ls))"

fun str_join :: "string \<Rightarrow> string list \<Rightarrow> string" where
  "str_join sep [] = []"
| "str_join sep [x] = x"
| "str_join sep (x # y # xs) = x @ sep @ str_join sep (y # xs)"

abbreviation lines_of :: "string \<Rightarrow> string list" where
  "lines_of s \<equiv> split_char nl s"

lemma split_char_nonempty [simp]: "split_char c s \<noteq> []"
  by (induction s) (auto split: list.splits)

lemma split_char_sep [simp]: "split_char c (c # s) = [] # split_char c s"
  by simp

lemma split_char_hd_tl:
  "x \<noteq> c \<Longrightarrow> split_char c (x # xs) = (x # hd (split_char c xs)) # tl (split_char c xs)"
  using split_char_nonempty [of c xs] by (cases "split_char c xs") auto

lemma split_char_no_sep: "c \<notin> set s \<Longrightarrow> split_char c s = [s]"
  by (induction s) auto

lemma split_char_append: "split_char c (a @ c # b) = split_char c a @ split_char c b"
proof (induction a)
  case (Cons x a)
  show ?case
  proof (cases "x = c")
    case False
    with Cons.IH show ?thesis
      by (simp add: split_char_hd_tl hd_append tl_append split: list.splits)
  qed (simp add: Cons.IH)
qed simp

lemma split_char_snoc_sep: "split_char c (s @ [c]) = split_char c s @ [[]]"
  using split_char_append [of c s "[]"] by simp

lemma split_char_snoc:
  "x \<noteq> c \<Longrightarrow> split_char c (s @ [x]) = butlast (split_char c s) @ [last (split_char c s) @ [x]]"
proof (induction s)
  case (Cons y s)
  show ?case
    using Cons split_char_nonempty [of c s] split_char_nonempty [of c "s @ [x]"]
    by (cases "split_char c s") (auto split: if_splits)
qed simp

lemma set_tl_subset_list: "set (tl xs) \<subseteq> set xs"
  by (cases xs) auto

lemma split_char_pieces: "l \<in> set (split_char c s) \<Longrightarrow> c \<notin> set l"
proof (induction s arbitrary: l)
  case (Cons x s)
  show ?case
  proof (cases "x = c")
    case True
    with Cons show ?thesis by auto
  next
    case False
    have "hd (split_char c s) \<in> set (split_char c s)"
      by simp
    moreover have "set (tl (split_char c s)) \<subseteq> set (split_char c s)"
      by (rule set_tl_subset_list)
    ultimately show ?thesis
      using Cons False by (auto simp: split_char_hd_tl simp del: split_char.simps)
  qed
qed simp

lemma str_join_Cons: "xs \<noteq> [] \<Longrightarrow> str_join sep (x # xs) = x @ sep @ str_join sep xs"
  by (cases xs) auto

lemma str_join_split: "str_join [c] (split_char c s) = s"
proof (induction s)
  case (Cons x s)
  show ?case
  proof (cases "x = c")
    case True
    with Cons show ?thesis by (simp add: str_join_Cons)
  next
    case False
    have "str_join [c] ((x # hd (split_char c s)) # tl (split_char c s)) =
        x # str_join [c] (split_char c s)"
      using split_char_nonempty [of c s]
      by (cases "split_char c s"; cases "tl (split_char c s)") auto
    with Cons False show ?thesis by (simp add: split_char_hd_tl del: split_char.simps)
  qed
qed simp

lemma split_str_join: "ls \<noteq> [] \<Longrightarrow> \<forall>l \<in> set ls. c \<notin> set l \<Longrightarrow> split_char c (str_join [c] ls) = ls"
proof (induction ls)
  case (Cons l ls)
  show ?case
  proof (cases ls)
    case Nil
    with Cons show ?thesis by (simp add: split_char_no_sep)
  next
    case (Cons m ms)
    with Cons.prems Cons.IH show ?thesis
      by (simp add: split_char_append split_char_no_sep)
  qed
qed simp

section \<open>Trimming\<close>

text \<open>
  \<open>strings.TrimRight(s, cutset)\<close> and \<open>strings.TrimLeft(s, cutset)\<close> with an ASCII cutset,
  \<open>strings.TrimPrefix\<close>.
\<close>

definition trim_right :: "string \<Rightarrow> string \<Rightarrow> string" where
  "trim_right s cutset = trim_end (\<lambda>c. c \<in> set cutset) s"

definition trim_left :: "string \<Rightarrow> string \<Rightarrow> string" where
  "trim_left s cutset = dropWhile (\<lambda>c. c \<in> set cutset) s"

definition trim_prefix :: "string \<Rightarrow> string \<Rightarrow> string" where
  "trim_prefix s p = (if has_prefix s p then drop (length p) s else s)"

text \<open>
  \<open>strings.TrimSpace\<close> removes the leading and then the trailing runes that
  \<open>unicode.IsSpace\<close> accepts.  Their UTF-8 encodings: the six ASCII spaces, U+0085, U+00A0,
  U+1680, U+2000 to U+200A, U+2028, U+2029, U+202F, U+205F and U+3000.  A byte that is part of
  no valid encoding decodes to U+FFFD, which is not a space, so a space rune stands at an end
  of a string exactly when its encoding does.
\<close>

definition ascii_spaces :: "string list" where
  "ascii_spaces = map (\<lambda>c. [c]) [tab, nl, CHR 0x0B, CHR 0x0C, cr, sp]"

definition wide_spaces :: "string list" where
  "wide_spaces = [[CHR 0xC2, CHR 0x85], [CHR 0xC2, CHR 0xA0], [CHR 0xE1, CHR 0x9A, CHR 0x80]]
     @ map (\<lambda>c. [CHR 0xE2, CHR 0x80, c])
         [CHR 0x80, CHR 0x81, CHR 0x82, CHR 0x83, CHR 0x84, CHR 0x85, CHR 0x86, CHR 0x87,
          CHR 0x88, CHR 0x89, CHR 0x8A, CHR 0xA8, CHR 0xA9, CHR 0xAF]
     @ [[CHR 0xE2, CHR 0x81, CHR 0x9F], [CHR 0xE3, CHR 0x80, CHR 0x80]]"

definition space_encodings :: "string list" where
  "space_encodings = ascii_spaces @ wide_spaces"

function trim_words :: "string list \<Rightarrow> string \<Rightarrow> string" where
  "trim_words ws s =
     (case find (\<lambda>w. w \<noteq> [] \<and> has_prefix s w) ws of
        None \<Rightarrow> s
      | Some w \<Rightarrow> trim_words ws (drop (length w) s))"
  by pat_completeness auto
termination
proof (relation "measure (\<lambda>(ws, s). length s)", goal_cases)
  case (2 ws s w)
  then have "w \<noteq> []" and "prefix w s"
    by (auto simp: find_Some_iff has_prefix_iff)
  then have "0 < length w" and "length w \<le> length s"
    by (auto dest: prefix_length_le)
  then show ?case by (simp only: in_measure case_prod_conv length_drop)
qed simp

declare trim_words.simps [simp del]

definition trim_space :: "string \<Rightarrow> string" where
  "trim_space s =
     rev (trim_words (map rev space_encodings) (rev (trim_words space_encodings s)))"

lemmas space_encodings_defs = space_encodings_def ascii_spaces_def wide_spaces_def

text \<open>
  The encodings are prefix-free read from either end, so that at most one of them stands at
  an end of a string.
\<close>

definition prefix_free :: "string list \<Rightarrow> bool" where
  "prefix_free ws \<longleftrightarrow> list_all (\<lambda>v. v \<noteq> [] \<and> list_all (\<lambda>w. has_prefix w v \<longrightarrow> v = w) ws) ws"

lemma prefix_free_spaces: "prefix_free space_encodings"
  by (simp add: prefix_free_def space_encodings_defs has_prefix_def)

lemma prefix_free_spaces_rev: "prefix_free (map rev space_encodings)"
  by (simp add: prefix_free_def space_encodings_defs has_prefix_def)

lemma prefix_freeD:
  assumes "prefix_free ws" "v \<in> set ws" "w \<in> set ws" "prefix v s" "prefix w s"
  shows "v = w"
proof -
  from assms(4,5) have "prefix v w \<or> prefix w v"
    by (rule prefix_same_cases [THEN disjI1 [THEN disjE], of _ s]) auto
  with assms(1-3) show ?thesis
    by (auto simp: prefix_free_def list_all_iff has_prefix_iff)
qed

lemma trim_words_step:
  assumes "prefix_free ws" and "w \<in> set ws"
  shows "trim_words ws (w @ s) = trim_words ws s"
proof -
  have w: "w \<noteq> []"
    using assms by (auto simp: prefix_free_def list_all_iff)
  obtain v where v: "find (\<lambda>v. v \<noteq> [] \<and> has_prefix (w @ s) v) ws = Some v"
    using assms(2) w
    by (cases "find (\<lambda>v. v \<noteq> [] \<and> has_prefix (w @ s) v) ws") (auto simp: find_None_iff)
  then have "v \<in> set ws" and "prefix v (w @ s)"
    by (auto simp: find_Some_iff has_prefix_iff)
  with assms have "v = w"
    by (auto intro: prefix_freeD)
  with v show ?thesis
    by (subst trim_words.simps) simp
qed

lemma trim_words_done:
  "(\<And>w. w \<in> set ws \<Longrightarrow> w \<noteq> [] \<Longrightarrow> \<not> prefix w s) \<Longrightarrow> trim_words ws s = s"
  by (subst trim_words.simps) (auto simp: find_Some_iff has_prefix_iff split: option.splits)

lemma trim_words_cases [consumes 1, case_names stop step]:
  assumes "prefix_free ws"
    and "trim_words ws s = s \<Longrightarrow> (\<forall>w \<in> set ws. \<not> prefix w s) \<Longrightarrow> P"
    and "\<And>w t. w \<in> set ws \<Longrightarrow> w \<noteq> [] \<Longrightarrow> s = w @ t \<Longrightarrow> P"
  shows P
proof (cases "\<exists>w \<in> set ws. prefix w s")
  case True
  with assms show ?thesis
    by (auto simp: prefix_def prefix_free_def list_all_iff)
next
  case False
  with assms(2) show ?thesis
    by (auto intro: trim_words_done)
qed

lemma trim_space_Nil [simp]: "trim_space [] = []"
proof -
  have "trim_words ws [] = []" for ws
    by (rule trim_words_done) auto
  then show ?thesis by (simp add: trim_space_def)
qed

text \<open>An ASCII space at the right end never changes the trimmed string.\<close>

lemma wide_no_ascii: "w \<in> set space_encodings \<Longrightarrow> blank_char c \<Longrightarrow> c \<in> set w \<Longrightarrow> w = [c]"
  by (auto simp: space_encodings_defs blank_char_def horiz_def)

lemma ascii_in_spaces: "blank_char c \<Longrightarrow> [c] \<in> set space_encodings"
  by (auto simp: space_encodings_defs blank_char_def horiz_def)

lemma trim_words_snoc_ascii:
  assumes "blank_char c"
  shows "rev (trim_words (map rev space_encodings) (rev (trim_words space_encodings (s @ [c])))) =
    rev (trim_words (map rev space_encodings) (rev (trim_words space_encodings s)))"
proof (induction "length s" arbitrary: s rule: less_induct)
  case less
  show ?case
    using prefix_free_spaces
  proof (cases rule: trim_words_cases [where s = s])
    case (step w t)
    then have "length t < length s" by (cases w) auto
    then show ?thesis
      using less step trim_words_step [OF prefix_free_spaces step(1)] by simp
  next
    case stop
    show ?thesis
    proof (cases "s = []")
      case True
      then show ?thesis
        using trim_words_step [OF prefix_free_spaces ascii_in_spaces [OF assms], of "[]"]
        by simp
    next
      case False
      have "\<not> prefix w (s @ [c])" if "w \<in> set space_encodings" for w
      proof
        assume "prefix w (s @ [c])"
        moreover have "\<not> prefix w s" using stop(2) that by blast
        ultimately have "w = s @ [c]" by simp
        with wide_no_ascii [OF that assms] False show False by simp
      qed
      then have "trim_words space_encodings (s @ [c]) = s @ [c]"
        by (auto intro: trim_words_done)
      moreover have "rev [c] \<in> set (map rev space_encodings)"
        using ascii_in_spaces [OF assms] by (metis imageI set_map)
      ultimately show ?thesis
        using stop(1) trim_words_step [OF prefix_free_spaces_rev, of "[c]" "rev s"] by simp
    qed
  qed
qed

lemma trim_space_snoc_ascii: "blank_char c \<Longrightarrow> trim_space (s @ [c]) = trim_space s"
  unfolding trim_space_def by (rule trim_words_snoc_ascii)

lemma trim_space_append_ascii: "list_all blank_char w \<Longrightarrow> trim_space (s @ w) = trim_space s"
proof (induction w rule: rev_induct)
  case (snoc c w)
  then have "trim_space ((s @ w) @ [c]) = trim_space (s @ w)"
    by (intro trim_space_snoc_ascii) simp
  with snoc show ?case by simp
qed simp

lemma trim_space_trim_right:
  assumes "list_all blank_char cutset"
  shows "trim_space (trim_right s cutset) = trim_space s"
proof -
  obtain w where "s = trim_right s cutset @ w" and "\<forall>c \<in> set w. c \<in> set cutset"
    using trim_end_split [of s "\<lambda>c. c \<in> set cutset"] by (auto simp: trim_right_def)
  moreover from this have "list_all blank_char w"
    using assms by (auto simp: list_all_iff)
  ultimately show ?thesis
    using trim_space_append_ascii [of w "trim_right s cutset"] by metis
qed

end
