(* ===== verification/GoText.thy ===== *)
theory GoText
  imports GoStrings
begin

text \<open>
  Decimal numbers (\<open>strconv.Itoa\<close>, \<open>strconv.Atoi\<close>, the verb \<open>%d\<close>) and UTF-8
  (\<open>utf8.DecodeRune\<close>, \<open>utf8.AppendRune\<close> as used by the conversion \<open>string([]rune)\<close>, and the
  replacement of invalid bytes by U+FFFD that \<open>encoding/json\<close> performs).
\<close>

section \<open>Decimal numbers\<close>

definition digit_char :: "nat \<Rightarrow> char" where
  "digit_char d = char_of (48 + d)"

fun nat_to_str :: "nat \<Rightarrow> string" where
  "nat_to_str n =
     (if n < 10 then [digit_char n] else nat_to_str (n div 10) @ [digit_char (n mod 10)])"

declare nat_to_str.simps [simp del]

definition itoa :: "int \<Rightarrow> string" where
  "itoa i = (if i < 0 then CHR ''-'' # nat_to_str (nat (- i)) else nat_to_str (nat i))"

definition byte :: "char \<Rightarrow> nat" where
  "byte c = of_char c"

definition is_digit :: "char \<Rightarrow> bool" where
  "is_digit c \<longleftrightarrow> 48 \<le> byte c \<and> byte c \<le> 57"

fun digits_value :: "nat \<Rightarrow> string \<Rightarrow> nat option" where
  "digits_value acc [] = Some acc"
| "digits_value acc (c # cs) =
     (if is_digit c then digits_value (10 * acc + (byte c - 48)) cs else None)"

text \<open>
  \<open>strconv.Atoi\<close>: an optional sign, then at least one decimal digit and nothing else; a value
  outside the 64-bit range is an error.
\<close>

definition atoi :: "string \<Rightarrow> int option" where
  "atoi s =
     (let (neg, ds) = (case s of
          [] \<Rightarrow> (False, [])
        | c # cs \<Rightarrow> if c = CHR ''-'' then (True, cs)
            else if c = CHR ''+'' then (False, cs) else (False, s))
      in if ds = [] then None
         else (case digits_value 0 ds of
             None \<Rightarrow> None
           | Some n \<Rightarrow> (let v = (if neg then - int n else int n)
               in if min_int64 \<le> v \<and> v \<le> max_int64 then Some v else None)))"

lemma byte_digit_char: "d < 10 \<Longrightarrow> byte (digit_char d) = 48 + d"
  by (simp add: byte_def digit_char_def of_char_of)

lemma is_digit_digit_char: "d < 10 \<Longrightarrow> is_digit (digit_char d)"
  by (simp add: is_digit_def byte_digit_char)

lemma nat_to_str_nonempty [simp]: "nat_to_str n \<noteq> []"
  by (subst nat_to_str.simps) simp

lemma nat_to_str_digits: "c \<in> set (nat_to_str n) \<Longrightarrow> is_digit c"
proof (induction n rule: nat_to_str.induct)
  case (1 n)
  then show ?case
    by (subst (asm) (2) nat_to_str.simps) (auto simp: is_digit_digit_char split: if_splits)
qed

lemma digits_value_append:
  "digits_value acc (xs @ ys) =
     (case digits_value acc xs of None \<Rightarrow> None | Some v \<Rightarrow> digits_value v ys)"
  by (induction xs arbitrary: acc) auto

lemma digits_value_nat_to_str: "digits_value 0 (nat_to_str n) = Some n"
proof (induction n rule: nat_to_str.induct)
  case (1 n)
  then show ?case
    by (subst nat_to_str.simps)
       (auto simp: digits_value_append is_digit_digit_char byte_digit_char)
qed

lemma digit_not_sign: "is_digit c \<Longrightarrow> c \<noteq> CHR ''-'' \<and> c \<noteq> CHR ''+''"
  by (auto simp: is_digit_def byte_def)

lemma atoi_itoa:
  assumes "min_int64 \<le> i" and "i \<le> max_int64"
  shows "atoi (itoa i) = Some i"
proof (cases "i < 0")
  case True
  with assms show ?thesis
    by (simp add: atoi_def itoa_def digits_value_nat_to_str)
next
  case False
  obtain c cs where c: "nat_to_str (nat i) = c # cs"
    by (cases "nat_to_str (nat i)") auto
  then have "is_digit c"
    using nat_to_str_digits [of c "nat i"] by simp
  with False assms c show ?thesis
    using digit_not_sign [of c] digits_value_nat_to_str [of "nat i"]
    by (simp add: atoi_def itoa_def)
qed

section \<open>UTF-8\<close>

abbreviation rune_error :: nat where "rune_error \<equiv> 65533"

text \<open>The size announced by a first byte and the range allowed for the second byte.\<close>

definition utf8_first :: "nat \<Rightarrow> (nat \<times> nat \<times> nat) option" where
  "utf8_first b =
     (if b < 0xC2 then None
      else if b < 0xE0 then Some (2, 0x80, 0xBF)
      else if b = 0xE0 then Some (3, 0xA0, 0xBF)
      else if b = 0xED then Some (3, 0x80, 0x9F)
      else if b < 0xF0 then Some (3, 0x80, 0xBF)
      else if b = 0xF0 then Some (4, 0x90, 0xBF)
      else if b < 0xF4 then Some (4, 0x80, 0xBF)
      else if b = 0xF4 then Some (4, 0x80, 0x8F)
      else None)"

definition utf8_cont :: "nat \<Rightarrow> bool" where
  "utf8_cont b \<longleftrightarrow> 0x80 \<le> b \<and> b \<le> 0xBF"

text \<open>\<open>utf8.DecodeRune\<close>: the rune and its size; \<open>(RuneError, 1)\<close> on an invalid encoding.\<close>

definition utf8_decode_bytes :: "nat list \<Rightarrow> nat \<times> nat" where
  "utf8_decode_bytes bs =
     (case bs of
        [] \<Rightarrow> (rune_error, 0)
      | b0 # r \<Rightarrow>
          if b0 < 0x80 then (b0, 1)
          else (case (utf8_first b0, r) of
              (Some (n, lo, hi), b1 # r') \<Rightarrow>
                if b1 < lo \<or> hi < b1 then (rune_error, 1)
                else if n = 2 then ((b0 - 0xC0) * 64 + (b1 - 0x80), 2)
                else (case r' of
                    [] \<Rightarrow> (rune_error, 1)
                  | b2 # r'' \<Rightarrow>
                      if \<not> utf8_cont b2 then (rune_error, 1)
                      else if n = 3
                      then ((b0 - 0xE0) * 4096 + (b1 - 0x80) * 64 + (b2 - 0x80), 3)
                      else (case r'' of
                          [] \<Rightarrow> (rune_error, 1)
                        | b3 # _ \<Rightarrow>
                            if \<not> utf8_cont b3 then (rune_error, 1)
                            else ((b0 - 0xF0) * 262144 + (b1 - 0x80) * 4096
                                    + (b2 - 0x80) * 64 + (b3 - 0x80), 4)))
            | _ \<Rightarrow> (rune_error, 1)))"

definition utf8_decode :: "string \<Rightarrow> nat \<times> nat" where
  "utf8_decode s = utf8_decode_bytes (map byte (take 4 s))"

definition utf8_encode :: "nat \<Rightarrow> string" where
  "utf8_encode r =
     (let r = (if r > 0x10FFFF \<or> (0xD800 \<le> r \<and> r \<le> 0xDFFF) then rune_error else r) in
      if r < 0x80 then [char_of r]
      else if r < 0x800 then [char_of (0xC0 + r div 64), char_of (0x80 + r mod 64)]
      else if r < 0x10000
      then [char_of (0xE0 + r div 4096), char_of (0x80 + r div 64 mod 64),
            char_of (0x80 + r mod 64)]
      else [char_of (0xF0 + r div 262144), char_of (0x80 + r div 4096 mod 64),
            char_of (0x80 + r div 64 mod 64), char_of (0x80 + r mod 64)])"

lemma utf8_decode_size: "s \<noteq> [] \<Longrightarrow> 1 \<le> snd (utf8_decode s) \<and> snd (utf8_decode s) \<le> length s"
proof -
  assume "s \<noteq> []"
  then have "map byte (take 4 s) \<noteq> []" by simp
  moreover have "bs \<noteq> [] \<Longrightarrow> 1 \<le> snd (utf8_decode_bytes bs) \<and> snd (utf8_decode_bytes bs) \<le> length bs"
    for bs
    by (auto simp: utf8_decode_bytes_def split: list.splits option.splits prod.splits if_splits)
  ultimately have "1 \<le> snd (utf8_decode s) \<and> snd (utf8_decode s) \<le> length (take 4 s)"
    unfolding utf8_decode_def by (metis length_map)
  then show ?thesis by simp
qed

text \<open>The bytes a JSON string keeps: invalid bytes become the encoding of U+FFFD.\<close>

function to_valid_utf8 :: "string \<Rightarrow> string" where
  "to_valid_utf8 s =
     (if s = [] then []
      else (let (r, n) = utf8_decode s in
        (if r = rune_error \<and> n = 1 then utf8_encode rune_error else take n s)
          @ to_valid_utf8 (drop n s)))"
  by pat_completeness auto
termination
proof (relation "measure length", goal_cases)
  case (2 s x r n)
  then have "1 \<le> n" and "0 < length s"
    using utf8_decode_size [of s] by (auto simp: prod_eq_iff)
  then show ?case by simp
qed simp

declare to_valid_utf8.simps [simp del]

definition is_ascii :: "string \<Rightarrow> bool" where
  "is_ascii s \<longleftrightarrow> list_all (\<lambda>c. byte c < 0x80) s"

lemma utf8_decode_ascii: "byte c < 0x80 \<Longrightarrow> utf8_decode (c # s) = (byte c, 1)"
  by (simp add: utf8_decode_def utf8_decode_bytes_def)

lemma to_valid_utf8_ascii_Cons:
  "byte c < 0x80 \<Longrightarrow> to_valid_utf8 (c # s) = c # to_valid_utf8 s"
  by (subst to_valid_utf8.simps) (simp add: utf8_decode_ascii)

lemma to_valid_utf8_Nil [simp]: "to_valid_utf8 [] = []"
  by (subst to_valid_utf8.simps) simp

lemma to_valid_utf8_ascii: "is_ascii s \<Longrightarrow> to_valid_utf8 s = s"
  by (induction s) (auto simp: is_ascii_def to_valid_utf8_ascii_Cons)

section \<open>Quoting\<close>

text \<open>
  The verb \<open>%q\<close>: ASCII as \<open>strconv.Quote\<close> writes it, an invalid byte as \<open>\xNN\<close>; a valid rune
  outside ASCII is taken to be printable.
\<close>

definition hex_low :: "nat \<Rightarrow> char" where
  "hex_low n = (if n < 10 then char_of (48 + n) else char_of (87 + n))"

definition quote_hex :: "nat \<Rightarrow> string" where
  "quote_hex b = backslash # CHR ''x'' # [hex_low (b div 16), hex_low (b mod 16)]"

definition quote_ascii :: "char \<Rightarrow> string" where
  "quote_ascii c =
     (if c = dquote \<or> c = backslash then [backslash, c]
      else if byte c = 7 then [backslash, CHR ''a'']
      else if byte c = 8 then [backslash, CHR ''b'']
      else if byte c = 12 then [backslash, CHR ''f'']
      else if c = nl then [backslash, CHR ''n'']
      else if c = cr then [backslash, CHR ''r'']
      else if c = tab then [backslash, CHR ''t'']
      else if byte c = 11 then [backslash, CHR ''v'']
      else if byte c < 32 \<or> byte c = 127 then quote_hex (byte c)
      else [c])"

function quote_body :: "string \<Rightarrow> string" where
  "quote_body [] = []"
| "quote_body (c # s) =
     (if byte c < 0x80 then quote_ascii c @ quote_body s
      else (let (r, n) = utf8_decode (c # s) in
        if r = rune_error \<and> n = 1 then quote_hex (byte c) @ quote_body s
        else take n (c # s) @ quote_body (drop (n - 1) s)))"
  by pat_completeness auto
termination
  by (relation "measure length") auto

definition go_quote :: "string \<Rightarrow> string" where
  "go_quote s = dquote # quote_body s @ [dquote]"

end
