(* ===== verification/Model.thy ===== *)
theory Model
  imports GoText
begin

text \<open>
  The data model of \<open>src/internal/model\<close>: statuses, peers, conversations, turns, envelopes,
  verdicts, sessions and run results, one record per Go struct and one constant per constant
  of a string type.  Go's string types accept any string, so they are \<open>string\<close> here; a nil
  pointer is \<open>None\<close>, a map is an association list, a confidence (a \<open>float64\<close> that the program
  only assigns from two-digit literals) is counted in hundredths.
\<close>

type_synonym conversation_status = string
type_synonym peer_slot = string
type_synonym peer_id = string
type_synonym turn_reason = string
type_synonym verdict_decision = string
type_synonym run_status = string
type_synonym confidence = int
type_synonym str_map = "(string \<times> string) list"

text \<open>Reading a Go map: a missing key gives the zero value.\<close>

definition map_get :: "str_map \<Rightarrow> string \<Rightarrow> string" where
  "map_get m k = (case map_of m k of None \<Rightarrow> [] | Some v \<Rightarrow> v)"

text \<open>Assignment to a Go map: overwrite the entry of the key or add one.\<close>

fun map_put :: "'k \<Rightarrow> 'v \<Rightarrow> ('k \<times> 'v) list \<Rightarrow> ('k \<times> 'v) list" where
  "map_put k v [] = [(k, v)]"
| "map_put k v ((k', v') # m) = (if k = k' then (k, v) # m else (k', v') # map_put k v m)"

lemma map_of_map_put: "map_of (map_put k v m) = (map_of m)(k \<mapsto> v)"
  by (induction m) auto

lemma keys_map_put: "set (map fst (map_put k v m)) = insert k (set (map fst m))"
  by (induction k v m rule: map_put.induct) auto

lemma distinct_map_put: "distinct (map fst m) \<Longrightarrow> distinct (map fst (map_put k v m))"
proof (induction k v m rule: map_put.induct)
  case (2 k v k' v' m)
  then show ?case
    using keys_map_put [of k v m] by (simp del: set_map)
qed simp

lemma map_get_map_put: "map_get (map_put k v m) k' = (if k' = k then v else map_get m k')"
  by (simp add: map_get_def map_of_map_put)

section \<open>Conversations\<close>

definition ConvRunning :: conversation_status where
  [status_defs]: "ConvRunning = ''running''"

definition ConvCompletedSentinel :: conversation_status where
  [status_defs]: "ConvCompletedSentinel = ''completed_sentinel''"

definition ConvCompletedJudge :: conversation_status where
  [status_defs]: "ConvCompletedJudge = ''completed_judge''"

definition ConvMaxTurnsHit :: conversation_status where
  [status_defs]: "ConvMaxTurnsHit = ''max_turns_hit''"

definition ConvPeerCrashed :: conversation_status where
  [status_defs]: "ConvPeerCrashed = ''peer_crashed''"

definition ConvPeerBlocked :: conversation_status where
  [status_defs]: "ConvPeerBlocked = ''peer_blocked''"

definition ConvTimeout :: conversation_status where
  [status_defs]: "ConvTimeout = ''timeout''"

definition ConvInterrupted :: conversation_status where
  [status_defs]: "ConvInterrupted = ''interrupted''"

definition ConvError :: conversation_status where
  [status_defs]: "ConvError = ''error''"

definition PeerSlotA :: peer_slot where
  [status_defs]: "PeerSlotA = ''a''"

definition PeerSlotB :: peer_slot where
  [status_defs]: "PeerSlotB = ''b''"

definition slot_other :: "peer_slot \<Rightarrow> peer_slot" where
  "slot_other s = (if s = PeerSlotA then PeerSlotB else PeerSlotA)"

record peer_spec =
  ps_uri :: string
  ps_options :: str_map

record peer_participant =
  part_id :: peer_id
  part_spec :: peer_spec

definition TurnReasonOpener :: turn_reason where
  [status_defs]: "TurnReasonOpener = ''opener''"

definition TurnReasonAddressed :: turn_reason where
  [status_defs]: "TurnReasonAddressed = ''addressed''"

definition TurnReasonFallbackRoundRobin :: turn_reason where
  [status_defs]: "TurnReasonFallbackRoundRobin = ''fallback_roundrobin''"

definition TurnReasonEnd :: turn_reason where
  [status_defs]: "TurnReasonEnd = ''end''"

record terminator_spec =
  term_kind :: string
  term_sentinel :: string
  term_judge_uri :: string

record conversation =
  conv_id :: string
  conv_schema_version :: int
  conv_created_at :: go_time
  conv_ended_at :: "go_time option"
  conv_status :: conversation_status
  conv_max_turns :: int
  conv_per_turn_timeout :: int
  conv_overall_timeout :: int
  conv_terminator :: terminator_spec
  conv_peers :: "peer_participant list"
  conv_seeds :: str_map
  conv_opener_id :: peer_id
  conv_peer_a :: peer_spec
  conv_peer_b :: peer_spec
  conv_seed_a :: string
  conv_seed_b :: string
  conv_opener :: peer_slot
  conv_turns_consumed :: int
  conv_reply_style :: string

text \<open>\<open>time.Duration(c.PerTurnTimeout) * time.Second\<close>, in 64-bit nanoseconds.\<close>

definition per_turn_timeout_duration :: "conversation \<Rightarrow> duration" where
  "per_turn_timeout_duration c = wrap64 (conv_per_turn_timeout c * 1000000000)"

definition overall_timeout_duration :: "conversation \<Rightarrow> duration" where
  "overall_timeout_duration c = wrap64 (conv_overall_timeout c * 1000000000)"

record conversation_patch =
  cp_status :: "conversation_status option"
  cp_ended_at :: "go_time option"
  cp_turns_consumed :: "int option"

record conversation_turn =
  ct_conversation_id :: string
  ct_index :: int
  ct_from :: peer_slot
  ct_from_id :: peer_id
  ct_to_id :: peer_id
  ct_reason :: turn_reason
  ct_next_id_parsed :: "peer_id option"
  ct_fallback_used :: bool
  ct_envelope :: string
  ct_response :: string
  ct_marker_token :: string
  ct_started_at :: go_time
  ct_ended_at :: go_time
  ct_completion_confidence :: confidence
  ct_parser_confidence :: confidence
  ct_warnings :: "string list"

definition DecisionContinue :: verdict_decision where
  [status_defs]: "DecisionContinue = ''continue''"

definition DecisionTerminate :: verdict_decision where
  [status_defs]: "DecisionTerminate = ''terminate''"

record verdict =
  ver_conversation_id :: string
  ver_decision :: verdict_decision
  ver_reason :: string
  ver_status :: conversation_status

record envelope =
  env_conversation_id :: string
  env_turn_index :: int
  env_max_turns :: int
  env_from :: peer_slot
  env_from_id :: peer_id
  env_to_id :: peer_id
  env_body :: string
  env_marker_token :: string
  env_include_briefing :: bool
  env_briefing :: string

section \<open>Peer ids\<close>

text \<open>The regular expression \<open>^[a-z][a-z0-9_-]{0,31}$\<close>.\<close>

definition is_lower :: "char \<Rightarrow> bool" where
  "is_lower c \<longleftrightarrow> 97 \<le> byte c \<and> byte c \<le> 122"

definition is_id_char :: "char \<Rightarrow> bool" where
  "is_id_char c \<longleftrightarrow> is_lower c \<or> is_digit c \<or> c = CHR ''_'' \<or> c = CHR ''-''"

definition peer_id_regex :: "string \<Rightarrow> bool" where
  "peer_id_regex s =
     (case s of [] \<Rightarrow> False | c # cs \<Rightarrow> is_lower c \<and> list_all is_id_char cs \<and> length cs \<le> 31)"

definition ErrInvalidPeerID :: go_error where
  "ErrInvalidPeerID = ErrMsg ''invalid peer id: must match ^[a-z][a-z0-9_-]{0,31}$''"

definition peer_id_validate :: "peer_id \<Rightarrow> go_error option" where
  "peer_id_validate p = (if \<not> peer_id_regex p then Some ErrInvalidPeerID else None)"

definition peer_id_from_slot :: "peer_slot \<Rightarrow> peer_id" where
  "peer_id_from_slot s = s"

lemma peer_id_regex_nonempty: "peer_id_regex s \<Longrightarrow> s \<noteq> []"
  by (auto simp: peer_id_regex_def)

lemma peer_id_regex_chars: "peer_id_regex s \<Longrightarrow> c \<in> set s \<Longrightarrow> is_id_char c"
  by (auto simp: peer_id_regex_def is_id_char_def list_all_iff split: list.splits)

lemma peer_id_regex_length: "peer_id_regex s \<Longrightarrow> 1 \<le> length s \<and> length s \<le> 32"
  by (auto simp: peer_id_regex_def split: list.splits)

section \<open>Single-shot runs\<close>

definition RunRunning :: run_status where
  [status_defs]: "RunRunning = ''running''"

definition RunCompleted :: run_status where
  [status_defs]: "RunCompleted = ''completed''"

definition RunBlockedOnInput :: run_status where
  [status_defs]: "RunBlockedOnInput = ''blocked_on_input''"

definition RunPermissionPrompt :: run_status where
  [status_defs]: "RunPermissionPrompt = ''permission_prompt''"

definition RunAuthRequired :: run_status where
  [status_defs]: "RunAuthRequired = ''auth_required''"

definition RunRateLimited :: run_status where
  [status_defs]: "RunRateLimited = ''rate_limited''"

definition RunInterrupted :: run_status where
  [status_defs]: "RunInterrupted = ''interrupted''"

definition RunTimeout :: run_status where
  [status_defs]: "RunTimeout = ''timeout''"

definition RunPartial :: run_status where
  [status_defs]: "RunPartial = ''partial''"

definition RunCrashed :: run_status where
  [status_defs]: "RunCrashed = ''crashed''"

definition RunFailed :: run_status where
  [status_defs]: "RunFailed = ''error''"

definition run_status_is_terminal :: "run_status \<Rightarrow> bool" where
  "run_status_is_terminal s \<longleftrightarrow>
     s \<in> {RunCompleted, RunBlockedOnInput, RunPermissionPrompt, RunAuthRequired, RunRateLimited,
          RunInterrupted, RunTimeout, RunPartial, RunCrashed, RunFailed}"

datatype error_code =
    ErrorConfig | ErrorSpawn | ErrorPromptIO | ErrorTimeout | ErrorExtract | ErrorStore
  | ErrorRuntime | ErrorProvider | ErrorInput | ErrorNotFound | ErrorInternal

fun error_code_str :: "error_code \<Rightarrow> string" where
  "error_code_str ErrorConfig = ''E_CONFIG''"
| "error_code_str ErrorSpawn = ''E_SPAWN''"
| "error_code_str ErrorPromptIO = ''E_PROMPT_IO''"
| "error_code_str ErrorTimeout = ''E_TIMEOUT''"
| "error_code_str ErrorExtract = ''E_EXTRACT''"
| "error_code_str ErrorStore = ''E_STORE''"
| "error_code_str ErrorRuntime = ''E_RUNTIME''"
| "error_code_str ErrorProvider = ''E_PROVIDER''"
| "error_code_str ErrorInput = ''E_INPUT''"
| "error_code_str ErrorNotFound = ''E_NOT_FOUND''"
| "error_code_str ErrorInternal = ''E_INTERNAL''"

record run_error =
  re_code :: error_code
  re_message :: string

definition run_error_text :: "run_error option \<Rightarrow> string" where
  "run_error_text e =
     (case e of None \<Rightarrow> [] | Some e \<Rightarrow> error_code_str (re_code e) @ '': '' @ re_message e)"

datatype stream_event_kind = StreamEventInput | StreamEventOutput

record stream_event =
  se_timestamp :: go_time
  se_kind :: stream_event_kind
  se_data :: string

record stored_stream_event =
  sse_session_id :: string
  sse_timestamp :: go_time
  sse_kind :: stream_event_kind
  sse_data :: string

record exit_result =
  ex_code :: int
  ex_err :: "go_error option"

record session_filter =
  sf_status :: "run_status option"
  sf_limit :: int
  sf_offset :: int

record conversation_filter =
  cf_status :: "conversation_status option"
  cf_limit :: int
  cf_offset :: int

record session =
  ses_id :: string
  ses_provider :: string
  ses_status :: run_status
  ses_started_at :: go_time
  ses_ended_at :: "go_time option"
  ses_duration_ms :: "int option"
  ses_exit_code :: "int option"
  ses_parser_confidence :: "confidence option"
  ses_observation_confidence :: "confidence option"
  ses_auth_mode :: string
  ses_blocked_reason :: "string option"
  ses_bytes_captured :: "int option"
  ses_warnings :: "string list"
  ses_terminal_cols :: "int option"
  ses_terminal_rows :: "int option"

record session_patch =
  sp_status :: "run_status option"
  sp_ended_at :: "go_time option"
  sp_duration_ms :: "int option"
  sp_exit_code :: "int option"
  sp_parser_confidence :: "confidence option"
  sp_observation_confidence :: "confidence option"
  sp_auth_mode :: "string option"
  sp_blocked_reason :: "string option"
  sp_bytes_captured :: "int option"
  sp_warnings :: "string list option"
  sp_terminal_cols :: "int option"
  sp_terminal_rows :: "int option"

record turn =
  tn_session_id :: string
  tn_index :: int
  tn_role :: string
  tn_content :: string
  tn_created_at :: go_time

record run_request =
  rq_provider :: string
  rq_prompt :: string
  rq_prompt_file :: string
  rq_timeout_sec :: int
  rq_cwd :: string
  rq_env_file :: string
  rq_log_backend :: string
  rq_log_path :: string
  rq_database_url :: string
  rq_peek_last :: int
  rq_debug_raw :: bool
  rq_terminal_cols :: int
  rq_terminal_rows :: int
  rq_home_dir :: string
  rq_model :: string
  rq_reasoning_effort :: string

record result_meta =
  rm_duration_ms :: int
  rm_exit_code :: "int option"
  rm_parser_confidence :: confidence
  rm_observation_confidence :: confidence
  rm_bytes_captured :: int
  rm_blocked_reason :: "string option"
  rm_warnings :: "string list"

record run_result =
  rr_session_id :: string
  rr_provider :: string
  rr_status :: run_status
  rr_response :: string
  rr_peek :: "turn list"
  rr_meta :: result_meta
  rr_error :: "run_error option"

text \<open>Zero values of the structs, as Go gives them to a variable without an initialiser.\<close>

definition zero_peer_spec :: peer_spec where
  "zero_peer_spec = \<lparr>ps_uri = [], ps_options = []\<rparr>"

definition zero_conversation :: conversation where
  "zero_conversation = \<lparr>conv_id = [], conv_schema_version = 0, conv_created_at = 0,
     conv_ended_at = None, conv_status = [], conv_max_turns = 0, conv_per_turn_timeout = 0,
     conv_overall_timeout = 0,
     conv_terminator = \<lparr>term_kind = [], term_sentinel = [], term_judge_uri = []\<rparr>,
     conv_peers = [], conv_seeds = [], conv_opener_id = [], conv_peer_a = zero_peer_spec,
     conv_peer_b = zero_peer_spec, conv_seed_a = [], conv_seed_b = [], conv_opener = [],
     conv_turns_consumed = 0, conv_reply_style = []\<rparr>"

definition zero_conversation_turn :: conversation_turn where
  "zero_conversation_turn = \<lparr>ct_conversation_id = [], ct_index = 0, ct_from = [], ct_from_id = [],
     ct_to_id = [], ct_reason = [], ct_next_id_parsed = None, ct_fallback_used = False,
     ct_envelope = [], ct_response = [], ct_marker_token = [], ct_started_at = 0, ct_ended_at = 0,
     ct_completion_confidence = 0, ct_parser_confidence = 0, ct_warnings = []\<rparr>"

end
