(* ===== verification/Policy.thy ===== *)
theory Policy
  imports Model
begin

text \<open>
  Turn ordering, \<open>src/internal/conversation/policy\<close>: the decision record, the round-robin
  fallback, the parser of the \<open><<NEXT: peer-id>>\<close> trailer and the addressed policy, with the
  interface \<open>turn_policy\<close> that the broker relies on.  A panic of the source is \<open>None\<close>.
\<close>

record decision =
  dec_next :: peer_id
  dec_parsed :: "peer_id option"
  dec_fallback_used :: bool

definition round_robin_after :: "peer_id \<Rightarrow> peer_id list \<Rightarrow> peer_id option" where
  "round_robin_after current peers =
     (if peers = [] then None
      else (case find_index ((=) current) peers of
          Some i \<Rightarrow> Some (peers ! ((i + 1) mod length peers))
        | None \<Rightarrow> Some (peers ! 0)))"

text \<open>
  The expressions \<open>^<<NEXT:\s*([a-z][a-z0-9_-]{0,31})\s*>>$\<close> and \<open>^<<END>>$\<close>.  The class
  \<open>\s\<close> of Go's regexp holds tab, newline, form feed, carriage return and space.
\<close>

definition re_space :: "char \<Rightarrow> bool" where
  "re_space c \<longleftrightarrow> c \<in> {tab, nl, CHR 0x0C, cr, sp}"

definition next_trailer_regex :: "string \<Rightarrow> peer_id option" where
  "next_trailer_regex s =
     (if has_prefix s ''<<NEXT:'' \<and> has_suffix (drop 7 s) ''>>''
      then (let pid = trim_end re_space (dropWhile re_space (take (length s - 9) (drop 7 s)))
            in if peer_id_regex pid then Some pid else None)
      else None)"

definition end_trailer_regex :: "string \<Rightarrow> bool" where
  "end_trailer_regex s \<longleftrightarrow> s = ''<<END>>''"

definition last_nonempty_line :: "string \<Rightarrow> string" where
  "last_nonempty_line reply =
     (case find (\<lambda>l. l \<noteq> []) (rev (map (\<lambda>l. trim_right l [sp, tab, cr]) (lines_of reply))) of
        None \<Rightarrow> []
      | Some l \<Rightarrow> l)"

definition parse_next_trailer :: "string \<Rightarrow> peer_id option" where
  "parse_next_trailer reply =
     (let last = last_nonempty_line reply in
      if last = [] then None
      else if end_trailer_regex last then None
      else next_trailer_regex last)"

definition addressed_next :: "peer_id \<Rightarrow> string \<Rightarrow> peer_id list \<Rightarrow> decision option" where
  "addressed_next current reply peers =
     (let parsed = parse_next_trailer reply in
      case parsed of
        Some p \<Rightarrow>
          if p \<noteq> current \<and> p \<in> set peers
          then Some \<lparr>dec_next = p, dec_parsed = parsed, dec_fallback_used = False\<rparr>
          else map_option (\<lambda>n. \<lparr>dec_next = n, dec_parsed = parsed, dec_fallback_used = True\<rparr>)
                 (round_robin_after current peers)
      | None \<Rightarrow>
          map_option (\<lambda>n. \<lparr>dec_next = n, dec_parsed = parsed, dec_fallback_used = True\<rparr>)
            (round_robin_after current peers))"

section \<open>Round-robin\<close>

lemma round_robin_None [simp]: "round_robin_after c peers = None \<longleftrightarrow> peers = []"
  by (auto simp: round_robin_after_def split: option.splits)

lemma round_robin_returns: "peers \<noteq> [] \<Longrightarrow> \<exists>p. round_robin_after c peers = Some p"
  using round_robin_None [of c peers] by blast

lemma round_robin_mem: "round_robin_after c peers = Some p \<Longrightarrow> p \<in> set peers"
  by (auto simp: round_robin_after_def split: option.splits if_splits)

lemma round_robin_nth:
  "distinct peers \<Longrightarrow> i < length peers \<Longrightarrow>
     round_robin_after (peers ! i) peers = Some (peers ! (Suc i mod length peers))"
  by (auto simp: round_robin_after_def find_index_nth_distinct)

lemma round_robin_other:
  assumes "distinct peers" and "2 \<le> length peers" and "round_robin_after c peers = Some p"
  shows "p \<noteq> c"
proof (cases "c \<in> set peers")
  case True
  then obtain i where i: "i < length peers" "c = peers ! i"
    by (auto simp: in_set_conv_nth)
  with assms have p: "p = peers ! (Suc i mod length peers)"
    by (simp add: round_robin_nth)
  have "Suc i mod length peers \<noteq> i"
    using i(1) assms(2) by (cases "Suc i = length peers") auto
  moreover have "Suc i mod length peers < length peers"
    using assms(2) by (intro mod_less_divisor) auto
  ultimately show ?thesis
    using assms(1) i p by (simp add: nth_eq_iff_index_eq)
next
  case False
  with assms(3) round_robin_mem show ?thesis by blast
qed

primrec rr_iter :: "peer_id list \<Rightarrow> nat \<Rightarrow> peer_id \<Rightarrow> peer_id option" where
  "rr_iter peers 0 c = Some c"
| "rr_iter peers (Suc n) c =
     (case rr_iter peers n c of None \<Rightarrow> None | Some d \<Rightarrow> round_robin_after d peers)"

text \<open>
  C28. Fairness of the fallback: from the peer at position \<open>i\<close> of a duplicate-free order,
  \<open>n\<close> round-robin steps lead to position \<open>i + n\<close> modulo the number of peers, so that any
  run of as many fallback turns as there are peers lets each of them speak once.
\<close>

theorem round_robin_fair:
  assumes "distinct peers" and "i < length peers"
  shows "rr_iter peers n (peers ! i) = Some (peers ! ((i + n) mod length peers))"
proof (induction n)
  case 0
  with assms show ?case by simp
next
  case (Suc n)
  have "(i + n) mod length peers < length peers"
    using assms(2) by (intro mod_less_divisor) auto
  with Suc assms(1) show ?case
    by (simp add: round_robin_nth mod_Suc_eq)
qed

theorem round_robin_fair_witness:
  "rr_iter [''alice'', ''bob'', ''carol''] 4 ''bob'' = Some ''carol''"
  using round_robin_fair [of "[''alice'', ''bob'', ''carol'']" 1 4] by simp

section \<open>The trailer\<close>

lemma id_char_not_space: "is_id_char c \<Longrightarrow> \<not> re_space c"
  by (auto simp: is_id_char_def re_space_def is_lower_def is_digit_def byte_def)

lemma peer_id_no_space: "peer_id_regex p \<Longrightarrow> c \<in> set p \<Longrightarrow> \<not> re_space c"
  using id_char_not_space peer_id_regex_chars by blast

lemma trim_around_peer_id:
  assumes "peer_id_regex p" "list_all re_space v" "list_all re_space w"
  shows "trim_end re_space (dropWhile re_space (v @ p @ w)) = p"
proof -
  have p: "p \<noteq> []" using assms(1) by (rule peer_id_regex_nonempty)
  have "dropWhile re_space (v @ p @ w) = p @ w"
    using assms p peer_id_no_space [of p "hd p"]
    by (cases p) (auto simp: list_all_iff dropWhile_append)
  moreover have "trim_end re_space (p @ w) = p"
    using assms p peer_id_no_space [of p "last p"]
    by (simp add: trim_end_append_all list_all_iff trim_end_id)
  ultimately show ?thesis by simp
qed

text \<open>The matcher accepts exactly the language of the regular expression, capturing the id.\<close>

lemma next_trailer_iff:
  "next_trailer_regex s = Some p \<longleftrightarrow>
     peer_id_regex p \<and>
     (\<exists>v w. s = ''<<NEXT:'' @ v @ p @ w @ ''>>'' \<and> list_all re_space v \<and> list_all re_space w)"
proof
  assume match: "next_trailer_regex s = Some p"
  then obtain r where r: "s = ''<<NEXT:'' @ r"
    by (auto simp: next_trailer_regex_def has_prefix_iff prefix_def split: if_splits)
  with match obtain m where m: "r = m @ ''>>''"
    by (auto simp: next_trailer_regex_def has_suffix_iff suffix_def split: if_splits)
  define d where "d = dropWhile re_space m"
  from match r m have p: "p = trim_end re_space d" "peer_id_regex p"
    by (auto simp: next_trailer_regex_def d_def Let_def split: if_splits)
  obtain w where w: "d = trim_end re_space d @ w" "list_all re_space w"
    using trim_end_split [of d re_space] by (auto simp: list_all_iff)
  have "m = takeWhile re_space m @ d"
    by (simp add: d_def)
  moreover have "list_all re_space (takeWhile re_space m)"
    by (auto simp: list_all_iff dest: set_takeWhileD)
  ultimately show "peer_id_regex p \<and> (\<exists>v w. s = ''<<NEXT:'' @ v @ p @ w @ ''>>'' \<and>
      list_all re_space v \<and> list_all re_space w)"
    using p w r m by (metis append.assoc)
next
  assume rhs: "peer_id_regex p \<and> (\<exists>v w. s = ''<<NEXT:'' @ v @ p @ w @ ''>>'' \<and>
      list_all re_space v \<and> list_all re_space w)"
  then obtain v w where s: "s = ''<<NEXT:'' @ v @ p @ w @ ''>>''"
    and sp: "list_all re_space v" "list_all re_space w"
    by blast
  then have "has_prefix s ''<<NEXT:'' \<and> has_suffix (drop 7 s) ''>>''"
    and "take (length s - 9) (drop 7 s) = v @ p @ w"
    by (auto simp: has_prefix_def has_suffix_def)
  with rhs sp show "next_trailer_regex s = Some p"
    by (simp add: next_trailer_regex_def trim_around_peer_id)
qed

text \<open>Blank lines after the last line of a reply are skipped.\<close>

lemma trim_right_snoc_horiz:
  "horiz c \<Longrightarrow> trim_right (l @ [c]) [sp, tab, cr] = trim_right l [sp, tab, cr]"
  by (auto simp: trim_right_def horiz_def)

lemma last_nonempty_line_snoc_ws:
  assumes "blank_char c"
  shows "last_nonempty_line (s @ [c]) = last_nonempty_line s"
proof (cases "c = nl")
  case True
  then show ?thesis
    by (simp add: last_nonempty_line_def trim_right_def split_char_snoc_sep)
next
  case False
  have "map f (lines_of s) = map f (butlast (lines_of s)) @ [f (last (lines_of s))]"
    for f :: "string \<Rightarrow> string"
    by (metis append_butlast_last_id list.simps(8,9) map_append split_char_nonempty)
  moreover have "horiz c"
    using assms False by (simp add: blank_char_def)
  ultimately have "map (\<lambda>l. trim_right l [sp, tab, cr]) (lines_of (s @ [c])) =
      map (\<lambda>l. trim_right l [sp, tab, cr]) (lines_of s)"
    using False by (simp add: split_char_snoc trim_right_snoc_horiz)
  then show ?thesis
    by (simp only: last_nonempty_line_def)
qed

lemma last_nonempty_line_blank: "list_all blank_char w \<Longrightarrow> last_nonempty_line (s @ w) = last_nonempty_line s"
proof (induction w rule: rev_induct)
  case (snoc c w)
  have "blank_char c" and w: "list_all blank_char w"
    using snoc.prems by simp_all
  then have "last_nonempty_line ((s @ w) @ [c]) = last_nonempty_line (s @ w)"
    by (intro last_nonempty_line_snoc_ws)
  with snoc.IH [OF w] show ?case by simp
qed simp

lemma last_nonempty_line_last:
  assumes "l \<noteq> []" "nl \<notin> set l" "\<not> horiz (last l)"
  shows "last_nonempty_line (body @ nl # l) = l"
proof -
  have "lines_of (body @ nl # l) = lines_of body @ [l]"
    using assms(2) by (simp add: split_char_append split_char_no_sep)
  moreover have "trim_right l [sp, tab, cr] = l"
    using assms(3) by (auto simp: trim_right_def horiz_def intro: trim_end_id)
  ultimately show ?thesis
    using assms(1) by (simp add: last_nonempty_line_def)
qed

lemma parse_trailer_line:
  assumes "peer_id_regex p" and "list_all horiz v"
    and "list_all horiz w" and "list_all blank_char tail"
  shows "parse_next_trailer (body @ nl # ''<<NEXT:'' @ v @ p @ w @ ''>>'' @ tail) = Some p"
proof -
  let ?l = "''<<NEXT:'' @ v @ p @ w @ ''>>''"
  have vw: "list_all re_space v" "list_all re_space w"
    using assms(2,3) by (auto simp: re_space_def horiz_def elim: list.pred_mono_strong)
  have "nl \<notin> set p"
    using peer_id_no_space [OF assms(1), of nl] by (auto simp: re_space_def)
  then have "nl \<notin> set ?l"
    using assms(2,3) all_horiz_no_nl [of v] all_horiz_no_nl [of w] by simp
  then have "last_nonempty_line (body @ nl # ?l) = ?l"
    by (intro last_nonempty_line_last) (simp_all add: horiz_def)
  then have "last_nonempty_line (body @ nl # ''<<NEXT:'' @ v @ p @ w @ ''>>'' @ tail) = ?l"
    using last_nonempty_line_blank [OF assms(4), of "body @ nl # ?l"] by simp
  moreover have "next_trailer_regex ?l = Some p"
    using assms(1) vw next_trailer_iff [of ?l p] by blast
  ultimately show ?thesis
    by (simp add: parse_next_trailer_def end_trailer_regex_def)
qed

text \<open>
  Round trip of the trailer: a reply whose last non-blank line is a \<open><<NEXT: p>>\<close> trailer
  addressed to a well-formed peer id, with any horizontal spacing around the id and any blank
  text after the line, is parsed to exactly that id.
\<close>

theorem trailer_roundtrip:
  assumes "peer_id_regex p" and "list_all horiz v"
    and "list_all horiz w" and "list_all blank_char tail"
  shows "parse_next_trailer (body @ nl # ''<<NEXT:'' @ v @ p @ w @ ''>>'' @ tail) = Some p"
  using assms by (rule parse_trailer_line)

theorem trailer_roundtrip_witness:
  "parse_next_trailer (''I disagree.'' @ nl # ''<<NEXT:'' @ '' '' @ ''bob'' @ [] @ ''>>'' @ [nl, nl])
     = Some ''bob''"
  by (rule trailer_roundtrip)
     (simp_all add: peer_id_regex_def is_lower_def is_id_char_def byte_def blank_char_def horiz_def)

section \<open>The addressed policy\<close>

text \<open>
  The contract of \<open>TurnPolicy.Next\<close>: with at least one peer it returns, and the peer it
  returns is a declared one.  The broker is verified against this interface.
\<close>

locale turn_policy =
  fixes next_speaker :: "peer_id \<Rightarrow> string \<Rightarrow> peer_id list \<Rightarrow> decision option"
  assumes next_returns: "peers \<noteq> [] \<Longrightarrow> next_speaker current reply peers \<noteq> None"
    and next_declared: "next_speaker current reply peers = Some d \<Longrightarrow> dec_next d \<in> set peers"
begin

lemma next_speaker_obtain:
  assumes "peers \<noteq> []"
  obtains d where "next_speaker current reply peers = Some d" and "dec_next d \<in> set peers"
  using next_returns [OF assms, of current reply] next_declared [of current reply peers]
  by (cases "next_speaker current reply peers") auto

end

lemma addressed_next_cases:
  assumes "addressed_next current reply peers = Some d"
  obtains (addressed) p where "parse_next_trailer reply = Some p" "p \<noteq> current" "p \<in> set peers"
      "d = \<lparr>dec_next = p, dec_parsed = Some p, dec_fallback_used = False\<rparr>"
  | (fallback) n where "round_robin_after current peers = Some n"
      "\<forall>p. parse_next_trailer reply = Some p \<longrightarrow> p = current \<or> p \<notin> set peers"
      "d = \<lparr>dec_next = n, dec_parsed = parse_next_trailer reply, dec_fallback_used = True\<rparr>"
  using assms by (auto simp: addressed_next_def Let_def split: option.splits if_splits)

interpretation addressed: turn_policy addressed_next
proof
  show "addressed_next current reply peers \<noteq> None" if "peers \<noteq> []" for current reply peers
    using that by (auto simp: addressed_next_def Let_def round_robin_returns split: option.splits)
  show "dec_next d \<in> set peers" if "addressed_next current reply peers = Some d"
    for current reply peers d
    using that by (cases rule: addressed_next_cases) (auto dest: round_robin_mem)
qed

lemma addressed_next_other:
  assumes "distinct peers" and "2 \<le> length peers"
  obtains d where "addressed_next current reply peers = Some d" and "dec_next d \<in> set peers"
    and "dec_next d \<noteq> current"
proof -
  from assms(2) have "peers \<noteq> []" by auto
  then obtain d where d: "addressed_next current reply peers = Some d" "dec_next d \<in> set peers"
    by (rule addressed.next_speaker_obtain)
  from d(1) have "dec_next d \<noteq> current"
    by (cases rule: addressed_next_cases) (auto dest: round_robin_other [OF assms])
  with d that show thesis by blast
qed

text \<open>
  C12. The policy meets the contract its interface documents: whatever the reply, it returns
  (no panic) when two distinct peers are declared, the chosen peer is declared, it is never
  the peer that just spoke, the parsed trailer is reported, and the decision reports a
  fallback exactly when the reply does not address another declared peer.
\<close>

theorem addressed_next_contract:
  assumes "distinct peers" and "2 \<le> length peers"
  shows "\<exists>d. addressed_next current reply peers = Some d \<and> dec_next d \<in> set peers \<and>
           dec_next d \<noteq> current \<and> dec_parsed d = parse_next_trailer reply \<and>
           (dec_fallback_used d \<longleftrightarrow>
              (\<forall>p \<in> set peers. parse_next_trailer reply = Some p \<longrightarrow> p = current)) \<and>
           (\<not> dec_fallback_used d \<longrightarrow> parse_next_trailer reply = Some (dec_next d))"
proof -
  obtain d where d: "addressed_next current reply peers = Some d" "dec_next d \<in> set peers"
    "dec_next d \<noteq> current"
    using addressed_next_other [OF assms] by blast
  from d(1) show ?thesis
    by (cases rule: addressed_next_cases) (use d in auto)
qed

theorem addressed_next_contract_witness:
  "\<exists>d. addressed_next ''alice'' ''ok'' [''alice'', ''bob''] = Some d \<and> dec_next d \<noteq> ''alice''"
  using addressed_next_contract [of "[''alice'', ''bob'']" "''alice''" "''ok''"] by auto

text \<open>
  With the two peers of the legacy surface the policy is strict alternation: whatever the
  reply says, its trailer included, the other peer speaks next.
\<close>

theorem two_peer_alternation:
  assumes "a \<noteq> b"
  shows "map_option dec_next (addressed_next a reply [a, b]) = Some b \<and>
    map_option dec_next (addressed_next b reply [a, b]) = Some a"
proof -
  have two: "distinct [a, b]" "2 \<le> length [a, b]"
    using assms by simp_all
  obtain d e where "addressed_next a reply [a, b] = Some d" "dec_next d \<in> {b}"
    and "addressed_next b reply [a, b] = Some e" "dec_next e \<in> {a}"
    using addressed_next_other [OF two, of a reply] addressed_next_other [OF two, of b reply]
    by (metis empty_iff insert_iff list.set(1,2))
  then show ?thesis by simp
qed

theorem two_peer_alternation_witness:
  "map_option dec_next (addressed_next ''a'' ''<<NEXT: a>>'' [''a'', ''b'']) = Some ''b''"
  using two_peer_alternation [of "''a''" "''b''" "''<<NEXT: a>>''"] by simp

end
