(* ===== verification/Envelope.thy ===== *)
theory Envelope
  imports Policy
begin

text \<open>
  What a peer is sent: the per-turn marker token (\<open>marker.go\<close>), the reply styles
  (\<open>style.go\<close>), the briefing (\<open>briefing.go\<close>) and the envelopes (\<open>envelope.go\<close>) of
  \<open>src/internal/conversation\<close>.  A raw string of the source is the join of its lines; the em
  dash and the arrow are their UTF-8 bytes.
\<close>

section \<open>Marker tokens\<close>

definition MarkerPrefix :: string where
  "MarkerPrefix = ''TURN_END_''"

definition marker_suffix_bytes :: nat where
  "marker_suffix_bytes = 6"

definition hex_digit :: "nat \<Rightarrow> char" where
  "hex_digit n = ''0123456789abcdef'' ! n"

definition hex_encode :: "string \<Rightarrow> string" where
  "hex_encode bs = concat (map (\<lambda>c. [hex_digit (byte c div 16), hex_digit (byte c mod 16)]) bs)"

text \<open>
  The random source gives the bytes or an error; \<open>None\<close> of the result is the panic.
\<close>

definition new_marker_token :: "string option \<Rightarrow> string option" where
  "new_marker_token random = (case random of
     None \<Rightarrow> None | Some buf \<Rightarrow> Some (MarkerPrefix @ hex_encode buf))"

definition contains_marker :: "string \<Rightarrow> string \<Rightarrow> bool" where
  "contains_marker body token = (if body = [] \<or> token = [] then False else str_contains body token)"

definition strip_marker_and_after :: "string \<Rightarrow> string \<Rightarrow> string \<times> bool" where
  "strip_marker_and_after body token =
     (if token = [] then (body, False)
      else case str_index body token of
        None \<Rightarrow> (body, False)
      | Some idx \<Rightarrow> (take idx body, True))"

section \<open>Reply styles\<close>

type_synonym reply_style = string

definition StyleNormal :: reply_style where
  [status_defs]: "StyleNormal = ''normal''"

definition StyleCavemanLite :: reply_style where
  [status_defs]: "StyleCavemanLite = ''caveman-lite''"

definition StyleCavemanFull :: reply_style where
  [status_defs]: "StyleCavemanFull = ''caveman-full''"

definition StyleCavemanUltra :: reply_style where
  [status_defs]: "StyleCavemanUltra = ''caveman-ultra''"

definition is_valid_style :: "string \<Rightarrow> bool" where
  "is_valid_style s \<longleftrightarrow>
     s \<in> set [StyleNormal, StyleCavemanLite, StyleCavemanFull, StyleCavemanUltra]"

definition em_dash :: string where
  "em_dash = [CHR 0xE2, CHR 0x80, CHR 0x94]"

definition arrow :: string where
  "arrow = [CHR 0xE2, CHR 0x86, CHR 0x92]"

definition style_instructions_caveman_shared :: string where
  \<open>style_instructions_caveman_shared = str_join [nl]
    ['''',
     '''',
     ''REPLY STYLE '' @ em_dash @ '' caveman mode (token-efficient, technical accuracy preserved):'',
     '''',
     ''Drop: filler words (just/really/basically/actually/simply), pleasantries'',
     ''(sure/certainly/of course/happy to), hedging (might/could/perhaps/I think).'',
     ''Keep: technical terms exact, code blocks unchanged, error messages quoted'',
     ''verbatim, security warnings full-length, irreversible-action confirmations'',
     ''full-length, multi-step sequences clear.'',
     '''',
     ''Pattern: "[thing] [action] [reason]. [next step]."'',
     '''',
     ''Bad:  "Sure! I'd be happy to help. The issue is most likely caused by..."'',
     ''Good: "Bug in auth middleware. Token expiry uses < not <=. Fix:"'',
     '''',
     ''Code/commits/PRs: write normal prose. Resume caveman after.'']\<close>

definition style_instructions_caveman_lite :: string where
  \<open>style_instructions_caveman_lite = style_instructions_caveman_shared @ str_join [nl]
    ['''',
     '''',
     ''Intensity: LITE. Drop fluff and hedging but keep articles (a/an/the) and'',
     ''full sentences. Professional but tight. No "I'd recommend" '' @ em_dash @ '' just say what'',
     ''to do.'',
     '''']\<close>

definition style_instructions_caveman_full :: string where
  \<open>style_instructions_caveman_full = style_instructions_caveman_shared @ str_join [nl]
    ['''',
     '''',
     ''Intensity: FULL. Drop articles, use sentence fragments, prefer short'',
     ''synonyms (big not extensive, fix not "implement a solution for"). Telegraphic'',
     ''style, but every technical claim still verifiable.'',
     '''']\<close>

definition style_instructions_caveman_ultra :: string where
  \<open>style_instructions_caveman_ultra = style_instructions_caveman_shared @ str_join [nl]
    ['''',
     '''',
     ''Intensity: ULTRA. Maximum compression. Abbreviate freely (DB, auth, config,'',
     ''req, res, fn, impl). Strip conjunctions. Use arrows for causality (X '' @ arrow @ '' Y).'',
     ''One word when one word does the job. Reserve full sentences only for'',
     ''warnings and irreversible actions.'',
     '''']\<close>

definition render_style_instructions :: "reply_style \<Rightarrow> string" where
  "render_style_instructions style =
     (if style = StyleCavemanLite then style_instructions_caveman_lite
      else if style = StyleCavemanFull then style_instructions_caveman_full
      else if style = StyleCavemanUltra then style_instructions_caveman_ultra
      else [])"

section \<open>Briefing\<close>

record briefing_input =
  bi_slot :: peer_slot
  bi_max_turns :: int
  bi_terminator :: terminator_spec
  bi_style :: reply_style

definition briefing_sentinel :: "terminator_spec \<Rightarrow> string" where
  "briefing_sentinel ts =
     (if term_kind ts = ''sentinel''
      then (let sentinel = (if term_sentinel ts = [] then ''<<END>>'' else term_sentinel ts) in
        ''When you believe the conversation has reached its goal or natural end, end your final''
        @ [nl] @ ''reply with the literal token '' @ sentinel
        @ '' on its own line BEFORE the turn-end marker.'' @ [nl, nl])
      else [])"

definition render_briefing :: "briefing_input \<Rightarrow> string" where
  "render_briefing inp =
     ''You are participating in a multi-turn conversation with another AI agent through Vitis.''
     @ [nl]
     @ ''The other agent's messages will be delivered to you as plain text wrapped in a header''
     @ [nl]
     @ ''line indicating the turn number and sender. You should reply as if speaking to a'' @ [nl]
     @ ''collaborator.'' @ [nl, nl]
     @ ''You are: peer-'' @ bi_slot inp @ ''.'' @ [nl]
     @ ''Maximum turns in this conversation: '' @ itoa (bi_max_turns inp) @ ''.'' @ [nl, nl]
     @ briefing_sentinel (bi_terminator inp)
     @ ''After every reply, you MUST output a per-turn marker token as instructed in the'' @ [nl]
     @ ''incoming message. This marker tells the broker your turn is complete. If you forget''
     @ [nl] @ ''the marker, your turn will time out.'' @ [nl]
     @ render_style_instructions (bi_style inp)"

section \<open>Envelopes\<close>

definition marker_instruction :: "string \<Rightarrow> string" where
  "marker_instruction marker =
     ''When you finish your reply, output the token '' @ marker @ '' on its own line.'' @ [nl]"

definition render_body ::
    "string \<Rightarrow> int \<Rightarrow> int \<Rightarrow> string \<Rightarrow> string \<Rightarrow> string \<Rightarrow> string" where
  "render_body cid turn_index max_turns from_label content marker =
     ''[conversation: '' @ cid @ ''  turn '' @ itoa turn_index @ '' of '' @ itoa max_turns
     @ ''  from: '' @ from_label @ '']'' @ [nl]
     @ content
     @ (if has_suffix content [nl] then [] else [nl])
     @ [nl]
     @ marker_instruction marker"

definition seed_for :: "conversation \<Rightarrow> peer_slot \<Rightarrow> string" where
  "seed_for conv slot = (if slot = PeerSlotA then conv_seed_a conv else conv_seed_b conv)"

definition build_envelope_turn1 :: "conversation \<Rightarrow> peer_slot \<Rightarrow> string \<Rightarrow> envelope" where
  "build_envelope_turn1 conv slot marker =
     (let briefing = render_briefing \<lparr>bi_slot = slot, bi_max_turns = conv_max_turns conv,
            bi_terminator = conv_terminator conv, bi_style = conv_reply_style conv\<rparr>;
          seed = seed_for conv slot;
          seed_body = render_body (conv_id conv) 1 (conv_max_turns conv) ''seed'' seed marker
      in \<lparr>env_conversation_id = conv_id conv, env_turn_index = 1,
          env_max_turns = conv_max_turns conv, env_from = ''seed'', env_from_id = [], env_to_id = [],
          env_body = briefing @ [nl, nl] @ seed_body, env_marker_token = marker,
          env_include_briefing = True, env_briefing = briefing\<rparr>)"

definition build_envelope_turn_n ::
    "conversation \<Rightarrow> int \<Rightarrow> peer_slot \<Rightarrow> string \<Rightarrow> string \<Rightarrow> envelope" where
  "build_envelope_turn_n conv turn_index from previous_response marker =
     \<lparr>env_conversation_id = conv_id conv, env_turn_index = turn_index,
      env_max_turns = conv_max_turns conv, env_from = from, env_from_id = [], env_to_id = [],
      env_body = render_body (conv_id conv) turn_index (conv_max_turns conv)
        (''peer-'' @ from) previous_response marker,
      env_marker_token = marker, env_include_briefing = False, env_briefing = []\<rparr>"

section \<open>Markers: shape and freshness\<close>

lemma hex_digit_inj: "m < 16 \<Longrightarrow> n < 16 \<Longrightarrow> hex_digit m = hex_digit n \<Longrightarrow> m = n"
proof -
  have "inj_on hex_digit (set [0..<16])"
    by code_simp
  then show "m < 16 \<Longrightarrow> n < 16 \<Longrightarrow> hex_digit m = hex_digit n \<Longrightarrow> m = n"
    by (auto dest: inj_onD)
qed

lemma byte_less: "byte c < 256"
  by (simp add: byte_def)

lemma byte_inj: "byte c = byte d \<Longrightarrow> c = d"
  by (simp add: byte_def)

lemma hex_encode_length: "length (hex_encode bs) = 2 * length bs"
  by (induction bs) (simp_all add: hex_encode_def)

lemma hex_encode_inj: "hex_encode as = hex_encode bs \<Longrightarrow> as = bs"
proof (induction "as" arbitrary: bs)
  case Nil
  then show ?case by (cases bs) (simp_all add: hex_encode_def)
next
  case (Cons a "as")
  then obtain b bs' where bs: "bs = b # bs'"
    by (cases bs) (simp_all add: hex_encode_def)
  have d: "byte c div 16 < 16" "byte c mod 16 < 16" for c
    using byte_less [of c] by simp_all
  have "byte a div 16 = byte b div 16" "byte a mod 16 = byte b mod 16"
    using Cons.prems d by (auto simp: hex_encode_def bs intro: hex_digit_inj)
  then have "a = b"
    by (metis byte_inj div_mult_mod_eq)
  with Cons bs show ?case by (simp add: hex_encode_def)
qed

definition is_hex :: "char \<Rightarrow> bool" where
  "is_hex c \<longleftrightarrow> c \<in> set ''0123456789abcdef''"

lemma hex_encode_hex: "list_all is_hex (hex_encode bs)"
proof -
  have "is_hex (hex_digit n)" if "n < 16" for n
    using that nth_mem [of n "''0123456789abcdef''"] by (simp add: is_hex_def hex_digit_def)
  moreover have "byte c div 16 < 16" "byte c mod 16 < 16" for c
    using byte_less [of c] by simp_all
  ultimately show ?thesis
    by (induction bs) (simp_all add: hex_encode_def)
qed

text \<open>
  A marker token is \<open>TURN_END_\<close> followed by twelve hexadecimal digits, and it determines
  the random bytes it was made from: two turns share a token only if the random source
  returned the same six bytes.
\<close>

theorem new_marker_token_unique:
  assumes "length buf = marker_suffix_bytes" and "new_marker_token (Some buf) = Some token"
  shows "(\<exists>h. token = ''TURN_END_'' @ h \<and> length h = 12 \<and> list_all is_hex h) \<and>
    (\<forall>buf'. new_marker_token (Some buf') = Some token \<longrightarrow> buf' = buf)"
  using assms hex_encode_hex [of buf] hex_encode_inj
  by (auto simp: new_marker_token_def MarkerPrefix_def hex_encode_length marker_suffix_bytes_def)

theorem new_marker_token_unique_witness:
  "\<exists>h. ''TURN_END_616263646566'' = ''TURN_END_'' @ h \<and> length h = 12 \<and> list_all is_hex h"
proof -
  have "length ''abcdef'' = marker_suffix_bytes"
    by (simp add: marker_suffix_bytes_def)
  moreover have "new_marker_token (Some ''abcdef'') = Some ''TURN_END_616263646566''"
    by code_simp
  ultimately show ?thesis
    using new_marker_token_unique by blast
qed

text \<open>
  \<open>StripMarkerAndAfter\<close> cuts at the first occurrence: it reports whether the body
  contains the token, what it returns no longer contains it, and when it cuts, the body is
  the result followed by the token and the dropped rest.
\<close>

theorem strip_marker_and_after_spec:
  assumes "token \<noteq> []"
  shows "snd (strip_marker_and_after body token) = contains_marker body token \<and>
    \<not> str_contains (fst (strip_marker_and_after body token)) token \<and>
    (snd (strip_marker_and_after body token) \<longrightarrow>
       (\<exists>rest. body = fst (strip_marker_and_after body token) @ token @ rest)) \<and>
    (\<not> snd (strip_marker_and_after body token) \<longrightarrow> fst (strip_marker_and_after body token) = body)"
proof (cases "str_index body token")
  case None
  then have "\<not> str_contains body token"
    by (simp add: str_contains_def)
  with None assms show ?thesis
    by (simp add: strip_marker_and_after_def contains_marker_def)
next
  case (Some idx)
  have idx: "idx \<le> length body" "has_prefix (drop idx body) token"
    and first: "\<And>i. i < idx \<Longrightarrow> \<not> has_prefix (drop i body) token"
    using Some by (auto simp: str_index_Some_iff)
  then obtain rest where rest: "body = take idx body @ token @ rest"
    by (metis append_take_drop_id has_prefix_iff prefix_def)
  have "\<not> has_prefix (drop i (take idx body)) token" if "i \<le> length (take idx body)" for i
  proof
    assume "has_prefix (drop i (take idx body)) token"
    then obtain r where r: "drop i (take idx body) = token @ r"
      by (auto simp: has_prefix_iff prefix_def)
    with assms have "i < idx"
      by (cases "i < idx") auto
    moreover have "drop i body = token @ r @ drop idx body"
    proof -
      have "drop i (take idx body @ drop idx body) = drop i (take idx body) @ drop idx body"
        using \<open>i < idx\<close> idx(1) by (subst drop_append) (simp add: min_def)
      with r show ?thesis by simp
    qed
    ultimately show False
      using first [of i] by simp
  qed
  then have "\<not> str_contains (take idx body) token"
    by (auto simp: str_contains_iff)
  moreover have "body \<noteq> []" using rest assms by force
  moreover have "str_contains body token" using Some by (simp add: str_contains_def)
  ultimately show ?thesis
    using assms Some rest by (simp add: strip_marker_and_after_def contains_marker_def) blast
qed

theorem strip_marker_and_after_spec_witness:
  "\<not> str_contains (fst (strip_marker_and_after ''hi TURN_END_1 x'' ''TURN_END_1'')) ''TURN_END_1''"
  using strip_marker_and_after_spec [of "''TURN_END_1''" "''hi TURN_END_1 x''"] by blast

end
