(* ===== verification/Persistent.thy ===== *)
theory Persistent
  imports Envelope
begin

text \<open>
  The turn-driven wrapper around a long-lived PTY process,
  \<open>src/internal/peer/provider/persistent.go\<close>: the search for the marker token on a line of
  its own, the removal of the echoed envelope, and \<open>PersistentProcess\<close>.

  The wrapper's goroutines share the buffer under a mutex and wake each other through a
  condition variable.  \<open>ConverseTurn\<close> is therefore a loop over wake-ups: each wake-up comes
  with the list of things that happened since the last one (output chunks appended by the
  pump, the end of the process, cancellation of the context, the deadline).  A result \<open>None\<close>
  of the loop means that it is still waiting when the listed wake-ups are used up.
\<close>

section \<open>Finding the marker\<close>

definition max_buffer_bytes :: nat where
  "max_buffer_bytes = 67108864"

definition is_horizontal_whitespace :: "string \<Rightarrow> bool" where
  "is_horizontal_whitespace b = list_all horiz b"

text \<open>The part of the line before position \<open>i\<close>, and the part from position \<open>i\<close> on.\<close>

definition line_before :: "string \<Rightarrow> nat \<Rightarrow> string" where
  "line_before buf i = rev (takeWhile (\<lambda>c. c \<noteq> nl) (rev (take i buf)))"

definition line_after :: "string \<Rightarrow> nat \<Rightarrow> string" where
  "line_after buf i = takeWhile (\<lambda>c. c \<noteq> nl) (drop i buf)"

function find_marker_from :: "string \<Rightarrow> string \<Rightarrow> nat \<Rightarrow> nat option" where
  "find_marker_from buf marker offset =
     (if marker = [] then None
      else case str_index (drop offset buf) marker of
        None \<Rightarrow> None
      | Some rel \<Rightarrow>
          (let abs_idx = offset + rel in
           if is_horizontal_whitespace (line_before buf abs_idx) \<and>
              is_horizontal_whitespace (line_after buf (abs_idx + length marker))
           then Some abs_idx
           else find_marker_from buf marker (abs_idx + length marker)))"
  by pat_completeness auto
termination
proof (relation "measure (\<lambda>(buf, marker, offset). length buf - offset)", goal_cases)
  case (2 buf marker offset rel abs_idx)
  then show ?case
    using str_index_Some_bound [OF 2(2)] by (cases marker) auto
qed simp

declare find_marker_from.simps [simp del]

definition find_line_anchored_marker :: "string \<Rightarrow> string \<Rightarrow> nat option" where
  "find_line_anchored_marker buf marker = find_marker_from buf marker 0"

section \<open>Stripping the echo\<close>

definition bytes_index :: "string \<Rightarrow> string \<Rightarrow> nat option" where
  "bytes_index haystack needle =
     (if needle = [] \<or> length haystack < length needle then None else str_index haystack needle)"

definition trim_blanks :: "string \<Rightarrow> string" where
  "trim_blanks s = trim_end blank_char (dropWhile blank_char s)"

definition strip_envelope_echo :: "string \<Rightarrow> string \<Rightarrow> string" where
  "strip_envelope_echo captured marker =
     (if captured = [] then captured
      else let needle = ''output the token '' @ marker in
        case bytes_index captured needle of
          None \<Rightarrow> captured
        | Some echo_start \<Rightarrow>
            (let echo_line_end = echo_start + length needle;
                 after_line = dropWhile (\<lambda>c. c \<noteq> nl) (drop echo_line_end captured);
                 tail = (case after_line of [] \<Rightarrow> [] | _ # rest \<Rightarrow> rest)
             in trim_blanks tail))"

section \<open>The persistent process\<close>

record persistent_process =
  pp_buffer :: string
  pp_cursor :: nat
  pp_exited :: bool
  pp_exit_code :: int
  pp_closed :: bool

definition new_persistent_process :: persistent_process where
  "new_persistent_process =
     \<lparr>pp_buffer = [], pp_cursor = 0, pp_exited = False, pp_exit_code = 0, pp_closed = False\<rparr>"

text \<open>
  One round of the pump: a chunk of output, the output channel closed, or the exit result
  (\<open>None\<close> when the done channel was closed without one).
\<close>

datatype pump_event = PumpChunk string | PumpOutClosed | PumpDone "int option"

definition pump_step :: "pump_event \<Rightarrow> persistent_process \<Rightarrow> persistent_process" where
  "pump_step ev p =
     (if pp_exited p then p
      else case ev of
        PumpChunk bytes \<Rightarrow> p\<lparr>pp_buffer := pp_buffer p @ bytes\<rparr>
      | PumpOutClosed \<Rightarrow> p\<lparr>pp_exited := True\<rparr>
      | PumpDone None \<Rightarrow> p\<lparr>pp_exited := True\<rparr>
      | PumpDone (Some code) \<Rightarrow> p\<lparr>pp_exited := True, pp_exit_code := code\<rparr>)"

text \<open>\<open>time.Duration.String\<close>, as the timeout message prints it.\<close>

definition pad_zeros :: "nat \<Rightarrow> string \<Rightarrow> string" where
  "pad_zeros n s = replicate (n - length s) (CHR ''0'') @ s"

definition duration_frac :: "nat \<Rightarrow> nat \<Rightarrow> string" where
  "duration_frac prec v =
     (let ds = trim_end (\<lambda>c. c = CHR ''0'') (pad_zeros prec (nat_to_str (v mod 10 ^ prec)))
      in if ds = [] then [] else ''.'' @ ds)"

definition duration_abs_string :: "nat \<Rightarrow> string" where
  "duration_abs_string u =
     (if u = 0 then ''0s''
      else if u < 1000 then nat_to_str u @ ''ns''
      else if u < 1000000 then nat_to_str (u div 10 ^ 3) @ duration_frac 3 u @ [CHR 0xC2, CHR 0xB5] @ ''s''
      else if u < 1000000000 then nat_to_str (u div 10 ^ 6) @ duration_frac 6 u @ ''ms''
      else let secs = u div 10 ^ 9; mins = secs div 60; hours = mins div 60 in
        (if hours > 0 then nat_to_str hours @ ''h'' else [])
        @ (if mins > 0 then nat_to_str (mins mod 60) @ ''m'' else [])
        @ nat_to_str (secs mod 60) @ duration_frac 9 u @ ''s'')"

definition duration_string :: "duration \<Rightarrow> string" where
  "duration_string d =
     (if d < 0 then ''-'' @ duration_abs_string (nat (- d)) else duration_abs_string (nat d))"

text \<open>
  One look at the shared state, with the mutex held: the loop body of \<open>ConverseTurn\<close>.
  \<open>None\<close> is \<open>cond.Wait\<close>.
\<close>

definition converse_check ::
    "string \<Rightarrow> duration \<Rightarrow> go_error option \<Rightarrow> bool \<Rightarrow> persistent_process
      \<Rightarrow> string result option \<times> persistent_process" where
  "converse_check marker timeout ctx_err past_deadline p =
     (let tail = drop (pp_cursor p) (pp_buffer p);
          pending = pp_cursor p < length (pp_buffer p) in
      case (if pending then find_line_anchored_marker tail marker else None) of
        Some idx \<Rightarrow> (Some (Inr (strip_envelope_echo (take idx tail) marker)),
          p\<lparr>pp_buffer := [], pp_cursor := 0\<rparr>)
      | None \<Rightarrow>
         (if pending \<and> length tail > max_buffer_bytes
          then (Some (Inl (ErrMsg (''persistent process: buffer overflow ('' @ itoa (int (length tail))
                 @ '' bytes) waiting for marker''))), p)
          else if pp_exited p
          then (Some (Inl (ErrMsg (''process exited (code='' @ itoa (pp_exit_code p)
                 @ '') before marker observed''))), p)
          else case ctx_err of
            Some e \<Rightarrow> (Some (Inl e), p)
          | None \<Rightarrow>
             (if past_deadline
              then (Some (Inl (ErrMsg (''turn timeout after '' @ duration_string timeout
                     @ '' waiting for marker '' @ marker))), p)
              else (None, p))))"

datatype wake_event = WakePump pump_event | WakeCtx go_error | WakeDeadline

definition wake_step ::
    "wake_event \<Rightarrow> go_error option \<times> bool \<times> persistent_process
      \<Rightarrow> go_error option \<times> bool \<times> persistent_process" where
  "wake_step w st = (case st of (ctx_err, late, p) \<Rightarrow>
     (case w of
        WakePump ev \<Rightarrow> (ctx_err, late, pump_step ev p)
      | WakeCtx e \<Rightarrow> (case ctx_err of None \<Rightarrow> (Some e, late, p) | Some _ \<Rightarrow> st)
      | WakeDeadline \<Rightarrow> (ctx_err, True, p)))"

fun converse_wait ::
    "string \<Rightarrow> duration \<Rightarrow> wake_event list list \<Rightarrow> go_error option \<times> bool \<times> persistent_process
      \<Rightarrow> string result option \<times> persistent_process" where
  "converse_wait marker timeout wakes (ctx_err, late, p) =
     (case converse_check marker timeout ctx_err late p of
        (Some r, p') \<Rightarrow> (Some r, p')
      | (None, p') \<Rightarrow>
         (case wakes of
            [] \<Rightarrow> (None, p')
          | ws # rest \<Rightarrow> converse_wait marker timeout rest (fold wake_step ws (ctx_err, late, p'))))"

declare converse_wait.simps [simp del]

text \<open>
  \<open>write\<close> is the write to the terminal and its error; a timeout that is not positive puts the
  deadline in the past from the start.
\<close>

definition converse_turn ::
    "(string \<Rightarrow> go_error option) \<Rightarrow> string \<Rightarrow> string \<Rightarrow> duration \<Rightarrow> wake_event list list
      \<Rightarrow> go_error option \<Rightarrow> persistent_process \<Rightarrow> string result option \<times> persistent_process" where
  "converse_turn write envelope_bytes marker timeout wakes ctx_err p =
     (if marker = [] then (Some (Inl (ErrMsg ''persistent process: empty marker token'')), p)
      else case write envelope_bytes of
        Some e \<Rightarrow> (Some (Inl (ErrWrap ''write envelope: '' e)), p)
      | None \<Rightarrow> converse_wait marker timeout wakes (ctx_err, timeout \<le> 0, p))"

text \<open>\<open>Close\<close> returns the argument of the call to \<open>Terminate\<close>, in milliseconds, if it makes one.\<close>

definition persistent_close :: "duration \<Rightarrow> persistent_process \<Rightarrow> int option \<times> persistent_process" where
  "persistent_close grace p =
     (if pp_closed p then (None, p)
      else (Some ((if grace \<le> 0 then 1000000000 else grace) div 1000000), p\<lparr>pp_closed := True\<rparr>))"

definition drain_available :: "persistent_process \<Rightarrow> string \<times> persistent_process" where
  "drain_available p =
     (if length (pp_buffer p) \<le> pp_cursor p then ([], p)
      else (drop (pp_cursor p) (pp_buffer p), p\<lparr>pp_cursor := length (pp_buffer p)\<rparr>))"

section \<open>The search finds the first anchored occurrence\<close>

text \<open>What the search is for.\<close>

definition anchored :: "string \<Rightarrow> string \<Rightarrow> nat \<Rightarrow> bool" where
  "anchored buf marker i \<longleftrightarrow> i \<le> length buf \<and> has_prefix (drop i buf) marker \<and>
     list_all horiz (line_before buf i) \<and> list_all horiz (line_after buf (i + length marker))"

definition solid :: "string \<Rightarrow> bool" where
  "solid marker \<longleftrightarrow> marker \<noteq> [] \<and> list_all (\<lambda>c. \<not> blank_char c) marker"

lemma solid_not_horiz: "solid m \<Longrightarrow> c \<in> set m \<Longrightarrow> \<not> horiz c \<and> c \<noteq> nl"
  by (auto simp: solid_def list_all_iff blank_char_def)

text \<open>
  Inside an occurrence of a marker without blanks no other occurrence is anchored, so
  continuing the search behind a rejected occurrence misses nothing.
\<close>

lemma line_before_inside:
  assumes "has_prefix (drop i buf) m" and "solid m" and "i < j" and "j \<le> i + length m"
  shows "\<not> list_all horiz (line_before buf j)"
proof -
  obtain rest where rest: "drop i buf = m @ rest"
    using assms(1) by (auto simp: has_prefix_iff prefix_def)
  have "length m \<noteq> 0" using assms(2) by (simp add: solid_def)
  with arg_cong [OF rest, of length] have len: "i + length m \<le> length buf"
    unfolding length_drop length_append by linarith
  have k: "j - 1 - i < length m" "i + (j - 1 - i) = j - 1" "j - 1 < length buf" "Suc (j - 1) = j"
    using assms(3,4) len by linarith+
  have "drop i buf ! (j - 1 - i) = m ! (j - 1 - i)"
    using rest k(1) by (simp add: nth_append)
  then have "buf ! (j - 1) \<in> set m"
    using k len by (metis add_leD1 nth_drop nth_mem)
  then have c: "\<not> horiz (buf ! (j - 1))" "buf ! (j - 1) \<noteq> nl"
    using solid_not_horiz [OF assms(2)] by auto
  have "take j buf = take (j - 1) buf @ [buf ! (j - 1)]"
    using take_Suc_conv_app_nth [OF k(3)] k(4) by simp
  with c show ?thesis by (simp add: line_before_def)
qed


lemma find_marker_from_step:
  assumes "find_marker_from buf m offset = Some i"
  obtains rel where "m \<noteq> []" "str_index (drop offset buf) m = Some rel"
    "i = offset + rel" "anchored buf m i"
  | rel where "m \<noteq> []" "str_index (drop offset buf) m = Some rel"
    "\<not> (is_horizontal_whitespace (line_before buf (offset + rel)) \<and>
       is_horizontal_whitespace (line_after buf (offset + rel + length m)))"
    "find_marker_from buf m (offset + rel + length m) = Some i"
proof -
  have m: "m \<noteq> []"
    using assms find_marker_from.simps [of buf m offset] by auto
  with assms find_marker_from.simps [of buf m offset] obtain rel
    where rel: "str_index (drop offset buf) m = Some rel"
    by (cases "str_index (drop offset buf) m") auto
  have "offset + rel \<le> length buf" "has_prefix (drop (offset + rel) buf) m"
    using str_index_Some_bound [OF rel] rel m
    by (auto simp: str_index_Some_iff add.commute) (cases m; auto)+
  with m rel assms find_marker_from.simps [of buf m offset] that show thesis
    by (auto simp: anchored_def is_horizontal_whitespace_def Let_def split: if_splits)
qed

lemma find_marker_from_Some:
  "find_marker_from buf m offset = Some i \<Longrightarrow> offset \<le> i \<and> anchored buf m i"
proof (induction buf m offset rule: find_marker_from.induct)
  case (1 buf m offset)
  from "1.prems" show ?case
  proof (cases rule: find_marker_from_step)
    case (2 rel)
    with "1.IH" [OF 2(1,2) refl 2(3,4)] show ?thesis by simp
  qed simp
qed

lemma find_marker_from_least:
  "solid m \<Longrightarrow> offset \<le> i \<Longrightarrow> anchored buf m i \<Longrightarrow>
    \<exists>k. find_marker_from buf m offset = Some k \<and> k \<le> i"
proof (induction buf m offset rule: find_marker_from.induct)
  case (1 buf m offset)
  note assms = "1.prems"(1)
  have m: "m \<noteq> []" and pre: "has_prefix (drop i buf) m" and i: "i \<le> length buf"
    using "1.prems" assms by (auto simp: anchored_def solid_def)
  then have "has_prefix (drop (i - offset) (drop offset buf)) m"
    using "1.prems"(2) by simp
  then obtain rel where rel: "str_index (drop offset buf) m = Some rel"
    using str_index_None_iff [of "drop offset buf" m] "1.prems"(2) i
    by (cases "str_index (drop offset buf) m") (auto dest!: spec [of _ "i - offset"])
  have "rel \<le> i - offset"
    using rel \<open>has_prefix (drop (i - offset) (drop offset buf)) m\<close>
    by (meson linorder_not_less str_index_Some_iff)
  then have le: "offset + rel \<le> i" using "1.prems"(2) by simp
  have occ: "has_prefix (drop (offset + rel) buf) m"
    using rel by (auto simp: str_index_Some_iff add.commute)
  let ?ok = "is_horizontal_whitespace (line_before buf (offset + rel)) \<and>
    is_horizontal_whitespace (line_after buf (offset + rel + length m))"
  show ?case
  proof (cases ?ok)
    case True
    with m rel le show ?thesis by (subst find_marker_from.simps) (simp add: Let_def)
  next
    case False
    have "offset + rel \<noteq> i"
      using False "1.prems"(3) by (auto simp: anchored_def is_horizontal_whitespace_def)
    moreover have "\<not> (offset + rel < i \<and> i < offset + rel + length m)"
      using line_before_inside [OF occ assms, of i] "1.prems"(3) by (auto simp: anchored_def)
    ultimately have "offset + rel + length m \<le> i"
      using le by linarith
    from "1.IH" [OF m rel refl False assms this "1.prems"(3)]
    show ?thesis
      using m rel False le find_marker_from.simps [of buf m offset] by (simp add: Let_def)
  qed
qed

lemma find_line_anchored_marker_Some_iff:
  assumes "solid m"
  shows "find_line_anchored_marker buf m = Some i \<longleftrightarrow>
    anchored buf m i \<and> (\<forall>j < i. \<not> anchored buf m j)"
proof
  assume found: "find_line_anchored_marker buf m = Some i"
  then have "anchored buf m i"
    using find_marker_from_Some by (simp add: find_line_anchored_marker_def)
  moreover have "\<not> anchored buf m j" if "j < i" for j
  proof
    assume "anchored buf m j"
    from find_marker_from_least [OF assms _ this, of 0] found that show False
      by (auto simp: find_line_anchored_marker_def)
  qed
  ultimately show "anchored buf m i \<and> (\<forall>j < i. \<not> anchored buf m j)" by blast
next
  assume least: "anchored buf m i \<and> (\<forall>j < i. \<not> anchored buf m j)"
  then obtain k where k: "find_marker_from buf m 0 = Some k" "k \<le> i"
    using find_marker_from_least [OF assms, of 0 i] by auto
  then show "find_line_anchored_marker buf m = Some i"
    using least find_marker_from_Some [OF k(1)] le_neq_implies_less [of k i]
    by (cases "k = i") (auto simp: find_line_anchored_marker_def)
qed

lemma find_line_anchored_marker_None_iff:
  assumes "solid m"
  shows "find_line_anchored_marker buf m = None \<longleftrightarrow> (\<forall>i. \<not> anchored buf m i)"
  using find_marker_from_least [OF assms le0] find_marker_from_Some [of buf m 0]
  by (cases "find_marker_from buf m 0") (fastforce simp: find_line_anchored_marker_def)+

section \<open>Where a marker can occur\<close>

lemma prefix_before_sep: "prefix m (u @ c # v) \<Longrightarrow> c \<notin> set m \<Longrightarrow> prefix m u"
  by (auto simp: prefix_append prefix_Cons)

lemma occurrence_sep:
  assumes "has_prefix (drop j (x @ c # y)) m" and "c \<notin> set m" and "m \<noteq> []"
  shows "(j + length m \<le> length x \<and> has_prefix (drop j x) m) \<or>
    (length x < j \<and> has_prefix (drop (j - Suc (length x)) y) m)"
proof (cases "j \<le> length x")
  case True
  then have "prefix m (drop j x @ c # y)"
    using assms(1) by (simp add: has_prefix_iff)
  then have p: "prefix m (drop j x)" by (rule prefix_before_sep [OF _ assms(2)])
  moreover from p have "length m \<le> length x - j" using prefix_length_le by fastforce
  ultimately show ?thesis using True assms(3) by (auto simp: has_prefix_iff)
next
  case False
  then have "drop j (x @ c # y) = drop (j - Suc (length x)) y"
    by (metis Suc_diff_Suc drop_Suc_Cons drop_append drop_all append_Nil linorder_not_le
        less_imp_le_nat)
  with assms(1) False show ?thesis by simp
qed

lemma contains_sep:
  "c \<notin> set m \<Longrightarrow> m \<noteq> [] \<Longrightarrow> str_contains (x @ c # y) m \<longleftrightarrow> str_contains x m \<or> str_contains y m"
proof
  assume c: "c \<notin> set m" "m \<noteq> []" and "str_contains (x @ c # y) m"
  then obtain j where "has_prefix (drop j (x @ c # y)) m" by (auto simp: str_contains_iff)
  from occurrence_sep [OF this c] show "str_contains x m \<or> str_contains y m"
    by (metis drop_eq_Nil has_prefix_iff linorder_le_cases prefix_Nil str_contains_iff c(2))
next
  assume "str_contains x m \<or> str_contains y m"
  then show "str_contains (x @ c # y) m"
    by (metis append.assoc append_Cons sublist_append str_contains_sublist sublist_Cons_right)
qed

lemma contains_hd:
  "str_contains (x @ y) (h # m) \<Longrightarrow> h \<notin> set x \<Longrightarrow> str_contains y (h # m)"
  by (induction x) (auto simp: str_contains_sublist sublist_Cons_right)

text \<open>The output post-processing of a terminal: a line feed becomes carriage return, line feed.\<close>

fun onlcr :: "string \<Rightarrow> string" where
  "onlcr [] = []"
| "onlcr (c # s) = (if c = nl then cr # nl # onlcr s else c # onlcr s)"

lemma onlcr_append: "onlcr (s @ t) = onlcr s @ onlcr t"
  by (induction s) auto

lemma onlcr_no_nl: "nl \<notin> set s \<Longrightarrow> onlcr s = s"
  by (induction s) auto

lemma prefix_onlcr: "prefix m (onlcr s) \<Longrightarrow> nl \<notin> set m \<Longrightarrow> cr \<notin> set m \<Longrightarrow> prefix m s"
proof (induction m arbitrary: s)
  case (Cons x m)
  then show ?case by (cases s) (auto split: if_splits)
qed simp

lemma contains_onlcr:
  "nl \<notin> set m \<Longrightarrow> cr \<notin> set m \<Longrightarrow> m \<noteq> [] \<Longrightarrow> str_contains (onlcr s) m \<Longrightarrow> str_contains s m"
proof (induction s)
  case (Cons c s)
  then show ?case
    by (auto simp: str_contains_sublist sublist_Cons_right prefix_Cons dest: prefix_onlcr
        split: if_splits)
qed (simp add: str_contains_sublist)

section \<open>A turn is read whole, however the output is chunked\<close>

lemma take_take_prefix: "j \<le> n \<Longrightarrow> take j (take n s) = take j s"
  by simp

lemma prefix_of_take:
  assumes "has_prefix (drop j (take n s)) m" and "m \<noteq> []"
  shows "has_prefix (drop j s) m" and "j + length m \<le> n"
proof -
  have p: "prefix m (drop j (take n s))" using assms(1) by (simp add: has_prefix_iff)
  then show "has_prefix (drop j s) m"
    using prefix_order.trans [OF _ take_is_prefix [of "n - j" "drop j s"], of m]
    by (simp add: has_prefix_iff drop_take)
  have "length m \<le> min (length s) n - j" using prefix_length_le [OF p] by simp
  moreover have "0 < length m" using assms(2) by simp
  ultimately show "j + length m \<le> n" by linarith
qed

text \<open>
  A stream in which the marker's first anchored occurrence is at \<open>length a\<close>, every earlier
  occurrence being preceded by text on its line.
\<close>

definition marker_stream :: "string \<Rightarrow> string \<Rightarrow> string \<Rightarrow> bool" where
  "marker_stream m a rest \<longleftrightarrow> solid m \<and>
     (\<forall>j < length a. has_prefix (drop j (a @ m @ rest)) m \<longrightarrow>
        \<not> list_all horiz (line_before (a @ m @ rest) j)) \<and>
     list_all horiz (line_before (a @ m @ rest) (length a)) \<and>
     list_all horiz (takeWhile (\<lambda>c. c \<noteq> nl) rest)"

lemma takeWhile_take_subset: "set (takeWhile P (take n xs)) \<subseteq> set (takeWhile P xs)"
  by (induction xs arbitrary: n) (auto simp: take_Cons' split: if_splits)

lemma find_in_stream_prefix:
  assumes ms: "marker_stream m a rest"
  shows "find_line_anchored_marker (take n (a @ m @ rest)) m =
    (if length a + length m \<le> n then Some (length a) else None)"
proof -
  let ?s = "a @ m @ rest"
  have m: "solid m" "m \<noteq> []" using ms by (auto simp: marker_stream_def solid_def)
  have before: "\<not> anchored (take n ?s) m j" if "j < length a" for j
  proof
    assume anc: "anchored (take n ?s) m j"
    then have "has_prefix (drop j ?s) m" "j + length m \<le> n"
      using prefix_of_take [of j n ?s m] m(2) unfolding anchored_def by blast+
    with anc that ms show False
      by (auto simp: anchored_def marker_stream_def line_before_def)
  qed
  have at: "anchored (take n ?s) m (length a) \<longleftrightarrow> length a + length m \<le> n"
  proof
    assume "anchored (take n ?s) m (length a)"
    then show "length a + length m \<le> n"
      using prefix_of_take(2) [of "length a" n ?s m] m(2) by (simp add: anchored_def)
  next
    assume n: "length a + length m \<le> n"
    have r: "take n ?s = a @ m @ take (n - length a - length m) rest"
      using n by simp
    have "line_before (take n ?s) (length a) = line_before ?s (length a)"
      using n by (simp add: line_before_def)
    then have lb: "list_all horiz (line_before (take n ?s) (length a))"
      using ms by (simp add: marker_stream_def)
    have "line_after (take n ?s) (length a + length m) =
        takeWhile (\<lambda>c. c \<noteq> nl) (take (n - length a - length m) rest)"
      unfolding r by (simp add: line_after_def)
    moreover have "list_all horiz (takeWhile (\<lambda>c. c \<noteq> nl) rest)"
      using ms by (simp add: marker_stream_def)
    ultimately have la: "list_all horiz (line_after (take n ?s) (length a + length m))"
      using takeWhile_take_subset [of _ "n - length a - length m" rest]
      by (simp add: list_all_iff subset_iff)
    show "anchored (take n ?s) m (length a)"
      using lb la unfolding anchored_def r by simp
  qed
  show ?thesis
  proof (cases "length a + length m \<le> n")
    case True
    then show ?thesis
      using at before find_line_anchored_marker_Some_iff [OF m(1)] by simp
  next
    case False
    have "\<not> anchored (take n ?s) m j" for j
    proof (cases "j < length a")
      case notless: False
      have "\<not> has_prefix (drop j (take n ?s)) m"
        using prefix_of_take(2) [of j n ?s m] m(2) False notless by fastforce
      then show ?thesis by (simp add: anchored_def)
    qed (rule before)
    with False show ?thesis
      using find_line_anchored_marker_None_iff [OF m(1)] by simp
  qed
qed

lemma converse_check_found:
  assumes "find_line_anchored_marker (pp_buffer p) m = Some idx" and "pp_cursor p = 0"
    and "pp_buffer p \<noteq> []"
  shows "converse_check m timeout ctx_err late p =
    (Some (Inr (strip_envelope_echo (take idx (pp_buffer p)) m)), p\<lparr>pp_buffer := [], pp_cursor := 0\<rparr>)"
  using assms by (simp add: converse_check_def)

lemma converse_check_waiting:
  assumes "pp_buffer p = [] \<or> find_line_anchored_marker (pp_buffer p) m = None"
    and "pp_cursor p = 0" and "length (pp_buffer p) \<le> max_buffer_bytes" and "\<not> pp_exited p"
  shows "converse_check m timeout None False p = (None, p)"
  using assms by (auto simp: converse_check_def Let_def)

lemma pump_chunks:
  "\<not> pp_exited p \<Longrightarrow>
     fold wake_step (map (\<lambda>c. WakePump (PumpChunk c)) cs) (ctx_err, late, p) =
       (ctx_err, late, p\<lparr>pp_buffer := pp_buffer p @ concat cs\<rparr>)"
  by (induction cs arbitrary: p) (simp_all add: wake_step_def pump_step_def)

text \<open>Whatever the chunks and however they are grouped, the turn ends at the same marker.\<close>

lemma converse_wait_stream:
  assumes ms: "marker_stream m a rest"
    and "pp_cursor p = 0" and "\<not> pp_exited p"
    and "pp_buffer p @ concat (concat groups) = a @ m @ rest"
    and "length (a @ m @ rest) \<le> max_buffer_bytes"
  shows "converse_wait m timeout (map (map (\<lambda>c. WakePump (PumpChunk c))) groups) (None, False, p) =
    (Some (Inr (strip_envelope_echo a m)), p\<lparr>pp_buffer := [], pp_cursor := 0\<rparr>)"
  using assms(2-4)
proof (induction groups arbitrary: p)
  case Nil
  have "find_line_anchored_marker (pp_buffer p) m = Some (length a)" "pp_buffer p \<noteq> []"
    using find_in_stream_prefix [OF ms, of "length (a @ m @ rest)"] Nil ms
    by (auto simp: marker_stream_def solid_def)
  from converse_check_found [OF this(1) Nil.prems(1) this(2)] Nil.prems(3)
  show ?case by (simp add: converse_wait.simps)
next
  case (Cons g groups)
  let ?n = "length (pp_buffer p)"
  have buf: "pp_buffer p = take ?n (a @ m @ rest)"
    using arg_cong [OF Cons.prems(3), of "take ?n"] by simp
  have len: "?n \<le> max_buffer_bytes"
    using arg_cong [OF Cons.prems(3), of length] assms(5) by simp
  show ?case
  proof (cases "length a + length m \<le> ?n")
    case True
    then have "find_line_anchored_marker (pp_buffer p) m = Some (length a)" "pp_buffer p \<noteq> []"
      using find_in_stream_prefix [OF ms, of ?n] ms buf
      by (auto simp: marker_stream_def solid_def simp del: take_append)
    from converse_check_found [OF this(1) Cons.prems(1) this(2)]
    have "converse_check m timeout None False p =
        (Some (Inr (strip_envelope_echo (take (length a) (pp_buffer p)) m)),
         p\<lparr>pp_buffer := [], pp_cursor := 0\<rparr>)" by simp
    moreover have "take (length a) (pp_buffer p) = a"
      using True arg_cong [OF buf, of "take (length a)"] by simp
    ultimately show ?thesis by (simp add: converse_wait.simps)
  next
    case False
    then have "find_line_anchored_marker (pp_buffer p) m = None"
      using find_in_stream_prefix [OF ms, of ?n] buf by (simp del: take_append)
    then have "converse_check m timeout None False p = (None, p)"
      using converse_check_waiting Cons.prems len by blast
    then show ?thesis
      using Cons.IH [of "p\<lparr>pp_buffer := pp_buffer p @ concat g\<rparr>"] Cons.prems
        pump_chunks [OF Cons.prems(2), of g None False]
      by (subst converse_wait.simps) simp
  qed
qed

section \<open>The echoed envelope\<close>

lemma trim_blanks_snoc:
  assumes "blank_char c"
  shows "trim_blanks (s @ [c]) = trim_blanks s"
proof (cases "\<forall>x \<in> set s. blank_char x")
  case True
  then have "dropWhile blank_char s = []" by simp
  then show ?thesis using True assms by (simp only: trim_blanks_def dropWhile_append) simp
next
  case False
  with assms show ?thesis by (auto simp: trim_blanks_def dropWhile_append)
qed

lemma take_length_append: "n = length x \<Longrightarrow> take n (x @ y) = x"
  by simp

lemma drop_length_append: "n = length x \<Longrightarrow> drop n (x @ y) = y"
  by simp

lemma blank_nl [simp]: "blank_char nl" "blank_char cr" "blank_char sp" "blank_char tab"
  by (simp_all add: blank_char_def horiz_def)

text \<open>
  A captured turn whose echo ends with the instruction line: the first occurrence of the
  instruction is the echoed one, so exactly what follows that line remains, trimmed.
\<close>

lemma strip_echo:
  assumes m: "solid m" and a: "\<not> str_contains (a @ ''output the token'') m"
    and line: "nl \<notin> set line"
  shows "strip_envelope_echo (a @ ''output the token '' @ m @ line @ nl # reply) m = trim_blanks reply"
proof -
  let ?needle = "''output the token '' @ m"
  let ?s = "a @ ?needle @ line @ nl # reply"
  have mnb: "sp \<notin> set m" "m \<noteq> []" using m solid_not_horiz [OF m, of sp] by (auto simp: solid_def horiz_def)
  have "str_index ?s ?needle = Some (length a)"
    unfolding str_index_Some_iff
  proof (intro conjI allI impI)
    fix j assume j: "j < length a"
    show "\<not> has_prefix (drop j ?s) ?needle"
    proof
      assume "has_prefix (drop j ?s) ?needle"
      then obtain r where r: "drop j ?s = ?needle @ r" by (auto simp: has_prefix_iff prefix_def)
      have "drop (j + 17) ?s = drop 17 (drop j ?s)" by (simp only: drop_drop add.commute)
      also have "\<dots> = m @ r" unfolding r by simp
      finally have "has_prefix (drop (j + 17) ?s) m" by simp
      then have "has_prefix (drop (j + 17) ((a @ ''output the token'') @ sp # (m @ line @ nl # reply))) m"
        by simp
      from occurrence_sep [OF this mnb] a j show False
        by (auto simp: str_contains_iff)
    qed
  qed (simp_all add: has_prefix_iff)
  then have idx: "bytes_index ?s ?needle = Some (length a)"
    by (simp add: bytes_index_def)
  have "drop (length a + length ?needle) ((a @ ?needle) @ line @ nl # reply) = line @ nl # reply"
    by (rule drop_length_append) simp
  moreover have "dropWhile (\<lambda>c. c \<noteq> nl) (line @ nl # reply) = nl # reply"
    using line by (subst dropWhile_append2) auto
  ultimately show ?thesis
    using idx unfolding strip_envelope_echo_def Let_def append_assoc by simp
qed

lemma line_before_sep: "line_before (x @ nl # y) (Suc (length x + k)) = line_before y k"
proof -
  have "take (Suc (length x + k)) (x @ nl # y) = x @ nl # take k y" by simp
  then show ?thesis by (simp add: line_before_def takeWhile_tail)
qed

lemma echo_marker_stream:
  assumes m: "solid m" and x: "\<not> str_contains x m" "x = x' @ [c]" "\<not> horiz c" "c \<noteq> nl"
    and line: "nl \<notin> set line" "\<not> str_contains line m" and reply: "\<not> str_contains reply m"
    and rest: "list_all horiz (takeWhile (\<lambda>c. c \<noteq> nl) rest)"
  shows "marker_stream m (x @ sp # m @ sp # line @ nl # reply @ [nl]) rest"
proof -
  let ?s = "x @ sp # (m @ sp # (line @ nl # (reply @ nl # (m @ rest))))"
  let ?len = "length (x @ sp # m @ sp # line @ nl # reply @ [nl])"
  have seps: "sp \<notin> set m" "nl \<notin> set m" and ne: "m \<noteq> []"
    using m solid_not_horiz [OF m] by (auto simp: solid_def horiz_def)
  have "\<not> list_all horiz (line_before ?s j)" if occ: "has_prefix (drop j ?s) m" and j: "j < ?len" for j
  proof -
    have no: "\<not> has_prefix (drop i y) m" if "\<not> str_contains y m" for i y
      using that ne by (metis drop_eq_Nil has_prefix_iff linorder_le_cases prefix_Nil str_contains_iff)
    let ?j1 = "j - Suc (length x)"
    from occurrence_sep [OF occ seps(1) ne] no [OF x(1)]
    have j1: "length x < j" "has_prefix (drop ?j1 (m @ sp # (line @ nl # (reply @ nl # (m @ rest))))) m"
      by auto
    let ?j2 = "?j1 - Suc (length m)"
    from occurrence_sep [OF j1(2) seps(1) ne] consider "?j1 = 0"
      | "length m < ?j1" "has_prefix (drop ?j2 (line @ nl # (reply @ nl # (m @ rest)))) m" by auto
    then show ?thesis
    proof cases
      case 1
      with j1(1) have "j = Suc (length x)" by simp
      then have "take j ?s = x @ [sp]" by simp
      then show ?thesis using x(2-4) by (simp add: line_before_def)
    next
      case 2
      from occurrence_sep [OF 2(2) seps(2) ne] no [OF line(2)]
      have j3: "length line < ?j2"
        "has_prefix (drop (?j2 - Suc (length line)) (reply @ nl # (m @ rest))) m"
        by auto
      from occurrence_sep [OF j3(2) seps(2) ne] no [OF reply]
      have "length reply < ?j2 - Suc (length line)" by auto
      with j j1(1) 2(1) j3(1) show ?thesis by simp
    qed
  qed
  moreover have "line_before ?s ?len = []"
  proof -
    have "?s = (x @ sp # m @ sp # line @ nl # reply @ [nl]) @ m @ rest" by simp
    then have "take ?len ?s = x @ sp # m @ sp # line @ nl # reply @ [nl]"
      by (simp only: take_length_append [OF refl])
    then have "rev (take ?len ?s) = nl # rev (x @ sp # m @ sp # line @ nl # reply)" by simp
    then show ?thesis unfolding line_before_def by simp
  qed
  moreover have s: "(x @ sp # m @ sp # line @ nl # reply @ [nl]) @ m @ rest = ?s" by simp
  ultimately show ?thesis
    using m rest unfolding marker_stream_def s by simp
qed

text \<open>The bytes of a marker token occur in the fixed text of an envelope nowhere else.\<close>

lemma marker_chars:
  assumes "new_marker_token (Some buf) = Some m"
  shows "solid m" and "\<exists>h. m = CHR ''T'' # h" and "CHR ''_'' \<in> set m"
    and "c \<in> set m \<Longrightarrow> c \<noteq> nl \<and> c \<noteq> cr \<and> c \<noteq> sp \<and> c \<noteq> CHR ''['' \<and> c \<noteq> CHR '']''"
proof -
  have m: "m = ''TURN_END_'' @ hex_encode buf"
    using assms by (simp add: new_marker_token_def MarkerPrefix_def)
  have hex: "\<And>c. c \<in> set (hex_encode buf) \<Longrightarrow> is_hex c"
    using hex_encode_hex [of buf] by (simp add: list_all_iff)
  have nb: "\<not> blank_char c \<and> c \<noteq> CHR ''['' \<and> c \<noteq> CHR '']''" if "is_hex c" for c
    using that by (auto simp: is_hex_def blank_char_def horiz_def)
  show "solid m"
    using hex nb by (auto simp: m solid_def list_all_iff blank_char_def horiz_def)
  show "\<exists>h. m = CHR ''T'' # h" and "CHR ''_'' \<in> set m" by (simp_all add: m)
  show "c \<in> set m \<Longrightarrow> c \<noteq> nl \<and> c \<noteq> cr \<and> c \<noteq> sp \<and> c \<noteq> CHR ''['' \<and> c \<noteq> CHR '']''"
    using hex nb by (auto simp: m blank_char_def horiz_def)
qed

lemma contains_set: "str_contains s m \<Longrightarrow> set m \<subseteq> set s"
  by (simp add: str_contains_sublist set_mono_sublist)

lemma underscore_not_itoa: "CHR ''_'' \<notin> set (itoa n)"
  using nat_to_str_digits [of "CHR ''_''"] by (auto simp: itoa_def is_digit_def byte_def)

text \<open>The body of an envelope up to the instruction line, without its first bracket.\<close>

definition body_head :: "string \<Rightarrow> int \<Rightarrow> int \<Rightarrow> string \<Rightarrow> string \<Rightarrow> string" where
  "body_head cid idx max_turns label content =
     ''conversation:'' @ sp # (cid @ sp # ((sp # ''turn '' @ itoa idx @ '' of '' @ itoa max_turns
       @ ''  from:'') @ sp # (label @ CHR '']'' # ([] @ nl # (content
       @ (if has_suffix content [nl] then [] else [nl]))))))"

lemma render_body_head:
  "render_body cid idx max_turns label content m =
     CHR ''['' # body_head cid idx max_turns label content @ nl
       # ''When you finish your reply, output the token '' @ m @ '' on its own line.'' @ [nl]"
  by (simp add: render_body_def body_head_def marker_instruction_def)

lemma body_head_no_marker:
  assumes tok: "new_marker_token (Some buf) = Some m"
    and "\<not> str_contains cid m" and "\<not> str_contains label m" and "\<not> str_contains content m"
  shows "\<not> str_contains (body_head cid idx max_turns label content) m"
proof -
  have seps: "nl \<notin> set m" "sp \<notin> set m" "CHR '']'' \<notin> set m" and ne: "m \<noteq> []"
    and us: "CHR ''_'' \<in> set m"
    using marker_chars [OF tok] by (auto simp: solid_def)
  have fixed: "\<not> str_contains s m" if "CHR ''_'' \<notin> set s" for s
    using that us contains_set [of s m] by blast
  have "\<not> str_contains (content @ (if has_suffix content [nl] then [] else [nl])) m"
    using contains_sep [OF seps(1) ne, of content "[]"] fixed [of "[]"] assms(4) by simp
  moreover have "\<not> str_contains ''conversation:'' m"
    and "\<not> str_contains (sp # ''turn '' @ itoa idx @ '' of '' @ itoa max_turns @ ''  from:'') m"
    and "\<not> str_contains [] m"
    by (rule fixed; simp add: underscore_not_itoa)+
  ultimately show ?thesis
    unfolding body_head_def
    using assms(2,3) by (simp only: contains_sep [OF seps(1) ne] contains_sep [OF seps(2) ne]
        contains_sep [OF seps(3) ne] simp_thms)
qed

lemma converse_turn_echo:
  assumes tok: "new_marker_token (Some buf) = Some m"
    and env: "env = build_envelope_turn_n conv n from prev m"
    and fresh: "\<not> str_contains junk m" "\<not> str_contains (conv_id conv) m" "\<not> str_contains from m"
      "\<not> str_contains prev m" "\<not> str_contains reply m"
    and rest: "list_all horiz (takeWhile (\<lambda>c. c \<noteq> nl) rest)"
    and p: "pp_buffer p = junk" "pp_cursor p = 0" "\<not> pp_exited p"
    and chunks: "concat (concat groups) = onlcr (env_body env) @ reply @ [nl] @ m @ rest"
    and size: "length junk + length (concat (concat groups)) \<le> max_buffer_bytes"
    and "0 < timeout"
  shows "converse_turn (\<lambda>_. None) (env_body env) m timeout
      (map (map (\<lambda>c. WakePump (PumpChunk c))) groups) None p =
    (Some (Inr (trim_blanks reply)), p\<lparr>pp_buffer := [], pp_cursor := 0\<rparr>)"
proof -
  note mc = marker_chars [OF tok]
  have seps: "nl \<notin> set m" "cr \<notin> set m" "CHR ''['' \<notin> set m" and ne: "m \<noteq> []"
    and us: "CHR ''_'' \<in> set m"
    using mc by (auto simp: solid_def)
  have fixed: "\<not> str_contains s m" if "CHR ''_'' \<notin> set s" for s
    using that us contains_set [of s m] by blast
  let ?h = "body_head (conv_id conv) n (conv_max_turns conv) (''peer-'' @ from) prev"
  let ?w = "''When you finish your reply, output the token''"
  let ?x = "junk @ CHR ''['' # (onlcr ?h @ cr # ([] @ nl # ?w))"
  let ?line = "''on its own line.'' @ [cr]"
  have body: "onlcr (env_body env) =
      CHR ''['' # onlcr ?h @ cr # nl # ?w @ sp # m @ sp # ?line @ [nl]"
    using seps(1) by (simp add: env build_envelope_turn_n_def render_body_head onlcr_append onlcr_no_nl)
  have stream: "junk @ concat (concat groups) = (?x @ sp # m @ sp # ?line @ nl # reply @ [nl]) @ m @ rest"
    using chunks body by simp
  have "\<not> str_contains (''peer-'' @ from) m"
    using mc(2) contains_hd [of "''peer-''" "from"] fresh(3) by auto
  then have "\<not> str_contains (onlcr ?h) m"
    using body_head_no_marker [OF tok fresh(2) _ fresh(4)] contains_onlcr [OF seps(1,2) ne] by blast
  moreover have "\<not> str_contains ?w m" and "\<not> str_contains [] m" by (rule fixed; simp)+
  ultimately have x: "\<not> str_contains ?x m"
    using fresh(1) by (simp only: contains_sep [OF seps(1) ne] contains_sep [OF seps(2) ne]
        contains_sep [OF seps(3) ne] simp_thms)
  have x': "?x = (junk @ CHR ''['' # (onlcr ?h @ cr # ([] @ nl
      # ''When you finish your reply, output the toke''))) @ ''n''" by simp
  have line: "nl \<notin> set ?line" "\<not> str_contains ?line m" by (simp, rule fixed, simp)
  have ms: "marker_stream m (?x @ sp # m @ sp # ?line @ nl # reply @ [nl]) rest"
    by (rule echo_marker_stream [OF mc(1) x x' _ _ line fresh(5) rest]) (simp_all add: horiz_def)
  have "converse_wait m timeout (map (map (\<lambda>c. WakePump (PumpChunk c))) groups) (None, False, p) =
      (Some (Inr (strip_envelope_echo (?x @ sp # m @ sp # ?line @ nl # reply @ [nl]) m)),
       p\<lparr>pp_buffer := [], pp_cursor := 0\<rparr>)"
    by (rule converse_wait_stream [OF ms p(2,3)])
       (use stream size p(1) in \<open>simp_all del: concat_append flip: stream\<close>)
  moreover have "strip_envelope_echo (?x @ sp # m @ sp # ?line @ nl # reply @ [nl]) m =
      trim_blanks (reply @ [nl])"
    using strip_echo [OF mc(1), of "junk @ CHR ''['' # onlcr ?h @ cr # nl # ''When you finish your reply, ''"
        "sp # ?line" "reply @ [nl]"] x by simp
  ultimately show ?thesis
    using ne assms(14) by (simp add: converse_turn_def trim_blanks_snoc)
qed

text \<open>
  C10. A complete turn over an echoing terminal. The terminal shows the envelope of the turn
  with its line feeds translated, then the peer's reply, then the marker on a line of its own.
  However this output is cut into chunks, whatever is left over from before (\<open>junk\<close>) and
  whatever follows the marker, \<open>ConverseTurn\<close> returns exactly the peer's reply, trimmed, and
  leaves an empty buffer: the instruction line, which quotes the marker, neither ends the turn
  early nor ends up in the reply.
\<close>

theorem converse_turn_echo_roundtrip:
  assumes tok: "new_marker_token (Some buf) = Some m"
    and env: "env = build_envelope_turn_n conv n from prev m"
    and fresh: "\<not> str_contains junk m" "\<not> str_contains (conv_id conv) m" "\<not> str_contains from m"
      "\<not> str_contains prev m" "\<not> str_contains reply m"
    and rest: "list_all horiz (takeWhile (\<lambda>c. c \<noteq> nl) rest)"
    and p: "pp_buffer p = junk" "pp_cursor p = 0" "\<not> pp_exited p"
    and chunks: "concat (concat groups) = onlcr (env_body env) @ reply @ [nl] @ m @ rest"
    and size: "length junk + length (concat (concat groups)) \<le> max_buffer_bytes"
    and "0 < timeout"
  shows "converse_turn (\<lambda>_. None) (env_body env) m timeout
      (map (map (\<lambda>c. WakePump (PumpChunk c))) groups) None p =
    (Some (Inr (trim_blanks reply)), p\<lparr>pp_buffer := [], pp_cursor := 0\<rparr>)"
  using assms by (rule converse_turn_echo)

theorem converse_turn_echo_roundtrip_witness:
  "fst (converse_turn (\<lambda>_. None)
      (env_body (build_envelope_turn_n (zero_conversation\<lparr>conv_id := ''c''\<rparr>) 2 ''a'' ''hello'' ''TURN_END_616263646566''))
      ''TURN_END_616263646566'' 1000
      (map (map (\<lambda>c. WakePump (PumpChunk c)))
        [[onlcr (env_body (build_envelope_turn_n (zero_conversation\<lparr>conv_id := ''c''\<rparr>) 2 ''a'' ''hello''
            ''TURN_END_616263646566'')), ''fine'' @ [cr]], [[nl] @ ''TURN_END_616263646566'' @ [cr, nl]]])
      None new_persistent_process) = Some (Inr ''fine'')"
proof -
  have tok: "new_marker_token (Some ''abcdef'') = Some ''TURN_END_616263646566''"
    by code_simp
  have none: "\<not> str_contains [] ''TURN_END_616263646566''" "\<not> str_contains ''c'' ''TURN_END_616263646566''"
    "\<not> str_contains ''a'' ''TURN_END_616263646566''" "\<not> str_contains ''hello'' ''TURN_END_616263646566''"
    "\<not> str_contains (''fine'' @ [cr]) ''TURN_END_616263646566''"
    by code_simp+
  have trim: "trim_blanks (''fine'' @ [cr]) = ''fine''" by code_simp
  show ?thesis
    by (subst converse_turn_echo_roundtrip [OF tok refl none(1) _ none(3,4,5), where rest = "[cr, nl]"])
       (use none trim in \<open>simp_all add: new_persistent_process_def horiz_def max_buffer_bytes_def
          build_envelope_turn_n_def render_body_def marker_instruction_def itoa_def
          nat_to_str.simps has_suffix_def zero_conversation_def\<close>)
qed

text \<open>
  The marker search finds what it should: for a marker without blanks it returns the
  first position at which the marker stands alone on its line, and \<open>-1\<close> exactly when there is
  none, although it resumes its search behind each rejected occurrence.
\<close>

theorem find_line_anchored_marker_first:
  assumes "solid m"
  shows "(\<forall>i. find_line_anchored_marker buf m = Some i \<longleftrightarrow>
      anchored buf m i \<and> (\<forall>j < i. \<not> anchored buf m j)) \<and>
    (find_line_anchored_marker buf m = None \<longleftrightarrow> (\<forall>i. \<not> anchored buf m i))"
  using find_line_anchored_marker_Some_iff [OF assms] find_line_anchored_marker_None_iff [OF assms]
  by blast

theorem find_line_anchored_marker_first_witness:
  "solid ''MM'' \<and> anchored (''x MM'' @ [nl, tab] @ ''MM '') ''MM'' 6"
proof -
  have "solid ''MM''" by code_simp
  moreover have "find_line_anchored_marker (''x MM'' @ [nl, tab] @ ''MM '') ''MM'' = Some 6"
    by code_simp
  ultimately show ?thesis
    using find_line_anchored_marker_first by blast
qed

section \<open>A turn always ends\<close>

lemma wake_step_sticky:
  "fst (snd st) \<Longrightarrow> fst (snd (fold wake_step ws st))"
  "fst st \<noteq> None \<Longrightarrow> fst (fold wake_step ws st) \<noteq> None"
  "pp_exited (snd (snd st)) \<Longrightarrow> pp_exited (snd (snd (fold wake_step ws st)))"
  by (induction ws arbitrary: st)
     (auto simp: wake_step_def pump_step_def split: wake_event.splits option.splits prod.splits)

definition ending :: "wake_event \<Rightarrow> bool" where
  "ending w = (case w of WakePump (PumpChunk _) \<Rightarrow> False | _ \<Rightarrow> True)"

definition over :: "go_error option \<times> bool \<times> persistent_process \<Rightarrow> bool" where
  "over st \<longleftrightarrow> fst st \<noteq> None \<or> fst (snd st) \<or> pp_exited (snd (snd st))"

lemma over_fold: "over st \<Longrightarrow> over (fold wake_step ws st)"
  using wake_step_sticky [of st ws] unfolding over_def by blast

lemma ending_over: "w \<in> set ws \<Longrightarrow> ending w \<Longrightarrow> over (fold wake_step ws st)"
proof (induction ws arbitrary: st)
  case (Cons v ws)
  show ?case
  proof (cases "ending v")
    case True
    then have "over (wake_step v st)"
      by (cases st) (auto simp: over_def ending_def wake_step_def pump_step_def
          split: wake_event.splits pump_event.splits option.splits)
    then show ?thesis using over_fold by simp
  next
    case False
    then show ?thesis using Cons.prems Cons.IH [of "wake_step v st"] by auto
  qed
qed simp

lemma converse_check_over: "over (ctx_err, late, p) \<Longrightarrow> fst (converse_check m timeout ctx_err late p) \<noteq> None"
  by (auto simp: over_def converse_check_def Let_def split: option.splits)

lemma converse_check_waits:
  "converse_check m timeout ctx_err late p = (None, p') \<Longrightarrow> p' = p \<and> ctx_err = None \<and> \<not> late"
  by (auto simp: converse_check_def Let_def split: option.splits if_splits)

text \<open>
  C30. A turn ends: once the process exits, the output is closed, the context is cancelled or
  the deadline passes, \<open>ConverseTurn\<close> returns, whatever else happens in between.
\<close>

theorem converse_turn_returns:
  assumes "ws \<in> set wakes" and "w \<in> set ws" and "ending w"
  shows "\<exists>r. fst (converse_turn write body m timeout wakes ctx_err p) = Some r"
proof -
  have "fst (converse_wait m timeout wakes st) \<noteq> None" for st
    using assms(1)
  proof (induction wakes arbitrary: st)
    case (Cons v wakes)
    obtain ctx_err late p where st: "st = (ctx_err, late, p)" by (cases st) auto
    obtain r p' where c: "converse_check m timeout ctx_err late p = (r, p')" by fastforce
    show ?case
    proof (cases r)
      case None
      let ?st = "fold wake_step v (ctx_err, late, p)"
      have step: "converse_wait m timeout (v # wakes) st = converse_wait m timeout wakes ?st"
        using c None converse_check_waits [of m timeout ctx_err late p p']
        by (simp add: st converse_wait.simps)
      show ?thesis
      proof (cases "v = ws")
        case True
        then have "over ?st" using ending_over assms(2,3) by blast
        then have "fst (converse_wait m timeout wakes ?st) \<noteq> None"
          using converse_check_over [of "fst ?st" "fst (snd ?st)" "snd (snd ?st)" m timeout]
          by (cases ?st) (auto simp: converse_wait.simps split: prod.splits option.splits)
        with step show ?thesis by simp
      qed (use Cons step in auto)
    qed (simp add: st c converse_wait.simps)
  qed simp
  then show ?thesis
    by (auto simp: converse_turn_def split: option.splits)
qed

theorem converse_turn_returns_witness:
  "\<exists>r. fst (converse_turn (\<lambda>_. None) ''body'' ''MM'' 1000
     [[WakePump (PumpChunk ''noise'')], [WakeDeadline]] None new_persistent_process) = Some r"
  by (rule converse_turn_returns [of "[WakeDeadline]" _ WakeDeadline]) (simp_all add: ending_def)

end
