(* ===== verification/Terminal.thy ===== *)
theory Terminal
  imports Persistent
begin

text \<open>
  From terminal bytes to text: \<open>NormalizePTYText\<close> of \<open>src/internal/terminal/ansi.go\<close> and the
  recording of \<open>src/internal/terminal/transcript.go\<close>.
\<close>

section \<open>Control sequences\<close>

definition is_letter :: "char \<Rightarrow> bool" where
  "is_letter c \<longleftrightarrow> (65 \<le> byte c \<and> byte c \<le> 90) \<or> (97 \<le> byte c \<and> byte c \<le> 122)"

definition bel :: char where "bel = CHR 0x07"

text \<open>What is left after a CSI sequence ends with a letter, or after an OSC sequence ends with
  BEL or with ESC backslash.\<close>

fun skip_csi :: "string \<Rightarrow> string" where
  "skip_csi [] = []"
| "skip_csi (c # s) = (if is_letter c then s else skip_csi s)"

fun skip_osc :: "string \<Rightarrow> string" where
  "skip_osc [] = []"
| "skip_osc [c] = []"
| "skip_osc (c # d # s) =
     (if c = bel then d # s
      else if c = esc \<and> d = backslash then s
      else skip_osc (d # s))"

text \<open>What is left after an escape sequence, given the bytes behind ESC.\<close>

definition skip_escape :: "string \<Rightarrow> string" where
  "skip_escape s =
     (case s of
        [] \<Rightarrow> []
      | d # t \<Rightarrow> if d = CHR ''['' then skip_csi t else if d = CHR '']'' then skip_osc t else t)"

definition kept_byte :: "char \<Rightarrow> bool" where
  "kept_byte c \<longleftrightarrow> c = tab \<or> c = nl \<or> (0x20 \<le> byte c \<and> byte c \<noteq> 0x7f)"

lemma skip_csi_length: "length (skip_csi s) \<le> length s"
  by (induction s) auto

lemma skip_osc_length: "length (skip_osc s) \<le> length s"
  by (induction s rule: skip_osc.induct) auto

lemma skip_escape_length: "length (skip_escape s) \<le> length s"
  using skip_csi_length skip_osc_length by (auto simp: skip_escape_def le_SucI split: list.splits)

function normalize_loop :: "string \<Rightarrow> string" where
  "normalize_loop [] = []"
| "normalize_loop (c # s) =
     (if c = esc then normalize_loop (skip_escape s)
      else if c = cr then
        (if has_prefix s [nl] then normalize_loop s else nl # normalize_loop s)
      else if byte c = 0 then normalize_loop s
      else if kept_byte c then c # normalize_loop s
      else normalize_loop s)"
  by pat_completeness auto
termination
  by (relation "measure length") (auto simp: le_imp_less_Suc skip_escape_length)

declare normalize_loop.simps(2) [simp del]

fun replace_crlf :: "string \<Rightarrow> string" where
  "replace_crlf [] = []"
| "replace_crlf [c] = [c]"
| "replace_crlf (c # d # s) =
     (if c = cr \<and> d = nl then nl # replace_crlf s else c # replace_crlf (d # s))"

definition normalize_pty_text :: "string \<Rightarrow> string" where
  "normalize_pty_text raw = replace_crlf (normalize_loop raw)"

section \<open>Transcripts\<close>

record transcript =
  tr_full_raw :: string
  tr_tail :: string
  tr_tail_capacity :: int
  tr_last_output_at :: go_time
  tr_first_output_at :: go_time
  tr_exit_code :: "int option"
  tr_bytes_seen :: int

definition new_transcript :: "int \<Rightarrow> transcript" where
  "new_transcript capacity =
     \<lparr>tr_full_raw = [], tr_tail = [], tr_tail_capacity = (if capacity \<le> 0 then 64 * 1024 else capacity),
      tr_last_output_at = 0, tr_first_output_at = 0, tr_exit_code = None, tr_bytes_seen = 0\<rparr>"

definition transcript_append :: "stream_event \<Rightarrow> transcript \<Rightarrow> transcript" where
  "transcript_append ev t =
     (if se_data ev = [] then t
      else t\<lparr>tr_first_output_at :=
               (if tr_first_output_at t = 0 then se_timestamp ev else tr_first_output_at t),
             tr_last_output_at := se_timestamp ev,
             tr_bytes_seen := wrap64 (tr_bytes_seen t + int (length (se_data ev))),
             tr_full_raw := tr_full_raw t @ se_data ev,
             tr_tail := last_n (tr_tail_capacity t) (tr_tail t @ se_data ev)\<rparr>)"

definition record_exit :: "int \<Rightarrow> transcript \<Rightarrow> transcript" where
  "record_exit code t = t\<lparr>tr_exit_code := Some code\<rparr>"

definition transcript_normalized :: "transcript \<Rightarrow> string" where
  "transcript_normalized t = normalize_pty_text (tr_full_raw t)"

definition tail_normalized :: "transcript \<Rightarrow> string" where
  "tail_normalized t = normalize_pty_text (tr_tail t)"

text \<open>\<open>Time.Sub\<close> saturates at the bounds of a \<open>Duration\<close>.\<close>

definition time_sub :: "go_time \<Rightarrow> go_time \<Rightarrow> duration" where
  "time_sub t u = max min_int64 (min max_int64 (t - u))"

definition idle_since :: "go_time \<Rightarrow> transcript \<Rightarrow> duration" where
  "idle_since now t = (if tr_last_output_at t = 0 then 0 else time_sub now (tr_last_output_at t))"

definition has_output :: "transcript \<Rightarrow> bool" where
  "has_output t \<longleftrightarrow> 0 < tr_bytes_seen t"

section \<open>Normalised text\<close>

lemma byte_ctrl: "byte esc = 0x1b" "byte cr = 0x0d" "byte nl = 0x0a" "byte tab = 0x09"
  by (simp_all add: byte_def)

lemma kept_not_ctrl: "kept_byte c \<Longrightarrow> c \<noteq> esc \<and> c \<noteq> cr \<and> byte c \<noteq> 0"
  by (auto simp: kept_byte_def byte_ctrl)

lemma kept_nl [simp]: "kept_byte nl"
  by (simp add: kept_byte_def)

lemma normalize_loop_kept: "list_all kept_byte (normalize_loop s)"
proof (induction s rule: normalize_loop.induct)
  case (2 c s)
  then show ?case
    by (simp add: normalize_loop.simps(2))
qed simp

lemma replace_crlf_id: "cr \<notin> set s \<Longrightarrow> replace_crlf s = s"
  by (induction s rule: replace_crlf.induct) auto

text \<open>The final replacement has nothing to replace.\<close>

lemma normalize_pty_text_loop: "normalize_pty_text s = normalize_loop s"
proof -
  have "cr \<notin> set (normalize_loop s)"
    using normalize_loop_kept [of s] kept_not_ctrl by (auto simp: list_all_iff)
  then show ?thesis by (simp add: normalize_pty_text_def replace_crlf_id)
qed

lemma normalize_loop_kept_Cons: "kept_byte c \<Longrightarrow> normalize_loop (c # s) = c # normalize_loop s"
  using kept_not_ctrl [of c] by (subst normalize_loop.simps) simp

lemma normalize_loop_onlcr: "list_all kept_byte s \<Longrightarrow> normalize_loop (onlcr s) = s"
proof (induction s)
  case (Cons c s)
  then show ?case
    by (auto simp: normalize_loop_kept_Cons normalize_loop.simps(2) [of cr] has_prefix_def)
qed simp

lemma normalize_loop_id: "list_all kept_byte s \<Longrightarrow> normalize_loop s = s"
  by (induction s) (auto simp: normalize_loop_kept_Cons)

text \<open>
  Normalised text is clean and stable: only tabs, line feeds and bytes from the space on
  other than DEL are left, so normalising again changes nothing.
\<close>

theorem normalize_clean_idempotent:
  "list_all kept_byte (normalize_pty_text raw) \<and>
   normalize_pty_text (normalize_pty_text raw) = normalize_pty_text raw"
  using normalize_loop_kept normalize_loop_id by (simp add: normalize_pty_text_loop)

text \<open>
  Normalisation undoes what a terminal does to printable text: the line feeds that the
  terminal turned into carriage return and line feed come back, every other byte is kept.
\<close>

theorem normalize_inverts_terminal:
  assumes "list_all kept_byte s"
  shows "normalize_pty_text (onlcr s) = s"
  using assms by (simp add: normalize_pty_text_loop normalize_loop_onlcr)

theorem normalize_inverts_terminal_witness:
  "normalize_pty_text (onlcr (''a'' @ [nl] @ ''b'')) = ''a'' @ [nl] @ ''b''"
  by (rule normalize_inverts_terminal) code_simp

section \<open>What a transcript records\<close>

lemma last_n_last_n: "0 < n \<Longrightarrow> last_n n (last_n n xs @ ys) = last_n n (xs @ ys)"
  by (auto simp: last_n_def add.commute [of "length xs"])

lemma transcript_append_fields:
  "tr_full_raw (transcript_append ev t) = tr_full_raw t @ se_data ev"
  "tr_tail (transcript_append ev t) = (if se_data ev = [] then tr_tail t
     else last_n (tr_tail_capacity t) (tr_tail t @ se_data ev))"
  "tr_bytes_seen (transcript_append ev t) = (if se_data ev = [] then tr_bytes_seen t
     else wrap64 (tr_bytes_seen t + int (length (se_data ev))))"
  "tr_tail_capacity (transcript_append ev t) = tr_tail_capacity t"
  by (simp_all add: transcript_append_def)

lemma wrap64_add: "wrap64 (wrap64 a + b) = wrap64 (a + b)"
  by (simp add: wrap64_def mod_simps algebra_simps)

text \<open>
  After any sequence of appended events the transcript holds all the bytes in order, the
  tail is their last \<open>tailCapacity\<close> bytes, and the byte count is their number in 64 bits.
\<close>

theorem transcript_records:
  "tr_full_raw (fold transcript_append evs (new_transcript cap)) = concat (map se_data evs) \<and>
   tr_tail (fold transcript_append evs (new_transcript cap)) =
     last_n (if cap \<le> 0 then 64 * 1024 else cap) (concat (map se_data evs)) \<and>
   tr_bytes_seen (fold transcript_append evs (new_transcript cap)) =
     wrap64 (int (length (concat (map se_data evs))))"
proof (induction evs rule: rev_induct)
  case Nil
  then show ?case by (simp add: new_transcript_def last_n_def wrap64_def)
next
  case (snoc ev evs)
  have "tr_tail_capacity (fold transcript_append evs t) = tr_tail_capacity t" for t
    by (induction evs arbitrary: t) (simp_all add: transcript_append_fields)
  then have "tr_tail_capacity (fold transcript_append evs (new_transcript cap)) =
      (if cap \<le> 0 then 64 * 1024 else cap)" by (simp add: new_transcript_def)
  with snoc show ?case
    by (cases "se_data ev = []") (simp_all add: transcript_append_fields last_n_last_n wrap64_add)
qed

end
