(* ===== verification/Adapters.thy ===== *)
theory Adapters
  imports Terminal
begin

text \<open>
  The provider adapters of \<open>src/internal/adapter\<close>: the interface types and the registry, and
  for Claude Code and Codex the command line, the patterns, the observation of a running
  session and the extraction of the response.  Regular expressions are values of a small
  datatype with an executable matcher; environment variables of the process are a function
  \<open>getenv\<close>.  A confidence is an integer number of hundredths.
\<close>

section \<open>Regular expressions\<close>

datatype char_class = AnyChar | SpaceChar

fun in_class :: "char_class \<Rightarrow> char \<Rightarrow> bool" where
  "in_class AnyChar c = (c \<noteq> nl)"
| "in_class SpaceChar c = re_space c"

datatype regex =
    RFold string
  | RExact string
  | RMany char_class
  | RSeq regex regex
  | RAlt regex regex
  | RWordB
  | REndText
  | RLineStart
  | RLineEnd

text \<open>
  Case folding of one letter of the pattern (a lower-case ASCII letter), as Go folds it: the
  Kelvin sign folds to \<open>k\<close> and the long s to \<open>s\<close>.  The result lists the lengths that match.
\<close>

definition lower_ascii :: "char \<Rightarrow> char" where
  "lower_ascii c = (if 65 \<le> byte c \<and> byte c \<le> 90 then char_of (byte c + 32) else c)"

definition fold_lengths :: "char \<Rightarrow> string \<Rightarrow> nat list" where
  "fold_lengths c s =
     (case s of [] \<Rightarrow> [] | d # _ \<Rightarrow> if lower_ascii d = c then [1] else [])
     @ (if c = CHR ''k'' \<and> has_prefix s [CHR 0xE2, CHR 0x84, CHR 0xAA] then [3] else [])
     @ (if c = CHR ''s'' \<and> has_prefix s [CHR 0xC5, CHR 0xBF] then [2] else [])"

fun fold_ends :: "string \<Rightarrow> string \<Rightarrow> nat \<Rightarrow> nat list" where
  "fold_ends [] s i = [i]"
| "fold_ends (c # w) s i = concat (map (\<lambda>n. fold_ends w s (i + n)) (fold_lengths c (drop i s)))"

definition is_word :: "char \<Rightarrow> bool" where
  "is_word c \<longleftrightarrow> is_letter c \<or> is_digit c \<or> c = CHR ''_''"

definition word_at :: "string \<Rightarrow> nat \<Rightarrow> bool" where
  "word_at s i \<longleftrightarrow> i < length s \<and> is_word (s ! i)"

definition word_boundary :: "string \<Rightarrow> nat \<Rightarrow> bool" where
  "word_boundary s i \<longleftrightarrow> (0 < i \<and> word_at s (i - 1)) \<noteq> word_at s i"

fun regex_ends :: "regex \<Rightarrow> string \<Rightarrow> nat \<Rightarrow> nat list" where
  "regex_ends (RFold w) s i = fold_ends w s i"
| "regex_ends (RExact w) s i = (if has_prefix (drop i s) w then [i + length w] else [])"
| "regex_ends (RMany k) s i = [i ..< i + length (takeWhile (in_class k) (drop i s)) + 1]"
| "regex_ends (RSeq r q) s i = concat (map (regex_ends q s) (regex_ends r s i))"
| "regex_ends (RAlt r q) s i = regex_ends r s i @ regex_ends q s i"
| "regex_ends RWordB s i = (if word_boundary s i then [i] else [])"
| "regex_ends REndText s i = (if i = length s then [i] else [])"
| "regex_ends RLineStart s i = (if i = 0 \<or> (i \<le> length s \<and> s ! (i - 1) = nl) then [i] else [])"
| "regex_ends RLineEnd s i = (if i = length s \<or> (i < length s \<and> s ! i = nl) then [i] else [])"

definition match_string :: "regex \<Rightarrow> string \<Rightarrow> bool" where
  "match_string r s = list_ex (\<lambda>i. regex_ends r s i \<noteq> []) [0 ..< length s + 1]"

definition match_any :: "regex list \<Rightarrow> string \<Rightarrow> bool" where
  "match_any patterns s = list_ex (\<lambda>r. match_string r s) patterns"

fun r_seq :: "regex list \<Rightarrow> regex" where
  "r_seq [] = RExact []"
| "r_seq [r] = r"
| "r_seq (r # rs) = RSeq r (r_seq rs)"

fun r_alt :: "string list \<Rightarrow> regex" where
  "r_alt [] = RFold []"
| "r_alt [w] = RFold w"
| "r_alt (w # ws) = RAlt (RFold w) (r_alt ws)"

definition r_words :: "string list \<Rightarrow> regex" where
  "r_words ws = r_seq [RWordB, r_alt ws, RWordB]"

section \<open>Interface types and the registry\<close>

record spawn_spec =
  ss_command :: string
  ss_args :: "string list"
  ss_env :: str_map
  ss_cwd :: string
  ss_home_dir :: string
  ss_terminal_cols :: int
  ss_terminal_rows :: int
  ss_prompt_in_args :: bool

record transcript_observation =
  ob_status :: run_status
  ob_terminal :: bool
  ob_confidence :: confidence
  ob_reason :: string
  ob_evidence :: "string list"

record extraction_result =
  er_response :: string
  er_parser_confidence :: confidence
  er_notes :: "string list"

record completion_context =
  cc_raw_tail :: string
  cc_normalized_tail :: string
  cc_elapsed_ms :: int
  cc_idle_ms :: int
  cc_exit_code :: "int option"
  cc_bytes_seen :: int
  cc_last_write_ms :: int

record adapter =
  ad_id :: string
  ad_build_spawn_spec :: "string \<Rightarrow> str_map \<Rightarrow> string \<Rightarrow> int \<Rightarrow> int \<Rightarrow> string \<Rightarrow> spawn_spec"
  ad_format_prompt :: "string \<Rightarrow> string"
  ad_observe :: "completion_context \<Rightarrow> transcript_observation option"
  ad_extract_response :: "string \<Rightarrow> string \<Rightarrow> extraction_result"

type_synonym registry = "(string \<times> adapter) list"

definition registry_register :: "adapter \<Rightarrow> registry \<Rightarrow> registry" where
  "registry_register item r = map_put (ad_id item) item r"

definition new_registry :: "adapter list \<Rightarrow> registry" where
  "new_registry items = fold registry_register items []"

definition registry_get :: "string \<Rightarrow> registry \<Rightarrow> adapter result" where
  "registry_get pid r =
     (case map_of r pid of
        Some item \<Rightarrow> Inr item
      | None \<Rightarrow> Inl (ErrMsg (''unknown provider '' @ go_quote pid)))"

definition observation :: "run_status \<Rightarrow> bool \<Rightarrow> confidence \<Rightarrow> string \<Rightarrow> string \<Rightarrow> transcript_observation" where
  "observation status terminal conf reason evidence =
     \<lparr>ob_status = status, ob_terminal = terminal, ob_confidence = conf, ob_reason = reason,
      ob_evidence = [evidence]\<rparr>"

section \<open>Commands\<close>

definition first_non_empty :: "string list \<Rightarrow> string" where
  "first_non_empty values =
     (case find (\<lambda>v. trim_space v \<noteq> []) values of None \<Rightarrow> [] | Some v \<Rightarrow> v)"

definition unsafe_chars :: "string list" where
  "unsafe_chars = [[CHR '';''], [CHR ''&''], [CHR ''|''], [CHR ''$''], [CHR 0x60], [CHR ''(''],
     [CHR '')''], [nl]]"

text \<open>\<open>validateExecutable\<close> returns an error exactly when this is false.\<close>

definition validate_executable :: "string \<Rightarrow> bool" where
  "validate_executable s = list_all (\<lambda>c. \<not> str_contains s c) unsafe_chars"

text \<open>\<open>strings.Fields\<close>: the maximal pieces between white space.\<close>

definition space_prefix :: "string \<Rightarrow> string option" where
  "space_prefix s = find (\<lambda>w. w \<noteq> [] \<and> has_prefix s w) space_encodings"

function fields_from :: "string \<Rightarrow> string \<Rightarrow> string list" where
  "fields_from cur [] = (if cur = [] then [] else [cur])"
| "fields_from cur (c # s) =
     (case space_prefix (c # s) of
        Some w \<Rightarrow> (if cur = [] then [] else [cur]) @ fields_from [] (drop (length w - 1) s)
      | None \<Rightarrow> fields_from (cur @ [c]) s)"
  by pat_completeness auto
termination
  by (relation "measure (\<lambda>(cur, s). length s)") auto

definition str_fields :: "string \<Rightarrow> string list" where
  "str_fields s = fields_from [] s"

definition binary_override :: "string \<Rightarrow> string \<Rightarrow> (string \<Rightarrow> string) \<Rightarrow> str_map \<Rightarrow> string" where
  "binary_override default_binary var getenv env =
     (let override = first_non_empty [map_get env var, getenv var] in
      if override \<noteq> [] \<and> validate_executable override then override else default_binary)"

definition claude_resolve_command ::
    "(string \<Rightarrow> string) \<Rightarrow> str_map \<Rightarrow> string \<times> string list" where
  "claude_resolve_command getenv env =
     (binary_override ''claude'' ''VITIS_CLAUDE_BINARY'' getenv env,
      filter (\<lambda>arg. arg \<noteq> [])
        (str_fields (first_non_empty [map_get env ''VITIS_CLAUDE_ARGS'', getenv ''VITIS_CLAUDE_ARGS''])))"

definition codex_resolve_command ::
    "(string \<Rightarrow> string) \<Rightarrow> str_map \<Rightarrow> string \<times> string list" where
  "codex_resolve_command getenv env =
     (let command = binary_override ''codex'' ''VITIS_CODEX_BINARY'' getenv env;
          args_str = first_non_empty [map_get env ''VITIS_CODEX_ARGS'', getenv ''VITIS_CODEX_ARGS'']
      in if args_str \<noteq> [] then (command, filter (\<lambda>arg. arg \<noteq> []) (str_fields args_str))
         else (command, [''exec'', ''--full-auto'', ''--skip-git-repo-check'']))"

definition opt_args :: "string \<Rightarrow> string \<Rightarrow> string list" where
  "opt_args flag v = (if v \<noteq> [] then [flag, v] else [])"

definition claude_build_spawn_spec ::
    "(string \<Rightarrow> string) \<Rightarrow> string \<Rightarrow> str_map \<Rightarrow> string \<Rightarrow> int \<Rightarrow> int \<Rightarrow> string \<Rightarrow> spawn_spec" where
  "claude_build_spawn_spec getenv cwd env home_dir cols rows prompt =
     (let (command, args) = claude_resolve_command getenv env in
      \<lparr>ss_command = command, ss_args = args @ opt_args ''--model'' (map_get env ''VITIS_MODEL''),
       ss_env = env, ss_cwd = cwd, ss_home_dir = home_dir, ss_terminal_cols = cols,
       ss_terminal_rows = rows, ss_prompt_in_args = False\<rparr>)"

definition codex_build_spawn_spec ::
    "(string \<Rightarrow> string) \<Rightarrow> string \<Rightarrow> str_map \<Rightarrow> string \<Rightarrow> int \<Rightarrow> int \<Rightarrow> string \<Rightarrow> spawn_spec" where
  "codex_build_spawn_spec getenv cwd env home_dir cols rows prompt =
     (let (command, args) = codex_resolve_command getenv env in
      \<lparr>ss_command = command,
       ss_args = args @ opt_args ''--model'' (map_get env ''VITIS_MODEL'')
         @ opt_args ''--reasoning-effort'' (map_get env ''VITIS_REASONING_EFFORT'') @ [prompt],
       ss_env = env, ss_cwd = cwd, ss_home_dir = home_dir, ss_terminal_cols = cols,
       ss_terminal_rows = rows, ss_prompt_in_args = True\<rparr>)"

definition claude_format_prompt :: "string \<Rightarrow> string" where
  "claude_format_prompt raw = trim_right raw [nl] @ [nl]"

definition codex_format_prompt :: "string \<Rightarrow> string" where
  "codex_format_prompt raw = raw @ [nl]"

section \<open>Claude Code\<close>

definition claude_blocked_prompt_patterns :: "regex list" where
  "claude_blocked_prompt_patterns =
     [r_seq [RExact ''('', r_alt [''y'', ''yes''], RExact ''/'', r_alt [''n'', ''no''], RExact '')''],
      r_seq [RExact ''['', r_alt [''y'', ''yes''], RExact ''/'', r_alt [''n'', ''no''], RExact '']''],
      r_words [''press enter'', ''press any key''],
      r_seq [RWordB, r_alt [''continue?'', ''overwrite?'', ''are you sure?'']],
      r_seq [r_words [''do you'', ''would you'', ''shall i'', ''ready to''], RMany AnyChar,
             RExact ''?'', REndText]]"

definition claude_auth_patterns :: "regex list" where
  "claude_auth_patterns =
     [r_words [''log in'', ''login'', ''sign in'', ''authenticate'', ''authentication required''],
      r_seq [RWordB,
             RAlt (RFold ''oauth'') (RAlt (r_seq [RFold ''browser'', RMany AnyChar, RFold ''open''])
               (r_seq [RFold ''api key'', RMany AnyChar, RFold ''required''])),
             RWordB]]"

definition claude_rate_limit_patterns :: "regex list" where
  "claude_rate_limit_patterns =
     [RFold (''you'' @ [CHR 0x27] @ ''ve hit your''),
      r_words [''rate limit'', ''usage limit'', ''session limit'', ''weekly limit''],
      r_words [''out of extra usage'', ''too many requests'']]"

definition claude_permission_patterns :: "regex list" where
  "claude_permission_patterns =
     [r_words [''permission'', ''approval'', ''approve'', ''deny'', ''allow this''],
      r_seq [RFold ''enter'', RMany AnyChar, RFold ''confirm'', RMany AnyChar, RFold ''esc'',
             RMany AnyChar, RFold ''cancel''],
      RFold ''entertoconfirm'']"

definition angle_quote :: string where
  "angle_quote = [CHR 0xE2, CHR 0x80, CHR 0xBA]"

definition heavy_angle_quote :: string where
  "heavy_angle_quote = [CHR 0xE2, CHR 0x9D, CHR 0xAF]"

definition claude_prompt_reappearance_patterns :: "regex list" where
  "claude_prompt_reappearance_patterns =
     [r_seq [RLineStart, RExact ''>'', RMany SpaceChar, RLineEnd],
      r_seq [RLineStart, RExact angle_quote, RMany SpaceChar, RLineEnd],
      r_seq [RLineStart, RExact ''claude>'', RMany SpaceChar, RLineEnd]]"

definition claude_observe :: "completion_context \<Rightarrow> transcript_observation option" where
  "claude_observe ctx =
     (let tail = trim_space (cc_normalized_tail ctx); idle = cc_idle_ms ctx \<ge> 1500 in
      if cc_bytes_seen ctx = 0 \<and> cc_exit_code ctx \<noteq> None
      then Some (observation RunPartial True 70 ''process exited without output'' ''exit_no_output'')
      else if idle \<and> match_any claude_blocked_prompt_patterns tail
      then Some (observation RunBlockedOnInput True 92 ''interactive prompt detected'' ''blocked_prompt'')
      else if idle \<and> match_any claude_auth_patterns tail
      then Some (observation RunAuthRequired True 90 ''authentication prompt detected'' ''auth_prompt'')
      else if idle \<and> match_any claude_rate_limit_patterns tail
      then Some (observation RunRateLimited True 88 ''rate limit or usage limit detected'' ''rate_limit'')
      else if idle \<and> match_any claude_permission_patterns tail
      then Some (observation RunPermissionPrompt False 70 ''permission prompt detected'' ''permission_prompt'')
      else case cc_exit_code ctx of
        Some code \<Rightarrow>
          if code = 0
          then Some (observation RunCompleted True 100 ''process exited successfully'' ''exit_zero'')
          else Some (observation RunCrashed True 95 ''process exited with non-zero status'' ''exit_non_zero'')
      | None \<Rightarrow>
          if idle \<and> match_any claude_prompt_reappearance_patterns tail
          then Some (observation RunCompleted True 75 ''prompt reappeared'' ''prompt_reappeared'')
          else None)"

text \<open>\<open>strings.Split (text, ''\n\n'')\<close>: from left to right, non-overlapping.\<close>

fun split_blocks_from :: "string \<Rightarrow> string \<Rightarrow> string list" where
  "split_blocks_from cur [] = [cur]"
| "split_blocks_from cur [c] = [cur @ [c]]"
| "split_blocks_from cur (c # d # s) =
     (if c = nl \<and> d = nl then cur # split_blocks_from [] s
      else split_blocks_from (cur @ [c]) (d # s))"

definition split_blocks :: "string \<Rightarrow> string list" where
  "split_blocks text = split_blocks_from [] text"

definition clean_block :: "string \<Rightarrow> string" where
  "clean_block block =
     trim_space (str_join [nl] (filter (\<lambda>line.
       let trimmed = trim_space line in
       trimmed \<noteq> [] \<and> \<not> has_prefix trimmed ''>'' \<and> \<not> has_prefix trimmed angle_quote \<and>
       \<not> has_prefix trimmed heavy_angle_quote) (lines_of block)))"

text \<open>
  \<open>strings.ToLower\<close>, as far as ASCII text in the result is concerned: the only letters outside
  ASCII that lower to ASCII are U+0130 and the Kelvin sign.
\<close>

fun to_lower :: "string \<Rightarrow> string" where
  "to_lower [] = []"
| "to_lower (c # s) =
     (case s of
        d # t \<Rightarrow>
          if c = CHR 0xC4 \<and> d = CHR 0xB0 then CHR ''i'' # to_lower t
          else (case t of
              e # u \<Rightarrow> if c = CHR 0xE2 \<and> d = CHR 0x84 \<and> e = CHR 0xAA then CHR ''k'' # to_lower u
                else lower_ascii c # to_lower s
            | [] \<Rightarrow> lower_ascii c # to_lower s)
      | [] \<Rightarrow> [lower_ascii c])"

definition looks_like_non_response :: "string \<Rightarrow> bool" where
  "looks_like_non_response block =
     (let lower = to_lower (trim_space block) in
      lower = [] \<or> has_prefix lower ''login'' \<or> str_contains lower ''press enter'' \<or>
      str_contains lower ''permission'' \<or> str_contains lower ''approve'' \<or>
      str_contains lower ''rate limit'' \<or> has_prefix lower ''claude>'')"

definition extraction :: "string \<Rightarrow> confidence \<Rightarrow> string list \<Rightarrow> extraction_result" where
  "extraction response conf notes =
     \<lparr>er_response = response, er_parser_confidence = conf, er_notes = notes\<rparr>"

definition claude_extract_response :: "string \<Rightarrow> string \<Rightarrow> extraction_result" where
  "claude_extract_response raw_transcript normalized =
     (let text = trim_space normalized in
      if text = [] then extraction [] 10 [''empty transcript'']
      else let blocks = split_blocks text in
        case find (\<lambda>b. b \<noteq> [] \<and> \<not> looks_like_non_response b)
               (map (\<lambda>b. trim_space (clean_block b)) (rev blocks)) of
          Some block \<Rightarrow> extraction block (if length blocks > 1 then 80 else 65) []
        | None \<Rightarrow>
           (case find (\<lambda>l. l \<noteq> [] \<and> \<not> looks_like_non_response l)
                   (map trim_space (rev (lines_of text))) of
              Some line \<Rightarrow> extraction line 40 [''fell back to last non-empty line'']
            | None \<Rightarrow> extraction [] 10 [''no extractable response found'']))"

section \<open>Codex\<close>

definition codex_blocked_prompt_patterns :: "regex list" where
  "codex_blocked_prompt_patterns =
     [r_seq [r_words [''approve'', ''deny'', ''allow'', ''decline''], RMany AnyChar, RExact ''?''],
      r_words [''y/n'', ''yes/no'']]"

definition codex_auth_patterns :: "regex list" where
  "codex_auth_patterns =
     [r_words [''log in'', ''login'', ''sign in'', ''authenticate''],
      r_seq [RWordB,
             RAlt (r_alt [''api key'', ''refresh token'', ''expired''])
               (r_seq [RFold ''invalid'', RMany AnyChar, RFold ''token'']),
             RWordB],
      RFold ''codex login'']"

definition codex_rate_limit_patterns :: "regex list" where
  "codex_rate_limit_patterns =
     [r_words [''rate limit'', ''too many requests''],
      r_seq [RWordB, RFold ''error:'', RMany AnyChar, r_words [''limit'', ''quota'', ''exceeded'']]]"

definition codex_response_prefix :: regex where
  "codex_response_prefix = r_seq [RLineStart, RExact ''codex'', RMany SpaceChar, RLineEnd]"

definition token_usage_line :: regex where
  "token_usage_line = r_seq [RLineStart, RExact ''tokens used'', RMany SpaceChar, RLineEnd]"

definition codex_observe :: "completion_context \<Rightarrow> transcript_observation option" where
  "codex_observe ctx =
     (let tail = trim_space (cc_normalized_tail ctx); idle = cc_idle_ms ctx \<ge> 1500 in
      case cc_exit_code ctx of
        Some code \<Rightarrow>
          if code = 0
          then Some (observation RunCompleted True 100 ''process exited successfully'' ''exit_zero'')
          else Some (observation RunCrashed True 95 ''process exited with non-zero status'' ''exit_non_zero'')
      | None \<Rightarrow>
          if idle \<and> match_any codex_auth_patterns tail
          then Some (observation RunAuthRequired True 90 ''authentication prompt detected'' ''auth_prompt'')
          else if idle \<and> match_any codex_rate_limit_patterns tail
          then Some (observation RunRateLimited True 88 ''rate limit detected'' ''rate_limit'')
          else if idle \<and> match_any codex_blocked_prompt_patterns tail
          then Some (observation RunBlockedOnInput True 85 ''interactive prompt detected'' ''blocked_prompt'')
          else None)"

text \<open>
  The backward scan over the lines: the last \<open>tokens used\<close> line seen before the scan meets a
  \<open>codex\<close> line, and that line.
\<close>

fun codex_scan :: "string list \<Rightarrow> nat \<Rightarrow> nat option \<Rightarrow> nat option \<times> nat option" where
  "codex_scan lines 0 tokens = (None, tokens)"
| "codex_scan lines (Suc i) tokens =
     (let trimmed = trim_space (lines ! i);
          tokens' = (if tokens = None \<and> match_string token_usage_line trimmed then Some i else tokens)
      in if match_string codex_response_prefix trimmed then (Some i, tokens')
         else codex_scan lines i tokens')"

definition codex_marked_response :: "string list \<Rightarrow> string" where
  "codex_marked_response lines =
     (case codex_scan lines (length lines) None of
        (None, _) \<Rightarrow> []
      | (Some start, tokens) \<Rightarrow>
          (let stop = (case tokens of Some t \<Rightarrow> if t > start then t else length lines
                                    | None \<Rightarrow> length lines)
           in trim_space (str_join [nl] (drop (start + 1) (take stop lines)))))"

definition codex_extract_response :: "string \<Rightarrow> string \<Rightarrow> extraction_result" where
  "codex_extract_response raw_transcript normalized =
     (let text = trim_space normalized in
      if text = [] then extraction [] 10 [''empty transcript'']
      else let response = codex_marked_response (lines_of text) in
        if response \<noteq> [] then extraction response 90 []
        else case find (\<lambda>p. p \<noteq> []) (map trim_space (rev (split_blocks text))) of
            Some paragraph \<Rightarrow> extraction paragraph 40 [''fell back to last non-empty paragraph'']
          | None \<Rightarrow> extraction [] 10 [''no extractable response found''])"

definition claude_adapter :: "(string \<Rightarrow> string) \<Rightarrow> adapter" where
  "claude_adapter getenv =
     \<lparr>ad_id = ''claude-code'', ad_build_spawn_spec = claude_build_spawn_spec getenv,
      ad_format_prompt = claude_format_prompt, ad_observe = claude_observe,
      ad_extract_response = claude_extract_response\<rparr>"

definition codex_adapter :: "(string \<Rightarrow> string) \<Rightarrow> adapter" where
  "codex_adapter getenv =
     \<lparr>ad_id = ''codex'', ad_build_spawn_spec = codex_build_spawn_spec getenv,
      ad_format_prompt = codex_format_prompt, ad_observe = codex_observe,
      ad_extract_response = codex_extract_response\<rparr>"

section \<open>The matcher is correct\<close>

text \<open>A reference semantics: \<open>rmatch r s i j\<close> when the text from \<open>i\<close> to \<open>j\<close> matches in \<open>s\<close>.\<close>

inductive rmatch :: "regex \<Rightarrow> string \<Rightarrow> nat \<Rightarrow> nat \<Rightarrow> bool" where
  rm_fold: "rmatch (RFold []) s i i"
| rm_fold_Cons: "n \<in> set (fold_lengths c (drop i s)) \<Longrightarrow> rmatch (RFold w) s (i + n) j \<Longrightarrow>
    rmatch (RFold (c # w)) s i j"
| rm_exact: "prefix w (drop i s) \<Longrightarrow> rmatch (RExact w) s i (i + length w)"
| rm_many: "i \<le> j \<Longrightarrow> (\<And>k. i \<le> k \<Longrightarrow> k < j \<Longrightarrow> k < length s \<and> in_class c (s ! k)) \<Longrightarrow>
    rmatch (RMany c) s i j"
| rm_seq: "rmatch r s i k \<Longrightarrow> rmatch q s k j \<Longrightarrow> rmatch (RSeq r q) s i j"
| rm_alt1: "rmatch r s i j \<Longrightarrow> rmatch (RAlt r q) s i j"
| rm_alt2: "rmatch q s i j \<Longrightarrow> rmatch (RAlt r q) s i j"
| rm_word: "word_boundary s i \<Longrightarrow> rmatch RWordB s i i"
| rm_end: "rmatch REndText s (length s) (length s)"
| rm_bol: "i = 0 \<or> (i \<le> length s \<and> s ! (i - 1) = nl) \<Longrightarrow> rmatch RLineStart s i i"
| rm_eol: "i = length s \<or> (i < length s \<and> s ! i = nl) \<Longrightarrow> rmatch RLineEnd s i i"

inductive_simps rmatch_simps:
  "rmatch (RFold []) s i j" "rmatch (RFold (c # w)) s i j" "rmatch (RExact w) s i j"
  "rmatch (RMany c) s i j" "rmatch (RSeq r q) s i j" "rmatch (RAlt r q) s i j"
  "rmatch RWordB s i j" "rmatch REndText s i j" "rmatch RLineStart s i j" "rmatch RLineEnd s i j"

lemma fold_ends_iff: "j \<in> set (fold_ends w s i) \<longleftrightarrow> rmatch (RFold w) s i j"
  by (induction w arbitrary: i) (auto simp: rmatch_simps)

lemma takeWhile_reach:
  "n \<le> length (takeWhile P xs) \<longleftrightarrow> n \<le> length xs \<and> (\<forall>k < n. P (xs ! k))"
proof (induction xs arbitrary: n)
  case (Cons x xs)
  show ?case
  proof (cases n)
    case (Suc m)
    then show ?thesis using Cons [of m] by (auto simp: less_Suc_eq_0_disj)
  qed simp
qed auto

lemma many_iff:
  "j \<in> set (regex_ends (RMany c) s i) \<longleftrightarrow>
     i \<le> j \<and> (\<forall>k. i \<le> k \<and> k < j \<longrightarrow> k < length s \<and> in_class c (s ! k))"
proof (cases "i \<le> j")
  case True
  then obtain n where j: "j = i + n" using le_Suc_ex by blast
  have "j \<in> set (regex_ends (RMany c) s i) \<longleftrightarrow> n \<le> length (takeWhile (in_class c) (drop i s))"
    by (auto simp: j)
  also have "\<dots> \<longleftrightarrow> n \<le> length s - i \<and> (\<forall>k < n. in_class c (drop i s ! k))"
    by (simp add: takeWhile_reach)
  also have "\<dots> \<longleftrightarrow> (\<forall>k < n. i + k < length s \<and> in_class c (s ! (i + k)))"
    by (auto simp: less_diff_conv add.commute intro: leI dest: spec [of _ "length s - i"])
  also have "\<dots> \<longleftrightarrow> (\<forall>k. i \<le> k \<and> k < j \<longrightarrow> k < length s \<and> in_class c (s ! k))"
    by (auto simp: j dest!: le_Suc_ex)
  finally show ?thesis using True by simp
qed simp

lemma regex_ends_iff: "j \<in> set (regex_ends r s i) \<longleftrightarrow> rmatch r s i j"
proof (induction r arbitrary: i j)
  case (RMany c)
  show ?case by (simp only: many_iff rmatch_simps) auto
qed (auto simp: fold_ends_iff rmatch_simps has_prefix_iff)


section \<open>Commands and observations\<close>

text \<open>
  No command line injection through the environment: whatever the variables hold, the
  command that is run has none of the characters a shell would interpret.
\<close>

theorem resolved_command_safe:
  "validate_executable (fst (claude_resolve_command getenv env)) \<and>
   validate_executable (fst (codex_resolve_command getenv env))"
proof -
  have "validate_executable ''claude''" "validate_executable ''codex''" by code_simp+
  then show ?thesis
    by (simp add: claude_resolve_command_def codex_resolve_command_def binary_override_def Let_def)
qed

text \<open>
  The adapters do not end a session early: while the process runs and wrote something
  within the last 1.5 seconds, neither adapter reports anything, whatever the text on the
  screen. For Codex the exit of the process alone decides: status completed for exit code 0
  and crashed otherwise, whatever the text.
\<close>

theorem observe_stable:
  "(cc_exit_code ctx = None \<and> cc_idle_ms ctx < 1500 \<longrightarrow>
      claude_observe ctx = None \<and> codex_observe ctx = None) \<and>
   (\<forall>code. cc_exit_code ctx = Some code \<longrightarrow>
      map_option ob_status (codex_observe ctx) =
        Some (if code = 0 then RunCompleted else RunCrashed))"
  by (auto simp: claude_observe_def codex_observe_def observation_def Let_def)

definition sample_context :: "int option \<Rightarrow> int \<Rightarrow> string \<Rightarrow> completion_context" where
  "sample_context exit_code idle tail =
     \<lparr>cc_raw_tail = tail, cc_normalized_tail = tail, cc_elapsed_ms = 5000, cc_idle_ms = idle,
      cc_exit_code = exit_code, cc_bytes_seen = 10, cc_last_write_ms = 0\<rparr>"

theorem observe_stable_witness:
  "claude_observe (sample_context None 100 ''login'') = None \<and>
   map_option ob_status (codex_observe (sample_context (Some 0) 2000 ''login'')) = Some RunCompleted"
  using observe_stable [of "sample_context None 100 ''login''"]
    observe_stable [of "sample_context (Some 0) 2000 ''login''"]
  by (simp add: sample_context_def)

section \<open>Extraction from a Codex transcript\<close>

lemma codex_scan_skip:
  assumes "\<And>i. k \<le> i \<Longrightarrow> i < n \<Longrightarrow> \<not> match_string codex_response_prefix (trim_space (lines ! i))"
    and "k \<le> n"
    and "\<And>i. k \<le> i \<Longrightarrow> i < n \<Longrightarrow> tokens = None \<Longrightarrow>
      \<not> match_string token_usage_line (trim_space (lines ! i))"
  shows "codex_scan lines n tokens = codex_scan lines k tokens"
  using assms
proof (induction n)
  case (Suc n)
  show ?case
  proof (cases "k = Suc n")
    case False
    then have "codex_scan lines (Suc n) tokens = codex_scan lines n tokens"
      using Suc.prems by (auto simp: Let_def)
    then show ?thesis using Suc False by auto
  qed simp
qed simp

lemma codex_lines_match:
  "match_string codex_response_prefix (trim_space ''codex'')"
  "match_string token_usage_line (trim_space ''tokens used'')"
  "\<not> match_string codex_response_prefix (trim_space ''tokens used'')"
  by code_simp+

lemma codex_marked_response_eq:
  assumes lines: "lines = pre @ ''codex'' # resp @ ''tokens used'' # post"
    and no: "\<And>l. l \<in> set (resp @ post) \<Longrightarrow> \<not> match_string codex_response_prefix (trim_space l)"
    and post: "\<And>l. l \<in> set post \<Longrightarrow> \<not> match_string token_usage_line (trim_space l)"
  shows "codex_marked_response lines = trim_space (str_join [nl] resp)"
proof -
  let ?c = "length pre" and ?t = "length pre + 1 + length resp"
  have nth: "lines ! ?c = ''codex''" "lines ! ?t = ''tokens used''"
    "length lines = ?t + 1 + length post"
    by (simp_all add: lines nth_append)
  have nth_post: "lines ! i \<in> set post" if "Suc ?t \<le> i" "i < length lines" for i
  proof -
    have "lines = (pre @ ''codex'' # resp @ [''tokens used'']) @ post" by (simp add: lines)
    moreover have "length (pre @ ''codex'' # resp @ [''tokens used'']) = Suc ?t" by simp
    ultimately have "lines ! i = post ! (i - Suc ?t)"
      using that by (metis nth_append linorder_not_le)
    then show ?thesis using that nth(3) by auto
  qed
  have nth_resp: "lines ! i \<in> set resp" if "Suc ?c \<le> i" "i < ?t" for i
  proof -
    have "lines = (pre @ [''codex'']) @ resp @ ''tokens used'' # post" by (simp add: lines)
    moreover have "length (pre @ [''codex'']) = Suc ?c" by simp
    ultimately have "lines ! i = (resp @ ''tokens used'' # post) ! (i - Suc ?c)"
      using that by (metis nth_append linorder_not_le)
    moreover have "i - Suc ?c < length resp" using that by linarith
    ultimately show ?thesis by (simp add: nth_append)
  qed
  have "codex_scan lines (length lines) None = codex_scan lines (Suc ?t) None"
    by (rule codex_scan_skip) (use nth(3) nth_post no post in auto)
  also have "\<dots> = codex_scan lines ?t (Some ?t)"
    using nth(2) codex_lines_match by (simp add: Let_def)
  also have "\<dots> = codex_scan lines (Suc ?c) (Some ?t)"
    by (rule codex_scan_skip) (use nth_resp no in auto)
  also have "\<dots> = (Some ?c, Some ?t)"
    using nth(1) codex_lines_match by (simp add: Let_def)
  finally have "codex_scan lines (length lines) None = (Some ?c, Some ?t)" .
  then show ?thesis
    by (simp add: codex_marked_response_def lines)
qed

text \<open>
  Extraction from a Codex transcript: when the last \<open>codex\<close> line is followed by the
  response and the last \<open>tokens used\<close> line, exactly the lines between them are returned,
  trimmed, with confidence 0.9, whatever was printed before and after.
\<close>

theorem codex_extract_marked:
  assumes "lines_of (trim_space text) = pre @ ''codex'' # resp @ ''tokens used'' # post"
    and "\<forall>l \<in> set (resp @ post). \<not> match_string codex_response_prefix (trim_space l)"
    and "\<forall>l \<in> set post. \<not> match_string token_usage_line (trim_space l)"
    and "trim_space (str_join [nl] resp) \<noteq> []"
  shows "codex_extract_response raw text = extraction (trim_space (str_join [nl] resp)) 90 []"
proof -
  have "trim_space text \<noteq> []"
  proof
    assume "trim_space text = []"
    with assms(1) show False by (cases pre) auto
  qed
  moreover have "codex_marked_response (lines_of (trim_space text)) = trim_space (str_join [nl] resp)"
    using codex_marked_response_eq [OF assms(1)] assms(2,3) by blast
  ultimately show ?thesis
    using assms(4) by (simp add: codex_extract_response_def Let_def)
qed

theorem codex_extract_marked_witness:
  "er_response (codex_extract_response [] (''user'' @ [nl] @ ''codex'' @ [nl] @ ''42'' @ [nl]
     @ ''tokens used'' @ [nl] @ ''17'')) = ''42''"
proof -
  have "lines_of (trim_space (''user'' @ [nl] @ ''codex'' @ [nl] @ ''42'' @ [nl] @ ''tokens used''
      @ [nl] @ ''17'')) = [''user''] @ ''codex'' # [''42''] @ ''tokens used'' # [''17'']"
    by code_simp
  moreover have "\<forall>l \<in> set ([''42''] @ [''17'']). \<not> match_string codex_response_prefix (trim_space l)"
    "\<forall>l \<in> set [''17'']. \<not> match_string token_usage_line (trim_space l)"
    "trim_space (str_join [nl] [''42'']) = ''42''"
    by code_simp+
  ultimately have "codex_extract_response [] (''user'' @ [nl] @ ''codex'' @ [nl] @ ''42'' @ [nl]
     @ ''tokens used'' @ [nl] @ ''17'') = extraction (trim_space (str_join [nl] [''42''])) 90 []"
    by (intro codex_extract_marked) (assumption | simp)+
  then show ?thesis
    using \<open>trim_space (str_join [nl] [''42'']) = ''42''\<close> by (simp add: extraction_def)
qed

end
