(* ===== verification/Peers.thy ===== *)
theory Peers
  imports Adapters
begin

text \<open>
  Peer transports: the interface of \<open>src/internal/peer/transport.go\<close> as a locale, the scripted
  transport of \<open>src/internal/peer/mock\<close>, the local terminal transport of
  \<open>src/internal/peer/provider/provider.go\<close> on top of the persistent process, and the resolution
  of a peer specification to a command in \<open>spawner.go\<close>.
\<close>

section \<open>Resolving a peer to a command\<close>

definition allowed_env_keys :: "string list" where
  "allowed_env_keys = [''ANTHROPIC_API_KEY'', ''OPENAI_API_KEY'', ''MOCK_RESPONSE'',
     ''MOCK_SENTINEL_AT_TURN'', ''MOCK_DELAY_MS'']"

definition env_option :: "string \<times> string \<Rightarrow> str_map \<Rightarrow> str_map" where
  "env_option kv env =
     (let key = trim_prefix (fst kv) ''env_'' in
      if has_prefix (fst kv) ''env_'' \<and> key \<in> set allowed_env_keys
      then map_put key (snd kv) env else env)"

definition build_peer_env :: "str_map \<Rightarrow> str_map" where
  "build_peer_env options =
     (let env = fold env_option options [];
          m = map_get options ''model'';
          env = (if m \<noteq> [] then map_put ''VITIS_MODEL'' m env else env);
          re = map_get options ''reasoning-effort''
      in if re \<noteq> [] then map_put ''VITIS_REASONING_EFFORT'' re env else env)"

text \<open>
  The working directory and the environment of the process are parameters, and so are the
  adapters that a test binary registers.
\<close>

definition build_persistent_spawn_spec ::
    "(string \<Rightarrow> string) \<Rightarrow> string \<Rightarrow> (string \<Rightarrow> (str_map \<Rightarrow> adapter) option) \<Rightarrow> peer_spec
      \<Rightarrow> spawn_spec result" where
  "build_persistent_spawn_spec getenv getwd test_factories spec =
     (if \<not> has_prefix (ps_uri spec) ''provider:''
      then Inl (ErrMsg (''provider transport: unsupported URI scheme: '' @ ps_uri spec))
      else let pid = trim_prefix (ps_uri spec) ''provider:'';
               cwd_opt = map_get (ps_options spec) ''cwd'';
               cwd = (if cwd_opt = [] then getwd else cwd_opt);
               home_opt = map_get (ps_options spec) ''home'';
               home_dir = (if home_opt = [] then getenv ''HOME'' else home_opt);
               env = build_peer_env (ps_options spec)
           in if pid = ''claude-code'' \<or> pid = ''claudecode''
              then Inr (claude_build_spawn_spec getenv cwd env home_dir 80 24 [])
              else if pid = ''codex'' then
                Inr \<lparr>ss_command = fst (codex_resolve_command getenv env),
                     ss_args = opt_args ''--model'' (map_get env ''VITIS_MODEL'')
                       @ opt_args ''--reasoning-effort'' (map_get env ''VITIS_REASONING_EFFORT''),
                     ss_env = env, ss_cwd = cwd, ss_home_dir = home_dir, ss_terminal_cols = 80,
                     ss_terminal_rows = 24, ss_prompt_in_args = False\<rparr>
              else case test_factories pid of
                  Some factory \<Rightarrow>
                    Inr (ad_build_spawn_spec (factory (ps_options spec)) cwd env home_dir 80 24 [])
                | None \<Rightarrow> Inl (ErrMsg (''provider transport: unknown provider '' @ go_quote pid)))"

definition terminal_spawner ::
    "(spawn_spec \<Rightarrow> go_error option) \<Rightarrow> (string \<Rightarrow> string) \<Rightarrow> string
      \<Rightarrow> (string \<Rightarrow> (str_map \<Rightarrow> adapter) option) \<Rightarrow> peer_spec \<Rightarrow> spawn_spec result" where
  "terminal_spawner spawn getenv getwd test_factories spec =
     (case build_persistent_spawn_spec getenv getwd test_factories spec of
        Inl e \<Rightarrow> Inl e
      | Inr sspec \<Rightarrow>
          (let sspec' = sspec\<lparr>ss_prompt_in_args := False\<rparr> in
           case spawn sspec' of
             Some e \<Rightarrow> Inl (ErrWrap (''spawn pty for '' @ ps_uri spec @ '': '') e)
           | None \<Rightarrow> Inr sspec'))"

text \<open>
  \<open>resolveAdapter\<close>, the other way from a specification to a provider: it accepts the same
  specifications and fails with the same errors, and what is spawned is the resolved adapter's own
  command, except for Codex, which is started without its one-shot subcommand.
\<close>

definition resolve_adapter ::
    "(string \<Rightarrow> string) \<Rightarrow> (string \<Rightarrow> (str_map \<Rightarrow> adapter) option) \<Rightarrow> peer_spec \<Rightarrow> adapter result" where
  "resolve_adapter getenv test_factories spec =
     (if \<not> has_prefix (ps_uri spec) ''provider:''
      then Inl (ErrMsg (''provider transport: unsupported URI scheme: '' @ ps_uri spec))
      else let pid = trim_prefix (ps_uri spec) ''provider:''
           in if pid = ''claude-code'' \<or> pid = ''claudecode'' then Inr (claude_adapter getenv)
              else if pid = ''codex'' then Inr (codex_adapter getenv)
              else case test_factories pid of
                  Some factory \<Rightarrow> Inr (factory (ps_options spec))
                | None \<Rightarrow> Inl (ErrMsg (''provider transport: unknown provider '' @ go_quote pid)))"

lemma resolve_adapter_error:
  "resolve_adapter getenv factories spec = Inl e \<longleftrightarrow> build_persistent_spawn_spec getenv getwd factories spec = Inl e"
  unfolding resolve_adapter_def build_persistent_spawn_spec_def Let_def by (simp split: if_split option.split)

lemma spawned_adapter:
  assumes "resolve_adapter getenv factories spec = Inr ad" "trim_prefix (ps_uri spec) ''provider:'' \<noteq> ''codex''"
  shows "build_persistent_spawn_spec getenv getwd factories spec = Inr (ad_build_spawn_spec ad
    (if map_get (ps_options spec) ''cwd'' = [] then getwd else map_get (ps_options spec) ''cwd'')
    (build_peer_env (ps_options spec))
    (if map_get (ps_options spec) ''home'' = [] then getenv ''HOME'' else map_get (ps_options spec) ''home'') 80 24 [])"
  using assms unfolding resolve_adapter_def build_persistent_spawn_spec_def Let_def
  by (auto simp: claude_adapter_def split: if_split_asm option.splits)

section \<open>The scripted transport\<close>

record mock_transport =
  mt_responses :: "string list"
  mt_err :: "go_error option"
  mt_start_err :: "go_error option"
  mt_delivered :: nat
  mt_started :: bool
  mt_stopped :: bool
  mt_stop_calls :: int
  mt_conversation_id :: string
  mt_slot :: peer_slot
  mt_envelope_history :: "envelope list"

definition new_mock :: "string list \<Rightarrow> go_error option \<Rightarrow> go_error option \<Rightarrow> mock_transport" where
  "new_mock responses err start_err =
     \<lparr>mt_responses = responses, mt_err = err, mt_start_err = start_err, mt_delivered = 0,
      mt_started = False, mt_stopped = False, mt_stop_calls = 0, mt_conversation_id = [],
      mt_slot = [], mt_envelope_history = []\<rparr>"

definition mock_start :: "string \<Rightarrow> peer_slot \<Rightarrow> mock_transport \<Rightarrow> go_error option \<times> mock_transport"
  where
  "mock_start cid slot p =
     (case mt_start_err p of
        Some e \<Rightarrow> (Some e, p)
      | None \<Rightarrow>
          if mt_started p then (Some (ErrMsg ''mock peer: already started''), p)
          else (None, p\<lparr>mt_started := True, mt_conversation_id := cid, mt_slot := slot\<rparr>))"

text \<open>The turn a scripted peer answers with.\<close>

definition mock_turn :: "go_time \<Rightarrow> envelope \<Rightarrow> string \<Rightarrow> mock_transport \<Rightarrow> conversation_turn" where
  "mock_turn now env resp p =
     zero_conversation_turn\<lparr>ct_conversation_id := mt_conversation_id p, ct_index := env_turn_index env,
       ct_from := mt_slot p, ct_envelope := env_body env, ct_response := resp,
       ct_marker_token := env_marker_token env, ct_started_at := now, ct_ended_at := now,
       ct_completion_confidence := 100, ct_parser_confidence := 100\<rparr>"

text \<open>\<open>deliverLocked\<close>; \<open>Inr None\<close> when the script is exhausted.\<close>

definition mock_deliver_locked ::
    "go_time \<Rightarrow> envelope \<Rightarrow> mock_transport \<Rightarrow> conversation_turn option result \<times> mock_transport" where
  "mock_deliver_locked now env p =
     (if \<not> mt_started p then (Inl (ErrMsg ''mock peer: deliver before start''), p)
      else if mt_stopped p then (Inl (ErrMsg ''mock peer: deliver after stop''), p)
      else case mt_err p of
        Some e \<Rightarrow> (Inl e, p\<lparr>mt_err := None\<rparr>)
      | None \<Rightarrow>
          if length (mt_responses p) \<le> mt_delivered p then (Inr None, p)
          else (Inr (Some (mock_turn now env (mt_responses p ! mt_delivered p) p)),
                p\<lparr>mt_delivered := mt_delivered p + 1,
                  mt_envelope_history := mt_envelope_history p @ [env]\<rparr>))"

text \<open>
  \<open>Deliver\<close>: \<open>ctx_err\<close> is the error of a context that is done already, \<open>ctx_end\<close> the error the
  context ends with later, which an exhausted script waits for.
\<close>

definition mock_deliver ::
    "go_error option \<Rightarrow> go_error \<Rightarrow> go_time \<Rightarrow> envelope \<Rightarrow> mock_transport
      \<Rightarrow> conversation_turn result \<times> mock_transport" where
  "mock_deliver ctx_err ctx_end now env p =
     (case ctx_err of
        Some e \<Rightarrow> (Inl e, p)
      | None \<Rightarrow>
         (case mock_deliver_locked now env p of
            (Inl e, p') \<Rightarrow> (Inl e, p')
          | (Inr None, p') \<Rightarrow> (Inl ctx_end, p')
          | (Inr (Some turn), p') \<Rightarrow> (Inr turn, p')))"

definition mock_stop :: "mock_transport \<Rightarrow> mock_transport" where
  "mock_stop p = p\<lparr>mt_stopped := True, mt_stop_calls := mt_stop_calls p + 1\<rparr>"

section \<open>The terminal transport\<close>

record provider_transport =
  pt_per_turn_timeout :: duration
  pt_process :: "persistent_process option"
  pt_conversation_id :: string
  pt_slot :: peer_slot

definition new_provider :: "duration \<Rightarrow> provider_transport" where
  "new_provider timeout =
     \<lparr>pt_per_turn_timeout = (if timeout \<le> 0 then 300000000000 else timeout), pt_process = None,
      pt_conversation_id = [], pt_slot = []\<rparr>"

definition provider_start ::
    "(peer_spec \<Rightarrow> spawn_spec result) \<Rightarrow> peer_spec \<Rightarrow> string \<Rightarrow> peer_slot \<Rightarrow> provider_transport
      \<Rightarrow> go_error option \<times> provider_transport" where
  "provider_start spawner spec cid slot t =
     (if pt_process t \<noteq> None then (Some (ErrMsg ''provider transport: already started''), t)
      else case spawner spec of
        Inl e \<Rightarrow> (Some (ErrWrap (''spawn peer '' @ slot @ '': '') e), t)
      | Inr _ \<Rightarrow> (None, t\<lparr>pt_process := Some new_persistent_process, pt_conversation_id := cid,
                         pt_slot := slot\<rparr>))"

text \<open>\<open>None\<close> when \<open>ConverseTurn\<close> is still waiting after the listed wake-ups.\<close>

definition provider_deliver ::
    "(string \<Rightarrow> go_error option) \<Rightarrow> wake_event list list \<Rightarrow> go_error option \<Rightarrow> go_time \<Rightarrow> go_time
      \<Rightarrow> envelope \<Rightarrow> provider_transport \<Rightarrow> conversation_turn result option \<times> provider_transport" where
  "provider_deliver wr wakes ctx_err started_at ended_at env t =
     (case pt_process t of
        None \<Rightarrow> (Some (Inl (ErrMsg ''provider transport: deliver before start'')), t)
      | Some pp \<Rightarrow>
         (case converse_turn wr (env_body env) (env_marker_token env) (pt_per_turn_timeout t)
                 wakes ctx_err pp of
            (None, pp') \<Rightarrow> (None, t\<lparr>pt_process := Some pp'\<rparr>)
          | (Some (Inl e), pp') \<Rightarrow> (Some (Inl e), t\<lparr>pt_process := Some pp'\<rparr>)
          | (Some (Inr resp), pp') \<Rightarrow>
              (Some (Inr (zero_conversation_turn\<lparr>ct_conversation_id := pt_conversation_id t,
                 ct_index := env_turn_index env, ct_from := pt_slot t, ct_envelope := env_body env,
                 ct_response := normalize_pty_text resp, ct_marker_token := env_marker_token env,
                 ct_started_at := started_at, ct_ended_at := ended_at,
                 ct_completion_confidence := 95, ct_parser_confidence := 95\<rparr>)),
               t\<lparr>pt_process := Some pp'\<rparr>)))"

text \<open>\<open>Stop\<close> returns the argument of \<open>Terminate\<close>, if the process is told to terminate.\<close>

definition provider_stop :: "duration \<Rightarrow> provider_transport \<Rightarrow> int option \<times> provider_transport" where
  "provider_stop grace t =
     (case pt_process t of
        None \<Rightarrow> (None, t)
      | Some pp \<Rightarrow> (fst (persistent_close grace pp), t\<lparr>pt_process := None\<rparr>))"

section \<open>What the broker relies on\<close>

text \<open>
  A transport that was started for a conversation and a slot answers every envelope, if it
  answers, with a turn of that conversation and slot that mirrors the envelope.
\<close>

definition mirrors :: "string \<Rightarrow> peer_slot \<Rightarrow> envelope \<Rightarrow> conversation_turn \<Rightarrow> bool" where
  "mirrors cid slot env t \<longleftrightarrow>
     ct_conversation_id t = cid \<and> ct_from t = slot \<and> ct_index t = env_turn_index env \<and>
     ct_envelope t = env_body env \<and> ct_marker_token t = env_marker_token env"

locale peer_transport =
  fixes start :: "string \<Rightarrow> peer_slot \<Rightarrow> 'p \<Rightarrow> go_error option \<times> 'p"
    and deliver :: "envelope \<Rightarrow> 'p \<Rightarrow> conversation_turn result option \<times> 'p"
    and stop :: "'p \<Rightarrow> 'p"
    and identity :: "'p \<Rightarrow> (string \<times> peer_slot) option"
  assumes start_identity: "start cid slot p = (None, p') \<Longrightarrow> identity p' = Some (cid, slot)"
    and start_failed: "start cid slot p = (Some e, p') \<Longrightarrow> p' = p"
    and deliver_mirrors: "deliver env p = (Some (Inr t), p') \<Longrightarrow>
      \<exists>cid slot. identity p = Some (cid, slot) \<and> mirrors cid slot env t"
    and deliver_identity: "identity (snd (deliver env p)) = identity p"
    and deliver_stopped: "deliver env (stop p) = (r, p') \<Longrightarrow> \<exists>e. r = Some (Inl e)"
begin

text \<open>A started peer answers a sequence of envelopes with the matching turns.\<close>

fun deliver_all :: "envelope list \<Rightarrow> 'p \<Rightarrow> conversation_turn list \<times> 'p" where
  "deliver_all [] p = ([], p)"
| "deliver_all (env # envs) p =
     (case deliver env p of
        (Some (Inr t), p') \<Rightarrow> (case deliver_all envs p' of (ts, p'') \<Rightarrow> (t # ts, p''))
      | (_, p') \<Rightarrow> ([], p'))"

lemma deliver_all_mirrors:
  "identity p = Some (cid, slot) \<Longrightarrow>
     list_all2 (mirrors cid slot) (take (length (fst (deliver_all envs p))) envs)
       (fst (deliver_all envs p)) \<and> identity (snd (deliver_all envs p)) = Some (cid, slot)"
proof (induction envs arbitrary: p)
  case (Cons env envs)
  obtain r p' where d: "deliver env p = (r, p')" by fastforce
  then have "identity p' = Some (cid, slot)"
    using deliver_identity [of env p] Cons.prems by simp
  with Cons.prems d Cons.IH [of p'] show ?case
    using deliver_mirrors [of env p]
    by (auto split: option.splits sum.splits prod.splits)
qed simp

lemma started_deliver_all:
  assumes "start cid slot p = (None, p')"
  shows "list_all2 (mirrors cid slot) (take (length (fst (deliver_all envs p'))) envs)
    (fst (deliver_all envs p'))"
  using deliver_all_mirrors [OF start_identity [OF assms]] by blast

end

definition mock_identity :: "mock_transport \<Rightarrow> (string \<times> peer_slot) option" where
  "mock_identity p = (if mt_started p then Some (mt_conversation_id p, mt_slot p) else None)"

definition mock_deliver_total ::
    "go_error \<Rightarrow> go_time \<Rightarrow> envelope \<Rightarrow> mock_transport \<Rightarrow> conversation_turn result option \<times> mock_transport"
  where "mock_deliver_total ctx_end now env p = map_prod Some (\<lambda>x. x) (mock_deliver None ctx_end now env p)"

lemmas mock_defs = mock_deliver_total_def mock_deliver_def mock_deliver_locked_def mock_turn_def
  mock_identity_def mock_start_def mock_stop_def

interpretation mock: peer_transport mock_start "mock_deliver_total ctx_end now" mock_stop mock_identity
  for ctx_end now
  by unfold_locales
     (auto simp: mock_defs mirrors_def split: option.splits if_splits)

definition provider_identity :: "provider_transport \<Rightarrow> (string \<times> peer_slot) option" where
  "provider_identity t =
     (if pt_process t = None then None else Some (pt_conversation_id t, pt_slot t))"

lemmas provider_defs = provider_start_def provider_deliver_def provider_stop_def provider_identity_def

interpretation provider: peer_transport "provider_start spawner spec"
  "provider_deliver wr wakes ctx_err started_at ended_at" "\<lambda>t. snd (provider_stop grace t)"
  provider_identity
  for spawner spec wr wakes ctx_err started_at ended_at grace
  by unfold_locales
     (auto simp: provider_defs mirrors_def split: option.splits sum.splits prod.splits if_splits)

section \<open>Properties\<close>

lemma env_option_keys:
  assumes "set (map fst env) \<subseteq> set allowed_env_keys"
  shows "set (map fst (env_option kv env)) \<subseteq> set allowed_env_keys"
  using assms by (simp add: env_option_def Let_def keys_map_put del: set_map)

lemma fold_env_option_keys:
  "set (map fst env) \<subseteq> set allowed_env_keys \<Longrightarrow>
     set (map fst (fold env_option opts env)) \<subseteq> set allowed_env_keys"
proof (induction opts arbitrary: env)
  case (Cons kv opts)
  show ?case using Cons.IH [OF env_option_keys [OF Cons.prems]] by simp
qed simp

text \<open>An envelope for the concrete instances.\<close>

definition env0 :: envelope where
  "env0 = build_envelope_turn_n (zero_conversation\<lparr>conv_id := ''c''\<rparr>) 2 ''b'' ''hello'' ''MM''"

text \<open>
  The environment of a spawned peer is closed: whatever options a peer is given, only the
  allow-listed keys and the two keys for model and reasoning effort reach the process, so for
  instance \<open>LD_PRELOAD\<close> or \<open>VITIS_CLAUDE_ARGS\<close> cannot be injected.
\<close>

theorem peer_env_allowed:
  "set (map fst (build_peer_env options)) \<subseteq>
     set allowed_env_keys \<union> {''VITIS_MODEL'', ''VITIS_REASONING_EFFORT''}"
proof -
  have "set (map fst (fold env_option options [])) \<subseteq> set allowed_env_keys"
    by (rule fold_env_option_keys) simp
  then show ?thesis
    by (auto simp add: build_peer_env_def Let_def keys_map_put simp del: set_map)
qed

text \<open>
  A spawned peer never gets a prompt on its command line: whatever the provider, the
  process the spawner starts is interactive, and for Codex the command line holds neither the
  one-shot subcommand nor a prompt.
\<close>

theorem spawner_interactive:
  assumes "terminal_spawner spawn getenv getwd factories spec = Inr sspec"
  shows "\<not> ss_prompt_in_args sspec \<and>
    (ps_uri spec = ''provider:codex'' \<longrightarrow>
       ''exec'' \<notin> set (ss_args sspec) \<or> map_get (ps_options spec) ''model'' = ''exec''
         \<or> map_get (ps_options spec) ''reasoning-effort'' = ''exec'')"
proof -
  have env: "map_get (build_peer_env opts) ''VITIS_MODEL'' = map_get opts ''model''"
    "map_get (build_peer_env opts) ''VITIS_REASONING_EFFORT'' = map_get opts ''reasoning-effort''" for opts
  proof -
    have "map_of (fold env_option opts []) k = None" if "k \<notin> set allowed_env_keys" for k
      using fold_env_option_keys [of "[]" opts] that by (auto simp: map_of_eq_None_iff)
    then have "map_get (fold env_option opts []) ''VITIS_MODEL'' = []"
      "map_get (fold env_option opts []) ''VITIS_REASONING_EFFORT'' = []"
      by (simp_all add: map_get_def allowed_env_keys_def)
    then show "map_get (build_peer_env opts) ''VITIS_MODEL'' = map_get opts ''model''"
      "map_get (build_peer_env opts) ''VITIS_REASONING_EFFORT'' = map_get opts ''reasoning-effort''"
      by (auto simp: build_peer_env_def Let_def map_get_map_put)
  qed
  show ?thesis
    using assms
    by (auto simp: terminal_spawner_def build_persistent_spawn_spec_def Let_def trim_prefix_def
        opt_args_def env has_prefix_def split: sum.splits if_splits option.splits)
qed

theorem spawner_interactive_witness:
  "\<exists>sspec. terminal_spawner (\<lambda>_. None) (\<lambda>_. []) ''/tmp'' (\<lambda>_. None)
     \<lparr>ps_uri = ''provider:codex'', ps_options = []\<rparr> = Inr sspec \<and> ''exec'' \<notin> set (ss_args sspec)"
proof -
  obtain sspec where s: "terminal_spawner (\<lambda>_. None) (\<lambda>_. []) ''/tmp'' (\<lambda>_. None)
      \<lparr>ps_uri = ''provider:codex'', ps_options = []\<rparr> = Inr sspec"
    by (simp add: terminal_spawner_def build_persistent_spawn_spec_def Let_def trim_prefix_def
        has_prefix_def)
  from spawner_interactive [OF s] s show ?thesis
    by (simp add: map_get_def)
qed

text \<open>
  Turns mirror envelopes: a scripted peer that was started for a conversation and a slot
  answers a sequence of envelopes, as far as it answers, in order and each with a turn of that
  conversation and slot that repeats the envelope's index, body and marker.
\<close>

theorem mock_turns_mirror:
  assumes "mock_start cid slot p = (None, p')"
  shows "list_all2 (mirrors cid slot)
    (take (length (fst (mock.deliver_all ctx_end now envs p'))) envs)
    (fst (mock.deliver_all ctx_end now envs p'))"
  by (rule mock.started_deliver_all [OF assms])

theorem mock_turns_mirror_witness:
  "fst (mock_start ''c'' ''a'' (new_mock [''hi''] None None)) = None \<and>
   list_all2 (mirrors ''c'' ''a'')
     (take (length (fst (mock.deliver_all ErrCanceled 7 [env0, env0]
        (snd (mock_start ''c'' ''a'' (new_mock [''hi''] None None)))))) [env0, env0])
     (fst (mock.deliver_all ErrCanceled 7 [env0, env0]
        (snd (mock_start ''c'' ''a'' (new_mock [''hi''] None None)))))"
proof -
  have s: "mock_start ''c'' ''a'' (new_mock [''hi''] None None) =
      (None, snd (mock_start ''c'' ''a'' (new_mock [''hi''] None None)))"
    by (simp add: mock_start_def new_mock_def)
  then have "fst (mock_start ''c'' ''a'' (new_mock [''hi''] None None)) = None"
    by (metis fst_conv)
  then show ?thesis using mock_turns_mirror [OF s] by (intro conjI)
qed

text \<open>
  The same for the terminal transport: a delivered turn carries the conversation and slot
  of the start, mirrors the envelope, and its response is normalised text; before the start
  and after the stop every delivery fails.
\<close>

theorem provider_delivers:
  assumes "provider_deliver wr wakes ctx_err t0 t1 env t = (Some (Inr turn), t')"
  shows "mirrors (pt_conversation_id t) (pt_slot t) env turn \<and>
    normalize_pty_text (ct_response turn) = ct_response turn \<and>
    (\<exists>e. fst (provider_deliver wr wakes ctx_err t0 t1 env (snd (provider_stop grace t'))) = Some (Inl e))"
proof -
  have "\<exists>resp. ct_response turn = normalize_pty_text resp"
    using assms by (auto simp: provider_deliver_def split: option.splits prod.splits sum.splits)
  then have "normalize_pty_text (ct_response turn) = ct_response turn"
    using normalize_loop_kept normalize_loop_id by (auto simp: normalize_pty_text_loop)
  moreover have "mirrors (pt_conversation_id t) (pt_slot t) env turn"
    using provider.deliver_mirrors [OF assms] by (auto simp: provider_identity_def split: if_splits)
  moreover have "\<exists>e. fst (provider_deliver wr wakes ctx_err t0 t1 env (snd (provider_stop grace t'))) =
      Some (Inl e)"
    using provider.deliver_stopped [of wr wakes ctx_err t0 t1 env grace t'] by (metis prod.collapse)
  ultimately show ?thesis by blast
qed

theorem provider_delivers_witness:
  "\<exists>turn t'. provider_deliver (\<lambda>_. None) [[WakePump (PumpChunk (''ok'' @ [nl] @ ''MM''))]] None 1 2 env0
      ((new_provider 1000)\<lparr>pt_process := Some new_persistent_process, pt_conversation_id := ''c'',
         pt_slot := ''a''\<rparr>) = (Some (Inr turn), t') \<and> mirrors ''c'' ''a'' env0 turn"
proof -
  let ?t = "(new_provider 1000)\<lparr>pt_process := Some new_persistent_process, pt_conversation_id := ''c'',
         pt_slot := ''a''\<rparr>"
  have "fst (converse_turn (\<lambda>_. None) ''x'' ''MM'' 1000 [[WakePump (PumpChunk (''ok'' @ [nl] @ ''MM''))]]
      None new_persistent_process) = Some (Inr (''ok'' @ [nl]))"
    by code_simp
  then have "fst (converse_turn (\<lambda>_. None) (env_body env0) (env_marker_token env0) 1000
      [[WakePump (PumpChunk (''ok'' @ [nl] @ ''MM''))]] None new_persistent_process) = Some (Inr (''ok'' @ [nl]))"
    by (simp add: converse_turn_def env0_def build_envelope_turn_n_def)
  then obtain pp where "converse_turn (\<lambda>_. None) (env_body env0) (env_marker_token env0) 1000
      [[WakePump (PumpChunk (''ok'' @ [nl] @ ''MM''))]] None new_persistent_process =
      (Some (Inr (''ok'' @ [nl])), pp)"
    by (metis prod.collapse)
  then obtain turn t' where
    d: "provider_deliver (\<lambda>_. None) [[WakePump (PumpChunk (''ok'' @ [nl] @ ''MM''))]] None 1 2 env0 ?t =
      (Some (Inr turn), t')"
    by (simp add: provider_deliver_def new_provider_def)
  from provider_delivers [OF d] d show ?thesis by (simp add: new_provider_def)
qed

end
