(* ===== verification/Wire.thy ===== *)
theory Wire
  imports Policy
begin

text \<open>
  The JSON documents that cross the bus and the disk.  A document is a tree; \<open>encoding/json\<close>
  writes a tree as text and reads the same tree back, except that it replaces invalid UTF-8
  in strings, which \<open>JStr (to_valid_utf8 s)\<close> expresses at the point where a string enters
  a document.  Fields tagged \<open>omitempty\<close> are left out when they hold the zero value, and a
  missing field decodes to the zero value.  A \<open>time.Time\<close> outside the years 0 to 9999 cannot
  be encoded.
\<close>

datatype json =
    JNull
  | JBool bool
  | JNum int
  | JConf confidence
  | JTime go_time
  | JStr string
  | JArr "json list"
  | JObj "(string \<times> json) list"

definition json_time_ok :: "go_time \<Rightarrow> bool" where
  "json_time_ok t \<longleftrightarrow> -31622400000000000 \<le> t \<and> t < 315537897600000000000"

definition json_time_error :: go_error where
  "json_time_error = ErrMsg (''json: error calling MarshalJSON for type time.Time: ''
     @ ''Time.MarshalJSON: year outside of range [0,9999]'')"

definition jstr :: "string \<Rightarrow> json" where
  "jstr s = JStr (to_valid_utf8 s)"

text \<open>Optional fields of an object.\<close>

definition omit_str :: "string \<Rightarrow> string \<Rightarrow> (string \<times> json) list" where
  "omit_str k s = (if s = [] then [] else [(k, jstr s)])"

definition omit_none :: "string \<Rightarrow> ('a \<Rightarrow> json) \<Rightarrow> 'a option \<Rightarrow> (string \<times> json) list" where
  "omit_none k f v = (case v of None \<Rightarrow> [] | Some x \<Rightarrow> [(k, f x)])"

definition omit_false :: "string \<Rightarrow> bool \<Rightarrow> (string \<times> json) list" where
  "omit_false k b = (if b then [(k, JBool True)] else [])"

definition omit_nil :: "string \<Rightarrow> ('a \<Rightarrow> json) \<Rightarrow> 'a list \<Rightarrow> (string \<times> json) list" where
  "omit_nil k f xs = (if xs = [] then [] else [(k, JArr (map f xs))])"

text \<open>Decoding of one field; \<open>None\<close> is a type mismatch.\<close>

fun obj_fields :: "json \<Rightarrow> (string \<times> json) list option" where
  "obj_fields (JObj fs) = Some fs"
| "obj_fields JNull = Some []"
| "obj_fields _ = None"

definition get_str :: "(string \<times> json) list \<Rightarrow> string \<Rightarrow> string option" where
  "get_str fs k = (case map_of fs k of
     None \<Rightarrow> Some [] | Some JNull \<Rightarrow> Some [] | Some (JStr s) \<Rightarrow> Some s | Some _ \<Rightarrow> None)"

definition get_opt_str :: "(string \<times> json) list \<Rightarrow> string \<Rightarrow> string option option" where
  "get_opt_str fs k = (case map_of fs k of
     None \<Rightarrow> Some None | Some JNull \<Rightarrow> Some None | Some (JStr s) \<Rightarrow> Some (Some s)
   | Some _ \<Rightarrow> None)"

definition get_int :: "(string \<times> json) list \<Rightarrow> string \<Rightarrow> int option" where
  "get_int fs k = (case map_of fs k of
     None \<Rightarrow> Some 0 | Some JNull \<Rightarrow> Some 0 | Some (JNum i) \<Rightarrow> Some i | Some _ \<Rightarrow> None)"

definition get_conf :: "(string \<times> json) list \<Rightarrow> string \<Rightarrow> confidence option" where
  "get_conf fs k = (case map_of fs k of
     None \<Rightarrow> Some 0 | Some JNull \<Rightarrow> Some 0 | Some (JConf i) \<Rightarrow> Some i | Some _ \<Rightarrow> None)"

definition get_time :: "(string \<times> json) list \<Rightarrow> string \<Rightarrow> go_time option" where
  "get_time fs k = (case map_of fs k of
     None \<Rightarrow> Some 0 | Some JNull \<Rightarrow> Some 0 | Some (JTime i) \<Rightarrow> Some i | Some _ \<Rightarrow> None)"

definition get_bool :: "(string \<times> json) list \<Rightarrow> string \<Rightarrow> bool option" where
  "get_bool fs k = (case map_of fs k of
     None \<Rightarrow> Some False | Some JNull \<Rightarrow> Some False | Some (JBool b) \<Rightarrow> Some b | Some _ \<Rightarrow> None)"

fun un_str :: "json \<Rightarrow> string option" where
  "un_str (JStr s) = Some s"
| "un_str JNull = Some []"
| "un_str _ = None"

definition get_strs :: "(string \<times> json) list \<Rightarrow> string \<Rightarrow> string list option" where
  "get_strs fs k = (case map_of fs k of
     None \<Rightarrow> Some [] | Some JNull \<Rightarrow> Some [] | Some (JArr js) \<Rightarrow> those (map un_str js)
   | Some _ \<Rightarrow> None)"

lemmas get_defs [wire_simps] =
  get_str_def get_opt_str_def get_int_def get_conf_def get_time_def get_bool_def get_strs_def

lemmas omit_defs [wire_simps] =
  omit_str_def omit_none_def omit_false_def omit_nil_def jstr_def

lemma map_of_append_wire [wire_simps]:
  "map_of (xs @ ys) k = (case map_of xs k of None \<Rightarrow> map_of ys k | Some v \<Rightarrow> Some v)"
  by (simp add: map_add_def split: option.splits)

lemma those_un_str_jstr [simp]: "those (map (un_str \<circ> jstr) xs) = Some (map to_valid_utf8 xs)"
  by (induction xs) (auto simp: jstr_def)

section \<open>Conversation turns\<close>

definition turn_fields :: "conversation_turn \<Rightarrow> (string \<times> json) list" where
  "turn_fields t =
     [(''conversation_id'', jstr (ct_conversation_id t)), (''index'', JNum (ct_index t)),
      (''from'', jstr (ct_from t))]
     @ omit_str ''from_id'' (ct_from_id t)
     @ omit_str ''to_id'' (ct_to_id t)
     @ omit_str ''reason'' (ct_reason t)
     @ omit_none ''next_id_parsed'' jstr (ct_next_id_parsed t)
     @ omit_false ''fallback_used'' (ct_fallback_used t)
     @ [(''envelope'', jstr (ct_envelope t)), (''response'', jstr (ct_response t)),
        (''marker_token'', jstr (ct_marker_token t)), (''started_at'', JTime (ct_started_at t)),
        (''ended_at'', JTime (ct_ended_at t)),
        (''completion_confidence'', JConf (ct_completion_confidence t)),
        (''parser_confidence'', JConf (ct_parser_confidence t))]
     @ omit_nil ''warnings'' jstr (ct_warnings t)"

text \<open>The same fields before invalid bytes are replaced, as the text of a turn is made from them.\<close>

definition omit_raw :: "string \<Rightarrow> string \<Rightarrow> (string \<times> json) list" where
  "omit_raw k s = (if s = [] then [] else [(k, JStr s)])"

definition raw_turn_fields :: "conversation_turn \<Rightarrow> (string \<times> json) list" where
  "raw_turn_fields t =
     [(''conversation_id'', JStr (ct_conversation_id t)), (''index'', JNum (ct_index t)),
      (''from'', JStr (ct_from t))]
     @ omit_raw ''from_id'' (ct_from_id t)
     @ omit_raw ''to_id'' (ct_to_id t)
     @ omit_raw ''reason'' (ct_reason t)
     @ omit_none ''next_id_parsed'' JStr (ct_next_id_parsed t)
     @ omit_false ''fallback_used'' (ct_fallback_used t)
     @ [(''envelope'', JStr (ct_envelope t)), (''response'', JStr (ct_response t)),
        (''marker_token'', JStr (ct_marker_token t)), (''started_at'', JTime (ct_started_at t)),
        (''ended_at'', JTime (ct_ended_at t)),
        (''completion_confidence'', JConf (ct_completion_confidence t)),
        (''parser_confidence'', JConf (ct_parser_confidence t))]
     @ omit_nil ''warnings'' JStr (ct_warnings t)"

definition marshal_turn :: "conversation_turn \<Rightarrow> json result" where
  "marshal_turn t =
     (if json_time_ok (ct_started_at t) \<and> json_time_ok (ct_ended_at t)
      then Inr (JObj (turn_fields t)) else Inl json_time_error)"

definition unmarshal_turn :: "json \<Rightarrow> conversation_turn option" where
  "unmarshal_turn j =
     Option.bind (obj_fields j) (\<lambda>fs.
     Option.bind (get_str fs ''conversation_id'') (\<lambda>cid.
     Option.bind (get_int fs ''index'') (\<lambda>idx.
     Option.bind (get_str fs ''from'') (\<lambda>from.
     Option.bind (get_str fs ''from_id'') (\<lambda>from_id.
     Option.bind (get_str fs ''to_id'') (\<lambda>to_id.
     Option.bind (get_str fs ''reason'') (\<lambda>reason.
     Option.bind (get_opt_str fs ''next_id_parsed'') (\<lambda>parsed.
     Option.bind (get_bool fs ''fallback_used'') (\<lambda>fallback.
     Option.bind (get_str fs ''envelope'') (\<lambda>envel.
     Option.bind (get_str fs ''response'') (\<lambda>resp.
     Option.bind (get_str fs ''marker_token'') (\<lambda>marker.
     Option.bind (get_time fs ''started_at'') (\<lambda>started.
     Option.bind (get_time fs ''ended_at'') (\<lambda>ended.
     Option.bind (get_conf fs ''completion_confidence'') (\<lambda>cc.
     Option.bind (get_conf fs ''parser_confidence'') (\<lambda>pc.
     Option.bind (get_strs fs ''warnings'') (\<lambda>warns.
       Some \<lparr>ct_conversation_id = cid, ct_index = idx, ct_from = from, ct_from_id = from_id,
         ct_to_id = to_id, ct_reason = reason, ct_next_id_parsed = parsed,
         ct_fallback_used = fallback, ct_envelope = envel, ct_response = resp,
         ct_marker_token = marker, ct_started_at = started, ct_ended_at = ended,
         ct_completion_confidence = cc, ct_parser_confidence = pc,
         ct_warnings = warns\<rparr>)))))))))))))))))"

text \<open>What a reader of the encoded turn sees: every string with invalid bytes replaced.\<close>

definition valid_turn :: "conversation_turn \<Rightarrow> conversation_turn" where
  "valid_turn t =
     t\<lparr>ct_conversation_id := to_valid_utf8 (ct_conversation_id t),
       ct_from := to_valid_utf8 (ct_from t), ct_from_id := to_valid_utf8 (ct_from_id t),
       ct_to_id := to_valid_utf8 (ct_to_id t), ct_reason := to_valid_utf8 (ct_reason t),
       ct_next_id_parsed := map_option to_valid_utf8 (ct_next_id_parsed t),
       ct_envelope := to_valid_utf8 (ct_envelope t),
       ct_response := to_valid_utf8 (ct_response t),
       ct_marker_token := to_valid_utf8 (ct_marker_token t),
       ct_warnings := map to_valid_utf8 (ct_warnings t)\<rparr>"

lemma map_of_omit:
  "map_of (omit_str k s @ fs) k' = (if k = k' \<and> s \<noteq> [] then Some (jstr s) else map_of fs k')"
  "map_of (omit_none k f v @ fs) k' =
     (if k = k' \<and> v \<noteq> None then map_option f v else map_of fs k')"
  "map_of (omit_false k b @ fs) k' = (if k = k' \<and> b then Some (JBool True) else map_of fs k')"
  "map_of (omit_nil k g xs @ fs) k' =
     (if k = k' \<and> xs \<noteq> [] then Some (JArr (map g xs)) else map_of fs k')"
  "map_of (omit_nil k g xs) k' = (if k = k' \<and> xs \<noteq> [] then Some (JArr (map g xs)) else None)"
  "map_of (omit_none k f v) k' = (if k = k' \<and> v \<noteq> None then map_option f v else None)"
  by (auto simp: omit_defs split: option.splits)

lemma turn_field_values:
  "get_str (turn_fields t) ''conversation_id'' = Some (to_valid_utf8 (ct_conversation_id t))"
  "get_int (turn_fields t) ''index'' = Some (ct_index t)"
  "get_str (turn_fields t) ''from'' = Some (to_valid_utf8 (ct_from t))"
  "get_str (turn_fields t) ''from_id'' = Some (to_valid_utf8 (ct_from_id t))"
  "get_str (turn_fields t) ''to_id'' = Some (to_valid_utf8 (ct_to_id t))"
  "get_str (turn_fields t) ''reason'' = Some (to_valid_utf8 (ct_reason t))"
  "get_opt_str (turn_fields t) ''next_id_parsed'' =
     Some (map_option to_valid_utf8 (ct_next_id_parsed t))"
  "get_bool (turn_fields t) ''fallback_used'' = Some (ct_fallback_used t)"
  "get_str (turn_fields t) ''envelope'' = Some (to_valid_utf8 (ct_envelope t))"
  "get_str (turn_fields t) ''response'' = Some (to_valid_utf8 (ct_response t))"
  "get_str (turn_fields t) ''marker_token'' = Some (to_valid_utf8 (ct_marker_token t))"
  "get_time (turn_fields t) ''started_at'' = Some (ct_started_at t)"
  "get_time (turn_fields t) ''ended_at'' = Some (ct_ended_at t)"
  "get_conf (turn_fields t) ''completion_confidence'' = Some (ct_completion_confidence t)"
  "get_conf (turn_fields t) ''parser_confidence'' = Some (ct_parser_confidence t)"
  "get_strs (turn_fields t) ''warnings'' = Some (map to_valid_utf8 (ct_warnings t))"
  by (auto simp: turn_fields_def map_of_omit get_defs jstr_def simp del: map_of_append
      split: option.splits)

lemma unmarshal_turn_fields: "unmarshal_turn (JObj (turn_fields t)) = Some (valid_turn t)"
  by (cases t) (simp add: unmarshal_turn_def turn_field_values valid_turn_def)

text \<open>
  Turns survive the wire: a turn that can be encoded decodes to itself with invalid UTF-8
  replaced; in particular a turn whose strings are ASCII comes back unchanged.
\<close>

theorem turn_wire_roundtrip:
  assumes "marshal_turn t = Inr j"
  shows "unmarshal_turn j = Some (valid_turn t)"
  using assms by (auto simp: marshal_turn_def unmarshal_turn_fields split: if_splits)

text \<open>A turn for the concrete instance.\<close>

definition sample_turn :: "string \<Rightarrow> conversation_turn" where
  "sample_turn reply = \<lparr>ct_conversation_id = ''conv-1'', ct_index = 1, ct_from = ''a'',
     ct_from_id = ''a'', ct_to_id = [], ct_reason = TurnReasonOpener, ct_next_id_parsed = None,
     ct_fallback_used = False, ct_envelope = ''hi'', ct_response = reply,
     ct_marker_token = ''TURN_END_0'', ct_started_at = 5, ct_ended_at = 9,
     ct_completion_confidence = 100, ct_parser_confidence = 100, ct_warnings = []\<rparr>"

theorem turn_wire_roundtrip_witness:
  "unmarshal_turn (JObj (turn_fields (sample_turn ''ok''))) = Some (valid_turn (sample_turn ''ok''))"
  by (rule turn_wire_roundtrip) (simp add: marshal_turn_def sample_turn_def json_time_ok_def)

end
