(* ===== verification/Bus.thy ===== *)
theory Bus
  imports Wire "HOL-Library.Multiset"
begin

text \<open>
  The message bus: the message types and topics of \<open>src/internal/bus/bus.go\<close> and the
  in-process backend of \<open>src/internal/bus/inproc/inproc.go\<close>.

  A subscription is an object shared by the bus, the receiver and the cancel function, so
  subscriptions live in a heap (a list indexed by their address) and the bus holds addresses.
  A subscription's channel is the list of its buffered messages, bounded by the capacity.
  Every operation of the source runs under the bus lock, so it is one atomic state change.
  (\<open>Publish\<close> takes the lock for reading only: two concurrent publishers may interleave between
  two subscribers, which for each single subscriber is still one order of the two messages.)
\<close>

section \<open>Messages and topics\<close>

datatype message_kind = KindEnvelope | KindTurn | KindControl

record bus_message =
  bm_conversation_id :: string
  bm_topic :: string
  bm_kind :: message_kind
  bm_payload :: json
  bm_timestamp :: go_time

type_synonym control_kind = string

definition ControlVerdict :: control_kind where
  [status_defs]: "ControlVerdict = ''verdict''"

definition ControlPeerCrashed :: control_kind where
  [status_defs]: "ControlPeerCrashed = ''peer_crashed''"

definition ControlPeerBlocked :: control_kind where
  [status_defs]: "ControlPeerBlocked = ''peer_blocked''"

definition ControlFinalize :: control_kind where
  [status_defs]: "ControlFinalize = ''finalize''"

record control_msg =
  cm_conversation_id :: string
  cm_kind :: control_kind
  cm_slot :: peer_slot
  cm_reason :: string
  cm_status :: conversation_status
  cm_detail :: string
  cm_verdict :: "verdict option"

definition topic_envelope_in :: "string \<Rightarrow> peer_slot \<Rightarrow> string" where
  "topic_envelope_in cid slot = ''conv/'' @ cid @ ''/peer-'' @ slot @ ''/in''"

definition topic_envelope_in_id :: "string \<Rightarrow> peer_id \<Rightarrow> string" where
  "topic_envelope_in_id cid pid = ''conv/'' @ cid @ ''/peer/'' @ pid @ ''/in''"

definition topic_turn :: "string \<Rightarrow> string" where
  "topic_turn cid = ''conv/'' @ cid @ ''/turn''"

definition topic_control :: "string \<Rightarrow> string" where
  "topic_control cid = ''conv/'' @ cid @ ''/control''"

text \<open>Encoding of control messages, as of turns.\<close>

definition verdict_json :: "verdict \<Rightarrow> json" where
  "verdict_json v = JObj [(''conversation_id'', jstr (ver_conversation_id v)),
     (''decision'', jstr (ver_decision v)), (''reason'', jstr (ver_reason v)),
     (''status'', jstr (ver_status v))]"

definition control_json :: "control_msg \<Rightarrow> json" where
  "control_json c = JObj
     ([(''conversation_id'', jstr (cm_conversation_id c)), (''kind'', jstr (cm_kind c))]
      @ omit_str ''slot'' (cm_slot c) @ omit_str ''reason'' (cm_reason c)
      @ omit_str ''status'' (cm_status c) @ omit_str ''detail'' (cm_detail c)
      @ omit_none ''verdict'' verdict_json (cm_verdict c))"

definition json_verdict :: "json \<Rightarrow> verdict option" where
  "json_verdict j =
     Option.bind (obj_fields j) (\<lambda>fs.
     Option.bind (get_str fs ''conversation_id'') (\<lambda>cid.
     Option.bind (get_str fs ''decision'') (\<lambda>dec.
     Option.bind (get_str fs ''reason'') (\<lambda>reason.
     Option.bind (get_str fs ''status'') (\<lambda>status.
       Some \<lparr>ver_conversation_id = cid, ver_decision = dec, ver_reason = reason,
         ver_status = status\<rparr>)))))"

definition json_control :: "json \<Rightarrow> control_msg option" where
  "json_control j =
     Option.bind (obj_fields j) (\<lambda>fs.
     Option.bind (get_str fs ''conversation_id'') (\<lambda>cid.
     Option.bind (get_str fs ''kind'') (\<lambda>kind.
     Option.bind (get_str fs ''slot'') (\<lambda>slot.
     Option.bind (get_str fs ''reason'') (\<lambda>reason.
     Option.bind (get_str fs ''status'') (\<lambda>status.
     Option.bind (get_str fs ''detail'') (\<lambda>detail.
     Option.bind (case map_of fs ''verdict'' of
         None \<Rightarrow> Some None | Some JNull \<Rightarrow> Some None
       | Some v \<Rightarrow> map_option Some (json_verdict v)) (\<lambda>ver.
       Some \<lparr>cm_conversation_id = cid, cm_kind = kind, cm_slot = slot, cm_reason = reason,
         cm_status = status, cm_detail = detail, cm_verdict = ver\<rparr>))))))))"

section \<open>The in-process backend\<close>

record subscription =
  sub_ch :: "bus_message list"
  sub_closed :: bool

record bus =
  bus_closed :: bool
  bus_buffer_size :: nat
  bus_subs :: "(string \<times> nat list) list"
  bus_heap :: "subscription list"

definition default_buffer_size :: nat where
  "default_buffer_size = 64"

text \<open>\<open>New\<close> applied to the list of \<open>WithBufferSize\<close> options.\<close>

definition with_buffer_size :: "int \<Rightarrow> bus \<Rightarrow> bus" where
  "with_buffer_size n b = (if n > 0 then b\<lparr>bus_buffer_size := nat n\<rparr> else b)"

definition new_bus :: "int list \<Rightarrow> bus" where
  "new_bus opts = fold with_buffer_size opts
     \<lparr>bus_closed = False, bus_buffer_size = default_buffer_size, bus_subs = [],
      bus_heap = []\<rparr>"

definition sub_deliver :: "nat \<Rightarrow> bus_message \<Rightarrow> subscription \<Rightarrow> subscription" where
  "sub_deliver cap msg s =
     (if sub_closed s then s
      else if length (sub_ch s) < cap then s\<lparr>sub_ch := sub_ch s @ [msg]\<rparr>
      else s)"

definition sub_close :: "subscription \<Rightarrow> subscription" where
  "sub_close s = (if sub_closed s then s else s\<lparr>sub_closed := True\<rparr>)"

definition heap_upd :: "nat \<Rightarrow> (subscription \<Rightarrow> subscription) \<Rightarrow> subscription list \<Rightarrow> subscription list"
  where "heap_upd i f h = (if i < length h then h[i := f (h ! i)] else h)"

definition subs_of :: "bus \<Rightarrow> string \<Rightarrow> nat list" where
  "subs_of b topic = (case map_of (bus_subs b) topic of None \<Rightarrow> [] | Some l \<Rightarrow> l)"

definition bus_publish :: "string \<Rightarrow> bus_message \<Rightarrow> bus \<Rightarrow> go_error option \<times> bus" where
  "bus_publish topic msg b =
     (if bus_closed b then (Some (ErrMsg ''inproc bus: publish on closed bus''), b)
      else (None, b\<lparr>bus_heap :=
        fold (\<lambda>i. heap_upd i (sub_deliver (bus_buffer_size b) msg)) (subs_of b topic)
          (bus_heap b)\<rparr>))"

text \<open>A successful subscription returns the address of the new subscription.\<close>

definition bus_subscribe :: "string \<Rightarrow> bus \<Rightarrow> nat result \<times> bus" where
  "bus_subscribe topic b =
     (if bus_closed b then (Inl (ErrMsg ''inproc bus: subscribe on closed bus''), b)
      else (let i = length (bus_heap b) in
        (Inr i, b\<lparr>bus_heap := bus_heap b @ [\<lparr>sub_ch = [], sub_closed = False\<rparr>],
                  bus_subs := map_put topic (subs_of b topic @ [i]) (bus_subs b)\<rparr>)))"

definition bus_cancel :: "string \<Rightarrow> nat \<Rightarrow> bus \<Rightarrow> bus" where
  "bus_cancel topic i b =
     b\<lparr>bus_subs := (if i \<in> set (subs_of b topic)
          then map_put topic (remove1 i (subs_of b topic)) (bus_subs b) else bus_subs b),
       bus_heap := heap_upd i sub_close (bus_heap b)\<rparr>"

definition bus_close :: "bus \<Rightarrow> bus" where
  "bus_close b =
     (if bus_closed b then b
      else b\<lparr>bus_closed := True,
             bus_heap := fold (\<lambda>i. heap_upd i sub_close) (concat (map snd (bus_subs b))) (bus_heap b),
             bus_subs := []\<rparr>)"

text \<open>
  Receiving from a subscription's channel: the oldest buffered message, the closed signal once
  a closed channel is drained, or blocking.
\<close>

datatype recv = RecvMsg bus_message | RecvClosed | RecvBlock

definition sub_recv :: "subscription \<Rightarrow> recv \<times> subscription" where
  "sub_recv s =
     (case sub_ch s of
        m # ms \<Rightarrow> (RecvMsg m, s\<lparr>sub_ch := ms\<rparr>)
      | [] \<Rightarrow> (if sub_closed s then RecvClosed else RecvBlock, s))"

definition bus_recv :: "nat \<Rightarrow> bus \<Rightarrow> recv \<times> bus" where
  "bus_recv i b =
     (if i < length (bus_heap b)
      then (let (r, s) = sub_recv (bus_heap b ! i) in (r, b\<lparr>bus_heap := (bus_heap b)[i := s]\<rparr>))
      else (RecvBlock, b))"

section \<open>A channel is a bounded queue\<close>

text \<open>
  What a receiver relies on: messages are queued in order while there is room, dropped
  otherwise, and a closed channel still hands out what it holds.
\<close>

locale bounded_channel =
  fixes send :: "'m \<Rightarrow> 'c \<Rightarrow> 'c"
    and receive :: "'c \<Rightarrow> ('m \<times> 'c) option"
    and shut :: "'c \<Rightarrow> 'c"
    and pending :: "'c \<Rightarrow> 'm list"
    and is_open :: "'c \<Rightarrow> bool"
    and capacity :: nat
  assumes send_room: "is_open c \<Longrightarrow> length (pending c) < capacity \<Longrightarrow> pending (send m c) = pending c @ [m]"
    and send_full: "\<not> is_open c \<or> capacity \<le> length (pending c) \<Longrightarrow> send m c = c"
    and send_open: "is_open (send m c) = is_open c"
    and receive_Nil: "pending c = [] \<Longrightarrow> receive c = None"
    and receive_Cons: "pending c = m # ms \<Longrightarrow>
          \<exists>c'. receive c = Some (m, c') \<and> pending c' = ms \<and> is_open c' = is_open c"
    and shut_pending: "pending (shut c) = pending c"
    and shut_open: "\<not> is_open (shut c)"
begin

lemma send_all:
  "is_open c \<Longrightarrow> length (pending c) + length ms \<le> capacity \<Longrightarrow>
     pending (fold send ms c) = pending c @ ms \<and> is_open (fold send ms c)"
proof (induction ms arbitrary: c)
  case (Cons m ms)
  then have "pending (send m c) = pending c @ [m]" and "is_open (send m c)"
    by (simp_all add: send_room send_open)
  with Cons.IH [of "send m c"] Cons.prems show ?case by simp
qed simp

lemma send_bounded: "length (pending c) \<le> capacity \<Longrightarrow> length (pending (send m c)) \<le> capacity"
  by (cases "is_open c \<and> length (pending c) < capacity") (auto simp: send_room send_full)

fun drain :: "nat \<Rightarrow> 'c \<Rightarrow> 'm list" where
  "drain 0 c = []"
| "drain (Suc n) c = (case receive c of None \<Rightarrow> [] | Some (m, c') \<Rightarrow> m # drain n c')"

lemma drain_pending: "length (pending c) \<le> n \<Longrightarrow> drain n c = pending c"
proof (induction n arbitrary: c)
  case (Suc n)
  then show ?case
    using receive_Nil [of c] receive_Cons [of c]
    by (cases "pending c") fastforce+
qed simp

lemma drain_after_shut:
  "is_open c \<Longrightarrow> length (pending c) + length ms \<le> capacity \<Longrightarrow>
     drain capacity (shut (fold send ms c)) = pending c @ ms"
  using send_all [of c ms] by (simp add: drain_pending shut_pending)

end

definition sub_take :: "subscription \<Rightarrow> (bus_message \<times> subscription) option" where
  "sub_take s = (case sub_recv s of (RecvMsg m, s') \<Rightarrow> Some (m, s') | _ \<Rightarrow> None)"

interpretation sub: bounded_channel "sub_deliver cap" sub_take sub_close sub_ch
  "\<lambda>s. \<not> sub_closed s" cap for cap
  by unfold_locales
     (auto simp: sub_deliver_def sub_take_def sub_recv_def sub_close_def)

section \<open>The bus invariant\<close>

definition bus_listed :: "bus \<Rightarrow> nat list" where
  "bus_listed b = concat (map snd (bus_subs b))"

text \<open>
  Addresses are listed once, under one topic; the listed subscriptions are exactly the open
  ones; no buffer exceeds the capacity; a closed bus lists nothing.
\<close>

definition bus_inv :: "bus \<Rightarrow> bool" where
  "bus_inv b \<longleftrightarrow>
     0 < bus_buffer_size b \<and> distinct (map fst (bus_subs b)) \<and> distinct (bus_listed b) \<and>
     (\<forall>i. i \<in> set (bus_listed b) \<longleftrightarrow> i < length (bus_heap b) \<and> \<not> sub_closed (bus_heap b ! i)) \<and>
     (\<forall>i < length (bus_heap b). length (sub_ch (bus_heap b ! i)) \<le> bus_buffer_size b) \<and>
     (bus_closed b \<longrightarrow> bus_subs b = [])"

lemma bus_invI:
  assumes "0 < bus_buffer_size b" "distinct (map fst (bus_subs b))" "distinct (bus_listed b)"
    and "\<And>i. i \<in> set (bus_listed b) \<longleftrightarrow> i < length (bus_heap b) \<and> \<not> sub_closed (bus_heap b ! i)"
    and "\<And>i. i < length (bus_heap b) \<Longrightarrow> length (sub_ch (bus_heap b ! i)) \<le> bus_buffer_size b"
    and "bus_closed b \<Longrightarrow> bus_subs b = []"
  shows "bus_inv b"
  using assms by (auto simp: bus_inv_def)

lemma bus_invD:
  assumes "bus_inv b"
  shows "0 < bus_buffer_size b" "distinct (map fst (bus_subs b))" "distinct (bus_listed b)"
    and "\<And>i. i \<in> set (bus_listed b) \<longleftrightarrow> i < length (bus_heap b) \<and> \<not> sub_closed (bus_heap b ! i)"
    and "\<And>i. i < length (bus_heap b) \<Longrightarrow> length (sub_ch (bus_heap b ! i)) \<le> bus_buffer_size b"
    and "bus_closed b \<Longrightarrow> bus_subs b = []"
  using assms by (auto simp: bus_inv_def)

text \<open>Updates of the heap.\<close>

lemma length_heap_upd [simp, bus_simps]: "length (heap_upd i f h) = length h"
  by (simp add: heap_upd_def)

lemma nth_heap_upd [bus_simps]:
  "j < length h \<Longrightarrow> heap_upd i f h ! j = (if i = j then f (h ! j) else h ! j)"
  by (simp add: heap_upd_def nth_list_update)

lemma length_fold_heap_upd [simp, bus_simps]:
  "length (fold (\<lambda>i. heap_upd i f) is h) = length h"
  by (induction "is" arbitrary: h) auto

lemma nth_fold_heap_upd [bus_simps]:
  "distinct is \<Longrightarrow> j < length h \<Longrightarrow>
     fold (\<lambda>i. heap_upd i f) is h ! j = (if j \<in> set is then f (h ! j) else h ! j)"
  by (induction "is" arbitrary: h) (auto simp: nth_heap_upd)

text \<open>Updates of the topic map.\<close>

lemma subs_of_subset: "set (subs_of b topic) \<subseteq> set (bus_listed b)"
  by (cases "map_of (bus_subs b) topic")
     (force simp: subs_of_def bus_listed_def dest: map_of_SomeD)+

lemma mset_concat_map_put:
  "distinct (map fst m) \<Longrightarrow>
     mset (concat (map snd (map_put k v m))) + mset (case map_of m k of None \<Rightarrow> [] | Some l \<Rightarrow> l)
       = mset (concat (map snd m)) + mset v"
proof (induction k v m rule: map_put.induct)
  case (2 k v k' v' m)
  show ?case
  proof (cases "k = k'")
    case True
    with 2 have "map_of m k = None" by (simp add: map_of_eq_None_iff)
    with True show ?thesis by simp
  next
    case False
    with 2 show ?thesis by (simp add: ac_simps)
  qed
qed simp

lemma listed_subscribe:
  assumes "distinct (map fst (bus_subs b))"
  shows "mset (concat (map snd (map_put topic (subs_of b topic @ [i]) (bus_subs b)))) =
    mset (bus_listed b @ [i])"
  using mset_concat_map_put [OF assms, of topic "subs_of b topic @ [i]"]
  by (simp add: subs_of_def bus_listed_def)

lemma listed_cancel:
  assumes "distinct (map fst (bus_subs b))" and "i \<in> set (subs_of b topic)"
  shows "mset (concat (map snd (map_put topic (remove1 i (subs_of b topic)) (bus_subs b)))) =
    mset (remove1 i (bus_listed b))"
proof -
  have "mset (concat (map snd (map_put topic (remove1 i (subs_of b topic)) (bus_subs b))))
      + mset (subs_of b topic) = mset (bus_listed b) + (mset (subs_of b topic) - {#i#})"
    using mset_concat_map_put [OF assms(1), of topic "remove1 i (subs_of b topic)"]
    by (simp add: subs_of_def bus_listed_def)
  moreover have "i \<in># mset (subs_of b topic)" and "i \<in># mset (bus_listed b)"
    using assms(2) subs_of_subset by auto
  ultimately show ?thesis
    by (metis add_implies_diff diff_union_single_conv mset_remove1 union_commute)
qed

lemma mset_same:
  assumes "mset xs = mset ys"
  shows "distinct xs \<longleftrightarrow> distinct ys" and "set xs = set ys"
  using assms mset_eq_imp_distinct_iff mset_eq_setD by blast+

text \<open>Every operation keeps the invariant.\<close>

lemma with_buffer_size_inv: "bus_inv b \<Longrightarrow> bus_heap b = [] \<Longrightarrow> bus_inv (with_buffer_size n b)"
  by (simp add: bus_inv_def with_buffer_size_def bus_listed_def)

lemma new_bus_inv: "bus_inv (new_bus opts)"
proof -
  have "bus_inv (fold with_buffer_size opts b) \<and> bus_heap (fold with_buffer_size opts b) = []"
    if "bus_inv b" and "bus_heap b = []" for b
    using that
  proof (induction opts arbitrary: b)
    case (Cons n opts)
    have "bus_heap (with_buffer_size n b) = []"
      using Cons.prems(2) by (simp add: with_buffer_size_def)
    with Cons with_buffer_size_inv show ?case by simp
  qed simp
  moreover have "bus_inv \<lparr>bus_closed = False, bus_buffer_size = default_buffer_size,
      bus_subs = [], bus_heap = []\<rparr>"
    by (simp add: bus_inv_def bus_listed_def default_buffer_size_def)
  ultimately show ?thesis
    by (simp add: new_bus_def)
qed

lemma subs_of_distinct:
  assumes "bus_inv b"
  shows "distinct (subs_of b topic)"
proof (cases "map_of (bus_subs b) topic")
  case (Some l)
  then have "l \<in> set (map snd (bus_subs b))"
    using map_of_SomeD by force
  with bus_invD(3) [OF assms] have "distinct l"
    unfolding bus_listed_def by (metis distinct_concat_iff in_set_replicate removeAll_id set_filter)
  with Some show ?thesis by (simp add: subs_of_def)
qed (simp add: subs_of_def)

lemma bus_publish_heap:
  assumes "bus_inv b" and "\<not> bus_closed b" and "j < length (bus_heap b)"
  shows "bus_heap (snd (bus_publish topic msg b)) ! j =
    (if j \<in> set (subs_of b topic) then sub_deliver (bus_buffer_size b) msg (bus_heap b ! j)
     else bus_heap b ! j)"
  using assms subs_of_distinct [OF assms(1)]
  by (simp add: bus_publish_def nth_fold_heap_upd)

lemma bus_publish_frame [simp, bus_simps]:
  "bus_closed (snd (bus_publish topic msg b)) = bus_closed b"
  "bus_buffer_size (snd (bus_publish topic msg b)) = bus_buffer_size b"
  "bus_subs (snd (bus_publish topic msg b)) = bus_subs b"
  "length (bus_heap (snd (bus_publish topic msg b))) = length (bus_heap b)"
  "fst (bus_publish topic msg b) = None \<longleftrightarrow> \<not> bus_closed b"
  by (auto simp: bus_publish_def)

lemma sub_deliver_closed [simp]: "sub_closed (sub_deliver cap m s) = sub_closed s"
  using sub.send_open [of cap m s] by simp

lemma bus_publish_inv:
  assumes "bus_inv b"
  shows "bus_inv (snd (bus_publish topic msg b))"
proof (cases "bus_closed b")
  case True
  with assms show ?thesis by (simp add: bus_publish_def)
next
  case False
  note heap = bus_publish_heap [OF assms False, of _ topic msg]
  show ?thesis
  proof (rule bus_invI)
    show "i \<in> set (bus_listed (snd (bus_publish topic msg b))) \<longleftrightarrow>
        i < length (bus_heap (snd (bus_publish topic msg b))) \<and>
        \<not> sub_closed (bus_heap (snd (bus_publish topic msg b)) ! i)" for i
      using bus_invD(4) [OF assms, of i] heap [of i] by (auto simp: bus_listed_def split: if_splits)
    show "length (sub_ch (bus_heap (snd (bus_publish topic msg b)) ! i)) \<le>
        bus_buffer_size (snd (bus_publish topic msg b))"
      if "i < length (bus_heap (snd (bus_publish topic msg b)))" for i
      using that heap [of i] bus_invD(5) [OF assms, of i] by (auto simp: sub.send_bounded)
  qed (use bus_invD [OF assms] in \<open>auto simp: bus_listed_def\<close>)
qed

lemma bus_subscribe_inv:
  assumes "bus_inv b"
  shows "bus_inv (snd (bus_subscribe topic b))"
proof (cases "bus_closed b")
  case True
  with assms show ?thesis by (simp add: bus_subscribe_def)
next
  case False
  let ?i = "length (bus_heap b)"
  let ?b' = "snd (bus_subscribe topic b)"
  have b': "bus_heap ?b' = bus_heap b @ [\<lparr>sub_ch = [], sub_closed = False\<rparr>]"
    "bus_subs ?b' = map_put topic (subs_of b topic @ [?i]) (bus_subs b)"
    "bus_closed ?b' = False" "bus_buffer_size ?b' = bus_buffer_size b"
    using False by (simp_all add: bus_subscribe_def Let_def)
  have listed: "mset (bus_listed ?b') = mset (bus_listed b @ [?i])"
    unfolding bus_listed_def [of ?b'] b'
    by (rule listed_subscribe) (rule bus_invD(2) [OF assms])
  have fresh: "?i \<notin> set (bus_listed b)"
    using bus_invD(4) [OF assms] by blast
  show ?thesis
  proof (rule bus_invI)
    show "distinct (bus_listed ?b')"
      using mset_same(1) [OF listed] bus_invD(3) [OF assms] fresh by simp
    show "i \<in> set (bus_listed ?b') \<longleftrightarrow> i < length (bus_heap ?b') \<and> \<not> sub_closed (bus_heap ?b' ! i)"
      for i
      using mset_same(2) [OF listed] bus_invD(4) [OF assms, of i]
      by (auto simp: b' nth_append less_Suc_eq)
    show "distinct (map fst (bus_subs ?b'))"
      unfolding b' by (rule distinct_map_put) (rule bus_invD(2) [OF assms])
    show "length (sub_ch (bus_heap ?b' ! i)) \<le> bus_buffer_size ?b'" if "i < length (bus_heap ?b')"
      for i
      using that bus_invD(5) [OF assms, of i] by (auto simp: b' nth_append less_Suc_eq)
  qed (simp_all add: b' bus_invD(1) [OF assms])
qed

text \<open>
  A cancel function is bound to the topic and the address of its subscription: the address is
  still listed under that topic, or the subscription is closed already.
\<close>

definition cancel_ok :: "string \<Rightarrow> nat \<Rightarrow> bus \<Rightarrow> bool" where
  "cancel_ok topic i b \<longleftrightarrow>
     i \<in> set (subs_of b topic) \<or> (i < length (bus_heap b) \<and> sub_closed (bus_heap b ! i))"

lemma sub_close_simps [simp, bus_simps]:
  "sub_closed (sub_close s)" "sub_ch (sub_close s) = sub_ch s"
  by (simp_all add: sub_close_def)

lemma sub_close_id: "sub_closed s \<Longrightarrow> sub_close s = s"
  by (simp add: sub_close_def)

lemma bus_cancel_inv:
  assumes inv: "bus_inv b" and ok: "cancel_ok topic i b"
  shows "bus_inv (bus_cancel topic i b)"
proof (cases "i \<in> set (subs_of b topic)")
  case True
  let ?b' = "bus_cancel topic i b"
  have b': "bus_subs ?b' = map_put topic (remove1 i (subs_of b topic)) (bus_subs b)"
    "bus_heap ?b' = heap_upd i sub_close (bus_heap b)" "bus_closed ?b' = bus_closed b"
    "bus_buffer_size ?b' = bus_buffer_size b"
    using True by (simp_all add: bus_cancel_def)
  have listed: "mset (bus_listed ?b') = mset (remove1 i (bus_listed b))"
    unfolding bus_listed_def [of ?b'] b' by (rule listed_cancel [OF bus_invD(2) [OF inv] True])
  have "bus_subs b \<noteq> []"
    using True by (auto simp: subs_of_def)
  then have openb: "\<not> bus_closed b"
    using bus_invD(6) [OF inv] by blast
  have set': "set (bus_listed ?b') = set (bus_listed b) - {i}"
    using mset_same(2) [OF listed] bus_invD(3) [OF inv] by (simp add: set_remove1_eq)
  show ?thesis
  proof (rule bus_invI)
    show "distinct (bus_listed ?b')"
      using mset_same(1) [OF listed] bus_invD(3) [OF inv] by (simp add: distinct_remove1)
    show "j \<in> set (bus_listed ?b') \<longleftrightarrow> j < length (bus_heap ?b') \<and> \<not> sub_closed (bus_heap ?b' ! j)"
      for j
      unfolding set' Diff_iff bus_invD(4) [OF inv, of j] b'
      by (cases "i = j") (auto simp: nth_heap_upd)
    show "distinct (map fst (bus_subs ?b'))"
      unfolding b' by (rule distinct_map_put) (rule bus_invD(2) [OF inv])
    show "length (sub_ch (bus_heap ?b' ! j)) \<le> bus_buffer_size ?b'" if "j < length (bus_heap ?b')"
      for j
      using that bus_invD(5) [OF inv, of j] by (simp add: b' nth_heap_upd)
  qed (simp_all add: b' openb bus_invD(1) [OF inv])
next
  case False
  with ok have "i < length (bus_heap b)" "sub_closed (bus_heap b ! i)"
    by (auto simp: cancel_ok_def)
  then have "bus_cancel topic i b = b"
    using False by (simp add: bus_cancel_def heap_upd_def sub_close_id)
  with inv show ?thesis by simp
qed

lemma bus_close_inv:
  assumes inv: "bus_inv b"
  shows "bus_inv (bus_close b)"
proof (cases "bus_closed b")
  case True
  with inv show ?thesis by (simp add: bus_close_def)
next
  case False
  let ?b' = "bus_close b"
  have b': "bus_subs ?b' = []" "bus_closed ?b'" "bus_buffer_size ?b' = bus_buffer_size b"
    "bus_heap ?b' = fold (\<lambda>i. heap_upd i sub_close) (bus_listed b) (bus_heap b)"
    using False by (simp_all add: bus_close_def bus_listed_def)
  note heap = nth_fold_heap_upd [OF bus_invD(3) [OF inv], of _ "bus_heap b" sub_close]
  show ?thesis
  proof (rule bus_invI)
    show "j \<in> set (bus_listed ?b') \<longleftrightarrow> j < length (bus_heap ?b') \<and> \<not> sub_closed (bus_heap ?b' ! j)"
      for j
      using bus_invD(4) [OF inv, of j] by (auto simp: b' heap bus_listed_def [of ?b'])
    show "length (sub_ch (bus_heap ?b' ! j)) \<le> bus_buffer_size ?b'" if "j < length (bus_heap ?b')"
      for j
      using that bus_invD(5) [OF inv, of j] by (simp add: b' heap)
  qed (use bus_invD(1) [OF inv] b' in \<open>auto simp: bus_listed_def\<close>)
qed

lemma sub_recv_simps:
  "sub_closed (snd (sub_recv s)) = sub_closed s"
  "length (sub_ch (snd (sub_recv s))) \<le> length (sub_ch s)"
  by (simp_all add: sub_recv_def split: list.splits)

lemma bus_recv_inv:
  assumes inv: "bus_inv b"
  shows "bus_inv (snd (bus_recv i b))"
proof (cases "i < length (bus_heap b)")
  case True
  let ?b' = "snd (bus_recv i b)"
  have b': "bus_subs ?b' = bus_subs b" "bus_closed ?b' = bus_closed b"
    "bus_buffer_size ?b' = bus_buffer_size b"
    "bus_heap ?b' = (bus_heap b)[i := snd (sub_recv (bus_heap b ! i))]"
    using True by (simp_all add: bus_recv_def split: prod.splits)
  show ?thesis
  proof (rule bus_invI)
    show "j \<in> set (bus_listed ?b') \<longleftrightarrow> j < length (bus_heap ?b') \<and> \<not> sub_closed (bus_heap ?b' ! j)"
      for j
      using bus_invD(4) [OF inv, of j] True
      by (simp add: b' bus_listed_def [of ?b'] bus_listed_def [of b, symmetric] nth_list_update
          sub_recv_simps cong: conj_cong)
    show "length (sub_ch (bus_heap ?b' ! j)) \<le> bus_buffer_size ?b'" if "j < length (bus_heap ?b')"
      for j
      using that bus_invD(5) [OF inv, of j] sub_recv_simps(2) [of "bus_heap b ! j"] True
      by (auto simp: b' nth_list_update intro: order_trans)
  qed (use bus_invD(1,2,3,6) [OF inv] in \<open>simp_all add: b' bus_listed_def\<close>)
qed (use inv in \<open>simp add: bus_recv_def\<close>)

section \<open>Reachable buses\<close>

inductive bus_step :: "bus \<Rightarrow> bus \<Rightarrow> bool" where
  step_publish: "bus_step b (snd (bus_publish topic msg b))"
| step_subscribe: "bus_step b (snd (bus_subscribe topic b))"
| step_cancel: "cancel_ok topic i b \<Longrightarrow> bus_step b (bus_cancel topic i b)"
| step_recv: "bus_step b (snd (bus_recv i b))"
| step_close: "bus_step b (bus_close b)"

inductive bus_reachable :: "bus \<Rightarrow> bool" where
  reach_new: "bus_reachable (new_bus opts)"
| reach_step: "bus_reachable b \<Longrightarrow> bus_step b b' \<Longrightarrow> bus_reachable b'"

inductive_cases bus_stepE: "bus_step b b'"

lemma bus_step_inv: "bus_step b b' \<Longrightarrow> bus_inv b \<Longrightarrow> bus_inv b'"
  by (auto elim!: bus_stepE intro: bus_publish_inv bus_subscribe_inv bus_cancel_inv bus_recv_inv
      bus_close_inv)

lemma bus_reachable_inv: "bus_reachable b \<Longrightarrow> bus_inv b"
  by (induction rule: bus_reachable.induct) (auto intro: new_bus_inv bus_step_inv)

section \<open>Delivery\<close>

text \<open>A receiver that reads its channel until it blocks or is closed.\<close>

fun bus_drain :: "nat \<Rightarrow> nat \<Rightarrow> bus \<Rightarrow> bus_message list \<times> recv" where
  "bus_drain 0 i b = ([], RecvBlock)"
| "bus_drain (Suc n) i b =
     (case bus_recv i b of
        (RecvMsg m, b') \<Rightarrow> (case bus_drain n i b' of (ms, r) \<Rightarrow> (m # ms, r))
      | (r, b') \<Rightarrow> ([], r))"

definition publish_all :: "(string \<times> bus_message) list \<Rightarrow> bus \<Rightarrow> bus" where
  "publish_all evs b = fold (\<lambda>(t, m) b. snd (bus_publish t m b)) evs b"

lemma bus_drain_closed:
  "i < length (bus_heap b) \<Longrightarrow> sub_closed (bus_heap b ! i) \<Longrightarrow>
     length (sub_ch (bus_heap b ! i)) < n \<Longrightarrow>
     bus_drain n i b = (sub_ch (bus_heap b ! i), RecvClosed)"
proof (induction n i b rule: bus_drain.induct)
  case (2 n i b)
  show ?case
  proof (cases "sub_ch (bus_heap b ! i)")
    case Nil
    with 2 show ?thesis by (simp add: bus_recv_def sub_recv_def)
  next
    case (Cons m ms)
    let ?b' = "b\<lparr>bus_heap := (bus_heap b)[i := (bus_heap b ! i)\<lparr>sub_ch := ms\<rparr>]\<rparr>"
    have r: "bus_recv i b = (RecvMsg m, ?b')"
      using Cons 2 by (simp add: bus_recv_def sub_recv_def)
    have "bus_drain n i ?b' = (ms, RecvClosed)"
      using "2.IH" [OF r [symmetric] refl] 2 Cons by simp
    with r Cons show ?thesis by simp
  qed
qed simp

lemma publish_all_frame:
  "bus_closed (publish_all evs b) = bus_closed b"
  "bus_buffer_size (publish_all evs b) = bus_buffer_size b"
  "bus_subs (publish_all evs b) = bus_subs b"
  "length (bus_heap (publish_all evs b)) = length (bus_heap b)"
  by (induction evs arbitrary: b) (auto simp: publish_all_def split_beta)

lemma publish_all_inv: "bus_inv b \<Longrightarrow> bus_inv (publish_all evs b)"
  by (induction evs arbitrary: b) (auto simp: publish_all_def split_beta bus_publish_inv)

lemma subs_of_cong: "bus_subs b = bus_subs b' \<Longrightarrow> subs_of b t = subs_of b' t"
  by (simp add: subs_of_def)

lemma sub_deliver_ch:
  "\<not> sub_closed s \<Longrightarrow> length (sub_ch s) \<le> cap \<Longrightarrow>
     sub_ch (sub_deliver cap m s) = take cap (sub_ch s @ [m])"
  by (auto simp: sub_deliver_def)

text \<open>
  A subscription listed under one topic only accumulates the messages of that topic, in
  publication order, up to the capacity; what does not fit is dropped.
\<close>

lemma publish_all_channel:
  assumes "bus_inv b" "\<not> bus_closed b" "i < length (bus_heap b)"
    and "\<And>t. i \<in> set (subs_of b t) \<longleftrightarrow> t = topic"
  shows "sub_ch (bus_heap (publish_all evs b) ! i) =
    take (bus_buffer_size b) (sub_ch (bus_heap b ! i) @ map snd (filter (\<lambda>(t, m). t = topic) evs))"
  using assms
proof (induction evs arbitrary: b)
  case Nil
  then show ?case by (simp add: publish_all_def bus_invD(5))
next
  case (Cons e evs)
  obtain t m where e: "e = (t, m)" by (cases e)
  let ?b = "snd (bus_publish t m b)"
  have "i \<in> set (bus_listed b)"
    using Cons.prems(4) [of topic] subs_of_subset by blast
  then have op: "\<not> sub_closed (bus_heap b ! i)"
    using bus_invD(4) [OF Cons.prems(1)] by blast
  have ch: "sub_ch (bus_heap ?b ! i) = (if t = topic then take (bus_buffer_size b)
      (sub_ch (bus_heap b ! i) @ [m]) else sub_ch (bus_heap b ! i))"
    using bus_publish_heap [OF Cons.prems(1-3)] Cons.prems(4) [of t] op
      bus_invD(5) [OF Cons.prems(1,3)] by (simp add: sub_deliver_ch)
  have "sub_ch (bus_heap (publish_all evs ?b) ! i) = take (bus_buffer_size ?b)
      (sub_ch (bus_heap ?b ! i) @ map snd (filter (\<lambda>(t, m). t = topic) evs))"
    by (rule Cons.IH)
       (use Cons.prems bus_publish_inv subs_of_cong [of ?b b] in auto)
  moreover have "publish_all (e # evs) b = publish_all evs ?b"
    by (simp add: publish_all_def e)
  ultimately show ?case
    using ch bus_invD(5) [OF Cons.prems(1,3)]
    by (cases "t = topic") (auto simp: e min_def not_less_eq_eq le_Suc_eq take_Cons')
qed

lemma bus_subscribe_fresh:
  assumes "bus_inv b" and "bus_subscribe topic b = (Inr i, b')"
  shows "i = length (bus_heap b)" "\<not> bus_closed b'" "i < length (bus_heap b')"
    "sub_ch (bus_heap b' ! i) = []" "bus_buffer_size b' = bus_buffer_size b"
    "i \<in> set (subs_of b' t) \<longleftrightarrow> t = topic"
proof -
  have op: "\<not> bus_closed b" and i: "i = length (bus_heap b)"
    and b': "b' = b\<lparr>bus_heap := bus_heap b @ [\<lparr>sub_ch = [], sub_closed = False\<rparr>],
                  bus_subs := map_put topic (subs_of b topic @ [i]) (bus_subs b)\<rparr>"
    using assms(2) by (auto simp: bus_subscribe_def Let_def split: if_splits)
  show "i = length (bus_heap b)" "\<not> bus_closed b'" "i < length (bus_heap b')"
    "sub_ch (bus_heap b' ! i) = []" "bus_buffer_size b' = bus_buffer_size b"
    using op i by (simp_all add: b')
  have "i \<notin> set (bus_listed b)"
    using bus_invD(4) [OF assms(1)] i by blast
  then have "i \<notin> set (subs_of b t)"
    using subs_of_subset by blast
  moreover have "subs_of b' t = (if t = topic then subs_of b topic @ [i] else subs_of b t)"
    by (simp add: subs_of_def b' map_of_map_put)
  ultimately show "i \<in> set (subs_of b' t) \<longleftrightarrow> t = topic" by simp
qed

lemma bus_close_heap:
  assumes "bus_inv b" "\<not> bus_closed b" "i < length (bus_heap b)"
  shows "sub_ch (bus_heap (bus_close b) ! i) = sub_ch (bus_heap b ! i)"
    "sub_closed (bus_heap (bus_close b) ! i)" "length (bus_heap (bus_close b)) = length (bus_heap b)"
  using assms bus_invD(4) [OF assms(1), of i]
    nth_fold_heap_upd [OF bus_invD(3) [OF assms(1)], of i "bus_heap b" sub_close]
  by (auto simp: bus_close_def bus_listed_def)

text \<open>A message for the concrete instances below.\<close>

definition sample_msg :: "int \<Rightarrow> bus_message" where
  "sample_msg n = \<lparr>bm_conversation_id = ''c'', bm_topic = ''t'', bm_kind = KindTurn,
     bm_payload = JNull, bm_timestamp = n\<rparr>"

text \<open>
  C29: The bus invariant holds in every state that the operations reach from a new bus: an
  address is listed once and under one topic, the listed subscriptions are exactly the open
  ones (so \<open>deliver\<close> never sends on a closed channel and \<open>close\<close> never closes twice), every
  buffer stays within its capacity, and a closed bus has no subscribers.
\<close>

theorem bus_reachable_invariant: "bus_reachable b \<Longrightarrow> bus_inv b"
  by (rule bus_reachable_inv)

theorem bus_reachable_invariant_witness:
  "bus_inv (bus_close (snd (bus_subscribe ''t'' (new_bus []))))"
  by (rule bus_reachable_invariant)
     (rule reach_step [OF reach_step [OF reach_new step_subscribe] step_close])

text \<open>
  What one \<open>Publish\<close> does on an open bus: each subscription of the topic with room in its
  buffer gets the message at the end of its queue, every other subscription is untouched, and
  the call never blocks nor fails.
\<close>

theorem bus_publish_effect:
  assumes "bus_reachable b" and "\<not> bus_closed b" and "j < length (bus_heap b)"
  shows "fst (bus_publish topic msg b) = None \<and>
    bus_heap (snd (bus_publish topic msg b)) ! j =
      (if j \<in> set (subs_of b topic) \<and> length (sub_ch (bus_heap b ! j)) < bus_buffer_size b
       then (bus_heap b ! j)\<lparr>sub_ch := sub_ch (bus_heap b ! j) @ [msg]\<rparr> else bus_heap b ! j)"
proof -
  have "\<not> sub_closed (bus_heap b ! j)" if "j \<in> set (subs_of b topic)"
    using that subs_of_subset bus_invD(4) [OF bus_reachable_inv [OF assms(1)], of j] by blast
  then show ?thesis
    using bus_publish_heap [OF bus_reachable_inv [OF assms(1)] assms(2,3)] assms(2)
    by (simp add: sub_deliver_def)
qed

theorem bus_publish_effect_witness:
  "sub_ch (bus_heap (snd (bus_publish ''t'' (sample_msg 1)
     (snd (bus_subscribe ''t'' (new_bus []))))) ! 0) = [sample_msg 1]"
proof -
  have "bus_reachable (snd (bus_subscribe ''t'' (new_bus [])))"
    by (rule reach_step [OF reach_new step_subscribe])
  from bus_publish_effect [OF this, of 0 "''t''" "sample_msg 1"] show ?thesis
    by (simp add: new_bus_def bus_subscribe_def subs_of_def default_buffer_size_def)
qed

text \<open>
  C13: Delivery across a shutdown. A subscriber that joins an open bus and reads its channel
  only after the bus was closed gets exactly the messages published on its topic since, in
  publication order and without those of other topics, up to the buffer's capacity; then it
  sees the channel closed.
\<close>

theorem bus_close_drains:
  assumes "bus_reachable b" and "bus_subscribe topic b = (Inr i, b1)"
    and "bus_buffer_size b < n"
  shows "bus_drain n i (bus_close (publish_all evs b1)) =
    (take (bus_buffer_size b) (map snd (filter (\<lambda>(t, m). t = topic) evs)), RecvClosed)"
proof -
  have inv: "bus_inv b" by (rule bus_reachable_inv [OF assms(1)])
  have inv1: "bus_inv b1"
    using bus_subscribe_inv [OF inv, of topic] assms(2) by simp
  note fresh = bus_subscribe_fresh [OF inv assms(2)]
  let ?b2 = "publish_all evs b1"
  have inv2: "bus_inv ?b2" and op2: "\<not> bus_closed ?b2" and i2: "i < length (bus_heap ?b2)"
    using publish_all_inv [OF inv1] fresh by (simp_all add: publish_all_frame)
  have ch: "sub_ch (bus_heap ?b2 ! i) =
      take (bus_buffer_size b) (map snd (filter (\<lambda>(t, m). t = topic) evs))"
    using publish_all_channel [OF inv1 fresh(2,3,6)] fresh by simp
  show ?thesis
    using bus_drain_closed [of i "bus_close ?b2" n] bus_close_heap [OF inv2 op2 i2] i2 ch assms(3)
    by simp
qed

theorem bus_close_drains_witness:
  "bus_drain 3 0 (bus_close (publish_all
     [(''t'', sample_msg 1), (''u'', sample_msg 2), (''t'', sample_msg 3), (''t'', sample_msg 4)]
     (snd (bus_subscribe ''t'' (new_bus [2]))))) = ([sample_msg 1, sample_msg 3], RecvClosed)"
  using bus_close_drains [OF reach_new, of "''t''" "[2]" 0 "snd (bus_subscribe ''t'' (new_bus [2]))" 3
      "[(''t'', sample_msg 1), (''u'', sample_msg 2), (''t'', sample_msg 3), (''t'', sample_msg 4)]"]
  by (simp add: new_bus_def bus_subscribe_def with_buffer_size_def)

end
