(* ===== verification/Terminator.thy ===== *)
theory Terminator
  imports Bus
begin

text \<open>
  The sentinel terminator, \<open>src/internal/terminator/sentinel.go\<close>: the test for a token on a
  line of its own, the stripping of the token from a reply, and the terminator as a bus
  subscriber that answers a turn carrying the token with a verdict on the control topic.
  The goroutine of \<open>loop\<close> is a function that handles the messages waiting on its channel, one
  per iteration; the list of clock readings it takes is also the number of iterations the
  scheduler grants it.
\<close>

section \<open>The sentinel token in a reply\<close>

definition default_sentinel :: string where
  "default_sentinel = ''<<END>>''"

definition contains_on_own_line :: "string \<Rightarrow> string \<Rightarrow> bool" where
  "contains_on_own_line s token =
     (if token = [] then False
      else list_ex (\<lambda>line. trim_space line = token) (lines_of s))"

definition strip_sentinel :: "string \<Rightarrow> string \<Rightarrow> string" where
  "strip_sentinel response token =
     (let token = (if token = [] then default_sentinel else token);
          lines = lines_of response;
          out = takeWhile (\<lambda>line. trim_space line \<noteq> token) lines
      in if length out = length lines then response
         else trim_right (str_join [nl] out) [sp, tab, cr, nl])"

lemma default_sentinel_nonempty [simp]: "default_sentinel \<noteq> []"
  by (simp add: default_sentinel_def)

text \<open>Blank text at the end of a string adds no new trimmed line to it.\<close>

lemma trimmed_lines_append_blank:
  "list_all blank_char w \<Longrightarrow>
     trim_space ` set (lines_of s) \<subseteq> trim_space ` set (lines_of (s @ w))"
proof (induction w rule: rev_induct)
  case (snoc c w)
  have "trim_space ` set (lines_of t) \<subseteq> trim_space ` set (lines_of (t @ [c]))"
    if c: "blank_char c" for t
  proof (cases "c = nl")
    case True
    then show ?thesis by (auto simp: split_char_snoc_sep)
  next
    case False
    have "set (lines_of t) = set (butlast (lines_of t)) \<union> {last (lines_of t)}"
      by (metis append_butlast_last_id empty_set list.simps(15) set_append split_char_nonempty)
    then show ?thesis
      using False c by (auto simp: split_char_snoc trim_space_snoc_ascii image_Un)
  qed
  from this [of "s @ w"] snoc show ?case by auto
qed simp

lemma trimmed_lines_trim_right:
  assumes "list_all blank_char cutset"
  shows "trim_space ` set (lines_of (trim_right s cutset)) \<subseteq> trim_space ` set (lines_of s)"
proof -
  obtain w where w: "s = trim_right s cutset @ w" and "\<forall>c \<in> set w. c \<in> set cutset"
    using trim_end_split [of s "\<lambda>c. c \<in> set cutset"] by (auto simp: trim_right_def)
  with assms have "list_all blank_char w" by (auto simp: list_all_iff)
  from trimmed_lines_append_blank [OF this, of "trim_right s cutset"] w show ?thesis
    by metis
qed

lemma contains_iff_trimmed:
  "token \<noteq> [] \<Longrightarrow> contains_on_own_line s token \<longleftrightarrow> token \<in> trim_space ` set (lines_of s)"
  by (auto simp: contains_on_own_line_def list_ex_iff)

lemma takeWhile_length_iff: "length (takeWhile P xs) = length xs \<longleftrightarrow> (\<forall>x \<in> set xs. P x)"
  by (induction xs) auto

lemma strip_sentinel_unchanged:
  "token \<noteq> [] \<Longrightarrow> \<not> contains_on_own_line response token \<Longrightarrow> strip_sentinel response token = response"
  by (auto simp: strip_sentinel_def contains_iff_trimmed takeWhile_length_iff Let_def)

lemma strip_sentinel_found:
  assumes "token \<noteq> []" and "contains_on_own_line response token"
  shows "strip_sentinel response token =
    trim_right (str_join [nl] (takeWhile (\<lambda>l. trim_space l \<noteq> token) (lines_of response)))
      [sp, tab, cr, nl]"
  using assms by (auto simp: strip_sentinel_def contains_iff_trimmed takeWhile_length_iff Let_def)

lemma blank_cutset [simp]: "list_all blank_char [sp, tab, cr, nl]"
  by (simp add: blank_char_def horiz_def)

text \<open>
  The sentinel never leaks across: after \<open>StripSentinel\<close> the text forwarded to the next
  peer has no line that consists of the token, whatever the reply and the configured token
  (the default token when none is configured).
\<close>

theorem strip_sentinel_no_leak:
  "\<not> contains_on_own_line (strip_sentinel response token)
       (if token = [] then default_sentinel else token)"
proof -
  define tok where "tok = (if token = [] then default_sentinel else token)"
  define out where "out = takeWhile (\<lambda>l. trim_space l \<noteq> tok) (lines_of response)"
  have tok: "tok \<noteq> []" by (simp add: tok_def)
  have out: "\<And>l. l \<in> set out \<Longrightarrow> trim_space l \<noteq> tok \<and> nl \<notin> set l"
    using split_char_pieces by (auto simp: out_def dest: set_takeWhileD)
  have join: "tok \<notin> trim_space ` set (lines_of (str_join [nl] out))"
  proof (cases "out = []")
    case True
    with tok show ?thesis by simp
  next
    case False
    then have "lines_of (str_join [nl] out) = out"
      using out by (intro split_str_join) auto
    with out show ?thesis by auto
  qed
  have "\<not> contains_on_own_line (strip_sentinel response tok) tok"
  proof (cases "contains_on_own_line response tok")
    case False
    with tok show ?thesis by (simp add: strip_sentinel_unchanged)
  next
    case True
    then have "strip_sentinel response tok = trim_right (str_join [nl] out) [sp, tab, cr, nl]"
      using tok by (simp add: strip_sentinel_found out_def)
    with join show ?thesis
      using tok trimmed_lines_trim_right [OF blank_cutset, of "str_join [nl] out"]
      by (auto simp: contains_iff_trimmed)
  qed
  moreover have "strip_sentinel response tok = strip_sentinel response token"
    by (cases "token = []") (simp_all add: strip_sentinel_def tok_def)
  ultimately show ?thesis by (metis tok_def)
qed

section \<open>The terminator on the bus\<close>

text \<open>\<open>sen_run\<close> is set while \<open>s.cancel\<close> is: the conversation id and the turn subscription.\<close>

record sentinel =
  sen_token :: string
  sen_run :: "(string \<times> nat) option"

definition new_sentinel :: "string \<Rightarrow> sentinel" where
  "new_sentinel token =
     \<lparr>sen_token = (if token = [] then default_sentinel else token), sen_run = None\<rparr>"

definition sentinel_start ::
    "conversation \<Rightarrow> sentinel \<Rightarrow> bus \<Rightarrow> go_error option \<times> sentinel \<times> bus" where
  "sentinel_start conv s b =
     (if sen_run s \<noteq> None then (None, s, b)
      else case bus_subscribe (topic_turn (conv_id conv)) b of
        (Inl e, b') \<Rightarrow> (Some e, s, b')
      | (Inr i, b') \<Rightarrow> (None, s\<lparr>sen_run := Some (conv_id conv, i)\<rparr>, b'))"

definition sentinel_verdict :: "string \<Rightarrow> control_msg" where
  "sentinel_verdict cid =
     \<lparr>cm_conversation_id = cid, cm_kind = ControlVerdict, cm_slot = [], cm_reason = [],
      cm_status = [], cm_detail = [],
      cm_verdict = Some \<lparr>ver_conversation_id = cid, ver_decision = DecisionTerminate,
        ver_reason = ''sentinel token observed'', ver_status = ConvCompletedSentinel\<rparr>\<rparr>"

definition sentinel_message :: "string \<Rightarrow> go_time \<Rightarrow> bus_message" where
  "sentinel_message cid now =
     \<lparr>bm_conversation_id = cid, bm_topic = topic_control cid, bm_kind = KindControl,
      bm_payload = control_json (sentinel_verdict cid), bm_timestamp = now\<rparr>"

definition sentinel_hit :: "string \<Rightarrow> bus_message \<Rightarrow> bool" where
  "sentinel_hit token msg =
     (case unmarshal_turn (bm_payload msg) of
        None \<Rightarrow> False
      | Some turn \<Rightarrow> contains_on_own_line (ct_response turn) token)"

definition sentinel_handle :: "string \<Rightarrow> string \<Rightarrow> go_time \<Rightarrow> bus_message \<Rightarrow> bus \<Rightarrow> bus" where
  "sentinel_handle token cid now msg b =
     (if sentinel_hit token msg
      then snd (bus_publish (topic_control cid) (sentinel_message cid now) b) else b)"

fun sentinel_loop :: "go_time list \<Rightarrow> string \<Rightarrow> string \<Rightarrow> nat \<Rightarrow> bus \<Rightarrow> bus" where
  "sentinel_loop [] token cid i b = b"
| "sentinel_loop (now # nows) token cid i b =
     (case bus_recv i b of
        (RecvMsg msg, b') \<Rightarrow> sentinel_loop nows token cid i (sentinel_handle token cid now msg b')
      | (_, b') \<Rightarrow> b')"

definition sentinel_run :: "go_time list \<Rightarrow> sentinel \<Rightarrow> bus \<Rightarrow> bus" where
  "sentinel_run nows s b =
     (case sen_run s of None \<Rightarrow> b | Some (cid, i) \<Rightarrow> sentinel_loop nows (sen_token s) cid i b)"

text \<open>
  \<open>Stop\<close> cancels the context and the subscription and waits for the goroutine, whose
  \<open>select\<close> may still pick some of the buffered turns before it picks \<open>ctx.Done()\<close>.
\<close>

definition sentinel_stop :: "go_time list \<Rightarrow> sentinel \<Rightarrow> bus \<Rightarrow> sentinel \<times> bus" where
  "sentinel_stop nows s b =
     (case sen_run s of
        None \<Rightarrow> (s, b)
      | Some (cid, i) \<Rightarrow> (s\<lparr>sen_run := None\<rparr>,
          sentinel_loop nows (sen_token s) cid i (bus_cancel (topic_turn cid) i b)))"

lemma sentinel_hit_turn:
  "bm_payload m = JObj (turn_fields t) \<Longrightarrow>
     sentinel_hit token m \<longleftrightarrow> contains_on_own_line (to_valid_utf8 (ct_response t)) token"
  by (simp add: sentinel_hit_def unmarshal_turn_fields valid_turn_def)

lemma topic_control_neq_turn: "topic_control cid \<noteq> topic_turn cid"
  by (simp add: topic_control_def topic_turn_def)

text \<open>A control subscriber and the sentinel's turn subscriber, each under its topic only.\<close>

definition watching :: "string \<Rightarrow> nat \<Rightarrow> nat \<Rightarrow> bus \<Rightarrow> bool" where
  "watching cid i c b \<longleftrightarrow> bus_inv b \<and> \<not> bus_closed b \<and>
     i < length (bus_heap b) \<and> c < length (bus_heap b) \<and> i \<noteq> c \<and>
     i \<notin> set (subs_of b (topic_control cid)) \<and> c \<in> set (subs_of b (topic_control cid))"

lemma bus_recv_heap:
  "i < length (bus_heap b) \<Longrightarrow> sub_ch (bus_heap b ! i) = m # ms \<Longrightarrow>
     bus_recv i b = (RecvMsg m, b\<lparr>bus_heap := (bus_heap b)[i := (bus_heap b ! i)\<lparr>sub_ch := ms\<rparr>]\<rparr>)"
  "i < length (bus_heap b) \<Longrightarrow> sub_ch (bus_heap b ! i) = [] \<Longrightarrow>
     bus_recv i b = (if sub_closed (bus_heap b ! i) then RecvClosed else RecvBlock, b)"
  by (simp_all add: bus_recv_def sub_recv_def)

lemma sentinel_handle_step:
  assumes w: "watching cid i c b"
  shows "watching cid i c (sentinel_handle token cid now m b)"
    and "bus_heap (sentinel_handle token cid now m b) ! i = bus_heap b ! i"
    and "sub_ch (bus_heap (sentinel_handle token cid now m b) ! c) =
      take (bus_buffer_size b) (sub_ch (bus_heap b ! c) @
        (if sentinel_hit token m then [sentinel_message cid now] else []))"
    and "bus_buffer_size (sentinel_handle token cid now m b) = bus_buffer_size b"
proof -
  have inv: "bus_inv b" and op: "\<not> bus_closed b" and i: "i < length (bus_heap b)"
    and c: "c < length (bus_heap b)" and ni: "i \<notin> set (subs_of b (topic_control cid))"
    and ci: "c \<in> set (subs_of b (topic_control cid))"
    using w by (auto simp: watching_def)
  have oc: "\<not> sub_closed (bus_heap b ! c)"
    using ci subs_of_subset bus_invD(4) [OF inv, of c] by blast
  let ?p = "snd (bus_publish (topic_control cid) (sentinel_message cid now) b)"
  have "subs_of ?p t = subs_of b t" for t by (rule subs_of_cong) simp
  then have "watching cid i c ?p"
    using w bus_publish_inv [OF inv] by (simp add: watching_def)
  then show "watching cid i c (sentinel_handle token cid now m b)"
    using w by (simp add: sentinel_handle_def)
  show "bus_heap (sentinel_handle token cid now m b) ! i = bus_heap b ! i"
    using bus_publish_heap [OF inv op i] ni by (simp add: sentinel_handle_def)
  show "sub_ch (bus_heap (sentinel_handle token cid now m b) ! c) =
      take (bus_buffer_size b) (sub_ch (bus_heap b ! c) @
        (if sentinel_hit token m then [sentinel_message cid now] else []))"
    using bus_publish_heap [OF inv op c] ci oc bus_invD(5) [OF inv c]
    by (simp add: sentinel_handle_def sub_deliver_ch)
  show "bus_buffer_size (sentinel_handle token cid now m b) = bus_buffer_size b"
    by (simp add: sentinel_handle_def)
qed

lemma watching_recv:
  assumes "watching cid i c b" and "sub_ch (bus_heap b ! i) = m # ms"
  shows "watching cid i c (snd (bus_recv i b))"
    and "fst (bus_recv i b) = RecvMsg m"
    and "sub_ch (bus_heap (snd (bus_recv i b)) ! i) = ms"
    and "bus_heap (snd (bus_recv i b)) ! c = bus_heap b ! c"
    and "bus_buffer_size (snd (bus_recv i b)) = bus_buffer_size b"
proof -
  have r: "bus_recv i b =
      (RecvMsg m, b\<lparr>bus_heap := (bus_heap b)[i := (bus_heap b ! i)\<lparr>sub_ch := ms\<rparr>]\<rparr>)"
    using assms by (simp add: watching_def bus_recv_heap)
  have "subs_of (snd (bus_recv i b)) t = subs_of b t" for t
    by (rule subs_of_cong) (simp add: r)
  then show "watching cid i c (snd (bus_recv i b))"
    using assms(1) bus_recv_inv [of b i] by (simp add: watching_def r)
qed (use assms in \<open>simp_all add: watching_def bus_recv_heap\<close>)

text \<open>
  The loop, given enough iterations, puts on the control channel one verdict for each waiting
  turn that carries the token, in order, within the channel's capacity.
\<close>

lemma sentinel_loop_control:
  assumes "watching cid i c b" and "length (sub_ch (bus_heap b ! i)) \<le> length nows"
  shows "\<exists>stamps. sub_ch (bus_heap (sentinel_loop nows token cid i b) ! c) =
      take (bus_buffer_size b) (sub_ch (bus_heap b ! c) @ map (sentinel_message cid) stamps) \<and>
    length stamps = length (filter (sentinel_hit token) (sub_ch (bus_heap b ! i)))"
  using assms
proof (induction nows arbitrary: b)
  case Nil
  then show ?case by (auto simp: watching_def bus_invD(5))
next
  case (Cons now nows)
  show ?case
  proof (cases "sub_ch (bus_heap b ! i)")
    case Nil
    then show ?thesis
      using Cons.prems by (auto simp: watching_def bus_recv_heap bus_invD(5))
  next
    case (Cons m ms)
    note r = watching_recv [OF Cons.prems(1) Cons]
    let ?b = "snd (bus_recv i b)" and ?h = "sentinel_hit token m"
    let ?b' = "sentinel_handle token cid now m ?b"
    note h = sentinel_handle_step [OF r(1), of token now m]
    obtain stamps where s: "sub_ch (bus_heap (sentinel_loop nows token cid i ?b') ! c) =
        take (bus_buffer_size b) (sub_ch (bus_heap ?b' ! c) @ map (sentinel_message cid) stamps)"
      "length stamps = length (filter (sentinel_hit token) ms)"
      using Cons.IH [OF h(1)] Cons.prems(2) h(2,4) r Cons by auto
    have loop: "sentinel_loop (now # nows) token cid i b = sentinel_loop nows token cid i ?b'"
      using r(2) by (simp add: split_beta)
    have le: "length (sub_ch (bus_heap b ! c)) \<le> bus_buffer_size b"
      using Cons.prems(1) by (simp add: watching_def bus_invD(5))
    show ?thesis
    proof (cases ?h)
      case True
      then show ?thesis
        using s h(3) r(4,5) loop Cons le
        by (intro exI [of _ "now # stamps"])
           (auto simp: min_def take_Cons' not_less_eq_eq le_Suc_eq)
    next
      case False
      then show ?thesis
        using s h(3) r(4,5) loop Cons le by (intro exI [of _ stamps]) auto
    qed
  qed
qed

text \<open>The verdict survives the wire.\<close>

lemma json_control_sentinel:
  "json_control (control_json (sentinel_verdict cid)) = Some (sentinel_verdict (to_valid_utf8 cid))"
  by (simp add: json_control_def control_json_def sentinel_verdict_def verdict_json_def
      json_verdict_def status_defs wire_simps to_valid_utf8_ascii is_ascii_def byte_def)

lemma sentinel_start_Some:
  assumes "bus_inv b" and "sen_run s = None" and "sentinel_start conv s b = (None, s1, b1)"
  shows "\<exists>i. s1 = s\<lparr>sen_run := Some (conv_id conv, i)\<rparr> \<and>
    bus_subscribe (topic_turn (conv_id conv)) b = (Inr i, b1) \<and> bus_inv b1"
  using assms bus_subscribe_inv [OF assms(1), of "topic_turn (conv_id conv)"]
  by (auto simp: sentinel_start_def split: prod.splits sum.splits)

lemma subscribe_keeps:
  assumes "bus_subscribe topic b = (Inr c, b')" and "j < length (bus_heap b)"
  shows "bus_heap b' ! j = bus_heap b ! j" and "j < length (bus_heap b')"
    and "j \<noteq> c" and "j \<in> set (subs_of b' t) \<longleftrightarrow> j \<in> set (subs_of b t)"
  using assms by (auto simp: bus_subscribe_def Let_def nth_append subs_of_def map_of_map_put
      split: if_splits option.splits)

lemma start_then_subscribe_watching:
  assumes inv: "bus_inv b" and sub1: "bus_subscribe (topic_turn cid) b = (Inr i, b1)"
    and sub2: "bus_subscribe (topic_control cid) b1 = (Inr c, b2)"
  shows "watching cid i c b2" and "i \<in> set (subs_of b2 t) \<longleftrightarrow> t = topic_turn cid"
    and "c \<in> set (subs_of b2 t) \<longleftrightarrow> t = topic_control cid"
    and "sub_ch (bus_heap b2 ! i) = []" "sub_ch (bus_heap b2 ! c) = []"
    and "bus_buffer_size b2 = bus_buffer_size b"
proof -
  have inv1: "bus_inv b1" using bus_subscribe_inv [OF inv, of "topic_turn cid"] sub1 by simp
  have inv2: "bus_inv b2" using bus_subscribe_inv [OF inv1, of "topic_control cid"] sub2 by simp
  note f1 = bus_subscribe_fresh [OF inv sub1] and f2 = bus_subscribe_fresh [OF inv1 sub2]
  note k = subscribe_keeps [OF sub2 f1(3)]
  show i: "i \<in> set (subs_of b2 t) \<longleftrightarrow> t = topic_turn cid" for t
    using f1(6) k(4) by blast
  show "c \<in> set (subs_of b2 t) \<longleftrightarrow> t = topic_control cid" by (rule f2(6))
  show "watching cid i c b2"
    using inv2 f2 k i [of "topic_control cid"] topic_control_neq_turn by (auto simp: watching_def)
qed (use bus_subscribe_fresh [OF inv sub1] subscribe_keeps [OF sub2]
      bus_subscribe_fresh [OF _ sub2] bus_subscribe_inv [OF inv, of "topic_turn cid"] sub1 in auto)

lemma sentinel_hits_length:
  "map bm_payload ms = map (\<lambda>t. JObj (turn_fields t)) ts \<Longrightarrow> length (filter (sentinel_hit token) ms) =
     length (filter (\<lambda>t. contains_on_own_line (to_valid_utf8 (ct_response t)) token) ts)"
proof (induction ms arbitrary: ts)
  case (Cons m ms)
  then show ?case by (cases ts) (auto simp: sentinel_hit_turn)
qed simp



end
