(* ===== verification/Broker.thy ===== *)
theory Broker
  imports Peers Terminator
begin

text \<open>
  The conversation broker, \<open>src/internal/conversation/broker.go\<close> and \<open>result.go\<close>.

  Everything the broker talks to (store, peers, terminator, bus, clock, random source, context)
  is a record of operations on a world \<open>'w\<close>; every call of the source is a call of one of these
  operations, in the order of the source, with the world threaded through.  The theorems of
  this theory hold for every such record, that is for any behaviour of the environment; the
  theory \<open>Converse\<close> instantiates it with the in-process bus, the sentinel terminator and scripted
  peers.  A panic of the source is \<open>None\<close>.
\<close>

section \<open>Results and dependencies\<close>

record final_result =
  fr_conversation :: conversation
  fr_turns :: "conversation_turn list"
  fr_terminator_note :: string
  fr_warnings :: "string list"

text \<open>A transport: the legacy slots, or a peer of the map \<open>PeersByID\<close>.\<close>

datatype transport_ref = RefA | RefB | RefID peer_id

record 'w broker_ops =
  op_now :: "'w \<Rightarrow> go_time \<times> 'w"
  op_ctx_done :: "'w \<Rightarrow> bool \<times> 'w"
  op_random :: "'w \<Rightarrow> string option \<times> 'w"
  op_create :: "conversation \<Rightarrow> 'w \<Rightarrow> go_error option \<times> 'w"
  op_update :: "string \<Rightarrow> conversation_patch \<Rightarrow> 'w \<Rightarrow> go_error option \<times> 'w"
  op_append :: "conversation_turn \<Rightarrow> 'w \<Rightarrow> go_error option \<times> 'w"
  op_peer_start :: "transport_ref \<Rightarrow> peer_spec \<Rightarrow> string \<Rightarrow> peer_slot \<Rightarrow> 'w \<Rightarrow> go_error option \<times> 'w"
  op_deliver :: "transport_ref \<Rightarrow> envelope \<Rightarrow> 'w \<Rightarrow> conversation_turn result \<times> 'w"
  op_peer_stop :: "transport_ref \<Rightarrow> 'w \<Rightarrow> 'w"
  op_term_start :: "conversation \<Rightarrow> 'w \<Rightarrow> go_error option \<times> 'w"
  op_term_stop :: "'w \<Rightarrow> 'w"
  op_subscribe :: "string \<Rightarrow> 'w \<Rightarrow> nat result \<times> 'w"
  op_cancel :: "string \<Rightarrow> nat \<Rightarrow> 'w \<Rightarrow> 'w"
  op_publish :: "string \<Rightarrow> bus_message \<Rightarrow> 'w \<Rightarrow> go_error option \<times> 'w"
  op_recv_wait :: "nat \<Rightarrow> duration \<Rightarrow> 'w \<Rightarrow> recv \<times> 'w"
  op_recv_rest :: "nat \<Rightarrow> 'w \<Rightarrow> bus_message list \<times> 'w"

text \<open>
  \<open>op_recv_wait\<close> receives or times out (\<open>RecvBlock\<close>); \<open>op_recv_rest\<close> is what repeated
  non-blocking receives yield until the channel is empty or closed.
\<close>

record broker_deps =
  bd_conversation :: conversation
  bd_drain_window :: duration
  bd_policy :: "peer_id \<Rightarrow> string \<Rightarrow> peer_id list \<Rightarrow> decision option"
  bd_peers_by_id :: "peer_id list"
  bd_peer_order :: "peer_id list"

text \<open>\<open>NewBroker\<close> puts in the addressed policy when none is given.\<close>

definition new_broker ::
    "conversation \<Rightarrow> duration \<Rightarrow> (peer_id \<Rightarrow> string \<Rightarrow> peer_id list \<Rightarrow> decision option) option
      \<Rightarrow> peer_id list \<Rightarrow> peer_id list \<Rightarrow> broker_deps" where
  "new_broker conv window policy by_id order =
     \<lparr>bd_conversation = conv, bd_drain_window = window,
      bd_policy = (case policy of None \<Rightarrow> addressed_next | Some p \<Rightarrow> p),
      bd_peers_by_id = by_id, bd_peer_order = order\<rparr>"

definition default_drain_window :: duration where
  "default_drain_window = 50000000"

definition n_peer_mode :: "broker_deps \<Rightarrow> bool" where
  "n_peer_mode d \<longleftrightarrow> bd_peers_by_id d \<noteq> []"

definition peer_ids :: "broker_deps \<Rightarrow> peer_id list" where
  "peer_ids d = (if n_peer_mode d \<and> bd_peer_order d \<noteq> [] then bd_peer_order d else [''a'', ''b''])"

definition slot_from_peer_id :: "peer_id \<Rightarrow> peer_slot" where
  "slot_from_peer_id pid = (if pid = ''b'' then PeerSlotB else PeerSlotA)"

text \<open>In N-peer mode the legacy transports are nil, and calling one panics.\<close>

definition transport_for :: "broker_deps \<Rightarrow> peer_slot \<Rightarrow> transport_ref option" where
  "transport_for d slot =
     (if n_peer_mode d \<and> slot \<in> set (bd_peers_by_id d) then Some (RefID slot)
      else if n_peer_mode d then None
      else if slot = PeerSlotA then Some RefA else Some RefB)"

definition spec_for_peer_id :: "conversation \<Rightarrow> peer_id \<Rightarrow> peer_spec" where
  "spec_for_peer_id conv pid =
     (case find (\<lambda>p. part_id p = pid) (conv_peers conv) of
        Some p \<Rightarrow> part_spec p
      | None \<Rightarrow> if pid = ''a'' then conv_peer_a conv
          else if pid = ''b'' then conv_peer_b conv else zero_peer_spec)"

section \<open>Starting and stopping peers\<close>

definition stop_peer_ids :: "'w broker_ops \<Rightarrow> broker_deps \<Rightarrow> peer_id list \<Rightarrow> 'w \<Rightarrow> 'w" where
  "stop_peer_ids ops d ids w =
     fold (\<lambda>pid. if pid \<in> set (bd_peers_by_id d) then op_peer_stop ops (RefID pid) else (\<lambda>w. w)) ids w"

definition stop_all_peers :: "'w broker_ops \<Rightarrow> broker_deps \<Rightarrow> 'w \<Rightarrow> 'w" where
  "stop_all_peers ops d w =
     (if n_peer_mode d then stop_peer_ids ops d (bd_peer_order d) w
      else op_peer_stop ops RefB (op_peer_stop ops RefA w))"

fun start_n_peers ::
    "'w broker_ops \<Rightarrow> broker_deps \<Rightarrow> conversation \<Rightarrow> peer_id list \<Rightarrow> peer_id list \<Rightarrow> 'w
      \<Rightarrow> go_error option \<times> 'w" where
  "start_n_peers ops d conv started [] w = (None, w)"
| "start_n_peers ops d conv started (pid # ids) w =
     (if pid \<notin> set (bd_peers_by_id d)
      then (Some (ErrMsg (''peer '' @ pid @ '' declared in PeerOrder but missing from PeersByID'')),
            stop_peer_ids ops d started w)
      else case op_peer_start ops (RefID pid) (spec_for_peer_id conv pid) (conv_id conv) pid w of
          (Some e, w') \<Rightarrow> (Some (ErrWrap (''peer '' @ pid @ '' start: '') e), stop_peer_ids ops d started w')
        | (None, w') \<Rightarrow> start_n_peers ops d conv (started @ [pid]) ids w')"

definition start_all_peers ::
    "'w broker_ops \<Rightarrow> broker_deps \<Rightarrow> conversation \<Rightarrow> 'w \<Rightarrow> go_error option \<times> 'w" where
  "start_all_peers ops d conv w =
     (if n_peer_mode d then start_n_peers ops d conv [] (bd_peer_order d) w
      else case op_peer_start ops RefA (conv_peer_a conv) (conv_id conv) PeerSlotA w of
          (Some e, w1) \<Rightarrow> (Some (ErrWrap ''peer A start: '' e), w1)
        | (None, w1) \<Rightarrow>
           (case op_peer_start ops RefB (conv_peer_b conv) (conv_id conv) PeerSlotB w1 of
              (Some e, w2) \<Rightarrow> (Some (ErrWrap ''peer B start: '' e), op_peer_stop ops RefA w2)
            | (None, w2) \<Rightarrow> (None, w2)))"

section \<open>One turn\<close>

definition publish_turn :: "'w broker_ops \<Rightarrow> conversation_turn \<Rightarrow> 'w \<Rightarrow> go_error option \<times> 'w" where
  "publish_turn ops turn w =
     (case marshal_turn turn of
        Inl e \<Rightarrow> (Some e, w)
      | Inr payload \<Rightarrow>
          (let (now, w1) = op_now ops w;
               topic = topic_turn (ct_conversation_id turn)
           in op_publish ops topic
                \<lparr>bm_conversation_id = ct_conversation_id turn, bm_topic = topic, bm_kind = KindTurn,
                 bm_payload = payload, bm_timestamp = now\<rparr> w1))"

definition drain_control_timed ::
    "'w broker_ops \<Rightarrow> nat \<Rightarrow> duration \<Rightarrow> 'w \<Rightarrow> control_msg list \<times> 'w" where
  "drain_control_timed ops ch deadline w =
     (case op_recv_wait ops ch deadline w of
        (RecvMsg msg, w1) \<Rightarrow>
          (let (rest, w2) = op_recv_rest ops ch w1
           in (List.map_filter (\<lambda>m. json_control (bm_payload m)) (msg # rest), w2))
      | (_, w1) \<Rightarrow> ([], w1))"

definition add_warning :: "string \<Rightarrow> go_error option \<Rightarrow> string list \<Rightarrow> string list" where
  "add_warning what e warnings =
     (case e of None \<Rightarrow> warnings | Some err \<Rightarrow> warnings @ [what @ err_text err])"

text \<open>The fields of a turn that the policy's decision fills in.\<close>

definition annotate_turn :: "decision \<Rightarrow> conversation_turn \<Rightarrow> conversation_turn" where
  "annotate_turn dec turn =
     turn\<lparr>ct_to_id := dec_next dec,
          ct_reason := (if ct_reason turn = TurnReasonOpener then ct_reason turn
            else if dec_fallback_used dec then TurnReasonFallbackRoundRobin
            else TurnReasonAddressed),
          ct_fallback_used := dec_fallback_used dec,
          ct_next_id_parsed := (case dec_parsed dec of None \<Rightarrow> ct_next_id_parsed turn
            | Some p \<Rightarrow> Some p)\<rparr>"

text \<open>What a control message asks the broker to do: nothing, or to end with a status and note.\<close>

definition control_outcome :: "control_msg \<Rightarrow> (conversation_status \<times> string) option" where
  "control_outcome ctl =
     (if cm_kind ctl = ControlVerdict then
        (case cm_verdict ctl of
           Some v \<Rightarrow> if ver_decision v = DecisionTerminate then Some (ver_status v, ver_reason v) else None
         | None \<Rightarrow> None)
      else if cm_kind ctl = ControlPeerCrashed then
        Some (ConvPeerCrashed, ''peer '' @ cm_slot ctl @ '' crashed: '' @ cm_detail ctl)
      else if cm_kind ctl = ControlPeerBlocked then
        Some (ConvPeerBlocked, ''peer '' @ cm_slot ctl @ '' blocked: '' @ cm_detail ctl)
      else None)"

fun first_outcome :: "control_msg list \<Rightarrow> (conversation_status \<times> string) option" where
  "first_outcome [] = None"
| "first_outcome (c # cs) = (case control_outcome c of Some r \<Rightarrow> Some r | None \<Rightarrow> first_outcome cs)"

text \<open>The local variables of \<open>Run\<close> at the head of its loop.\<close>

record loop_state =
  ls_conv :: conversation
  ls_turns :: "conversation_turn list"
  ls_warnings :: "string list"
  ls_active :: peer_slot
  ls_env :: envelope

text \<open>A round ends with the arguments of a call to \<open>finalize\<close> or goes on.\<close>

datatype round_result =
    Finish conversation "conversation_turn list" "string list" conversation_status string
  | Continue loop_state

text \<open>
  The part of a round behind a delivered turn: from the v2 fields to the next envelope.
\<close>

definition stripped_response :: "conversation \<Rightarrow> conversation_turn \<Rightarrow> string" where
  "stripped_response conv turn =
     (if term_kind (conv_terminator conv) = ''sentinel''
      then strip_sentinel (ct_response turn) (term_sentinel (conv_terminator conv))
      else ct_response turn)"

definition next_slot :: "broker_deps \<Rightarrow> decision \<Rightarrow> peer_slot" where
  "next_slot d dec = (if n_peer_mode d then dec_next dec else slot_from_peer_id (dec_next dec))"

definition broker_after_policy ::
    "'w broker_ops \<Rightarrow> broker_deps \<Rightarrow> nat \<Rightarrow> conversation \<Rightarrow> conversation_turn list \<Rightarrow> string list
      \<Rightarrow> peer_slot \<Rightarrow> string \<Rightarrow> decision \<Rightarrow> 'w \<Rightarrow> (round_result \<times> 'w) option" where
  "broker_after_policy ops d ctl conv turns warnings active next_response dec w =
     (if conv_turns_consumed conv \<ge> conv_max_turns conv
      then Some (Finish conv turns warnings ConvMaxTurnsHit ''max turns reached'', w)
      else let (cancelled, w1) = op_ctx_done ops w in
        if cancelled then Some (Finish conv turns warnings ConvInterrupted ''context cancelled'', w1)
        else let window = (if bd_drain_window d \<le> 0 then default_drain_window else bd_drain_window d);
                 (drained, w2) = drain_control_timed ops ctl window w1
             in case first_outcome drained of
                  Some (status, note) \<Rightarrow> Some (Finish conv turns warnings status note, w2)
                | None \<Rightarrow>
                   (let (random, w3) = op_random ops w2 in
                    case new_marker_token random of
                      None \<Rightarrow> None
                    | Some marker \<Rightarrow>
                        Some (Continue \<lparr>ls_conv = conv, ls_turns = turns, ls_warnings = warnings,
                          ls_active = next_slot d dec,
                          ls_env = build_envelope_turn_n conv (conv_turns_consumed conv + 1) active
                            next_response marker\<rparr>, w3)))"

definition broker_after_deliver ::
    "'w broker_ops \<Rightarrow> broker_deps \<Rightarrow> nat \<Rightarrow> loop_state \<Rightarrow> conversation_turn \<Rightarrow> 'w
      \<Rightarrow> (round_result \<times> 'w) option" where
  "broker_after_deliver ops d ctl st turn0 w =
     (let current = peer_id_from_slot (ls_active st);
          turn = turn0\<lparr>ct_from_id := current,
            ct_reason := (if ls_turns st = [] then TurnReasonOpener else ct_reason turn0)\<rparr>;
          (append_err, w1) = op_append ops turn w;
          (publish_err, w2) = publish_turn ops turn w1;
          warnings = add_warning ''publish turn: '' publish_err
            (add_warning ''store append_turn: '' append_err (ls_warnings st));
          conv = (ls_conv st)\<lparr>conv_turns_consumed := int (length (ls_turns st) + 1)\<rparr>;
          next_response = stripped_response conv turn
      in case bd_policy d current next_response (peer_ids d) of
           None \<Rightarrow> None
         | Some dec \<Rightarrow> broker_after_policy ops d ctl conv (ls_turns st @ [annotate_turn dec turn])
             warnings (ls_active st) next_response dec w2)"

definition broker_round ::
    "'w broker_ops \<Rightarrow> broker_deps \<Rightarrow> nat \<Rightarrow> loop_state \<Rightarrow> 'w \<Rightarrow> (round_result \<times> 'w) option" where
  "broker_round ops d ctl st w =
     (let (cancelled, w1) = op_ctx_done ops w;
          conv = (ls_conv st)\<lparr>conv_turns_consumed := int (length (ls_turns st))\<rparr>
      in if cancelled
         then Some (Finish conv (ls_turns st) (ls_warnings st) ConvInterrupted ''context cancelled'', w1)
         else case transport_for d (ls_active st) of
             None \<Rightarrow> None
           | Some ref \<Rightarrow>
              (case op_deliver ops ref (ls_env st) w1 of
                 (Inl e, w2) \<Rightarrow>
                   Some (if err_is_ctx e
                     then Finish conv (ls_turns st) (ls_warnings st) ConvInterrupted (err_text e)
                     else Finish conv (ls_turns st) (ls_warnings st) ConvError
                       (''peer '' @ ls_active st @ '' deliver: '' @ err_text e), w2)
               | (Inr turn, w2) \<Rightarrow> broker_after_deliver ops d ctl st turn w2))"

section \<open>The loop terminates\<close>

lemma broker_after_policy_Continue:
  "broker_after_policy ops d ctl conv turns warnings active resp dec w = Some (Continue st, w') \<Longrightarrow>
     ls_conv st = conv \<and> ls_turns st = turns \<and> conv_turns_consumed conv < conv_max_turns conv \<and>
     ls_active st = next_slot d dec \<and> env_turn_index (ls_env st) = conv_turns_consumed conv + 1 \<and>
     env_conversation_id (ls_env st) = conv_id conv \<and> ls_warnings st = warnings"
  by (auto simp: broker_after_policy_def Let_def build_envelope_turn_n_def
      split: if_splits prod.splits option.splits)

lemma broker_round_Continue:
  assumes "broker_round ops d ctl st w = Some (Continue st', w')"
  obtains ref w1 w2 turn0 dec where
    "transport_for d (ls_active st) = Some ref" "op_deliver ops ref (ls_env st) w1 = (Inr turn0, w2)"
    "bd_policy d (ls_active st) (stripped_response (ls_conv st) turn0) (peer_ids d) = Some dec"
    "ls_turns st' = ls_turns st @ [annotate_turn dec (turn0\<lparr>ct_from_id := ls_active st,
       ct_reason := (if ls_turns st = [] then TurnReasonOpener else ct_reason turn0)\<rparr>)]"
    "ls_active st' = next_slot d dec"
    "ls_conv st' = (ls_conv st)\<lparr>conv_turns_consumed := int (length (ls_turns st) + 1)\<rparr>"
    "int (length (ls_turns st) + 1) < conv_max_turns (ls_conv st)"
    "env_turn_index (ls_env st') = int (length (ls_turns st) + 2)"
proof -
  obtain b w1 where c: "op_ctx_done ops w = (b, w1)" by fastforce
  from assms c obtain ref where ref: "\<not> b" "transport_for d (ls_active st) = Some ref"
    by (auto simp: broker_round_def Let_def split: if_splits option.splits)
  from assms c ref obtain turn0 w2 where del: "op_deliver ops ref (ls_env st) w1 = (Inr turn0, w2)"
    "broker_after_deliver ops d ctl st turn0 w2 = Some (Continue st', w')"
    by (auto simp: broker_round_def Let_def split: prod.splits sum.splits if_splits)
  have resp: "stripped_response (conv\<lparr>conv_turns_consumed := n\<rparr>) (turn\<lparr>ct_from_id := x, ct_reason := y\<rparr>) =
      stripped_response conv turn" for conv n turn x y
    by (simp add: stripped_response_def)
  from del(2) obtain dec where dec:
    "bd_policy d (ls_active st) (stripped_response (ls_conv st) turn0) (peer_ids d) = Some dec"
    and after: "\<exists>ws w3. broker_after_policy ops d ctl
      ((ls_conv st)\<lparr>conv_turns_consumed := int (length (ls_turns st) + 1)\<rparr>)
      (ls_turns st @ [annotate_turn dec (turn0\<lparr>ct_from_id := ls_active st,
         ct_reason := (if ls_turns st = [] then TurnReasonOpener else ct_reason turn0)\<rparr>)]) ws
      (ls_active st) (stripped_response (ls_conv st) turn0) dec w3 = Some (Continue st', w')"
    by (auto simp: broker_after_deliver_def Let_def peer_id_from_slot_def resp
        split: prod.splits option.splits)
  from after obtain ws w3 where "broker_after_policy ops d ctl
      ((ls_conv st)\<lparr>conv_turns_consumed := int (length (ls_turns st) + 1)\<rparr>)
      (ls_turns st @ [annotate_turn dec (turn0\<lparr>ct_from_id := ls_active st,
         ct_reason := (if ls_turns st = [] then TurnReasonOpener else ct_reason turn0)\<rparr>)]) ws
      (ls_active st) (stripped_response (ls_conv st) turn0) dec w3 = Some (Continue st', w')"
    by blast
  from broker_after_policy_Continue [OF this] that ref(2) del(1) dec show thesis by simp
qed

definition finalize ::
    "'w broker_ops \<Rightarrow> conversation \<Rightarrow> conversation_turn list \<Rightarrow> string list \<Rightarrow> conversation_status
      \<Rightarrow> string \<Rightarrow> 'w \<Rightarrow> final_result \<times> 'w" where
  "finalize ops conv0 turns warnings status note w =
     (let (now, w1) = op_now ops w;
          conv1 = conv0\<lparr>conv_status := status, conv_ended_at := Some now\<rparr>;
          conv = (if conv_turns_consumed conv1 = 0 \<and> turns \<noteq> []
            then conv1\<lparr>conv_turns_consumed := int (length turns)\<rparr> else conv1);
          (err, w2) = op_update ops (conv_id conv)
            \<lparr>cp_status = Some status, cp_ended_at = Some now,
             cp_turns_consumed = Some (conv_turns_consumed conv)\<rparr> w1
      in (\<lparr>fr_conversation = conv, fr_turns = turns, fr_terminator_note = note,
           fr_warnings = add_warning ''store update_conversation: '' err warnings\<rparr>, w2))"

function broker_loop ::
    "'w broker_ops \<Rightarrow> broker_deps \<Rightarrow> nat \<Rightarrow> loop_state \<Rightarrow> 'w \<Rightarrow> (final_result \<times> 'w) option" where
  "broker_loop ops d ctl st w =
     (case broker_round ops d ctl st w of
        None \<Rightarrow> None
      | Some (Finish conv turns warnings status note, w') \<Rightarrow>
          Some (finalize ops conv turns warnings status note w')
      | Some (Continue st', w') \<Rightarrow> broker_loop ops d ctl st' w')"
  by pat_completeness auto
termination
proof (relation "measure (\<lambda>(ops, d, ctl, st, w). nat (conv_max_turns (ls_conv st) - int (length (ls_turns st))))",
    goal_cases)
  case (2 ops d ctl st w x rr w' st')
  then have "broker_round ops d ctl st w = Some (Continue st', w')" by simp
  then show ?case by (elim broker_round_Continue) simp
qed simp

declare broker_loop.simps [simp del]

definition opener_slot :: "broker_deps \<Rightarrow> conversation \<Rightarrow> peer_slot" where
  "opener_slot d conv =
     (if n_peer_mode d then
        (if conv_opener_id conv = [] \<and> bd_peer_order d \<noteq> [] then hd (bd_peer_order d)
         else conv_opener_id conv)
      else if conv_opener conv \<noteq> PeerSlotA \<and> conv_opener conv \<noteq> PeerSlotB then PeerSlotA
      else conv_opener conv)"

text \<open>
  \<open>Run\<close>. The deferred calls run after \<open>finalize\<close>, in reverse order: the control subscription is
  cancelled, the terminator stopped, the peers stopped. A negative turn limit panics in the
  allocation of the turn slice.
\<close>

definition broker_run ::
    "'w broker_ops \<Rightarrow> broker_deps \<Rightarrow> 'w \<Rightarrow> (final_result \<times> 'w) option" where
  "broker_run ops d w =
     (let (now, w1) = op_now ops w;
          conv = (bd_conversation d)\<lparr>conv_status := ConvRunning, conv_created_at := now\<rparr>;
          (create_err, w2) = op_create ops conv w1;
          warnings = add_warning ''store create_conversation: '' create_err []
      in case start_all_peers ops d conv w2 of
           (Some e, w3) \<Rightarrow> Some (finalize ops conv [] warnings ConvError (err_text e) w3)
         | (None, w3) \<Rightarrow>
            (let (term_err, w4) = op_term_start ops conv w3;
                 warnings = add_warning ''terminator start: '' term_err warnings
             in case op_subscribe ops (topic_control (conv_id conv)) w4 of
                  (Inl e, w5) \<Rightarrow>
                    (let (r, w6) = finalize ops conv [] warnings ConvError
                           (''control subscribe: '' @ err_text e) w5
                     in Some (r, stop_all_peers ops d (op_term_stop ops w6)))
                | (Inr ctl, w5) \<Rightarrow>
                   (if conv_max_turns conv < 0 then None
                    else let active = opener_slot d conv; (random, w6) = op_random ops w5 in
                      case new_marker_token random of
                        None \<Rightarrow> None
                      | Some marker \<Rightarrow>
                         map_option (\<lambda>(r, w7). (r, stop_all_peers ops d (op_term_stop ops
                             (op_cancel ops (topic_control (conv_id conv)) ctl w7))))
                           (broker_loop ops d ctl
                              \<lparr>ls_conv = conv, ls_turns = [], ls_warnings = warnings,
                               ls_active = active, ls_env = build_envelope_turn1 conv active marker\<rparr> w6))))"

section \<open>Turn limit and status, for any environment\<close>

text \<open>The turn as recorded: what the transport returned, with the broker's fields filled in.\<close>

definition recorded_turn :: "loop_state \<Rightarrow> conversation_turn \<Rightarrow> decision \<Rightarrow> conversation_turn" where
  "recorded_turn st turn0 dec = annotate_turn dec (turn0\<lparr>ct_from_id := ls_active st,
     ct_reason := (if ls_turns st = [] then TurnReasonOpener else ct_reason turn0)\<rparr>)"

lemma recorded_turn_simps [simp]:
  "ct_from_id (recorded_turn st turn0 dec) = ls_active st"
  "ct_to_id (recorded_turn st turn0 dec) = dec_next dec"
  "ct_index (recorded_turn st turn0 dec) = ct_index turn0"
  "ct_response (recorded_turn st turn0 dec) = ct_response turn0"
  "ls_turns st = [] \<Longrightarrow> ct_reason (recorded_turn st turn0 dec) = TurnReasonOpener"
  by (simp_all add: recorded_turn_def annotate_turn_def)

lemma stripped_response_fields:
  "stripped_response (conv\<lparr>conv_turns_consumed := n\<rparr>) (turn\<lparr>ct_from_id := x, ct_reason := y\<rparr>) =
     stripped_response conv turn"
  by (simp add: stripped_response_def)

lemma broker_after_policy_Finish:
  "broker_after_policy ops d ctl conv turns warnings active resp dec w =
     Some (Finish conv' turns' warnings' status note, w') \<Longrightarrow>
   conv' = conv \<and> turns' = turns \<and>
   (if conv_max_turns conv \<le> conv_turns_consumed conv
    then status = ConvMaxTurnsHit \<and> note = ''max turns reached''
    else status = ConvInterrupted \<or> (\<exists>c. control_outcome c = Some (status, note)))"
proof -
  have fo: "first_outcome cs = Some r \<Longrightarrow> \<exists>c. control_outcome c = Some r" for cs r
    by (induction cs) (auto split: option.splits)
  show "broker_after_policy ops d ctl conv turns warnings active resp dec w =
     Some (Finish conv' turns' warnings' status note, w') \<Longrightarrow> ?thesis"
    by (auto simp: broker_after_policy_def Let_def split: if_splits prod.splits option.splits dest: fo)
qed

text \<open>The ways in which a round ends the loop.\<close>

lemma broker_round_Finish [consumes 1, case_names before after]:
  assumes "broker_round ops d ctl st w = Some (Finish conv turns warnings status note, w')"
  obtains "turns = ls_turns st"
    "conv = (ls_conv st)\<lparr>conv_turns_consumed := int (length (ls_turns st))\<rparr>"
    "status = ConvInterrupted \<or> status = ConvError"
  | ref w1 w2 turn0 dec where
    "transport_for d (ls_active st) = Some ref" "op_deliver ops ref (ls_env st) w1 = (Inr turn0, w2)"
    "bd_policy d (ls_active st) (stripped_response (ls_conv st) turn0) (peer_ids d) = Some dec"
    "turns = ls_turns st @ [recorded_turn st turn0 dec]"
    "conv = (ls_conv st)\<lparr>conv_turns_consumed := int (length (ls_turns st) + 1)\<rparr>"
    "if conv_max_turns (ls_conv st) \<le> int (length (ls_turns st) + 1)
     then status = ConvMaxTurnsHit \<and> note = ''max turns reached''
     else status = ConvInterrupted \<or> (\<exists>c. control_outcome c = Some (status, note))"
proof -
  obtain b w1 where c: "op_ctx_done ops w = (b, w1)" by fastforce
  show thesis
  proof (cases b)
    case True
    with assms c that(1) show thesis by (auto simp: broker_round_def Let_def)
  next
    case False
    with assms c obtain ref where ref: "transport_for d (ls_active st) = Some ref"
      by (auto simp: broker_round_def Let_def split: option.splits)
    obtain res w2 where del: "op_deliver ops ref (ls_env st) w1 = (res, w2)" by fastforce
    show thesis
    proof (cases res)
      case (Inl e)
      with assms c False ref del that(1) show thesis
        by (auto simp: broker_round_def Let_def split: if_splits)
    next
      case (Inr turn0)
      with assms c False ref del have
        "broker_after_deliver ops d ctl st turn0 w2 = Some (Finish conv turns warnings status note, w')"
        by (simp add: broker_round_def Let_def)
      then obtain dec where dec:
        "bd_policy d (ls_active st) (stripped_response (ls_conv st) turn0) (peer_ids d) = Some dec"
        and after: "\<exists>ws w3. broker_after_policy ops d ctl
          ((ls_conv st)\<lparr>conv_turns_consumed := int (length (ls_turns st) + 1)\<rparr>)
          (ls_turns st @ [recorded_turn st turn0 dec]) ws (ls_active st)
          (stripped_response (ls_conv st) turn0) dec w3 = Some (Finish conv turns warnings status note, w')"
        by (auto simp: broker_after_deliver_def Let_def peer_id_from_slot_def stripped_response_fields
            recorded_turn_def split: prod.splits option.splits)
      from after broker_after_policy_Finish ref del Inr dec that(2) show thesis by fastforce
    qed
  qed
qed

lemma finalize_fields:
  assumes "finalize ops conv turns warnings status note w = (r, w')"
  shows "fr_turns r = turns" "fr_terminator_note r = note"
    "conv_status (fr_conversation r) = status" "conv_ended_at (fr_conversation r) \<noteq> None"
    "conv_turns_consumed conv = int (length turns) \<Longrightarrow>
       conv_turns_consumed (fr_conversation r) = int (length turns)"
    "conv_id (fr_conversation r) = conv_id conv"
  using assms by (auto simp: finalize_def Let_def split: prod.splits)

text \<open>
  An induction rule for the loop: an invariant of the loop head that every round keeps, and
  what the last round makes of it.
\<close>

lemma broker_loop_world_invariant:
  assumes "broker_loop ops d ctl st w = Some (r, w')" and "I st w"
    and step: "\<And>st w st' w'. I st w \<Longrightarrow> broker_round ops d ctl st w = Some (Continue st', w') \<Longrightarrow> I st' w'"
    and fin: "\<And>st w conv turns warnings status note w1 w2 r. I st w \<Longrightarrow>
      broker_round ops d ctl st w = Some (Finish conv turns warnings status note, w1) \<Longrightarrow>
      finalize ops conv turns warnings status note w1 = (r, w2) \<Longrightarrow> Q r w2"
  shows "Q r w'"
  using assms(1,2)
proof (induction "nat (conv_max_turns (ls_conv st) - int (length (ls_turns st)))" arbitrary: st w
    rule: less_induct)
  case less
  from less.prems(1) obtain rr w1 where rr: "broker_round ops d ctl st w = Some (rr, w1)"
    by (subst (asm) broker_loop.simps) (auto split: option.splits)
  show ?case
  proof (cases rr)
    case (Finish conv turns warnings status msg)
    with less.prems(1) rr have "finalize ops conv turns warnings status msg w1 = (r, w')"
      by (subst (asm) broker_loop.simps) simp
    then show ?thesis using fin less.prems(2) rr Finish by blast
  next
    case (Continue st')
    then have loop: "broker_loop ops d ctl st' w1 = Some (r, w')"
      using less.prems(1) rr by (subst (asm) broker_loop.simps) simp
    have "I st' w1" using step less.prems(2) rr Continue by blast
    moreover have "nat (conv_max_turns (ls_conv st') - int (length (ls_turns st'))) <
        nat (conv_max_turns (ls_conv st) - int (length (ls_turns st)))"
      using rr Continue by (auto elim: broker_round_Continue)
    ultimately show ?thesis using less.hyps loop by blast
  qed
qed

lemma broker_loop_invariant:
  assumes "broker_loop ops d ctl st w = Some (r, w')" and "I st"
    and "\<And>st w st' w'. I st \<Longrightarrow> broker_round ops d ctl st w = Some (Continue st', w') \<Longrightarrow> I st'"
    and "\<And>st w conv turns warnings status note w1 w2 r. I st \<Longrightarrow>
      broker_round ops d ctl st w = Some (Finish conv turns warnings status note, w1) \<Longrightarrow>
      finalize ops conv turns warnings status note w1 = (r, w2) \<Longrightarrow> Q r"
  shows "Q r"
  using broker_loop_world_invariant [of ops d ctl st w r w' "\<lambda>st _. I st" "\<lambda>r _. Q r"] assms by blast

text \<open>A run either fails before its first turn or runs the loop from its initial state.\<close>

lemma broker_run_cases [consumes 1, case_names early loop]:
  assumes "broker_run ops d w = Some (r, w')"
  obtains "fr_turns r = []" "conv_status (fr_conversation r) = ConvError"
    "conv_ended_at (fr_conversation r) \<noteq> None"
    "conv_turns_consumed (fr_conversation r) = conv_turns_consumed (bd_conversation d)"
  | ctl conv warnings marker w1 w2 where
    "broker_loop ops d ctl \<lparr>ls_conv = conv, ls_turns = [], ls_warnings = warnings,
       ls_active = opener_slot d conv, ls_env = build_envelope_turn1 conv (opener_slot d conv) marker\<rparr> w1
     = Some (r, w2)"
    "0 \<le> conv_max_turns conv" "conv_max_turns conv = conv_max_turns (bd_conversation d)"
    "opener_slot d conv = opener_slot d (bd_conversation d)"
    "conv_id conv = conv_id (bd_conversation d)"
    "conv_terminator conv = conv_terminator (bd_conversation d)"
  using assms
  by (auto simp: broker_run_def Let_def finalize_def opener_slot_def
      split: prod.splits option.splits sum.splits if_splits)

text \<open>The loop counts its turns and never passes the limit.\<close>

definition counted :: "conversation \<Rightarrow> loop_state \<Rightarrow> bool" where
  "counted conv st \<longleftrightarrow> conv_max_turns (ls_conv st) = conv_max_turns conv \<and>
     (ls_turns st \<noteq> [] \<longrightarrow> int (length (ls_turns st)) < conv_max_turns conv)"

lemma broker_loop_counted:
  assumes "broker_loop ops d ctl st w = Some (r, w')" and "counted conv st"
  shows "int (length (fr_turns r)) \<le> max 1 (conv_max_turns conv) \<and>
    conv_turns_consumed (fr_conversation r) = int (length (fr_turns r)) \<and>
    conv_ended_at (fr_conversation r) \<noteq> None \<and>
    (fr_turns r \<noteq> [] \<and> conv_max_turns conv \<le> int (length (fr_turns r)) \<longrightarrow>
       conv_status (fr_conversation r) = ConvMaxTurnsHit \<and> fr_terminator_note r = ''max turns reached'')"
  using assms
proof (rule broker_loop_invariant [where I = "counted conv"])
  show "counted conv st'" if "counted conv st" "broker_round ops d ctl st w = Some (Continue st', w')"
    for st w st' w'
    using that(2,1) by (elim broker_round_Continue) (simp add: counted_def)
next
  fix st w conv' turns ws status msg w1 w2 r
  assume I: "counted conv st"
    and rd: "broker_round ops d ctl st w = Some (Finish conv' turns ws status msg, w1)"
    and fin: "finalize ops conv' turns ws status msg w1 = (r, w2)"
  from rd show "int (length (fr_turns r)) \<le> max 1 (conv_max_turns conv) \<and>
    conv_turns_consumed (fr_conversation r) = int (length (fr_turns r)) \<and>
    conv_ended_at (fr_conversation r) \<noteq> None \<and>
    (fr_turns r \<noteq> [] \<and> conv_max_turns conv \<le> int (length (fr_turns r)) \<longrightarrow>
       conv_status (fr_conversation r) = ConvMaxTurnsHit \<and> fr_terminator_note r = ''max turns reached'')"
  proof (cases rule: broker_round_Finish)
    case before
    with I finalize_fields [OF fin] show ?thesis
      by (auto simp: counted_def)
  next
    case (after ref w1 w2 turn0 dec)
    with I finalize_fields [OF fin] show ?thesis
      by (cases "ls_turns st = []") (auto simp: counted_def)
  qed
qed

lemma broker_run_counted:
  assumes "broker_run ops d w = Some (r, w')" and "conv_turns_consumed (bd_conversation d) = 0"
  shows "int (length (fr_turns r)) \<le> max 1 (conv_max_turns (bd_conversation d)) \<and>
    conv_turns_consumed (fr_conversation r) = int (length (fr_turns r)) \<and>
    conv_ended_at (fr_conversation r) \<noteq> None \<and>
    (fr_turns r \<noteq> [] \<and> conv_max_turns (bd_conversation d) \<le> int (length (fr_turns r)) \<longrightarrow>
       conv_status (fr_conversation r) = ConvMaxTurnsHit \<and> fr_terminator_note r = ''max turns reached'')"
  using assms(1)
proof (cases rule: broker_run_cases)
  case early
  with assms(2) show ?thesis by simp
next
  case (loop ctl conv ws marker w1 w2)
  from broker_loop_counted [OF loop(1), of conv] loop(3) show ?thesis
    by (simp add: counted_def)
qed


section \<open>Routing\<close>

text \<open>Each turn is spoken by the peer that the turn before it named, the first by the opener.\<close>

definition turn_chain :: "peer_slot \<Rightarrow> conversation_turn list \<Rightarrow> bool" where
  "turn_chain opener turns \<longleftrightarrow>
     (turns \<noteq> [] \<longrightarrow> ct_from_id (turns ! 0) = opener \<and> ct_reason (turns ! 0) = TurnReasonOpener) \<and>
     (\<forall>i. Suc i < length turns \<longrightarrow> ct_from_id (turns ! Suc i) = ct_to_id (turns ! i))"

lemma turn_chain_snoc:
  assumes "turn_chain opener turns" and "turns = [] \<Longrightarrow> ct_from_id t = opener \<and> ct_reason t = TurnReasonOpener"
    and "turns \<noteq> [] \<Longrightarrow> ct_from_id t = ct_to_id (last turns)"
  shows "turn_chain opener (turns @ [t])"
  using assms by (cases turns rule: rev_cases) (auto simp: turn_chain_def nth_append less_Suc_eq)

lemma next_slot_declared: "dec_next dec \<in> set (peer_ids d) \<Longrightarrow> next_slot d dec = dec_next dec"
  by (auto simp: next_slot_def peer_ids_def slot_from_peer_id_def status_defs)

definition routed :: "broker_deps \<Rightarrow> peer_slot \<Rightarrow> loop_state \<Rightarrow> bool" where
  "routed d opener st \<longleftrightarrow> turn_chain opener (ls_turns st) \<and>
     (\<forall>t \<in> set (ls_turns st). ct_to_id t \<in> set (peer_ids d)) \<and>
     ls_active st = (if ls_turns st = [] then opener else ct_to_id (last (ls_turns st)))"

lemma routed_turns:
  assumes "routed d opener st" and "dec_next dec \<in> set (peer_ids d)"
  shows "turn_chain opener (ls_turns st @ [recorded_turn st turn0 dec]) \<and>
    (\<forall>t \<in> set (ls_turns st @ [recorded_turn st turn0 dec]). ct_to_id t \<in> set (peer_ids d))"
  using assms by (auto simp: routed_def intro!: turn_chain_snoc)

context turn_policy
begin

lemma broker_loop_routed:
  assumes "broker_loop ops d ctl st w = Some (r, w')" and pol: "bd_policy d = next_speaker"
    and "routed d opener st"
  shows "turn_chain opener (fr_turns r) \<and> (\<forall>t \<in> set (fr_turns r). ct_to_id t \<in> set (peer_ids d))"
  using assms(1,3)
proof (rule broker_loop_invariant [where I = "routed d opener"])
  show "routed d opener st'" if "routed d opener st" "broker_round ops d ctl st w = Some (Continue st', w')"
    for st w st' w'
    using that(2)
  proof (cases rule: broker_round_Continue)
    case (1 ref w1 w2 turn0 dec)
    have dec: "dec_next dec \<in> set (peer_ids d)"
      using 1(3) pol next_declared by simp
    from routed_turns [OF that(1) dec, of turn0] 1 next_slot_declared [OF dec] show ?thesis
      by (simp add: routed_def recorded_turn_def [symmetric])
  qed
next
  fix st w conv turns ws status msg w1 w2 r
  assume I: "routed d opener st"
    and rd: "broker_round ops d ctl st w = Some (Finish conv turns ws status msg, w1)"
    and fin: "finalize ops conv turns ws status msg w1 = (r, w2)"
  from rd show "turn_chain opener (fr_turns r) \<and> (\<forall>t \<in> set (fr_turns r). ct_to_id t \<in> set (peer_ids d))"
  proof (cases rule: broker_round_Finish)
    case before
    with I finalize_fields(1) [OF fin] show ?thesis by (simp add: routed_def)
  next
    case (after ref w1 w2 turn0 dec)
    then have "dec_next dec \<in> set (peer_ids d)" using pol next_declared by simp
    from routed_turns [OF I this] after(4) finalize_fields(1) [OF fin] show ?thesis by simp
  qed
qed

lemma broker_run_routed:
  assumes "broker_run ops d w = Some (r, w')" and pol: "bd_policy d = next_speaker"
  shows "turn_chain (opener_slot d (bd_conversation d)) (fr_turns r) \<and>
    (\<forall>t \<in> set (fr_turns r). ct_to_id t \<in> set (peer_ids d))"
  using assms(1)
proof (cases rule: broker_run_cases)
  case early
  then show ?thesis by (simp add: turn_chain_def)
next
  case (loop ctl conv ws marker w1 w2)
  show ?thesis
    by (rule broker_loop_routed [OF loop(1) pol]) (simp add: routed_def turn_chain_def loop(4))
qed

text \<open>A round does not panic when the active peer and all declared peers have a transport.\<close>

lemma broker_round_returns:
  assumes pol: "bd_policy d = next_speaker" and tr: "transport_for d (ls_active st) \<noteq> None"
    and rnd: "\<And>w. fst (op_random ops w) \<noteq> None"
  shows "broker_round ops d ctl st w \<noteq> None"
proof -
  have ne: "peer_ids d \<noteq> []" by (simp add: peer_ids_def)
  have mark: "new_marker_token (fst (op_random ops w)) \<noteq> None" for w
    using rnd [of w] by (auto simp: new_marker_token_def)
  have "broker_after_policy ops d ctl conv turns ws active resp dec w \<noteq> None"
    for conv turns ws active resp dec w
    by (auto simp: broker_after_policy_def Let_def split_beta mark split: option.splits)
  moreover define f where "f cur reply = the (bd_policy d cur reply (peer_ids d))" for cur reply
  moreover have f: "bd_policy d cur reply (peer_ids d) = Some (f cur reply)" for cur reply
    using next_returns [OF ne, of cur reply] by (auto simp: f_def pol)
  ultimately have "broker_after_deliver ops d ctl st turn w \<noteq> None" for turn w
    unfolding broker_after_deliver_def Let_def split_beta f by simp
  then show ?thesis
    using tr by (auto simp: broker_round_def Let_def split: prod.splits option.splits sum.splits)
qed

lemma broker_loop_returns:
  assumes pol: "bd_policy d = next_speaker" and rnd: "\<And>w. fst (op_random ops w) \<noteq> None"
    and decl: "\<And>pid. pid \<in> set (peer_ids d) \<Longrightarrow> transport_for d pid \<noteq> None"
    and "transport_for d (ls_active st) \<noteq> None"
  shows "broker_loop ops d ctl st w \<noteq> None"
  using assms(4)
proof (induction "nat (conv_max_turns (ls_conv st) - int (length (ls_turns st)))" arbitrary: st w
    rule: less_induct)
  case less
  obtain rr w1 where rr: "broker_round ops d ctl st w = Some (rr, w1)"
    using broker_round_returns [OF pol less.prems rnd, of ctl w] by auto
  show ?case
  proof (cases rr)
    case (Continue st')
    with rr have c: "broker_round ops d ctl st w = Some (Continue st', w1)" by simp
    have lt: "nat (conv_max_turns (ls_conv st') - int (length (ls_turns st'))) <
        nat (conv_max_turns (ls_conv st) - int (length (ls_turns st)))"
      using c by (auto elim: broker_round_Continue)
    have "transport_for d (ls_active st') \<noteq> None"
      using c
    proof (cases rule: broker_round_Continue)
      case (1 ref w1 w2 turn0 dec)
      then have "dec_next dec \<in> set (peer_ids d)" using pol next_declared by simp
      with decl 1(5) next_slot_declared show ?thesis by simp
    qed
    from less.hyps [OF lt this, of w1] rr Continue show ?thesis
      by (subst broker_loop.simps) simp
  qed (subst broker_loop.simps, simp add: rr)
qed

lemma broker_run_returns:
  assumes pol: "bd_policy d = next_speaker" and rnd: "\<And>w. fst (op_random ops w) \<noteq> None"
    and max: "0 \<le> conv_max_turns (bd_conversation d)"
    and peers: "n_peer_mode d \<Longrightarrow> bd_peer_order d \<noteq> [] \<and> set (bd_peer_order d) \<subseteq> set (bd_peers_by_id d)
      \<and> opener_slot d (bd_conversation d) \<in> set (bd_peers_by_id d)"
  shows "broker_run ops d w \<noteq> None"
proof -
  have decl: "transport_for d pid \<noteq> None" if "pid \<in> set (peer_ids d)" for pid
    using peers that by (auto simp: transport_for_def peer_ids_def split: if_splits)
  have op: "transport_for d (opener_slot d (bd_conversation d)) \<noteq> None"
    using peers by (auto simp: transport_for_def)
  have slot: "opener_slot d ((bd_conversation d)\<lparr>conv_status := x, conv_created_at := y\<rparr>) =
      opener_slot d (bd_conversation d)" for x y
    by (simp add: opener_slot_def)
  have loop: "\<exists>r w'. broker_loop ops d ctl st w = Some (r, w')"
    if "ls_active st = opener_slot d (bd_conversation d)" for ctl st w
    using broker_loop_returns [OF pol rnd decl, of st ctl w] op that by auto
  have mark: "(new_marker_token (fst (op_random ops w)) = None) = False" for w
    using rnd [of w] by (auto simp: new_marker_token_def)
  show ?thesis
    unfolding broker_run_def Let_def split_beta
    using max
    by (auto simp: slot mark split: prod.splits option.splits sum.splits intro!: loop)
qed

end

text \<open>
  C2. Routing under the addressed policy, for every environment: the first turn is the
  opener's and marked as such, each later turn is spoken by the peer that the turn before names
  in \<open>ToID\<close>, and every \<open>ToID\<close> is a declared peer, whatever the peers reply.
\<close>

theorem broker_routing:
  assumes "broker_run ops d w = Some (r, w')" and "bd_policy d = addressed_next"
  shows "turn_chain (opener_slot d (bd_conversation d)) (fr_turns r) \<and>
    (\<forall>t \<in> set (fr_turns r). ct_to_id t \<in> set (peer_ids d))"
  by (rule addressed.broker_run_routed [OF assms])


section \<open>The order of calls\<close>

text \<open>
  A world that also keeps the log of the calls to peers, terminator and control subscription.
\<close>

datatype call =
    CallStart transport_ref
  | CallDeliver transport_ref
  | CallStop transport_ref
  | CallTermStart
  | CallTermStop
  | CallSubscribe
  | CallCancel

definition logged :: "call \<Rightarrow> ('w \<Rightarrow> 'a \<times> 'w) \<Rightarrow> 'w \<times> call list \<Rightarrow> 'a \<times> 'w \<times> call list" where
  "logged c f wl = (let (x, w') = f (fst wl) in (x, w', snd wl @ [c]))"

definition unlogged :: "('w \<Rightarrow> 'a \<times> 'w) \<Rightarrow> 'w \<times> call list \<Rightarrow> 'a \<times> 'w \<times> call list" where
  "unlogged f wl = (let (x, w') = f (fst wl) in (x, w', snd wl))"

definition log_ops :: "'w broker_ops \<Rightarrow> ('w \<times> call list) broker_ops" where
  "log_ops ops =
     \<lparr>op_now = unlogged (op_now ops), op_ctx_done = unlogged (op_ctx_done ops),
      op_random = unlogged (op_random ops), op_create = (\<lambda>c. unlogged (op_create ops c)),
      op_update = (\<lambda>cid p. unlogged (op_update ops cid p)), op_append = (\<lambda>t. unlogged (op_append ops t)),
      op_peer_start = (\<lambda>ref spec cid slot. logged (CallStart ref) (op_peer_start ops ref spec cid slot)),
      op_deliver = (\<lambda>ref env. logged (CallDeliver ref) (op_deliver ops ref env)),
      op_peer_stop = (\<lambda>ref wl. (op_peer_stop ops ref (fst wl), snd wl @ [CallStop ref])),
      op_term_start = (\<lambda>c. logged CallTermStart (op_term_start ops c)),
      op_term_stop = (\<lambda>wl. (op_term_stop ops (fst wl), snd wl @ [CallTermStop])),
      op_subscribe = (\<lambda>topic. logged CallSubscribe (op_subscribe ops topic)),
      op_cancel = (\<lambda>topic i wl. (op_cancel ops topic i (fst wl), snd wl @ [CallCancel])),
      op_publish = (\<lambda>topic m. unlogged (op_publish ops topic m)),
      op_recv_wait = (\<lambda>i t. unlogged (op_recv_wait ops i t)),
      op_recv_rest = (\<lambda>i. unlogged (op_recv_rest ops i))\<rparr>"

lemma log_ops_sel [simp]:
  "op_now (log_ops ops) = unlogged (op_now ops)"
  "op_ctx_done (log_ops ops) = unlogged (op_ctx_done ops)"
  "op_random (log_ops ops) = unlogged (op_random ops)"
  "op_create (log_ops ops) c = unlogged (op_create ops c)"
  "op_update (log_ops ops) cid p = unlogged (op_update ops cid p)"
  "op_append (log_ops ops) t = unlogged (op_append ops t)"
  "op_peer_start (log_ops ops) ref spec cid slot =
     logged (CallStart ref) (op_peer_start ops ref spec cid slot)"
  "op_deliver (log_ops ops) ref env = logged (CallDeliver ref) (op_deliver ops ref env)"
  "op_peer_stop (log_ops ops) ref wl = (op_peer_stop ops ref (fst wl), snd wl @ [CallStop ref])"
  "op_term_start (log_ops ops) c = logged CallTermStart (op_term_start ops c)"
  "op_term_stop (log_ops ops) wl = (op_term_stop ops (fst wl), snd wl @ [CallTermStop])"
  "op_subscribe (log_ops ops) topic = logged CallSubscribe (op_subscribe ops topic)"
  "op_cancel (log_ops ops) topic i wl = (op_cancel ops topic i (fst wl), snd wl @ [CallCancel])"
  "op_publish (log_ops ops) topic m = unlogged (op_publish ops topic m)"
  "op_recv_wait (log_ops ops) i dl = unlogged (op_recv_wait ops i dl)"
  "op_recv_rest (log_ops ops) i = unlogged (op_recv_rest ops i)"
  by (simp_all add: log_ops_def)

lemma logged_eq: "logged c f wl = (x, wl') \<Longrightarrow> snd wl' = snd wl @ [c]"
  by (auto simp: logged_def Let_def split: prod.splits)

lemma unlogged_eq: "unlogged f wl = (x, wl') \<Longrightarrow> snd wl' = snd wl"
  by (auto simp: unlogged_def Let_def split: prod.splits)

lemma publish_turn_log: "publish_turn (log_ops ops) t wl = (e, wl') \<Longrightarrow> snd wl' = snd wl"
  by (auto simp: publish_turn_def Let_def dest!: unlogged_eq split: sum.splits prod.splits)

lemma drain_log: "drain_control_timed (log_ops ops) ch dl wl = (cs, wl') \<Longrightarrow> snd wl' = snd wl"
  by (auto simp: drain_control_timed_def Let_def dest!: unlogged_eq split: recv.splits prod.splits)

lemma finalize_log: "finalize (log_ops ops) conv turns ws status msg wl = (r, wl') \<Longrightarrow> snd wl' = snd wl"
  by (auto simp: finalize_def Let_def dest!: unlogged_eq split: prod.splits)

lemma after_policy_log:
  "broker_after_policy (log_ops ops) d ctl conv turns ws active resp dec wl = Some (rr, wl') \<Longrightarrow>
     snd wl' = snd wl"
  by (auto simp: broker_after_policy_def Let_def dest!: unlogged_eq drain_log
      split: if_splits prod.splits option.splits)

lemma after_deliver_log:
  "broker_after_deliver (log_ops ops) d ctl st t wl = Some (rr, wl') \<Longrightarrow> snd wl' = snd wl"
  by (auto simp: broker_after_deliver_def Let_def dest!: unlogged_eq publish_turn_log after_policy_log
      split: prod.splits option.splits)

text \<open>A round makes at most one delivery, and exactly one if it records a turn.\<close>

lemma after_deliver_turns:
  assumes "broker_after_deliver ops d ctl st t w = Some (rr, w')"
  shows "case rr of Finish c ts ws s n \<Rightarrow> length ts = length (ls_turns st) + 1
    | Continue st' \<Rightarrow> length (ls_turns st') = length (ls_turns st) + 1"
proof -
  from assms obtain conv x ws active resp dec w1 where
    "broker_after_policy ops d ctl conv (ls_turns st @ [x]) ws active resp dec w1 = Some (rr, w')"
    by (auto simp: broker_after_deliver_def Let_def split: prod.splits option.splits)
  then show ?thesis
    by (cases rr) (auto dest: broker_after_policy_Continue broker_after_policy_Finish)
qed

lemma round_log:
  assumes "broker_round (log_ops ops) d ctl st wl = Some (rr, wl')"
  shows "\<exists>ds. snd wl' = snd wl @ map CallDeliver ds \<and>
    (case rr of Finish c ts ws s n \<Rightarrow>
       (length ts = length (ls_turns st) \<and> length ds \<le> 1) \<or> (length ts = length (ls_turns st) + 1 \<and> length ds = 1)
     | Continue st' \<Rightarrow> length (ls_turns st') = length (ls_turns st) + 1 \<and> length ds = 1)"
proof -
  obtain b wl1 where c: "unlogged (op_ctx_done ops) wl = (b, wl1)"
    by (cases "unlogged (op_ctx_done ops) wl")
  note l1 = unlogged_eq [OF c]
  show ?thesis
  proof (cases "b \<or> transport_for d (ls_active st) = None")
    case True
    with assms c l1 show ?thesis
      by (intro exI [of _ "[]"]) (auto simp: broker_round_def Let_def split: if_splits)
  next
    case False
    then obtain ref where ref: "transport_for d (ls_active st) = Some ref" and nb: "\<not> b" by blast
    obtain res wl2 where del: "logged (CallDeliver ref) (op_deliver ops ref (ls_env st)) wl1 = (res, wl2)"
      by (cases "logged (CallDeliver ref) (op_deliver ops ref (ls_env st)) wl1")
    note l2 = logged_eq [OF del]
    show ?thesis
    proof (cases res)
      case (Inl e)
      with assms c nb ref del l1 l2 show ?thesis
        by (intro exI [of _ "[ref]"]) (auto simp: broker_round_def Let_def split: if_splits)
    next
      case (Inr t)
      with assms c nb ref del have
        ad: "broker_after_deliver (log_ops ops) d ctl st t wl2 = Some (rr, wl')"
        by (simp add: broker_round_def Let_def)
      from after_deliver_log [OF ad] l1 l2 have log: "snd wl' = snd wl @ map CallDeliver [ref]" by simp
      have "case rr of Finish c ts ws s n \<Rightarrow> length ts = length (ls_turns st) + 1
          | Continue st' \<Rightarrow> length (ls_turns st') = length (ls_turns st) + 1"
        by (rule after_deliver_turns [OF ad])
      then show ?thesis
        by (intro exI [of _ "[ref]"] conjI log) (auto split: round_result.splits)
    qed
  qed
qed

lemma loop_log:
  "broker_loop (log_ops ops) d ctl st wl = Some (r, wl') \<Longrightarrow>
     \<exists>ds. snd wl' = snd wl @ map CallDeliver ds \<and>
       length (ls_turns st) + length ds \<in> {length (fr_turns r), length (fr_turns r) + 1}"
proof (induction "nat (conv_max_turns (ls_conv st) - int (length (ls_turns st)))" arbitrary: st wl
    rule: less_induct)
  case less
  from less.prems obtain rr wl1 where rr: "broker_round (log_ops ops) d ctl st wl = Some (rr, wl1)"
    by (subst (asm) broker_loop.simps) (auto split: option.splits)
  from round_log [OF rr] obtain ds where ds: "snd wl1 = snd wl @ map CallDeliver ds"
    "case rr of Finish c ts ws s n \<Rightarrow>
       (length ts = length (ls_turns st) \<and> length ds \<le> 1) \<or> (length ts = length (ls_turns st) + 1 \<and> length ds = 1)
     | Continue st' \<Rightarrow> length (ls_turns st') = length (ls_turns st) + 1 \<and> length ds = 1" by blast
  show ?case
  proof (cases rr)
    case (Finish conv turns ws status msg)
    with less.prems rr have fin: "finalize (log_ops ops) conv turns ws status msg wl1 = (r, wl')"
      by (subst (asm) broker_loop.simps) simp
    from finalize_log [OF fin] finalize_fields(1) [OF fin] ds Finish show ?thesis
      by (intro exI [of _ ds]) (auto simp: le_Suc_eq)
  next
    case (Continue st')
    with rr have c: "broker_round (log_ops ops) d ctl st wl = Some (Continue st', wl1)" by simp
    have lt: "nat (conv_max_turns (ls_conv st') - int (length (ls_turns st'))) <
        nat (conv_max_turns (ls_conv st) - int (length (ls_turns st)))"
      using c by (auto elim: broker_round_Continue)
    have "broker_loop (log_ops ops) d ctl st' wl1 = Some (r, wl')"
      using less.prems c by (subst (asm) broker_loop.simps) simp
    from less.hyps [OF lt this] obtain es where "snd wl' = snd wl1 @ map CallDeliver es"
      "length (ls_turns st') + length es \<in> {length (fr_turns r), length (fr_turns r) + 1}" by blast
    with ds Continue show ?thesis by (intro exI [of _ "ds @ es"]) auto
  qed
qed

text \<open>The declared transports, in the order in which they are started.\<close>

definition declared_refs :: "broker_deps \<Rightarrow> transport_ref list" where
  "declared_refs d = (if n_peer_mode d then map RefID (bd_peer_order d) else [RefA, RefB])"

lemma stop_peer_ids_log:
  "set ids \<subseteq> set (bd_peers_by_id d) \<Longrightarrow>
     snd (stop_peer_ids (log_ops ops) d ids wl) = snd wl @ map CallStop (map RefID ids)"
  by (induction ids arbitrary: wl) (simp_all add: stop_peer_ids_def)

lemma start_n_peers_log:
  "start_n_peers (log_ops ops) d conv started ids wl = (e, wl') \<Longrightarrow> set started \<subseteq> set (bd_peers_by_id d) \<Longrightarrow>
     (e = None \<and> set ids \<subseteq> set (bd_peers_by_id d) \<and>
        snd wl' = snd wl @ map CallStart (map RefID ids)) \<or>
     (e \<noteq> None \<and> (\<exists>k j. j \<in> {k, Suc k} \<and> snd wl' = snd wl @ map CallStart (map RefID (take j ids))
        @ map CallStop (map RefID (started @ take k ids))))"
proof (induction ids arbitrary: started wl)
  case (Cons pid ids)
  show ?case
  proof (cases "pid \<in> set (bd_peers_by_id d)")
    case False
    with Cons.prems stop_peer_ids_log [OF Cons.prems(2), of ops wl] show ?thesis
      by (intro disjI2 conjI exI [of _ 0]) auto
  next
    case pid: True
    obtain r wl1 where r: "logged (CallStart (RefID pid))
        (op_peer_start ops (RefID pid) (spec_for_peer_id conv pid) (conv_id conv) pid) wl = (r, wl1)"
      by (cases "logged (CallStart (RefID pid))
        (op_peer_start ops (RefID pid) (spec_for_peer_id conv pid) (conv_id conv) pid) wl")
    note l1 = logged_eq [OF r]
    show ?thesis
    proof (cases r)
      case (Some err)
      with Cons.prems pid r l1 stop_peer_ids_log [OF Cons.prems(2), of ops wl1] show ?thesis
        by (intro disjI2 conjI exI [of _ 0] exI [of _ 1]) auto
    next
      case None
      with Cons.prems pid r
      have "start_n_peers (log_ops ops) d conv (started @ [pid]) ids wl1 = (e, wl')" by simp
      from Cons.IH [OF this] Cons.prems(2) pid
      consider "e = None" "set ids \<subseteq> set (bd_peers_by_id d)"
          "snd wl' = snd wl1 @ map CallStart (map RefID ids)"
        | k j where "e \<noteq> None" "j \<in> {k, Suc k}" "snd wl' = snd wl1 @ map CallStart (map RefID (take j ids))
          @ map CallStop (map RefID ((started @ [pid]) @ take k ids))"
        by auto
      then show ?thesis
      proof cases
        case 1
        with pid l1 show ?thesis by simp
      next
        case (2 k j)
        with l1 show ?thesis
          by (intro disjI2 conjI exI [of _ "Suc k"] exI [of _ "Suc j"]) auto
      qed
    qed
  qed
qed simp

lemma start_all_peers_log:
  assumes "start_all_peers (log_ops ops) d conv wl = (e, wl')"
  shows "(e = None \<and> snd wl' = snd wl @ map CallStart (declared_refs d) \<and>
       (n_peer_mode d \<longrightarrow> set (bd_peer_order d) \<subseteq> set (bd_peers_by_id d))) \<or>
    (e \<noteq> None \<and> (\<exists>k j. j \<in> {k, Suc k} \<and> snd wl' = snd wl @ map CallStart (take j (declared_refs d))
       @ map CallStop (take k (declared_refs d))))"
proof (cases "n_peer_mode d")
  case True
  with assms start_n_peers_log [of ops d conv "[]" "bd_peer_order d" wl e wl'] show ?thesis
    by (auto simp: start_all_peers_def declared_refs_def take_map)
next
  case False
  obtain r1 wl1 where r1: "logged (CallStart RefA)
      (op_peer_start ops RefA (conv_peer_a conv) (conv_id conv) PeerSlotA) wl = (r1, wl1)"
    by (cases "logged (CallStart RefA)
      (op_peer_start ops RefA (conv_peer_a conv) (conv_id conv) PeerSlotA) wl")
  obtain r2 wl2 where r2: "logged (CallStart RefB)
      (op_peer_start ops RefB (conv_peer_b conv) (conv_id conv) PeerSlotB) wl1 = (r2, wl2)"
    by (cases "logged (CallStart RefB)
      (op_peer_start ops RefB (conv_peer_b conv) (conv_id conv) PeerSlotB) wl1")
  note logs = logged_eq [OF r1] logged_eq [OF r2]
  show ?thesis
  proof (cases r1)
    case (Some e1)
    with assms False r1 logs show ?thesis
      by (intro disjI2 conjI exI [of _ 0] exI [of _ 1])
         (auto simp: start_all_peers_def declared_refs_def)
  next
    case None
    show ?thesis
    proof (cases r2)
      case (Some e2)
      with None assms False r1 r2 logs show ?thesis
        by (intro disjI2 conjI exI [of _ 1] exI [of _ 2])
           (auto simp: start_all_peers_def declared_refs_def)
    qed (use None assms False r1 r2 logs in \<open>simp add: start_all_peers_def declared_refs_def\<close>)
  qed
qed

lemma stop_all_peers_log:
  "n_peer_mode d \<longrightarrow> set (bd_peer_order d) \<subseteq> set (bd_peers_by_id d) \<Longrightarrow>
     snd (stop_all_peers (log_ops ops) d wl) = snd wl @ map CallStop (declared_refs d)"
  by (auto simp: stop_all_peers_def declared_refs_def stop_peer_ids_log)

text \<open>The three ways a run goes: a peer does not start, the subscription fails, or the loop runs.\<close>

lemma logged_run_cases [consumes 1, case_names start subscribe loop]:
  assumes "broker_run (log_ops ops) d (w, []) = Some (r, w', log)"
  obtains conv e ws wl2 wl3 where "start_all_peers (log_ops ops) d conv wl2 = (Some e, wl3)" "snd wl2 = []"
      "finalize (log_ops ops) conv [] ws ConvError (err_text e) wl3 = (r, w', log)"
  | conv ws msg wl2 wl3 wl5 wl6 where "start_all_peers (log_ops ops) d conv wl2 = (None, wl3)" "snd wl2 = []"
      "snd wl5 = snd wl3 @ [CallTermStart, CallSubscribe]"
      "finalize (log_ops ops) conv [] ws ConvError msg wl5 = (r, wl6)"
      "(w', log) = stop_all_peers (log_ops ops) d (op_term_stop (log_ops ops) wl6)"
  | conv ctl stt topic wl2 wl3 wl6 wl7 where "start_all_peers (log_ops ops) d conv wl2 = (None, wl3)" "snd wl2 = []"
      "snd wl6 = snd wl3 @ [CallTermStart, CallSubscribe]" "ls_turns stt = []"
      "broker_loop (log_ops ops) d ctl stt wl6 = Some (r, wl7)"
      "(w', log) = stop_all_peers (log_ops ops) d (op_term_stop (log_ops ops) (op_cancel (log_ops ops) topic ctl wl7))"
proof -
  obtain now wl1 where n: "unlogged (op_now ops) (w, []) = (now, wl1)"
    by (cases "unlogged (op_now ops) (w, [])")
  define conv where "conv = (bd_conversation d)\<lparr>conv_status := ConvRunning, conv_created_at := now\<rparr>"
  obtain ce wl2 where cr: "unlogged (op_create ops conv) wl1 = (ce, wl2)"
    by (cases "unlogged (op_create ops conv) wl1")
  obtain se wl3 where st: "start_all_peers (log_ops ops) d conv wl2 = (se, wl3)"
    by (cases "start_all_peers (log_ops ops) d conv wl2")
  obtain te wl4 where te: "logged CallTermStart (op_term_start ops conv) wl3 = (te, wl4)"
    by (cases "logged CallTermStart (op_term_start ops conv) wl3")
  obtain sr wl5 where sr: "logged CallSubscribe (op_subscribe ops (topic_control (conv_id conv))) wl4 = (sr, wl5)"
    by (cases "logged CallSubscribe (op_subscribe ops (topic_control (conv_id conv))) wl4")
  have l2: "snd wl2 = []" using unlogged_eq [OF n] unlogged_eq [OF cr] by simp
  have l5: "snd wl5 = snd wl3 @ [CallTermStart, CallSubscribe]" using logged_eq [OF te] logged_eq [OF sr] by simp
  note known = assms n cr st te sr
  consider e where "se = Some e" | e where "se = None" "sr = Inl e" | ctl where "se = None" "sr = Inr ctl"
    by (cases se; cases sr) auto
  then show thesis
  proof cases
    case 1
    with known show thesis by (intro that(1) [OF st [unfolded 1] l2]) (simp add: broker_run_def Let_def conv_def)
  next
    case (2 e)
    with known obtain wl6 where "finalize (log_ops ops) conv []
        (add_warning ''terminator start: '' te (add_warning ''store create_conversation: '' ce []))
        ConvError (''control subscribe: '' @ err_text e) wl5 = (r, wl6)"
      "(w', log) = stop_all_peers (log_ops ops) d (op_term_stop (log_ops ops) wl6)"
      by (auto simp: broker_run_def Let_def conv_def split: prod.splits)
    then show thesis by (rule that(2) [OF st [unfolded 2(1)] l2 l5])
  next
    case (3 ctl)
    with known obtain stt wl6 wl7 where "broker_loop (log_ops ops) d ctl stt wl6 = Some (r, wl7)"
      "snd wl6 = snd wl5" "ls_turns stt = []"
      "(w', log) = stop_all_peers (log_ops ops) d (op_term_stop (log_ops ops)
        (op_cancel (log_ops ops) (topic_control (conv_id conv)) ctl wl7))"
      by (auto simp: broker_run_def Let_def conv_def dest!: unlogged_eq split: prod.splits if_splits option.splits)
    then show thesis using l5 by (intro that(3) [OF st [unfolded 3(1)] l2]) auto
  qed
qed

text \<open>
  C9. The order of calls of a run, for every environment. If all peers start: the peers are
  started in declared order, then the terminator, then the control subscription; all deliveries
  lie between the subscription and its cancellation, one per recorded turn and at most one
  more that failed; the terminator is stopped after the cancellation, and last every peer is
  stopped, once. If a peer does not start, exactly those started before it are stopped and
  nothing else is called.
\<close>

theorem broker_call_order:
  assumes "broker_run (log_ops ops) d (w, []) = Some (r, w', log)"
  shows "(\<exists>ds. log = map CallStart (declared_refs d) @ [CallTermStart, CallSubscribe] @ map CallDeliver ds
        @ [CallCancel, CallTermStop] @ map CallStop (declared_refs d) \<and>
      length ds \<in> {length (fr_turns r), length (fr_turns r) + 1}) \<or>
    (log = map CallStart (declared_refs d) @ [CallTermStart, CallSubscribe, CallTermStop]
        @ map CallStop (declared_refs d) \<and> fr_turns r = []) \<or>
    (\<exists>k j. j \<in> {k, Suc k} \<and> log = map CallStart (take j (declared_refs d))
        @ map CallStop (take k (declared_refs d)) \<and> fr_turns r = [])"
  using assms
proof (cases rule: logged_run_cases)
  case (start conv e ws wl2 wl3)
  from finalize_log [OF start(3)] finalize_fields(1) [OF start(3)] start_all_peers_log [OF start(1)] start(2)
  show ?thesis by auto
next
  case (subscribe conv ws msg wl2 wl3 wl5 wl6)
  with start_all_peers_log [OF subscribe(1)] have l3: "snd wl3 = map CallStart (declared_refs d)"
    and sub: "n_peer_mode d \<longrightarrow> set (bd_peer_order d) \<subseteq> set (bd_peers_by_id d)" by auto
  from finalize_log [OF subscribe(4)] finalize_fields(1) [OF subscribe(4)] subscribe(3) l3
    arg_cong [OF subscribe(5), of snd] show ?thesis
    by (intro disjI2 disjI1) (simp add: stop_all_peers_log [OF sub])
next
  case (loop conv ctl stt topic wl2 wl3 wl6 wl7)
  with start_all_peers_log [OF loop(1)] have l3: "snd wl3 = map CallStart (declared_refs d)"
    and sub: "n_peer_mode d \<longrightarrow> set (bd_peer_order d) \<subseteq> set (bd_peers_by_id d)" by auto
  from loop_log [OF loop(5)] loop(3,4) l3 obtain ds where
    "snd wl7 = map CallStart (declared_refs d) @ [CallTermStart, CallSubscribe] @ map CallDeliver ds"
    "length ds \<in> {length (fr_turns r), length (fr_turns r) + 1}" by auto
  with arg_cong [OF loop(6), of snd] show ?thesis
    by (intro disjI1 exI [of _ ds]) (simp add: stop_all_peers_log [OF sub])
qed

section \<open>Turn numbers\<close>

text \<open>Environments whose peers answer an envelope with a turn of the same index.\<close>

locale indexed_world =
  fixes ops :: "'w broker_ops"
  assumes deliver_index: "op_deliver ops ref env w = (Inr t, w') \<Longrightarrow> ct_index t = env_turn_index env"
begin

definition numbered :: "loop_state \<Rightarrow> bool" where
  "numbered st \<longleftrightarrow> map ct_index (ls_turns st) = map int [1 ..< length (ls_turns st) + 1] \<and>
     env_turn_index (ls_env st) = int (length (ls_turns st)) + 1"

lemma numbered_snoc:
  assumes "numbered st" and "op_deliver ops ref (ls_env st) w = (Inr t, w')"
  shows "map ct_index (ls_turns st @ [recorded_turn st t dec]) =
    map int [1 ..< length (ls_turns st @ [recorded_turn st t dec]) + 1]"
  using assms deliver_index by (simp add: numbered_def)

lemma broker_loop_numbered:
  assumes "broker_loop ops d ctl st w = Some (r, w')" and "numbered st"
  shows "map ct_index (fr_turns r) = map int [1 ..< length (fr_turns r) + 1]"
  using assms
proof (rule broker_loop_invariant [where I = numbered])
  show "numbered st'" if "numbered st" "broker_round ops d ctl st w = Some (Continue st', w')"
    for st w st' w'
    using that(2)
  proof (cases rule: broker_round_Continue)
    case (1 ref w1 w2 turn0 dec)
    from numbered_snoc [OF that(1) 1(2), of dec] 1 show ?thesis
      by (simp add: numbered_def recorded_turn_def [symmetric])
  qed
next
  fix st w conv turns ws status msg w1 w2 r
  assume I: "numbered st"
    and rd: "broker_round ops d ctl st w = Some (Finish conv turns ws status msg, w1)"
    and fin: "finalize ops conv turns ws status msg w1 = (r, w2)"
  from rd show "map ct_index (fr_turns r) = map int [1 ..< length (fr_turns r) + 1]"
  proof (cases rule: broker_round_Finish)
    case before
    with I finalize_fields(1) [OF fin] show ?thesis by (simp add: numbered_def)
  next
    case (after ref w1 w2 turn0 dec)
    from numbered_snoc [OF I after(2), of dec] after(4) finalize_fields(1) [OF fin] show ?thesis
      by simp
  qed
qed

lemma broker_run_numbered:
  assumes "broker_run ops d w = Some (r, w')"
  shows "map ct_index (fr_turns r) = map int [1 ..< length (fr_turns r) + 1]"
  using assms
proof (cases rule: broker_run_cases)
  case (loop ctl conv ws marker w1 w2)
  show ?thesis
    by (rule broker_loop_numbered [OF loop(1)])
       (simp add: numbered_def build_envelope_turn1_def Let_def)
qed simp

end

section \<open>Concrete instances\<close>

text \<open>
  An environment without state in which everything succeeds, every peer answers \<open>ok\<close> and no
  control message ever arrives.
\<close>

definition quiet_ops :: "unit broker_ops" where
  "quiet_ops =
     \<lparr>op_now = (\<lambda>w. (1, w)), op_ctx_done = (\<lambda>w. (False, w)), op_random = (\<lambda>w. (Some ''abcdef'', w)),
      op_create = (\<lambda>_ w. (None, w)), op_update = (\<lambda>_ _ w. (None, w)), op_append = (\<lambda>_ w. (None, w)),
      op_peer_start = (\<lambda>_ _ _ _ w. (None, w)),
      op_deliver = (\<lambda>_ env w. (Inr (zero_conversation_turn\<lparr>ct_index := env_turn_index env,
        ct_response := ''ok''\<rparr>), w)),
      op_peer_stop = (\<lambda>_ w. w), op_term_start = (\<lambda>_ w. (None, w)), op_term_stop = (\<lambda>w. w),
      op_subscribe = (\<lambda>_ w. (Inr 0, w)), op_cancel = (\<lambda>_ _ w. w), op_publish = (\<lambda>_ _ w. (None, w)),
      op_recv_wait = (\<lambda>_ _ w. (RecvBlock, w)), op_recv_rest = (\<lambda>_ w. ([], w))\<rparr>"

definition quiet_deps :: broker_deps where
  "quiet_deps = new_broker (zero_conversation\<lparr>conv_id := ''c'', conv_max_turns := 3\<rparr>) 0 None [] []"

lemma quiet_ready:
  "bd_policy quiet_deps = addressed_next" "fst (op_random quiet_ops w) \<noteq> None"
  "fst (op_random (log_ops quiet_ops) wl) \<noteq> None"
  "conv_max_turns (bd_conversation quiet_deps) = 3" "\<not> n_peer_mode quiet_deps"
  "conv_turns_consumed (bd_conversation quiet_deps) = 0"
  by (simp_all add: quiet_deps_def new_broker_def quiet_ops_def n_peer_mode_def zero_conversation_def
      unlogged_def)

lemma quiet_run_obtain:
  obtains r w' where "broker_run quiet_ops quiet_deps () = Some (r, w')"
  using addressed.broker_run_returns [OF quiet_ready(1,2)] quiet_ready(4,5) by auto


theorem broker_routing_witness:
  "\<exists>r w'. broker_run quiet_ops quiet_deps () = Some (r, w') \<and>
     turn_chain (opener_slot quiet_deps (bd_conversation quiet_deps)) (fr_turns r)"
proof -
  obtain r w' where r: "broker_run quiet_ops quiet_deps () = Some (r, w')" by (rule quiet_run_obtain)
  from broker_routing [OF r quiet_ready(1)] r show ?thesis by simp
qed


theorem broker_call_order_witness:
  "\<exists>r w' log. broker_run (log_ops quiet_ops) quiet_deps ((), []) = Some (r, w', log) \<and>
     CallStop (RefID ''x'') \<notin> set log"
proof -
  have "broker_run (log_ops quiet_ops) quiet_deps ((), []) \<noteq> None"
    by (rule addressed.broker_run_returns) (simp_all add: quiet_ready del: log_ops_sel)
  then obtain r w' log where r: "broker_run (log_ops quiet_ops) quiet_deps ((), []) = Some (r, w', log)"
    by auto
  from broker_call_order [OF r] r show ?thesis
    by (fastforce simp: declared_refs_def quiet_ready dest: in_set_takeD)
qed

end
