(* ===== verification/Converse.thy ===== *)
theory Converse
  imports Broker
begin

text \<open>
  The conversation runtime put together: the broker on the in-process bus, with the sentinel
  terminator and scripted peers, as the CLI and the tests assemble it (\<open>converse.go\<close>,
  \<open>broker_test.go\<close>).  The context is never cancelled from outside, and the sentinel's goroutine
  gets to run within the drain window, which is what the window is for.
\<close>

section \<open>The world\<close>

record conv_world =
  cw_bus :: bus
  cw_sentinel :: sentinel
  cw_peers :: "transport_ref \<Rightarrow> mock_transport"
  cw_clock :: go_time
  cw_random :: nat
  cw_stored :: "conversation_turn list"

definition random_bytes :: "nat \<Rightarrow> string" where
  "random_bytes n = map (\<lambda>k. char_of (n div 256 ^ k mod 256)) [0 ..< 6]"

text \<open>The sentinel handles everything that is buffered for it.\<close>

definition sentinel_turns :: "conv_world \<Rightarrow> conv_world" where
  "sentinel_turns w =
     w\<lparr>cw_bus := sentinel_run (replicate (bus_buffer_size (cw_bus w)) (cw_clock w)) (cw_sentinel w) (cw_bus w)\<rparr>"

definition bus_take_all :: "nat \<Rightarrow> bus \<Rightarrow> bus_message list \<times> bus" where
  "bus_take_all i b =
     (if i < length (bus_heap b)
      then (sub_ch (bus_heap b ! i),
            b\<lparr>bus_heap := (bus_heap b)[i := (bus_heap b ! i)\<lparr>sub_ch := []\<rparr>]\<rparr>)
      else ([], b))"

definition converse_ops :: "conv_world broker_ops" where
  "converse_ops =
     \<lparr>op_now = (\<lambda>w. (cw_clock w, w)),
      op_ctx_done = (\<lambda>w. (False, w)),
      op_random = (\<lambda>w. (Some (random_bytes (cw_random w)), w\<lparr>cw_random := cw_random w + 1\<rparr>)),
      op_create = (\<lambda>_ w. (None, w)),
      op_update = (\<lambda>_ _ w. (None, w)),
      op_append = (\<lambda>t w. (None, w\<lparr>cw_stored := cw_stored w @ [t]\<rparr>)),
      op_peer_start = (\<lambda>ref spec cid slot w.
        let (e, p) = mock_start cid slot (cw_peers w ref) in (e, w\<lparr>cw_peers := (cw_peers w)(ref := p)\<rparr>)),
      op_deliver = (\<lambda>ref env w.
        let (r, p) = mock_deliver None ErrDeadline (cw_clock w) env (cw_peers w ref)
        in (r, w\<lparr>cw_peers := (cw_peers w)(ref := p)\<rparr>)),
      op_peer_stop = (\<lambda>ref w. w\<lparr>cw_peers := (cw_peers w)(ref := mock_stop (cw_peers w ref))\<rparr>),
      op_term_start = (\<lambda>conv w.
        let (e, s, b) = sentinel_start conv (cw_sentinel w) (cw_bus w)
        in (e, w\<lparr>cw_sentinel := s, cw_bus := b\<rparr>)),
      op_term_stop = (\<lambda>w. let (s, b) = sentinel_stop [] (cw_sentinel w) (cw_bus w)
        in w\<lparr>cw_sentinel := s, cw_bus := b\<rparr>),
      op_subscribe = (\<lambda>topic w. let (r, b) = bus_subscribe topic (cw_bus w) in (r, w\<lparr>cw_bus := b\<rparr>)),
      op_cancel = (\<lambda>topic i w. w\<lparr>cw_bus := bus_cancel topic i (cw_bus w)\<rparr>),
      op_publish = (\<lambda>topic m w. let (e, b) = bus_publish topic m (cw_bus w) in (e, w\<lparr>cw_bus := b\<rparr>)),
      op_recv_wait = (\<lambda>i dl w. let w' = sentinel_turns w; (r, b) = bus_recv i (cw_bus w')
        in (r, w'\<lparr>cw_bus := b\<rparr>)),
      op_recv_rest = (\<lambda>i w. let (ms, b) = bus_take_all i (cw_bus w) in (ms, w\<lparr>cw_bus := b\<rparr>))\<rparr>"

interpretation cw: indexed_world converse_ops
proof
  fix ref env w t w'
  assume "op_deliver converse_ops ref env w = (Inr t, w')"
  then show "ct_index t = env_turn_index env"
    by (auto simp: converse_ops_def mock_deliver_def mock_deliver_locked_def mock_turn_def Let_def
        split: prod.splits option.splits if_splits sum.splits)
qed

section \<open>The state between rounds\<close>

text \<open>
  The sentinel listens on the turn topic and the broker on the control topic, nothing is
  buffered for either, and every started peer belongs to the conversation.
\<close>

definition calm :: "string \<Rightarrow> nat \<Rightarrow> nat \<Rightarrow> string \<Rightarrow> conv_world \<Rightarrow> bool" where
  "calm cid i c tok w \<longleftrightarrow>
     watching cid i c (cw_bus w) \<and>
     (\<forall>t. i \<in> set (subs_of (cw_bus w) t) \<longleftrightarrow> t = topic_turn cid) \<and>
     (\<forall>t. c \<in> set (subs_of (cw_bus w) t) \<longleftrightarrow> t = topic_control cid) \<and>
     sub_ch (bus_heap (cw_bus w) ! i) = [] \<and> sub_ch (bus_heap (cw_bus w) ! c) = [] \<and>
     sen_run (cw_sentinel w) = Some (cid, i) \<and> sen_token (cw_sentinel w) = tok \<and>
     json_time_ok (cw_clock w) \<and>
     (\<forall>ref. mt_started (cw_peers w ref) \<longrightarrow> mt_conversation_id (cw_peers w ref) = cid)"

definition hit :: "string \<Rightarrow> conversation_turn \<Rightarrow> bool" where
  "hit tok t \<longleftrightarrow> contains_on_own_line (to_valid_utf8 (ct_response t)) tok"

lemma converse_ops_sel:
  "op_now converse_ops w = (cw_clock w, w)"
  "op_ctx_done converse_ops w = (False, w)"
  "op_create converse_ops conv w = (None, w)"
  "op_append converse_ops t w = (None, w\<lparr>cw_stored := cw_stored w @ [t]\<rparr>)"
  "op_random converse_ops w = (Some (random_bytes (cw_random w)), w\<lparr>cw_random := cw_random w + 1\<rparr>)"
  "op_publish converse_ops topic m w =
     (fst (bus_publish topic m (cw_bus w)), w\<lparr>cw_bus := snd (bus_publish topic m (cw_bus w))\<rparr>)"
  "op_recv_rest converse_ops i w =
     (fst (bus_take_all i (cw_bus w)), w\<lparr>cw_bus := snd (bus_take_all i (cw_bus w))\<rparr>)"
  "op_recv_wait converse_ops i dl w =
     (fst (bus_recv i (cw_bus (sentinel_turns w))),
      (sentinel_turns w)\<lparr>cw_bus := snd (bus_recv i (cw_bus (sentinel_turns w)))\<rparr>)"
  by (simp_all add: converse_ops_def Let_def split_beta)

lemma deliver_turn:
  assumes "op_deliver converse_ops ref env w = (Inr t, w')" and "calm cid i c tok w"
  shows "ct_conversation_id t = cid" and "json_time_ok (ct_started_at t)" "json_time_ok (ct_ended_at t)"
    and "calm cid i c tok w'" and "cw_bus w' = cw_bus w"
  using assms
  by (auto simp: converse_ops_def mock_deliver_def mock_deliver_locked_def mock_turn_def Let_def calm_def
      split: prod.splits option.splits if_splits sum.splits)

text \<open>
  After a turn is published, the sentinel and the broker's drain leave both channels empty
  again, and the broker receives the sentinel's verdict exactly if the reply has the token.
\<close>

lemma sentinel_loop_single:
  assumes w: "watching cid i c b" and ch: "sub_ch (bus_heap b ! i) = [m]" and n: "0 < n"
    and c: "sub_ch (bus_heap b ! c) = []"
  shows "watching cid i c (sentinel_loop (replicate n now) tok cid i b) \<and>
    sub_ch (bus_heap (sentinel_loop (replicate n now) tok cid i b) ! i) = [] \<and>
    sub_ch (bus_heap (sentinel_loop (replicate n now) tok cid i b) ! c) =
      (if sentinel_hit tok m then [sentinel_message cid now] else []) \<and>
    bus_subs (sentinel_loop (replicate n now) tok cid i b) = bus_subs b"
proof -
  let ?b = "snd (bus_recv i b)"
  note r = watching_recv [OF w ch]
  let ?b' = "sentinel_handle tok cid now m ?b"
  note h = sentinel_handle_step [OF r(1), of tok now m]
  have empty: "sub_ch (bus_heap ?b' ! i) = []" using h(2) r(3) by simp
  obtain k where k: "n = Suc k" using n gr0_conv_Suc by auto
  have first: "sentinel_loop (replicate n now) tok cid i b =
      sentinel_loop (replicate k now) tok cid i ?b'"
    using r(2) by (simp add: k split_beta)
  have rest: "sentinel_loop (replicate k now) tok cid i ?b' = ?b'"
    using h(1) empty by (cases k) (auto simp: watching_def bus_recv_heap)
  have "bus_subs ?b' = bus_subs b"
  proof -
    have "bus_subs ?b = bus_subs b"
      by (auto simp: bus_recv_def split: prod.splits)
    then show ?thesis by (simp add: sentinel_handle_def)
  qed
  moreover have "0 < bus_buffer_size ?b"
    using r(1) bus_invD(1) by (auto simp: watching_def)
  ultimately show ?thesis
    using first rest h(1,3) empty r(4) c by (auto simp: take_Cons')
qed

lemma calm_publish:
  assumes calm: "calm cid i c tok w" and cid: "ct_conversation_id t = cid"
    and t: "json_time_ok (ct_started_at t)" "json_time_ok (ct_ended_at t)"
  obtains b m where "publish_turn converse_ops t w = (None, w\<lparr>cw_bus := b\<rparr>)"
    "watching cid i c b" "bus_subs b = bus_subs (cw_bus w)" "bus_buffer_size b = bus_buffer_size (cw_bus w)"
    "sub_ch (bus_heap b ! i) = [m]" "sub_ch (bus_heap b ! c) = []" "sentinel_hit tok m = hit tok t"
proof
  let ?m = "\<lparr>bm_conversation_id = cid, bm_topic = topic_turn cid, bm_kind = KindTurn,
    bm_payload = JObj (turn_fields t), bm_timestamp = cw_clock w\<rparr>"
  let ?b = "snd (bus_publish (topic_turn cid) ?m (cw_bus w))"
  have w: "watching cid i c (cw_bus w)" and i: "i \<in> set (subs_of (cw_bus w) (topic_turn cid))"
    and c: "c \<notin> set (subs_of (cw_bus w) (topic_turn cid))"
    and ch: "sub_ch (bus_heap (cw_bus w) ! i) = []" "sub_ch (bus_heap (cw_bus w) ! c) = []"
    using calm topic_control_neq_turn [of cid] by (auto simp: calm_def)
  from w have inv: "bus_inv (cw_bus w)" and op: "\<not> bus_closed (cw_bus w)"
    and lt: "i < length (bus_heap (cw_bus w))" "c < length (bus_heap (cw_bus w))"
    by (auto simp: watching_def)
  have open_i: "\<not> sub_closed (bus_heap (cw_bus w) ! i)"
    using i subs_of_subset bus_invD(4) [OF inv, of i] by blast
  show "publish_turn converse_ops t w = (None, w\<lparr>cw_bus := ?b\<rparr>)"
    using cid t op by (simp add: publish_turn_def marshal_turn_def converse_ops_sel Let_def)
  have "subs_of ?b x = subs_of (cw_bus w) x" for x by (rule subs_of_cong) simp
  then show "watching cid i c ?b"
    using w bus_publish_inv [OF inv] by (simp add: watching_def)
  show "sub_ch (bus_heap ?b ! i) = [?m]"
    using bus_publish_heap [OF inv op lt(1)] i ch(1) open_i bus_invD(1) [OF inv]
    by (simp add: sub_deliver_ch take_Cons')
  show "sub_ch (bus_heap ?b ! c) = []"
    using bus_publish_heap [OF inv op lt(2)] c ch(2) by simp
  show "sentinel_hit tok ?m = hit tok t"
    by (simp add: sentinel_hit_turn hit_def)
qed simp_all

lemma calm_bus_cong:
  assumes "calm cid i c tok w" and "watching cid i c b" and "bus_subs b = bus_subs (cw_bus w)"
    and "sub_ch (bus_heap b ! i) = []" "sub_ch (bus_heap b ! c) = []"
  shows "calm cid i c tok (w\<lparr>cw_bus := b\<rparr>)"
  using assms subs_of_cong [OF assms(3)] by (simp add: calm_def)

lemma watching_recv_any:
  assumes "watching cid i c b"
  shows "watching cid i c (snd (bus_recv j b))" and "bus_subs (snd (bus_recv j b)) = bus_subs b"
proof -
  show subs: "bus_subs (snd (bus_recv j b)) = bus_subs b"
    by (auto simp: bus_recv_def split: prod.splits)
  have "length (bus_heap (snd (bus_recv j b))) = length (bus_heap b)"
    "bus_closed (snd (bus_recv j b)) = bus_closed b"
    by (auto simp: bus_recv_def split: prod.splits)
  then show "watching cid i c (snd (bus_recv j b))"
    using assms bus_recv_inv [of b j] subs_of_cong [OF subs] by (simp add: watching_def)
qed

lemma bus_take_all_empty: "sub_ch (bus_heap b ! c) = [] \<Longrightarrow> bus_take_all c b = ([], b)"
  by (cases "bus_heap b ! c") (auto simp: bus_take_all_def list_update_same_conv)

lemma calm_drain:
  assumes calm: "calm cid i c tok w" and b: "watching cid i c b" "bus_subs b = bus_subs (cw_bus w)"
    and ch: "sub_ch (bus_heap b ! i) = [m]" "sub_ch (bus_heap b ! c) = []"
    and d: "drain_control_timed converse_ops c window (w\<lparr>cw_bus := b\<rparr>) = (cs, w')"
  shows "cs = (if sentinel_hit tok m then [sentinel_verdict (to_valid_utf8 cid)] else [])"
    and "calm cid i c tok w'"
proof -
  let ?b = "sentinel_loop (replicate (bus_buffer_size b) (cw_clock w)) tok cid i b"
  have run: "sentinel_turns (w\<lparr>cw_bus := b\<rparr>) = w\<lparr>cw_bus := ?b\<rparr>"
    using calm by (simp add: sentinel_turns_def sentinel_run_def calm_def)
  have "0 < bus_buffer_size b" using b(1) bus_invD(1) by (auto simp: watching_def)
  note l = sentinel_loop_single [OF b(1) ch(1) this ch(2), of "cw_clock w" tok]
  then have w1: "watching cid i c ?b" and s1: "bus_subs ?b = bus_subs (cw_bus w)"
    and lt: "i < length (bus_heap ?b)" "c < length (bus_heap ?b)" "i \<noteq> c"
    and e1: "sub_ch (bus_heap ?b ! i) = []" using b(2) by (auto simp: watching_def)
  show "cs = (if sentinel_hit tok m then [sentinel_verdict (to_valid_utf8 cid)] else []) "
    "calm cid i c tok w'"
  proof (atomize (full), cases "sentinel_hit tok m")
    case True
    with l have ch1: "sub_ch (bus_heap ?b ! c) = [sentinel_message cid (cw_clock w)]" by simp
    let ?b2 = "snd (bus_recv c ?b)"
    have r: "fst (bus_recv c ?b) = RecvMsg (sentinel_message cid (cw_clock w))"
      and e2: "sub_ch (bus_heap ?b2 ! c) = []" "sub_ch (bus_heap ?b2 ! i) = []"
      using lt ch1 e1 by (simp_all add: bus_recv_heap)
    have "calm cid i c tok (w\<lparr>cw_bus := ?b2\<rparr>)"
      using calm_bus_cong [OF calm watching_recv_any(1) [OF w1] _ e2(2,1)]
        watching_recv_any(2) [OF w1] s1 by simp
    then show "cs = (if sentinel_hit tok m then [sentinel_verdict (to_valid_utf8 cid)] else []) \<and>
        calm cid i c tok w'"
      using d True r e2(1)
      by (auto simp: drain_control_timed_def converse_ops_sel run bus_take_all_empty Let_def
          sentinel_message_def json_control_sentinel map_filter_simps)
  next
    case False
    with l have ch1: "sub_ch (bus_heap ?b ! c) = []" by simp
    have r: "fst (bus_recv c ?b) \<noteq> RecvMsg x" "snd (bus_recv c ?b) = ?b" for x
      using lt ch1 by (simp_all add: bus_recv_heap)
    show "cs = (if sentinel_hit tok m then [sentinel_verdict (to_valid_utf8 cid)] else []) \<and>
        calm cid i c tok w'"
      using d False r calm_bus_cong [OF calm w1 s1 e1 ch1]
      by (auto simp: drain_control_timed_def converse_ops_sel run split: recv.splits)
  qed
qed

text \<open>A round from a calm state: what it records, and how the token decides it.\<close>

lemma control_outcome_sentinel:
  "control_outcome (sentinel_verdict cid) = Some (ConvCompletedSentinel, ''sentinel token observed'')"
  by (simp add: control_outcome_def sentinel_verdict_def)

lemma calm_after_policy:
  assumes calm: "calm cid i c tok w" and b: "watching cid i c b" "bus_subs b = bus_subs (cw_bus w)"
    and ch: "sub_ch (bus_heap b ! i) = [m]" "sub_ch (bus_heap b ! c) = []"
    and a: "broker_after_policy converse_ops d c conv turns ws active resp dec (w\<lparr>cw_bus := b\<rparr>) = Some (rr, w')"
  shows "case rr of
      Continue st \<Rightarrow> calm cid i c tok w' \<and> \<not> sentinel_hit tok m \<and> ls_turns st = turns
    | Finish conv' turns' ws' status msg \<Rightarrow> turns' = turns \<and>
        (if conv_max_turns conv \<le> conv_turns_consumed conv then status = ConvMaxTurnsHit
         else sentinel_hit tok m \<and> status = ConvCompletedSentinel \<and> msg = ''sentinel token observed'')"
proof (cases "conv_max_turns conv \<le> conv_turns_consumed conv")
  case True
  with a show ?thesis by (auto simp: broker_after_policy_def)
next
  case False
  define win where "win = (if bd_drain_window d \<le> 0 then default_drain_window else bd_drain_window d)"
  obtain cs w2 where dr: "drain_control_timed converse_ops c win (w\<lparr>cw_bus := b\<rparr>) = (cs, w2)"
    by (cases "drain_control_timed converse_ops c win (w\<lparr>cw_bus := b\<rparr>)")
  note cd = calm_drain [OF calm b ch dr]
  have keep: "calm cid i c tok (w2\<lparr>cw_random := n\<rparr>)" for n
    using cd(2) by (simp add: calm_def)
  have "broker_after_policy converse_ops d c conv turns ws active resp dec (w\<lparr>cw_bus := b\<rparr>) =
      (case first_outcome cs of
         Some (status, msg) \<Rightarrow> Some (Finish conv turns ws status msg, w2)
       | None \<Rightarrow> (case new_marker_token (Some (random_bytes (cw_random w2))) of
           None \<Rightarrow> None
         | Some marker \<Rightarrow> Some (Continue \<lparr>ls_conv = conv, ls_turns = turns, ls_warnings = ws,
             ls_active = next_slot d dec,
             ls_env = build_envelope_turn_n conv (conv_turns_consumed conv + 1) active resp marker\<rparr>,
             w2\<lparr>cw_random := cw_random w2 + 1\<rparr>)))"
    using False dr by (simp add: broker_after_policy_def converse_ops_sel win_def Let_def
        split: option.split)
  with a False cd(1) keep show ?thesis
    by (auto simp: control_outcome_sentinel split: option.splits if_splits)
qed

lemma calm_round:
  assumes calm: "calm cid i c tok w" and rd: "broker_round converse_ops d c st w = Some (rr, w')"
  shows "case rr of
      Continue st' \<Rightarrow> calm cid i c tok w' \<and> (\<exists>t. \<not> hit tok t \<and> ls_turns st' = ls_turns st @ [t])
    | Finish conv turns ws status msg \<Rightarrow>
        turns = ls_turns st \<and> (status = ConvInterrupted \<or> status = ConvError) \<or>
        (\<exists>t. turns = ls_turns st @ [t] \<and>
          (if conv_max_turns (ls_conv st) \<le> int (length turns) then status = ConvMaxTurnsHit
           else hit tok t \<and> status = ConvCompletedSentinel \<and> msg = ''sentinel token observed''))"
proof -
  from rd obtain ref where ref: "transport_for d (ls_active st) = Some ref"
    by (auto simp: broker_round_def converse_ops_sel Let_def split: option.splits)
  obtain res w2 where del: "op_deliver converse_ops ref (ls_env st) w = (res, w2)"
    by (cases "op_deliver converse_ops ref (ls_env st) w")
  show ?thesis
  proof (cases res)
    case (Inl e)
    with rd ref del show ?thesis
      by (auto simp: broker_round_def converse_ops_sel Let_def)
  next
    case (Inr t0)
    with rd ref del have ad: "broker_after_deliver converse_ops d c st t0 w2 = Some (rr, w')"
      by (simp add: broker_round_def converse_ops_sel Let_def)
    note dt = deliver_turn [OF del [unfolded Inr] calm]
    define t where "t = t0\<lparr>ct_from_id := ls_active st,
      ct_reason := (if ls_turns st = [] then TurnReasonOpener else ct_reason t0)\<rparr>"
    define w3 where "w3 = w2\<lparr>cw_stored := cw_stored w2 @ [t]\<rparr>"
    have c3: "calm cid i c tok w3" using dt(4) by (simp add: w3_def calm_def)
    obtain b m where p: "publish_turn converse_ops t w3 = (None, w3\<lparr>cw_bus := b\<rparr>)"
      and b: "watching cid i c b" "bus_subs b = bus_subs (cw_bus w3)"
        "sub_ch (bus_heap b ! i) = [m]" "sub_ch (bus_heap b ! c) = []"
      and m: "sentinel_hit tok m = hit tok t"
      by (rule calm_publish [OF c3, of t]) (use dt in \<open>simp_all add: t_def\<close>)
    from ad p obtain dec ws conv where
      ap: "broker_after_policy converse_ops d c conv (ls_turns st @ [annotate_turn dec t]) ws (ls_active st)
        (stripped_response conv t) dec (w3\<lparr>cw_bus := b\<rparr>) = Some (rr, w')"
      and conv: "conv_max_turns conv = conv_max_turns (ls_conv st)"
        "conv_turns_consumed conv = int (length (ls_turns st) + 1)"
      by (auto simp: broker_after_deliver_def converse_ops_sel Let_def peer_id_from_slot_def
          t_def [symmetric] w3_def [symmetric] split: option.splits)
    have h: "hit tok (annotate_turn dec t) = hit tok t" by (simp add: hit_def annotate_turn_def)
    from calm_after_policy [OF c3 b ap] show ?thesis
      by (cases rr) (auto simp: m h conv)
  qed
qed

section \<open>From the start of a run to its loop\<close>

text \<open>Starting peers touches only the peers, and ties each started one to the conversation.\<close>

definition booting :: "string \<Rightarrow> conv_world \<Rightarrow> conv_world \<Rightarrow> bool" where
  "booting cid w0 w \<longleftrightarrow> cw_bus w = cw_bus w0 \<and> cw_sentinel w = cw_sentinel w0 \<and>
     cw_clock w = cw_clock w0 \<and> cw_stored w = cw_stored w0 \<and>
     (\<forall>ref. mt_started (cw_peers w ref) \<longrightarrow> mt_conversation_id (cw_peers w ref) = cid)"

lemma booting_start:
  "op_peer_start converse_ops ref spec cid slot w = (e, w') \<Longrightarrow> booting cid w0 w \<Longrightarrow> booting cid w0 w'"
  by (auto simp: converse_ops_def mock_start_def booting_def Let_def
      split: prod.splits option.splits if_splits)

lemma booting_stop: "booting cid w0 w \<Longrightarrow> booting cid w0 (op_peer_stop converse_ops ref w)"
  by (simp add: booting_def converse_ops_def mock_stop_def)

lemma booting_stop_ids: "booting cid w0 w \<Longrightarrow> booting cid w0 (stop_peer_ids converse_ops d ids w)"
  by (induction ids arbitrary: w) (simp_all add: stop_peer_ids_def booting_stop)

lemma booting_start_n:
  "start_n_peers converse_ops d conv started ids w = (e, w') \<Longrightarrow> booting (conv_id conv) w0 w \<Longrightarrow>
     booting (conv_id conv) w0 w'"
  by (induction ids arbitrary: started w)
     (auto simp: booting_stop_ids split: if_splits prod.splits option.splits dest: booting_start)

lemma booting_start_all:
  "start_all_peers converse_ops d conv w = (e, w') \<Longrightarrow> booting (conv_id conv) w0 w \<Longrightarrow>
     booting (conv_id conv) w0 w'"
  by (auto simp: start_all_peers_def split: if_splits prod.splits option.splits
      dest: booting_start_n booting_start intro!: booting_stop)

text \<open>A world in which a run can begin: an open bus, an idle sentinel, unstarted peers.\<close>

definition ready_world :: "conv_world \<Rightarrow> bool" where
  "ready_world w \<longleftrightarrow> bus_inv (cw_bus w) \<and> \<not> bus_closed (cw_bus w) \<and>
     sen_run (cw_sentinel w) = None \<and> json_time_ok (cw_clock w) \<and>
     (\<forall>ref. \<not> mt_started (cw_peers w ref))"

lemma ready_calm:
  assumes rdy: "ready_world w0" and boot: "booting cid w0 w" and cid: "conv_id conv = cid"
    and ts: "op_term_start converse_ops conv w = (te, w4)"
    and sub: "op_subscribe converse_ops (topic_control cid) w4 = (sr, w5)"
  shows "\<exists>i c. sr = Inr c \<and> calm cid i c (sen_token (cw_sentinel w0)) w5 \<and> cw_stored w5 = cw_stored w0"
proof -
  have inv: "bus_inv (cw_bus w)" and op: "\<not> bus_closed (cw_bus w)" and idle: "sen_run (cw_sentinel w) = None"
    and tok: "sen_token (cw_sentinel w) = sen_token (cw_sentinel w0)"
    using rdy boot by (simp_all add: ready_world_def booting_def)
  obtain i b1 where s1: "bus_subscribe (topic_turn cid) (cw_bus w) = (Inr i, b1)" and op1: "\<not> bus_closed b1"
    using op by (auto simp: bus_subscribe_def Let_def)
  obtain c b2 where s2: "bus_subscribe (topic_control cid) b1 = (Inr c, b2)"
    using op1 by (auto simp: bus_subscribe_def Let_def)
  have w4: "w4 = w\<lparr>cw_sentinel := (cw_sentinel w)\<lparr>sen_run := Some (cid, i)\<rparr>, cw_bus := b1\<rparr>"
    using ts idle s1 cid by (simp add: converse_ops_def sentinel_start_def)
  have w5: "sr = Inr c" "w5 = w4\<lparr>cw_bus := b2\<rparr>"
    using sub s2 by (simp_all add: converse_ops_def w4)
  note sw = start_then_subscribe_watching [OF inv s1 s2]
  have "calm cid i c (sen_token (cw_sentinel w0)) w5"
    using sw rdy boot tok by (simp add: calm_def w5 w4 ready_world_def booting_def)
  with w5 boot show ?thesis by (auto simp: w4 booting_def)
qed

lemma converse_run_cases [consumes 2, case_names early loop]:
  assumes run: "broker_run converse_ops d w = Some (r, w')" and rdy: "ready_world w"
  obtains "fr_turns r = []" "conv_status (fr_conversation r) = ConvError" "cw_stored w' = cw_stored w"
  | i c st w1 w2 where "broker_loop converse_ops d c st w1 = Some (r, w2)"
      "calm (conv_id (bd_conversation d)) i c (sen_token (cw_sentinel w)) w1"
      "ls_turns st = []" "conv_max_turns (ls_conv st) = conv_max_turns (bd_conversation d)"
      "cw_stored w1 = cw_stored w" "cw_stored w' = cw_stored w2"
proof -
  define conv where "conv = (bd_conversation d)\<lparr>conv_status := ConvRunning, conv_created_at := cw_clock w\<rparr>"
  have cid: "conv_id conv = conv_id (bd_conversation d)" by (simp add: conv_def)
  obtain se w3 where st: "start_all_peers converse_ops d conv w = (se, w3)"
    by (cases "start_all_peers converse_ops d conv w")
  have boot: "booting (conv_id conv) w w3"
    by (rule booting_start_all [OF st]) (use rdy in \<open>simp add: booting_def ready_world_def\<close>)
  have upd: "finalize converse_ops cv ts ws x n v = (r', v') \<Longrightarrow> v' = v" for cv ts ws x n v r' v'
    by (auto simp: finalize_def converse_ops_def Let_def)
  have kept: "cw_stored (stop_all_peers converse_ops d v) = cw_stored v" for v
  proof -
    have "cw_stored (stop_peer_ids converse_ops d ids v) = cw_stored v" for ids
      by (induction ids arbitrary: v) (simp_all add: stop_peer_ids_def converse_ops_def)
    then show ?thesis by (simp add: stop_all_peers_def converse_ops_def)
  qed
  show thesis
  proof (cases se)
    case (Some e)
    then have "finalize converse_ops conv [] [] ConvError (err_text e) w3 = (r, w')"
      using run st by (simp add: broker_run_def converse_ops_sel Let_def conv_def add_warning_def)
    from that(1) finalize_fields [OF this] upd [OF this] boot show thesis by (simp add: booting_def)
  next
    case None
    obtain te w4 where ts: "op_term_start converse_ops conv w3 = (te, w4)"
      by (cases "op_term_start converse_ops conv w3")
    obtain sr w5 where sub: "op_subscribe converse_ops (topic_control (conv_id conv)) w4 = (sr, w5)"
      by (cases "op_subscribe converse_ops (topic_control (conv_id conv)) w4")
    from ready_calm [OF rdy boot refl ts sub] obtain i c where
      c: "sr = Inr c" "calm (conv_id conv) i c (sen_token (cw_sentinel w)) w5" "cw_stored w5 = cw_stored w"
      by auto
    have c': "calm (conv_id conv) i c (sen_token (cw_sentinel w)) (w5\<lparr>cw_random := n\<rparr>)" for n
      using c(2) by (simp add: calm_def)
    from run None st ts sub c(1) obtain stt w7 where
      loop: "broker_loop converse_ops d c stt (w5\<lparr>cw_random := cw_random w5 + 1\<rparr>) = Some (r, w7)"
      and stt: "ls_turns stt = []" "ls_conv stt = conv"
      and w': "w' = stop_all_peers converse_ops d (op_term_stop converse_ops
        (op_cancel converse_ops (topic_control (conv_id conv)) c w7))"
      by (auto simp: broker_run_def converse_ops_sel Let_def conv_def split: if_splits option.splits)
    have "cw_stored (op_term_stop converse_ops v) = cw_stored v"
      "cw_stored (op_cancel converse_ops x c v) = cw_stored v" for v x
      by (simp_all add: converse_ops_def split_beta Let_def)
    with w' have "cw_stored w' = cw_stored w7" by (simp add: kept)
    with c(3) stt show thesis by (intro that(2) [OF loop c' [unfolded cid]]) (simp_all add: conv_def)
  qed
qed

section \<open>A whole run\<close>

definition sentinel_verdict_ok :: "string \<Rightarrow> int \<Rightarrow> final_result \<Rightarrow> bool" where
  "sentinel_verdict_ok tok limit r \<longleftrightarrow>
     list_all (\<lambda>t. \<not> hit tok t) (butlast (fr_turns r)) \<and>
     (conv_status (fr_conversation r) = ConvCompletedSentinel \<longleftrightarrow>
        fr_turns r \<noteq> [] \<and> hit tok (last (fr_turns r)) \<and> int (length (fr_turns r)) < limit)"

lemma status_neq:
  "ConvError \<noteq> ConvCompletedSentinel" "ConvInterrupted \<noteq> ConvCompletedSentinel"
  "ConvMaxTurnsHit \<noteq> ConvCompletedSentinel"
  by (simp_all add: status_defs)

lemma calm_loop:
  assumes "broker_loop converse_ops d c st w = Some (r, w')" and "calm cid i c tok w"
    and "list_all (\<lambda>t. \<not> hit tok t) (ls_turns st)" and "conv_max_turns (ls_conv st) = limit"
  shows "sentinel_verdict_ok tok limit r"
proof (rule broker_loop_world_invariant [OF assms(1), where
      I = "\<lambda>st w. calm cid i c tok w \<and> list_all (\<lambda>t. \<not> hit tok t) (ls_turns st) \<and>
        conv_max_turns (ls_conv st) = limit" and Q = "\<lambda>r _. sentinel_verdict_ok tok limit r"])
  fix st w st' w'
  assume I: "calm cid i c tok w \<and> list_all (\<lambda>t. \<not> hit tok t) (ls_turns st) \<and>
      conv_max_turns (ls_conv st) = limit"
    and rd: "broker_round converse_ops d c st w = Some (Continue st', w')"
  have "conv_max_turns (ls_conv st') = conv_max_turns (ls_conv st)"
    by (rule broker_round_Continue [OF rd]) simp
  with calm_round [OF conjunct1 [OF I] rd] I show "calm cid i c tok w' \<and> list_all (\<lambda>t. \<not> hit tok t) (ls_turns st') \<and>
      conv_max_turns (ls_conv st') = limit" by auto
next
  fix st w conv turns ws status msg w1 w2 r
  assume I: "calm cid i c tok w \<and> list_all (\<lambda>t. \<not> hit tok t) (ls_turns st) \<and>
      conv_max_turns (ls_conv st) = limit"
    and rd: "broker_round converse_ops d c st w = Some (Finish conv turns ws status msg, w1)"
    and fin: "finalize converse_ops conv turns ws status msg w1 = (r, w2)"
  have last: "\<not> hit tok (last (ls_turns st))" if "ls_turns st \<noteq> []"
    using I that by (simp add: list_all_iff)
  have but: "list_all (\<lambda>t. \<not> hit tok t) (butlast (ls_turns st))"
    using I by (auto simp: list_all_iff dest: in_set_butlastD)
  from calm_round [OF conjunct1 [OF I] rd] show "sentinel_verdict_ok tok limit r"
    using I last but finalize_fields(1,3) [OF fin]
    by (auto simp: sentinel_verdict_ok_def status_neq status_neq [symmetric] split: if_splits)
qed (use assms in auto)


text \<open>
  The turns of a conversation are numbered from one without gaps, whatever the peers,
  the policy and the terminator do.
\<close>

theorem converse_turns_numbered:
  assumes "broker_run converse_ops d w = Some (r, w')"
  shows "map ct_index (fr_turns r) = map int [1 ..< length (fr_turns r) + 1]"
  by (rule cw.broker_run_numbered [OF assms])

text \<open>What the store sees of a turn: the policy's fields are filled in only afterwards.\<close>

definition unrouted :: "conversation_turn \<Rightarrow> conversation_turn" where
  "unrouted t = t\<lparr>ct_to_id := [], ct_reason := [], ct_fallback_used := False, ct_next_id_parsed := None\<rparr>"

lemma unrouted_annotate [simp]: "unrouted (annotate_turn dec t) = unrouted t"
  by (simp add: unrouted_def annotate_turn_def)

lemma after_policy_stored:
  "broker_after_policy converse_ops d c conv turns ws active resp dec w = Some (rr, w') \<Longrightarrow>
     cw_stored w' = cw_stored w"
  by (auto simp: broker_after_policy_def drain_control_timed_def converse_ops_sel sentinel_turns_def Let_def
      split: if_splits option.splits recv.splits)

lemma round_stored:
  assumes "broker_round converse_ops d c st w = Some (rr, w')"
  shows "case rr of
      Continue st' \<Rightarrow> \<exists>s t. ls_turns st' = ls_turns st @ [t] \<and> cw_stored w' = cw_stored w @ [s] \<and>
        unrouted s = unrouted t \<and> ct_to_id s = []
    | Finish conv turns ws status msg \<Rightarrow> turns = ls_turns st \<and> cw_stored w' = cw_stored w \<or>
        (\<exists>s t. turns = ls_turns st @ [t] \<and> cw_stored w' = cw_stored w @ [s] \<and>
          unrouted s = unrouted t \<and> ct_to_id s = [])"
proof -
  from assms obtain ref where ref: "transport_for d (ls_active st) = Some ref"
    by (auto simp: broker_round_def converse_ops_sel Let_def split: option.splits)
  obtain res w2 where del: "op_deliver converse_ops ref (ls_env st) w = (res, w2)"
    by (cases "op_deliver converse_ops ref (ls_env st) w")
  have w2: "cw_stored w2 = cw_stored w"
    using del by (auto simp: converse_ops_def Let_def split: prod.splits)
  show ?thesis
  proof (cases res)
    case (Inl e)
    with assms ref del w2 show ?thesis
      by (auto simp: broker_round_def converse_ops_sel Let_def)
  next
    case (Inr t0)
    with assms ref del have ad: "broker_after_deliver converse_ops d c st t0 w2 = Some (rr, w')"
      by (simp add: broker_round_def converse_ops_sel Let_def)
    define s where "s = t0\<lparr>ct_from_id := ls_active st,
      ct_reason := (if ls_turns st = [] then TurnReasonOpener else ct_reason t0)\<rparr>"
    have to: "ct_to_id s = []"
      using del Inr by (auto simp: s_def converse_ops_def mock_deliver_def mock_deliver_locked_def mock_turn_def
          zero_conversation_turn_def Let_def split: prod.splits option.splits if_splits sum.splits)
    define w3 where "w3 = w2\<lparr>cw_stored := cw_stored w2 @ [s]\<rparr>"
    obtain pe w4 where p: "publish_turn converse_ops s w3 = (pe, w4)"
      by (cases "publish_turn converse_ops s w3")
    have w4: "cw_stored w4 = cw_stored w @ [s]"
      using p w2 by (auto simp: w3_def publish_turn_def converse_ops_sel Let_def split: sum.splits)
    from ad p obtain dec ws conv where
      ap: "broker_after_policy converse_ops d c conv (ls_turns st @ [annotate_turn dec s]) ws (ls_active st)
        (stripped_response conv s) dec w4 = Some (rr, w')"
      by (auto simp: broker_after_deliver_def converse_ops_sel Let_def peer_id_from_slot_def
          s_def [symmetric] w3_def [symmetric] split: option.splits)
    have st: "cw_stored w' = cw_stored w @ [s]" using after_policy_stored [OF ap] w4 by simp
    show ?thesis
    proof (cases rr)
      case (Finish conv' turns' ws' status msg)
      with broker_after_policy_Finish [OF ap [unfolded Finish]] st to show ?thesis by auto
    next
      case (Continue st')
      with broker_after_policy_Continue [OF ap [unfolded Continue]] st to show ?thesis by auto
    qed
  qed
qed

text \<open>
  C15. The store receives one turn per recorded turn, in order, equal to it except for the fields
  of the policy's decision, and always without a recipient: the turn is appended before the policy
  has chosen who speaks next.
\<close>

theorem converse_stored_turns:
  assumes "broker_run converse_ops d w = Some (r, w')" and "ready_world w" and "cw_stored w = []"
  shows "map unrouted (cw_stored w') = map unrouted (fr_turns r) \<and>
    list_all (\<lambda>t. ct_to_id t = []) (cw_stored w')"
  using assms(1,2)
proof (cases rule: converse_run_cases)
  case early
  with assms(3) show ?thesis by simp
next
  case (loop i c st w1 w2)
  have "map unrouted (cw_stored w2) = map unrouted (fr_turns r) \<and>
    list_all (\<lambda>t. ct_to_id t = []) (cw_stored w2)"
  proof (rule broker_loop_world_invariant [OF loop(1), where
        I = "\<lambda>st w. map unrouted (cw_stored w) = map unrouted (ls_turns st) \<and>
          list_all (\<lambda>t. ct_to_id t = []) (cw_stored w)"
        and Q = "\<lambda>r w. map unrouted (cw_stored w) = map unrouted (fr_turns r) \<and>
          list_all (\<lambda>t. ct_to_id t = []) (cw_stored w)"], goal_cases)
    case 1
    with loop assms(3) show ?case by simp
  next
    case (2 st w st' w')
    with round_stored [OF 2(2)] show ?case by auto
  next
    case (3 st w conv turns ws status msg w1 w2 r)
    then have "w2 = w1" by (auto simp: finalize_def converse_ops_def Let_def)
    with 3 round_stored [OF 3(2)] finalize_fields(1) [OF 3(3)] show ?case by auto
  qed
  with loop show ?thesis by simp
qed

section \<open>A concrete conversation\<close>

text \<open>Two scripted peers with the default token; the second one ends the conversation.\<close>

definition demo_world :: conv_world where
  "demo_world =
     \<lparr>cw_bus = new_bus [], cw_sentinel = new_sentinel [],
      cw_peers = (\<lambda>ref. if ref = RefA then new_mock [''hello'', ''more''] None None
        else new_mock [''<<END>>''] None None),
      cw_clock = 1, cw_random = 0, cw_stored = []\<rparr>"

definition demo_deps :: broker_deps where
  "demo_deps = new_broker (zero_conversation\<lparr>conv_id := ''c'', conv_max_turns := 5\<rparr>) 0 None [] []"

lemma demo_ready: "ready_world demo_world" "cw_stored demo_world = []"
  "sen_token (cw_sentinel demo_world) = ''<<END>>''" "conv_max_turns (bd_conversation demo_deps) = 5"
proof -
  have "\<not> bus_closed (new_bus [])" by (simp add: new_bus_def)
  then show "ready_world demo_world"
    by (simp add: ready_world_def demo_world_def new_bus_inv new_sentinel_def new_mock_def json_time_ok_def)
qed (simp_all add: demo_world_def new_sentinel_def default_sentinel_def demo_deps_def new_broker_def)

lemma demo_run_obtain:
  obtains r w' where "broker_run converse_ops demo_deps demo_world = Some (r, w')"
proof -
  have "broker_run converse_ops demo_deps demo_world \<noteq> None"
    by (rule addressed.broker_run_returns)
       (simp_all add: demo_ready demo_deps_def new_broker_def n_peer_mode_def converse_ops_sel)
  then show thesis using that by auto
qed


theorem converse_turns_numbered_witness:
  "\<exists>r w'. broker_run converse_ops demo_deps demo_world = Some (r, w') \<and>
     map ct_index (fr_turns r) = map int [1 ..< length (fr_turns r) + 1]"
proof -
  obtain r w' where r: "broker_run converse_ops demo_deps demo_world = Some (r, w')"
    by (rule demo_run_obtain)
  from converse_turns_numbered [OF r] r show ?thesis by blast
qed

theorem converse_stored_turns_witness:
  "\<exists>r w'. broker_run converse_ops demo_deps demo_world = Some (r, w') \<and>
     length (cw_stored w') = length (fr_turns r)"
proof -
  obtain r w' where r: "broker_run converse_ops demo_deps demo_world = Some (r, w')"
    by (rule demo_run_obtain)
  from converse_stored_turns [OF r demo_ready(1,2)] r show ?thesis
    by (metis length_map)
qed

end
