(* ===== verification/StoreWire.thy ===== *)
theory StoreWire
  imports Wire "HOL-Library.Char_ord" "HOL-Library.List_Lexorder"
begin

text \<open>
  The JSON documents of the stores: conversations, sessions and session turns
  (\<open>src/internal/model\<close>, the struct tags), encoded to and decoded from the trees of theory
  \<open>Wire\<close>.  A Go map is written with its keys in sorted order and read back entry by entry.
\<close>

section \<open>Building blocks\<close>

definition omit_zero :: "string \<Rightarrow> int \<Rightarrow> (string \<times> json) list" where
  "omit_zero k n = (if n = 0 then [] else [(k, JNum n)])"

definition map_json :: "str_map \<Rightarrow> json" where
  "map_json m = JObj (map (\<lambda>(k, v). (to_valid_utf8 k, jstr v)) (sort_key fst m))"

definition omit_map :: "string \<Rightarrow> str_map \<Rightarrow> (string \<times> json) list" where
  "omit_map k m = (if m = [] then [] else [(k, map_json m)])"

definition get_map :: "(string \<times> json) list \<Rightarrow> string \<Rightarrow> str_map option" where
  "get_map fs k = (case map_of fs k of
     None \<Rightarrow> Some [] | Some JNull \<Rightarrow> Some []
   | Some (JObj es) \<Rightarrow> map_option (\<lambda>vs. fold (\<lambda>(k, v). map_put k v) (zip (map fst es) vs) [])
       (those (map (un_str \<circ> snd) es))
   | Some _ \<Rightarrow> None)"

text \<open>What is left of a map after it was written and read.\<close>

definition valid_map :: "str_map \<Rightarrow> str_map" where
  "valid_map m = fold (\<lambda>(k, v). map_put (to_valid_utf8 k) (to_valid_utf8 v)) (sort_key fst m) []"

definition get_opt :: "(json \<Rightarrow> 'a option) \<Rightarrow> (string \<times> json) list \<Rightarrow> string \<Rightarrow> 'a option option" where
  "get_opt un fs k = (case map_of fs k of
     None \<Rightarrow> Some None | Some JNull \<Rightarrow> Some None | Some j \<Rightarrow> map_option Some (un j))"

fun un_num :: "json \<Rightarrow> int option" where
  "un_num (JNum i) = Some i"
| "un_num _ = None"

fun un_conf :: "json \<Rightarrow> confidence option" where
  "un_conf (JConf i) = Some i"
| "un_conf _ = None"

fun un_time :: "json \<Rightarrow> go_time option" where
  "un_time (JTime i) = Some i"
| "un_time _ = None"

fun un_jstr :: "json \<Rightarrow> string option" where
  "un_jstr (JStr s) = Some s"
| "un_jstr _ = None"

lemma those_un_str: "those (map (\<lambda>x. un_str (jstr (snd x))) xs) = Some (map (\<lambda>x. to_valid_utf8 (snd x)) xs)"
  by (induction xs) (auto simp: jstr_def)

lemma fold_zip_map: "fold f (zip (map g xs) (map h xs)) s = fold (\<lambda>x. f (g x, h x)) xs s"
  by (induction xs arbitrary: s) simp_all

lemma get_map_json: "map_of fs k = Some (map_json m) \<Longrightarrow> get_map fs k = Some (valid_map m)"
proof -
  assume "map_of fs k = Some (map_json m)"
  moreover have "those (map (un_str \<circ> snd) (map (\<lambda>(k, v). (to_valid_utf8 k, jstr v)) (sort_key fst m))) =
      Some (map (\<lambda>(k, v). to_valid_utf8 v) (sort_key fst m))"
    by (simp add: comp_def split_beta those_un_str)
  ultimately show ?thesis
    by (simp add: get_map_def map_json_def valid_map_def fold_zip_map comp_def case_prod_beta')
qed

lemma valid_map_Nil [simp]: "valid_map [] = []"
  by (simp add: valid_map_def)

lemma map_of_omit_store:
  "map_of (omit_zero k n @ fs) k' = (if k = k' \<and> n \<noteq> 0 then Some (JNum n) else map_of fs k')"
  "map_of (omit_map k m @ fs) k' = (if k = k' \<and> m \<noteq> [] then Some (map_json m) else map_of fs k')"
  "map_of (omit_map k m) k' = (if k = k' \<and> m \<noteq> [] then Some (map_json m) else None)"
  "map_of (omit_str k s) k' = (if k = k' \<and> s \<noteq> [] then Some (jstr s) else None)"
  by (auto simp: omit_zero_def omit_map_def omit_str_def)

section \<open>Session turns\<close>

definition session_turn_fields :: "turn \<Rightarrow> (string \<times> json) list" where
  "session_turn_fields t =
     [(''session_id'', jstr (tn_session_id t)), (''turn_index'', JNum (tn_index t)), (''role'', jstr (tn_role t)),
      (''content'', jstr (tn_content t)), (''created_at'', JTime (tn_created_at t))]"

definition raw_session_turn_fields :: "turn \<Rightarrow> (string \<times> json) list" where
  "raw_session_turn_fields t =
     [(''session_id'', JStr (tn_session_id t)), (''turn_index'', JNum (tn_index t)), (''role'', JStr (tn_role t)),
      (''content'', JStr (tn_content t)), (''created_at'', JTime (tn_created_at t))]"

definition marshal_session_turn :: "turn \<Rightarrow> json result" where
  "marshal_session_turn t =
     (if json_time_ok (tn_created_at t) then Inr (JObj (session_turn_fields t)) else Inl json_time_error)"

definition unmarshal_session_turn :: "json \<Rightarrow> turn option" where
  "unmarshal_session_turn j =
     Option.bind (obj_fields j) (\<lambda>fs.
     Option.bind (get_str fs ''session_id'') (\<lambda>sid.
     Option.bind (get_int fs ''turn_index'') (\<lambda>idx.
     Option.bind (get_str fs ''role'') (\<lambda>role.
     Option.bind (get_str fs ''content'') (\<lambda>content.
     Option.bind (get_time fs ''created_at'') (\<lambda>at.
       Some \<lparr>tn_session_id = sid, tn_index = idx, tn_role = role, tn_content = content,
         tn_created_at = at\<rparr>))))))"

definition valid_session_turn :: "turn \<Rightarrow> turn" where
  "valid_session_turn t =
     t\<lparr>tn_session_id := to_valid_utf8 (tn_session_id t), tn_role := to_valid_utf8 (tn_role t),
       tn_content := to_valid_utf8 (tn_content t)\<rparr>"

lemma session_turn_roundtrip:
  "marshal_session_turn t = Inr j \<Longrightarrow> unmarshal_session_turn j = Some (valid_session_turn t)"
  by (cases t) (auto simp: marshal_session_turn_def unmarshal_session_turn_def session_turn_fields_def
      get_defs jstr_def valid_session_turn_def split: if_splits)

section \<open>Sessions\<close>

definition session_fields :: "session \<Rightarrow> (string \<times> json) list" where
  "session_fields s =
     [(''session_id'', jstr (ses_id s)), (''provider'', jstr (ses_provider s)), (''status'', jstr (ses_status s)),
      (''started_at'', JTime (ses_started_at s))]
     @ omit_none ''ended_at'' JTime (ses_ended_at s)
     @ omit_none ''duration_ms'' JNum (ses_duration_ms s)
     @ omit_none ''exit_code'' JNum (ses_exit_code s)
     @ omit_none ''parser_confidence'' JConf (ses_parser_confidence s)
     @ omit_none ''observation_confidence'' JConf (ses_observation_confidence s)
     @ [(''auth_mode'', jstr (ses_auth_mode s))]
     @ omit_none ''blocked_reason'' jstr (ses_blocked_reason s)
     @ omit_none ''bytes_captured'' JNum (ses_bytes_captured s)
     @ omit_nil ''warnings'' jstr (ses_warnings s)
     @ omit_none ''terminal_cols'' JNum (ses_terminal_cols s)
     @ omit_none ''terminal_rows'' JNum (ses_terminal_rows s)"

definition opt_time_ok :: "go_time option \<Rightarrow> bool" where
  "opt_time_ok t \<longleftrightarrow> (case t of None \<Rightarrow> True | Some t \<Rightarrow> json_time_ok t)"

definition marshal_session :: "session \<Rightarrow> json result" where
  "marshal_session s =
     (if json_time_ok (ses_started_at s) \<and> opt_time_ok (ses_ended_at s)
      then Inr (JObj (session_fields s)) else Inl json_time_error)"

definition unmarshal_session :: "json \<Rightarrow> session option" where
  "unmarshal_session j =
     Option.bind (obj_fields j) (\<lambda>fs.
     Option.bind (get_str fs ''session_id'') (\<lambda>sid.
     Option.bind (get_str fs ''provider'') (\<lambda>prov.
     Option.bind (get_str fs ''status'') (\<lambda>status.
     Option.bind (get_time fs ''started_at'') (\<lambda>started.
     Option.bind (get_opt un_time fs ''ended_at'') (\<lambda>ended.
     Option.bind (get_opt un_num fs ''duration_ms'') (\<lambda>dur.
     Option.bind (get_opt un_num fs ''exit_code'') (\<lambda>code.
     Option.bind (get_opt un_conf fs ''parser_confidence'') (\<lambda>pc.
     Option.bind (get_opt un_conf fs ''observation_confidence'') (\<lambda>oc.
     Option.bind (get_str fs ''auth_mode'') (\<lambda>auth.
     Option.bind (get_opt un_jstr fs ''blocked_reason'') (\<lambda>blocked.
     Option.bind (get_opt un_num fs ''bytes_captured'') (\<lambda>bytes.
     Option.bind (get_strs fs ''warnings'') (\<lambda>warns.
     Option.bind (get_opt un_num fs ''terminal_cols'') (\<lambda>cols.
     Option.bind (get_opt un_num fs ''terminal_rows'') (\<lambda>rows.
       Some \<lparr>ses_id = sid, ses_provider = prov, ses_status = status, ses_started_at = started,
         ses_ended_at = ended, ses_duration_ms = dur, ses_exit_code = code, ses_parser_confidence = pc,
         ses_observation_confidence = oc, ses_auth_mode = auth, ses_blocked_reason = blocked,
         ses_bytes_captured = bytes, ses_warnings = warns, ses_terminal_cols = cols,
         ses_terminal_rows = rows\<rparr>))))))))))))))))"

definition valid_session :: "session \<Rightarrow> session" where
  "valid_session s =
     s\<lparr>ses_id := to_valid_utf8 (ses_id s), ses_provider := to_valid_utf8 (ses_provider s),
       ses_status := to_valid_utf8 (ses_status s), ses_auth_mode := to_valid_utf8 (ses_auth_mode s),
       ses_blocked_reason := map_option to_valid_utf8 (ses_blocked_reason s),
       ses_warnings := map to_valid_utf8 (ses_warnings s)\<rparr>"

lemma session_field_values:
  "get_str (session_fields s) ''session_id'' = Some (to_valid_utf8 (ses_id s))"
  "get_str (session_fields s) ''provider'' = Some (to_valid_utf8 (ses_provider s))"
  "get_str (session_fields s) ''status'' = Some (to_valid_utf8 (ses_status s))"
  "get_time (session_fields s) ''started_at'' = Some (ses_started_at s)"
  "get_opt un_time (session_fields s) ''ended_at'' = Some (ses_ended_at s)"
  "get_opt un_num (session_fields s) ''duration_ms'' = Some (ses_duration_ms s)"
  "get_opt un_num (session_fields s) ''exit_code'' = Some (ses_exit_code s)"
  "get_opt un_conf (session_fields s) ''parser_confidence'' = Some (ses_parser_confidence s)"
  "get_opt un_conf (session_fields s) ''observation_confidence'' = Some (ses_observation_confidence s)"
  "get_str (session_fields s) ''auth_mode'' = Some (to_valid_utf8 (ses_auth_mode s))"
  "get_opt un_jstr (session_fields s) ''blocked_reason'' = Some (map_option to_valid_utf8 (ses_blocked_reason s))"
  "get_opt un_num (session_fields s) ''bytes_captured'' = Some (ses_bytes_captured s)"
  "get_strs (session_fields s) ''warnings'' = Some (map to_valid_utf8 (ses_warnings s))"
  "get_opt un_num (session_fields s) ''terminal_cols'' = Some (ses_terminal_cols s)"
  "get_opt un_num (session_fields s) ''terminal_rows'' = Some (ses_terminal_rows s)"
  by (auto simp: session_fields_def map_of_omit get_defs get_opt_def jstr_def simp del: map_of_append
      split: option.splits)

lemma session_roundtrip: "marshal_session s = Inr j \<Longrightarrow> unmarshal_session j = Some (valid_session s)"
  by (cases s) (auto simp: marshal_session_def unmarshal_session_def session_field_values valid_session_def
      split: if_splits)

section \<open>Conversations\<close>

definition peer_spec_json :: "peer_spec \<Rightarrow> json" where
  "peer_spec_json p = JObj ((''uri'', jstr (ps_uri p)) # omit_map ''options'' (ps_options p))"

definition json_peer_spec :: "json \<Rightarrow> peer_spec option" where
  "json_peer_spec j =
     Option.bind (obj_fields j) (\<lambda>fs.
     Option.bind (get_str fs ''uri'') (\<lambda>uri.
     Option.bind (get_map fs ''options'') (\<lambda>opts.
       Some \<lparr>ps_uri = uri, ps_options = opts\<rparr>)))"

definition participant_json :: "peer_participant \<Rightarrow> json" where
  "participant_json p = JObj [(''id'', jstr (part_id p)), (''spec'', peer_spec_json (part_spec p))]"

text \<open>A nested object that is missing decodes as the zero value.\<close>

definition get_obj :: "(json \<Rightarrow> 'a option) \<Rightarrow> (string \<times> json) list \<Rightarrow> string \<Rightarrow> 'a option" where
  "get_obj un fs k = un (case map_of fs k of None \<Rightarrow> JNull | Some j \<Rightarrow> j)"

definition json_participant :: "json \<Rightarrow> peer_participant option" where
  "json_participant j =
     Option.bind (obj_fields j) (\<lambda>fs.
     Option.bind (get_str fs ''id'') (\<lambda>pid.
     Option.bind (get_obj json_peer_spec fs ''spec'') (\<lambda>spec.
       Some \<lparr>part_id = pid, part_spec = spec\<rparr>)))"

definition terminator_json :: "terminator_spec \<Rightarrow> json" where
  "terminator_json t = JObj ((''kind'', jstr (term_kind t))
     # omit_str ''sentinel'' (term_sentinel t) @ omit_str ''judge_uri'' (term_judge_uri t))"

definition json_terminator :: "json \<Rightarrow> terminator_spec option" where
  "json_terminator j =
     Option.bind (obj_fields j) (\<lambda>fs.
     Option.bind (get_str fs ''kind'') (\<lambda>kind.
     Option.bind (get_str fs ''sentinel'') (\<lambda>sentinel.
     Option.bind (get_str fs ''judge_uri'') (\<lambda>judge.
       Some \<lparr>term_kind = kind, term_sentinel = sentinel, term_judge_uri = judge\<rparr>))))"

definition get_list :: "(json \<Rightarrow> 'a option) \<Rightarrow> (string \<times> json) list \<Rightarrow> string \<Rightarrow> 'a list option" where
  "get_list un fs k = (case map_of fs k of
     None \<Rightarrow> Some [] | Some JNull \<Rightarrow> Some [] | Some (JArr js) \<Rightarrow> those (map un js) | Some _ \<Rightarrow> None)"

definition conversation_fields :: "conversation \<Rightarrow> (string \<times> json) list" where
  "conversation_fields c =
     [(''conversation_id'', jstr (conv_id c))]
     @ omit_zero ''schema_version'' (conv_schema_version c)
     @ [(''created_at'', JTime (conv_created_at c))]
     @ omit_none ''ended_at'' JTime (conv_ended_at c)
     @ [(''status'', jstr (conv_status c)), (''max_turns'', JNum (conv_max_turns c)),
        (''per_turn_timeout_sec'', JNum (conv_per_turn_timeout c)),
        (''overall_timeout_sec'', JNum (conv_overall_timeout c)),
        (''terminator'', terminator_json (conv_terminator c))]
     @ omit_nil ''peers'' participant_json (conv_peers c)
     @ omit_map ''seeds'' (conv_seeds c)
     @ omit_str ''opener_id'' (conv_opener_id c)
     @ [(''peer_a'', peer_spec_json (conv_peer_a c)), (''peer_b'', peer_spec_json (conv_peer_b c)),
        (''seed_a'', jstr (conv_seed_a c)), (''seed_b'', jstr (conv_seed_b c)),
        (''opener'', jstr (conv_opener c)), (''turns_consumed'', JNum (conv_turns_consumed c))]
     @ omit_str ''reply_style'' (conv_reply_style c)"

definition marshal_conversation :: "conversation \<Rightarrow> json result" where
  "marshal_conversation c =
     (if json_time_ok (conv_created_at c) \<and> opt_time_ok (conv_ended_at c)
      then Inr (JObj (conversation_fields c)) else Inl json_time_error)"

definition unmarshal_conversation :: "json \<Rightarrow> conversation option" where
  "unmarshal_conversation j =
     Option.bind (obj_fields j) (\<lambda>fs.
     Option.bind (get_str fs ''conversation_id'') (\<lambda>cid.
     Option.bind (get_int fs ''schema_version'') (\<lambda>version.
     Option.bind (get_time fs ''created_at'') (\<lambda>created.
     Option.bind (get_opt un_time fs ''ended_at'') (\<lambda>ended.
     Option.bind (get_str fs ''status'') (\<lambda>status.
     Option.bind (get_int fs ''max_turns'') (\<lambda>max_turns.
     Option.bind (get_int fs ''per_turn_timeout_sec'') (\<lambda>per_turn.
     Option.bind (get_int fs ''overall_timeout_sec'') (\<lambda>overall.
     Option.bind (get_obj json_terminator fs ''terminator'') (\<lambda>term.
     Option.bind (get_list json_participant fs ''peers'') (\<lambda>peers.
     Option.bind (get_map fs ''seeds'') (\<lambda>seeds.
     Option.bind (get_str fs ''opener_id'') (\<lambda>opener_id.
     Option.bind (get_obj json_peer_spec fs ''peer_a'') (\<lambda>peer_a.
     Option.bind (get_obj json_peer_spec fs ''peer_b'') (\<lambda>peer_b.
     Option.bind (get_str fs ''seed_a'') (\<lambda>seed_a.
     Option.bind (get_str fs ''seed_b'') (\<lambda>seed_b.
     Option.bind (get_str fs ''opener'') (\<lambda>opener.
     Option.bind (get_int fs ''turns_consumed'') (\<lambda>consumed.
     Option.bind (get_str fs ''reply_style'') (\<lambda>style.
       Some \<lparr>conv_id = cid, conv_schema_version = version, conv_created_at = created,
         conv_ended_at = ended, conv_status = status, conv_max_turns = max_turns,
         conv_per_turn_timeout = per_turn, conv_overall_timeout = overall, conv_terminator = term,
         conv_peers = peers, conv_seeds = seeds, conv_opener_id = opener_id, conv_peer_a = peer_a,
         conv_peer_b = peer_b, conv_seed_a = seed_a, conv_seed_b = seed_b, conv_opener = opener,
         conv_turns_consumed = consumed, conv_reply_style = style\<rparr>))))))))))))))))))))"

definition valid_peer_spec :: "peer_spec \<Rightarrow> peer_spec" where
  "valid_peer_spec p = \<lparr>ps_uri = to_valid_utf8 (ps_uri p), ps_options = valid_map (ps_options p)\<rparr>"

definition valid_participant :: "peer_participant \<Rightarrow> peer_participant" where
  "valid_participant p = \<lparr>part_id = to_valid_utf8 (part_id p), part_spec = valid_peer_spec (part_spec p)\<rparr>"

definition valid_terminator :: "terminator_spec \<Rightarrow> terminator_spec" where
  "valid_terminator t = \<lparr>term_kind = to_valid_utf8 (term_kind t), term_sentinel = to_valid_utf8 (term_sentinel t),
     term_judge_uri = to_valid_utf8 (term_judge_uri t)\<rparr>"

definition valid_conversation :: "conversation \<Rightarrow> conversation" where
  "valid_conversation c =
     c\<lparr>conv_id := to_valid_utf8 (conv_id c), conv_status := to_valid_utf8 (conv_status c),
       conv_terminator := valid_terminator (conv_terminator c),
       conv_peers := map valid_participant (conv_peers c), conv_seeds := valid_map (conv_seeds c),
       conv_opener_id := to_valid_utf8 (conv_opener_id c), conv_peer_a := valid_peer_spec (conv_peer_a c),
       conv_peer_b := valid_peer_spec (conv_peer_b c), conv_seed_a := to_valid_utf8 (conv_seed_a c),
       conv_seed_b := to_valid_utf8 (conv_seed_b c), conv_opener := to_valid_utf8 (conv_opener c),
       conv_reply_style := to_valid_utf8 (conv_reply_style c)\<rparr>"

lemma peer_spec_roundtrip_json: "json_peer_spec (peer_spec_json p) = Some (valid_peer_spec p)"
proof -
  have "get_map ((''uri'', jstr (ps_uri p)) # omit_map ''options'' (ps_options p)) ''options'' =
      Some (valid_map (ps_options p))"
    by (cases "ps_options p = []") (simp_all add: get_map_json map_of_omit_store, simp add: get_map_def omit_map_def)
  then show ?thesis
    by (simp add: json_peer_spec_def peer_spec_json_def valid_peer_spec_def get_str_def jstr_def)
qed

lemma participant_roundtrip_json: "json_participant (participant_json p) = Some (valid_participant p)"
  by (simp add: json_participant_def participant_json_def valid_participant_def get_str_def get_obj_def
      jstr_def peer_spec_roundtrip_json)

lemma terminator_roundtrip_json: "json_terminator (terminator_json t) = Some (valid_terminator t)"
  by (auto simp: json_terminator_def terminator_json_def valid_terminator_def get_str_def jstr_def omit_str_def)

lemma those_participants: "those (map (\<lambda>p. json_participant (participant_json p)) ps) = Some (map valid_participant ps)"
  by (induction ps) (simp_all add: participant_roundtrip_json)

lemma conversation_field_values:
  "get_str (conversation_fields c) ''conversation_id'' = Some (to_valid_utf8 (conv_id c))"
  "get_int (conversation_fields c) ''schema_version'' = Some (conv_schema_version c)"
  "get_time (conversation_fields c) ''created_at'' = Some (conv_created_at c)"
  "get_opt un_time (conversation_fields c) ''ended_at'' = Some (conv_ended_at c)"
  "get_str (conversation_fields c) ''status'' = Some (to_valid_utf8 (conv_status c))"
  "get_int (conversation_fields c) ''max_turns'' = Some (conv_max_turns c)"
  "get_int (conversation_fields c) ''per_turn_timeout_sec'' = Some (conv_per_turn_timeout c)"
  "get_int (conversation_fields c) ''overall_timeout_sec'' = Some (conv_overall_timeout c)"
  "get_obj json_terminator (conversation_fields c) ''terminator'' = Some (valid_terminator (conv_terminator c))"
  "get_list json_participant (conversation_fields c) ''peers'' = Some (map valid_participant (conv_peers c))"
  "get_map (conversation_fields c) ''seeds'' = Some (valid_map (conv_seeds c))"
  "get_str (conversation_fields c) ''opener_id'' = Some (to_valid_utf8 (conv_opener_id c))"
  "get_obj json_peer_spec (conversation_fields c) ''peer_a'' = Some (valid_peer_spec (conv_peer_a c))"
  "get_obj json_peer_spec (conversation_fields c) ''peer_b'' = Some (valid_peer_spec (conv_peer_b c))"
  "get_str (conversation_fields c) ''seed_a'' = Some (to_valid_utf8 (conv_seed_a c))"
  "get_str (conversation_fields c) ''seed_b'' = Some (to_valid_utf8 (conv_seed_b c))"
  "get_str (conversation_fields c) ''opener'' = Some (to_valid_utf8 (conv_opener c))"
  "get_int (conversation_fields c) ''turns_consumed'' = Some (conv_turns_consumed c)"
  "get_str (conversation_fields c) ''reply_style'' = Some (to_valid_utf8 (conv_reply_style c))"
proof -
  have seeds: "map_of (conversation_fields c) ''seeds'' =
      (if conv_seeds c = [] then None else Some (map_json (conv_seeds c)))"
    by (simp add: conversation_fields_def map_of_omit map_of_omit_store del: map_of_append)
  then show "get_map (conversation_fields c) ''seeds'' = Some (valid_map (conv_seeds c))"
    by (cases "conv_seeds c = []") (simp_all add: get_map_json, simp add: get_map_def)
qed (auto simp: conversation_fields_def map_of_omit map_of_omit_store get_defs get_opt_def get_obj_def get_list_def
      jstr_def terminator_roundtrip_json peer_spec_roundtrip_json those_participants comp_def
      simp del: map_of_append split: option.splits)

lemma conversation_roundtrip:
  "marshal_conversation c = Inr j \<Longrightarrow> unmarshal_conversation j = Some (valid_conversation c)"
  by (cases c) (auto simp: marshal_conversation_def unmarshal_conversation_def conversation_field_values
      valid_conversation_def split: if_splits)

end
