(* ===== verification/GoPath.thy ===== *)
theory GoPath
  imports GoText
begin

text \<open>
  The lexical path operations of Go's \<open>path/filepath\<close> on Unix that the program uses: \<open>Clean\<close>,
  \<open>Join\<close> and \<open>Ext\<close>.
\<close>

abbreviation slash :: char where "slash \<equiv> CHR 0x2F"

text \<open>One element of a path on the reversed stack of the elements kept so far.\<close>

definition clean_step :: "bool \<Rightarrow> string \<Rightarrow> string list \<Rightarrow> string list" where
  "clean_step rooted e out =
     (if e = [] \<or> e = ''.'' then out
      else if e = ''..'' then
        (case out of
           [] \<Rightarrow> if rooted then [] else [''..'']
         | x # xs \<Rightarrow> if x = ''..'' then ''..'' # out else xs)
      else e # out)"

definition path_rooted :: "string \<Rightarrow> bool" where
  "path_rooted p \<longleftrightarrow> p \<noteq> [] \<and> hd p = slash"

definition clean_elems :: "string \<Rightarrow> string list" where
  "clean_elems p = rev (fold (clean_step (path_rooted p)) (split_char slash p) [])"

definition path_clean :: "string \<Rightarrow> string" where
  "path_clean p =
     (let body = str_join [slash] (clean_elems p)
      in if path_rooted p then slash # body else if body = [] then ''.'' else body)"

definition path_join :: "string list \<Rightarrow> string" where
  "path_join ps =
     (let es = filter (\<lambda>e. e \<noteq> []) ps in if es = [] then [] else path_clean (str_join [slash] es))"

text \<open>The extension: from the last dot of the last element on.\<close>

definition path_ext :: "string \<Rightarrow> string" where
  "path_ext p =
     (let tail = takeWhile (\<lambda>c. c \<noteq> slash \<and> c \<noteq> CHR ''.'') (rev p)
      in if length tail < length p \<and> rev p ! length tail = CHR ''.'' then CHR ''.'' # rev tail else [])"

section \<open>Cleaned paths\<close>

text \<open>An element of a cleaned path is neither empty nor a dot; dot-dots come first, and only in relative paths.\<close>

definition clean_stack :: "bool \<Rightarrow> string list \<Rightarrow> bool" where
  "clean_stack rooted out \<longleftrightarrow> (\<exists>names k. out = names @ replicate k ''..'' \<and> (rooted \<longrightarrow> k = 0) \<and>
     list_all (\<lambda>e. e \<noteq> [] \<and> e \<noteq> ''.'' \<and> e \<noteq> ''..'' \<and> slash \<notin> set e) names)"

lemma clean_stack_step:
  assumes "clean_stack rooted out" and "slash \<notin> set e"
  shows "clean_stack rooted (clean_step rooted e out)"
proof -
  obtain names k where out: "out = names @ replicate k ''..''" and k: "rooted \<longrightarrow> k = 0"
    and n: "list_all (\<lambda>e. e \<noteq> [] \<and> e \<noteq> ''.'' \<and> e \<noteq> ''..'' \<and> slash \<notin> set e) names"
    using assms(1) by (auto simp: clean_stack_def)
  consider "e = [] \<or> e = ''.''" | "e = ''..''" | "e \<noteq> []" "e \<noteq> ''.''" "e \<noteq> ''..''" by blast
  then show ?thesis
  proof cases
    case 1
    with assms(1) show ?thesis by (auto simp: clean_step_def)
  next
    case 2
    show ?thesis
    proof (cases names)
      case Nil
      show ?thesis
      proof (cases k)
        case 0
        with 2 Nil out have "clean_step rooted e out = [] @ replicate (if rooted then 0 else 1) ''..''"
          by (simp add: clean_step_def)
        then show ?thesis unfolding clean_stack_def
          by (intro exI [of _ "[]"] exI [of _ "if rooted then 0 else 1"]) auto
      next
        case (Suc j)
        with 2 Nil out k have "clean_step rooted e out = [] @ replicate (Suc (Suc j)) ''..''" "\<not> rooted"
          by (auto simp: clean_step_def)
        then show ?thesis unfolding clean_stack_def
          by (intro exI [of _ "[]"] exI [of _ "Suc (Suc j)"]) auto
      qed
    next
      case (Cons x xs)
      with 2 out n have "clean_step rooted e out = xs @ replicate k ''..''"
        by (simp add: clean_step_def)
      with Cons n k show ?thesis unfolding clean_stack_def by auto
    qed
  next
    case 3
    with out have "clean_step rooted e out = (e # names) @ replicate k ''..''"
      by (simp add: clean_step_def)
    with 3 n k assms(2) show ?thesis unfolding clean_stack_def
      by (intro exI [of _ "e # names"] exI [of _ k]) auto
  qed
qed

lemma clean_stack_fold:
  "clean_stack rooted out \<Longrightarrow> \<forall>e \<in> set es. slash \<notin> set e \<Longrightarrow> clean_stack rooted (fold (clean_step rooted) es out)"
  by (induction es arbitrary: out) (simp_all add: clean_stack_step)

lemma clean_elems_stack: "clean_stack (path_rooted p) (rev (clean_elems p))"
  unfolding clean_elems_def rev_rev_ident
  by (rule clean_stack_fold) (auto simp: clean_stack_def dest: split_char_pieces)

lemma clean_rooted_no_dotdot:
  assumes "path_rooted p"
  shows "''..'' \<notin> set (clean_elems p)"
proof -
  obtain names k where n: "rev (clean_elems p) = names @ replicate k ''..''" "k = 0"
    "list_all (\<lambda>e. e \<noteq> [] \<and> e \<noteq> ''.'' \<and> e \<noteq> ''..'' \<and> slash \<notin> set e) names"
    using clean_elems_stack [of p] assms unfolding clean_stack_def by blast
  then have "''..'' \<notin> set (rev (clean_elems p))" by (auto simp: list_all_iff)
  then show ?thesis by simp
qed

text \<open>Cleaning a cleaned path changes nothing.\<close>

lemma fold_clean_stack: "clean_stack rooted (rev es) \<Longrightarrow> fold (clean_step rooted) es [] = rev es"
proof (induction es rule: rev_induct)
  case (snoc e es)
  obtain names k where n: "e # rev es = names @ replicate k ''..''" "rooted \<longrightarrow> k = 0"
    "list_all (\<lambda>e. e \<noteq> [] \<and> e \<noteq> ''.'' \<and> e \<noteq> ''..'' \<and> slash \<notin> set e) names"
    using snoc.prems by (auto simp: clean_stack_def)
  show ?case
  proof (cases names)
    case Nil
    with n obtain j where k: "k = Suc j" "e = ''..''" "rev es = replicate j ''..''" "\<not> rooted" by (cases k) auto
    then have "clean_stack rooted (rev es)"
      unfolding clean_stack_def by (intro exI [of _ "[]"] exI [of _ j]) simp
    with snoc.IH k show ?thesis by (cases j) (simp_all add: clean_step_def)
  next
    case (Cons x xs)
    with n have "clean_stack rooted (rev es)" "e = x" "e \<noteq> []" "e \<noteq> ''.''" "e \<noteq> ''..''"
      by (auto simp: clean_stack_def)
    with snoc.IH show ?thesis by (simp add: clean_step_def)
  qed
qed simp

lemma clean_elems_no_slash:
  assumes "e \<in> set (clean_elems p)"
  shows "slash \<notin> set e \<and> e \<noteq> []"
proof -
  obtain names k where n: "rev (clean_elems p) = names @ replicate k ''..''"
    "list_all (\<lambda>e. e \<noteq> [] \<and> e \<noteq> ''.'' \<and> e \<noteq> ''..'' \<and> slash \<notin> set e) names"
    using clean_elems_stack [of p] unfolding clean_stack_def by blast
  have "e \<in> set (rev (clean_elems p))" using assms by (simp only: set_rev)
  then have "e \<in> set names \<or> e \<in> set (replicate k ''..'')" unfolding n(1) set_append by blast
  moreover have "e = ''..''" if "e \<in> set (replicate k ''..'')" using that by (simp only: in_set_replicate)
  ultimately show ?thesis using n(2) unfolding list_all_iff by (elim disjE) (blast, simp)
qed

lemma clean_elems_join:
  assumes "\<forall>e \<in> set es. slash \<notin> set e \<and> e \<noteq> []"
  shows "clean_stack True (rev es) \<Longrightarrow> clean_elems (slash # str_join [slash] es) = es"
    and "clean_stack False (rev es) \<Longrightarrow> es \<noteq> [] \<Longrightarrow>
      str_join [slash] es \<noteq> [] \<and> clean_elems (str_join [slash] es) = es"
proof -
  have join: "split_char slash (str_join [slash] es) = es" if "es \<noteq> []"
    using split_str_join [OF that] assms by blast
  have skip: "clean_step r [] out = out" for r out by (simp add: clean_step_def)
  show "clean_elems (slash # str_join [slash] es) = es" if "clean_stack True (rev es)"
  proof (cases "es = []")
    case True
    then show ?thesis by (simp add: clean_elems_def skip)
  next
    case False
    then show ?thesis
      unfolding clean_elems_def by (simp add: join path_rooted_def skip fold_clean_stack [OF that])
  qed
  assume stack: "clean_stack False (rev es)" and ne: "es \<noteq> []"
  obtain c e ys where es: "es = (c # e) # ys" "c \<noteq> slash" using assms ne by (metis list.exhaust list.set_intros(1))
  have head: "\<exists>rest. str_join [slash] es = c # rest" unfolding es(1) by (cases ys) simp_all
  then have "str_join [slash] es \<noteq> []" "\<not> path_rooted (str_join [slash] es)"
    using es(2) by (auto simp: path_rooted_def)
  then show "str_join [slash] es \<noteq> [] \<and> clean_elems (str_join [slash] es) = es"
    unfolding clean_elems_def by (simp add: join [OF ne] fold_clean_stack [OF stack])
qed

lemma clean_elems_path_clean: "clean_elems (path_clean p) = clean_elems p"
proof -
  define es where "es = clean_elems p"
  have stack: "clean_stack (path_rooted p) (rev es)" unfolding es_def by (rule clean_elems_stack)
  have es: "\<forall>e \<in> set es. slash \<notin> set e \<and> e \<noteq> []" unfolding es_def using clean_elems_no_slash by blast
  have clean: "path_clean p = (if path_rooted p then slash # str_join [slash] es
      else if str_join [slash] es = [] then ''.'' else str_join [slash] es)"
    unfolding path_clean_def Let_def es_def by (rule refl)
  have "clean_elems (path_clean p) = es"
  proof (cases "path_rooted p")
    case True
    with clean_elems_join(1) [OF es] stack show ?thesis unfolding clean by simp
  next
    case False
    show ?thesis
    proof (cases "es = []")
      case True
      with False show ?thesis unfolding clean by (simp add: clean_elems_def clean_step_def)
    next
      case ne: False
      with clean_elems_join(2) [OF es _ ne] stack False show ?thesis unfolding clean by simp
    qed
  qed
  then show ?thesis unfolding es_def .
qed

lemma path_rooted_path_clean: "path_rooted (path_clean p) = path_rooted p"
proof (cases "path_rooted p")
  case True
  then show ?thesis by (simp add: path_clean_def Let_def path_rooted_def)
next
  case False
  show ?thesis
  proof (cases "clean_elems p")
    case Nil
    with False show ?thesis by (simp add: path_clean_def Let_def path_rooted_def)
  next
    case (Cons e es)
    then have "slash \<notin> set e" "e \<noteq> []" using clean_elems_no_slash [of e p] by simp_all
    then obtain c cs where e: "e = c # cs" "c \<noteq> slash" by (cases e) auto
    have "\<exists>rest. str_join [slash] (clean_elems p) = c # rest" unfolding Cons e(1) by (cases es) simp_all
    with False e(2) show ?thesis by (auto simp: path_clean_def Let_def path_rooted_def)
  qed
qed

end
