(* ===== verification/FileStore.thy ===== *)
theory FileStore
  imports StoreWire GoPath "HOL-Library.Multiset"
begin

text \<open>
  The file store, \<open>src/internal/store/file/file_store.go\<close> and \<open>file_store_list.go\<close>: JSON documents
  and JSON-lines files below a root directory.  A file holds a document or a list of lines; a
  line is a JSON tree (or none, when its text is not JSON) and the length of its text in bytes,
  which the scanner limits; \<open>text_len\<close> is the length of the text that \<open>json.Marshal\<close> writes for a
  tree whose strings are not yet made valid (theory \<open>JsonText\<close> has that text).  Every
  call that may fail asks the record of faults whether the operating system makes it fail.  The
  store's mutex makes each operation atomic, so an operation is a function on the file system.
\<close>

section \<open>Files and faults\<close>

datatype fcontent =
    Doc "json option"
  | Lines "(json option \<times> nat) list"

record file_sys =
  fs_dirs :: "string list"
  fs_files :: "(string \<times> fcontent) list"

record os_faults =
  of_mkdir :: "string \<Rightarrow> go_error option"
  of_write :: "string \<Rightarrow> go_error option"
  of_rename :: "string \<Rightarrow> go_error option"
  of_open :: "string \<Rightarrow> go_error option"
  of_append :: "string \<Rightarrow> go_error option"
  of_read :: "string \<Rightarrow> go_error option"

definition no_faults :: os_faults where
  "no_faults = \<lparr>of_mkdir = (\<lambda>_. None), of_write = (\<lambda>_. None), of_rename = (\<lambda>_. None),
     of_open = (\<lambda>_. None), of_append = (\<lambda>_. None), of_read = (\<lambda>_. None)\<rparr>"

definition fs_lookup :: "file_sys \<Rightarrow> string \<Rightarrow> fcontent option" where
  "fs_lookup fs p = map_of (fs_files fs) p"

definition fs_put :: "string \<Rightarrow> fcontent \<Rightarrow> file_sys \<Rightarrow> file_sys" where
  "fs_put p c fs = fs\<lparr>fs_files := map_put p c (fs_files fs)\<rparr>"

definition fs_remove :: "string \<Rightarrow> file_sys \<Rightarrow> file_sys" where
  "fs_remove p fs = fs\<lparr>fs_files := filter (\<lambda>(q, c). q \<noteq> p) (fs_files fs)\<rparr>"

definition fs_mkdir :: "string \<Rightarrow> file_sys \<Rightarrow> file_sys" where
  "fs_mkdir d fs = (if d \<in> set (fs_dirs fs) then fs else fs\<lparr>fs_dirs := fs_dirs fs @ [d]\<rparr>)"

fun as_doc :: "fcontent \<Rightarrow> json option" where
  "as_doc (Doc j) = j"
| "as_doc (Lines ls) = None"

fun as_lines :: "fcontent \<Rightarrow> (json option \<times> nat) list" where
  "as_lines (Lines ls) = ls"
| "as_lines (Doc j) = [(None, 0)]"

lemma fs_lookup_simps [simp, store_simps]:
  "fs_lookup (fs_put p c fs) q = (if q = p then Some c else fs_lookup fs q)"
  "fs_lookup (fs_remove p fs) q = (if q = p then None else fs_lookup fs q)"
  "fs_lookup (fs_mkdir d fs) q = fs_lookup fs q"
proof -
  have "map_of (filter (\<lambda>(q, c). q \<noteq> p) xs) q = (if q = p then None else map_of xs q)" for xs :: "(string \<times> fcontent) list"
    by (induction xs) auto
  then show "fs_lookup (fs_remove p fs) q = (if q = p then None else fs_lookup fs q)"
    by (simp add: fs_lookup_def fs_remove_def)
qed (simp_all add: fs_lookup_def fs_put_def fs_mkdir_def map_of_map_put)

section \<open>Paths\<close>

record file_store =
  st_root :: string
  st_debug_raw :: bool

definition sessions_dir :: "file_store \<Rightarrow> string" where
  "sessions_dir s = path_join [st_root s, ''sessions'']"

definition turns_dir :: "file_store \<Rightarrow> string" where
  "turns_dir s = path_join [st_root s, ''turns'']"

definition raw_dir :: "file_store \<Rightarrow> string" where
  "raw_dir s = path_join [st_root s, ''raw'']"

definition conversations_dir :: "file_store \<Rightarrow> string" where
  "conversations_dir s = path_join [st_root s, ''conversations'']"

definition session_path :: "file_store \<Rightarrow> string \<Rightarrow> string" where
  "session_path s i = path_join [sessions_dir s, i @ ''.json'']"

definition turn_path :: "file_store \<Rightarrow> string \<Rightarrow> string" where
  "turn_path s i = path_join [turns_dir s, i @ ''.jsonl'']"

definition raw_path :: "file_store \<Rightarrow> string \<Rightarrow> string" where
  "raw_path s i = path_join [raw_dir s, i @ ''.jsonl'']"

definition conversation_path :: "file_store \<Rightarrow> string \<Rightarrow> string" where
  "conversation_path s i = path_join [conversations_dir s, i @ ''.json'']"

definition conversation_turn_path :: "file_store \<Rightarrow> string \<Rightarrow> string" where
  "conversation_turn_path s i = path_join [conversations_dir s, i @ ''.jsonl'']"

section \<open>Reading and writing files\<close>

text \<open>The text of a decoding error is not modelled.\<close>

definition json_decode_error :: go_error where
  "json_decode_error = ErrMsg ''invalid JSON''"

definition not_exist_error :: go_error where
  "not_exist_error = ErrMsg ''no such file or directory''"

text \<open>A failed rename removes the temporary file; after a successful one it no longer exists.\<close>

definition write_json_atomic ::
    "os_faults \<Rightarrow> string \<Rightarrow> json result \<Rightarrow> file_sys \<Rightarrow> go_error option \<times> file_sys" where
  "write_json_atomic faults path value fs =
     (let tmp = path @ ''.tmp'' in
      case value of
        Inl e \<Rightarrow> (Some (ErrWrap ''marshal json: '' e), fs)
      | Inr j \<Rightarrow>
         (case of_write faults tmp of
            Some e \<Rightarrow> (Some (ErrWrap ''write temp file: '' e), fs_put tmp (Doc None) fs)
          | None \<Rightarrow>
             (case of_rename faults tmp of
                Some e \<Rightarrow> (Some (ErrWrap ''rename temp file: '' e), fs_remove tmp (fs_put tmp (Doc (Some j)) fs))
              | None \<Rightarrow> (None, fs_remove tmp (fs_put path (Doc (Some j)) (fs_put tmp (Doc (Some j)) fs))))))"

definition read_file :: "os_faults \<Rightarrow> string \<Rightarrow> file_sys \<Rightarrow> fcontent result" where
  "read_file faults path fs =
     (case fs_lookup fs path of
        None \<Rightarrow> Inl not_exist_error
      | Some c \<Rightarrow> (case of_read faults path of Some e \<Rightarrow> Inl e | None \<Rightarrow> Inr c))"

definition read_json :: "os_faults \<Rightarrow> (json \<Rightarrow> 'a option) \<Rightarrow> string \<Rightarrow> file_sys \<Rightarrow> 'a result" where
  "read_json faults decode path fs =
     (case read_file faults path fs of
        Inl e \<Rightarrow> Inl (ErrWrap ''read json: '' e)
      | Inr c \<Rightarrow> (case Option.bind (as_doc c) decode of
          None \<Rightarrow> Inl (ErrWrap ''unmarshal json: '' json_decode_error)
        | Some x \<Rightarrow> Inr x))"

text \<open>The file is created before the value is encoded; \<open>len\<close> is the length of the encoded line.\<close>

definition append_jsonl ::
    "os_faults \<Rightarrow> nat \<Rightarrow> string \<Rightarrow> json result \<Rightarrow> file_sys \<Rightarrow> go_error option \<times> file_sys" where
  "append_jsonl faults len path value fs =
     (case of_open faults path of
        Some e \<Rightarrow> (Some (ErrWrap ''open jsonl: '' e), fs)
      | None \<Rightarrow>
         (let old = (case fs_lookup fs path of None \<Rightarrow> [] | Some c \<Rightarrow> as_lines c);
              fs1 = (if fs_lookup fs path = None then fs_put path (Lines []) fs else fs)
          in case value of
               Inl e \<Rightarrow> (Some (ErrWrap ''marshal jsonl: '' e), fs1)
             | Inr j \<Rightarrow>
                (case of_append faults path of
                   Some e \<Rightarrow> (Some (ErrWrap ''append jsonl: '' e), fs1)
                 | None \<Rightarrow> (None, fs_put path (Lines (old @ [(Some j, len)])) fs1))))"

text \<open>
  The scanner loop: a line is read if it is shorter than the limit, and decoded before the
  next one is looked at.
\<close>

fun scan_lines ::
    "nat \<Rightarrow> string \<Rightarrow> (json \<Rightarrow> 'a option) \<Rightarrow> (json option \<times> nat) list \<Rightarrow> 'a list result" where
  "scan_lines limit what decode [] = Inr []"
| "scan_lines limit what decode ((j, n) # ls) =
     (if n \<ge> limit then Inl (ErrWrap (''scan '' @ what @ ''s: '') (ErrMsg ''bufio.Scanner: token too long''))
      else case Option.bind j decode of
          None \<Rightarrow> Inl (ErrWrap (''decode '' @ what @ '': '') json_decode_error)
        | Some x \<Rightarrow> (case scan_lines limit what decode ls of Inl e \<Rightarrow> Inl e | Inr xs \<Rightarrow> Inr (x # xs)))"

text \<open>
  Both peek operations: a missing file has no turns; \<open>srt\<close> is \<open>sort.Slice\<close> on an integer key.
\<close>

definition peek_lines ::
    "os_faults \<Rightarrow> (('a \<Rightarrow> int) \<Rightarrow> 'a list \<Rightarrow> 'a list) \<Rightarrow> nat \<Rightarrow> string \<Rightarrow> (json \<Rightarrow> 'a option) \<Rightarrow> ('a \<Rightarrow> int)
      \<Rightarrow> string \<Rightarrow> int \<Rightarrow> file_sys \<Rightarrow> 'a list result" where
  "peek_lines faults srt limit what decode key path n fs =
     (case fs_lookup fs path of
        None \<Rightarrow> Inr []
      | Some c \<Rightarrow>
         (case of_open faults path of
            Some e \<Rightarrow> Inl (ErrWrap (''open '' @ what @ ''s: '') e)
          | None \<Rightarrow>
             (case scan_lines limit what decode (as_lines c) of
                Inl e \<Rightarrow> Inl e
              | Inr xs \<Rightarrow> Inr (last_n n (srt key xs)))))"

section \<open>Operations\<close>

definition mkdir_all :: "os_faults \<Rightarrow> string \<Rightarrow> file_sys \<Rightarrow> go_error option \<times> file_sys" where
  "mkdir_all faults d fs = (case of_mkdir faults d of Some e \<Rightarrow> (Some e, fs) | None \<Rightarrow> (None, fs_mkdir d fs))"

fun mkdir_each :: "os_faults \<Rightarrow> string list \<Rightarrow> file_sys \<Rightarrow> go_error option \<times> file_sys" where
  "mkdir_each faults [] fs = (None, fs)"
| "mkdir_each faults (d # ds) fs =
     (case mkdir_all faults d fs of
        (Some e, fs') \<Rightarrow> (Some (ErrWrap (''mkdir '' @ d @ '': '') e), fs')
      | (None, fs') \<Rightarrow> mkdir_each faults ds fs')"

definition new_store :: "os_faults \<Rightarrow> string \<Rightarrow> bool \<Rightarrow> file_sys \<Rightarrow> file_store result \<times> file_sys" where
  "new_store faults root debug_raw fs =
     (if root = [] then (Inl (ErrMsg ''missing log path''), fs)
      else let s = \<lparr>st_root = root, st_debug_raw = debug_raw\<rparr> in
        case mkdir_each faults [sessions_dir s, turns_dir s, raw_dir s] fs of
          (Some e, fs') \<Rightarrow> (Inl e, fs')
        | (None, fs') \<Rightarrow> (Inr s, fs'))"

definition create_session :: "os_faults \<Rightarrow> file_store \<Rightarrow> session \<Rightarrow> file_sys \<Rightarrow> go_error option \<times> file_sys" where
  "create_session faults s ses fs = write_json_atomic faults (session_path s (ses_id ses)) (marshal_session ses) fs"

definition patch_opt :: "'a option \<Rightarrow> 'a option \<Rightarrow> 'a option" where
  "patch_opt new old = (case new of None \<Rightarrow> old | Some x \<Rightarrow> Some x)"

definition patch_val :: "'a option \<Rightarrow> 'a \<Rightarrow> 'a" where
  "patch_val new old = (case new of None \<Rightarrow> old | Some x \<Rightarrow> x)"

definition apply_session_patch :: "session_patch \<Rightarrow> session \<Rightarrow> session" where
  "apply_session_patch p s =
     s\<lparr>ses_status := patch_val (sp_status p) (ses_status s),
       ses_ended_at := patch_opt (sp_ended_at p) (ses_ended_at s),
       ses_duration_ms := patch_opt (sp_duration_ms p) (ses_duration_ms s),
       ses_exit_code := patch_opt (sp_exit_code p) (ses_exit_code s),
       ses_parser_confidence := patch_opt (sp_parser_confidence p) (ses_parser_confidence s),
       ses_observation_confidence := patch_opt (sp_observation_confidence p) (ses_observation_confidence s),
       ses_auth_mode := patch_val (sp_auth_mode p) (ses_auth_mode s),
       ses_blocked_reason := patch_opt (sp_blocked_reason p) (ses_blocked_reason s),
       ses_bytes_captured := patch_opt (sp_bytes_captured p) (ses_bytes_captured s),
       ses_warnings := patch_val (sp_warnings p) (ses_warnings s),
       ses_terminal_cols := patch_opt (sp_terminal_cols p) (ses_terminal_cols s),
       ses_terminal_rows := patch_opt (sp_terminal_rows p) (ses_terminal_rows s)\<rparr>"

definition update_session ::
    "os_faults \<Rightarrow> file_store \<Rightarrow> string \<Rightarrow> session_patch \<Rightarrow> file_sys \<Rightarrow> go_error option \<times> file_sys" where
  "update_session faults s sid patch fs =
     (case read_json faults unmarshal_session (session_path s sid) fs of
        Inl e \<Rightarrow> (Some e, fs)
      | Inr ses \<Rightarrow> write_json_atomic faults (session_path s sid) (marshal_session (apply_session_patch patch ses)) fs)"

definition append_turn ::
    "os_faults \<Rightarrow> (json \<Rightarrow> nat) \<Rightarrow> file_store \<Rightarrow> turn \<Rightarrow> file_sys \<Rightarrow> go_error option \<times> file_sys" where
  "append_turn faults text_len s t fs =
     append_jsonl faults (text_len (JObj (raw_session_turn_fields t))) (turn_path s (tn_session_id t))
       (marshal_session_turn t) fs"

definition max_scan_token_size :: nat where "max_scan_token_size = 65536"

definition peek_turns ::
    "os_faults \<Rightarrow> ((turn \<Rightarrow> int) \<Rightarrow> turn list \<Rightarrow> turn list) \<Rightarrow> file_store \<Rightarrow> string \<Rightarrow> int \<Rightarrow> file_sys
      \<Rightarrow> turn list result" where
  "peek_turns faults srt s sid n fs =
     peek_lines faults srt max_scan_token_size ''turn'' unmarshal_session_turn tn_index (turn_path s sid) n fs"

text \<open>Base64 with padding.\<close>

definition base64_char :: "nat \<Rightarrow> char" where
  "base64_char n = ''ABCDEFGHIJKLMNOPQRSTUVWXYZabcdefghijklmnopqrstuvwxyz0123456789+/'' ! n"

fun base64_encode :: "string \<Rightarrow> string" where
  "base64_encode [] = []"
| "base64_encode [a] =
     [base64_char (byte a div 4), base64_char (byte a mod 4 * 16), CHR ''='', CHR ''='']"
| "base64_encode [a, b] =
     [base64_char (byte a div 4), base64_char (byte a mod 4 * 16 + byte b div 16),
      base64_char (byte b mod 16 * 4), CHR ''='']"
| "base64_encode (a # b # c # s) =
     [base64_char (byte a div 4), base64_char (byte a mod 4 * 16 + byte b div 16),
      base64_char (byte b mod 16 * 4 + byte c div 64), base64_char (byte c mod 64)] @ base64_encode s"

fun stream_event_kind_str :: "stream_event_kind \<Rightarrow> string" where
  "stream_event_kind_str StreamEventInput = ''stdin''"
| "stream_event_kind_str StreamEventOutput = ''pty''"

definition raw_entry :: "stored_stream_event \<Rightarrow> json" where
  "raw_entry ev = JObj [(''session_id'', jstr (sse_session_id ev)), (''timestamp'', JTime (sse_timestamp ev)),
     (''kind'', jstr (stream_event_kind_str (sse_kind ev))), (''data_base64'', jstr (base64_encode (sse_data ev)))]"

definition append_stream_event ::
    "os_faults \<Rightarrow> (json \<Rightarrow> nat) \<Rightarrow> file_store \<Rightarrow> stored_stream_event \<Rightarrow> file_sys \<Rightarrow> go_error option \<times> file_sys" where
  "append_stream_event faults text_len s ev fs =
     (if \<not> st_debug_raw s then (None, fs)
      else append_jsonl faults (text_len (raw_entry ev)) (raw_path s (sse_session_id ev)) (Inr (raw_entry ev)) fs)"

definition stamp_schema_version :: "conversation \<Rightarrow> conversation" where
  "stamp_schema_version c =
     (if conv_schema_version c \<noteq> 0 then c
      else if conv_peers c \<noteq> [] \<or> conv_seeds c \<noteq> [] \<or> conv_opener_id c \<noteq> []
      then c\<lparr>conv_schema_version := 2\<rparr> else c)"

definition create_conversation ::
    "os_faults \<Rightarrow> file_store \<Rightarrow> conversation \<Rightarrow> file_sys \<Rightarrow> go_error option \<times> file_sys" where
  "create_conversation faults s conv fs =
     (case mkdir_all faults (conversations_dir s) fs of
        (Some e, fs') \<Rightarrow> (Some (ErrWrap ''mkdir conversations: '' e), fs')
      | (None, fs') \<Rightarrow> write_json_atomic faults (conversation_path s (conv_id conv))
          (marshal_conversation (stamp_schema_version conv)) fs')"

definition apply_conversation_patch :: "conversation_patch \<Rightarrow> conversation \<Rightarrow> conversation" where
  "apply_conversation_patch p c =
     c\<lparr>conv_status := patch_val (cp_status p) (conv_status c),
       conv_ended_at := patch_opt (cp_ended_at p) (conv_ended_at c),
       conv_turns_consumed := patch_val (cp_turns_consumed p) (conv_turns_consumed c)\<rparr>"

definition update_conversation ::
    "os_faults \<Rightarrow> file_store \<Rightarrow> string \<Rightarrow> conversation_patch \<Rightarrow> file_sys \<Rightarrow> go_error option \<times> file_sys" where
  "update_conversation faults s cid patch fs =
     (case read_json faults unmarshal_conversation (conversation_path s cid) fs of
        Inl e \<Rightarrow> (Some e, fs)
      | Inr c \<Rightarrow> write_json_atomic faults (conversation_path s cid)
          (marshal_conversation (apply_conversation_patch patch c)) fs)"

definition append_conversation_turn ::
    "os_faults \<Rightarrow> (json \<Rightarrow> nat) \<Rightarrow> file_store \<Rightarrow> conversation_turn \<Rightarrow> file_sys \<Rightarrow> go_error option \<times> file_sys" where
  "append_conversation_turn faults text_len s t fs =
     (case mkdir_all faults (conversations_dir s) fs of
        (Some e, fs') \<Rightarrow> (Some (ErrWrap ''mkdir conversations: '' e), fs')
      | (None, fs') \<Rightarrow> append_jsonl faults (text_len (JObj (raw_turn_fields t)))
          (conversation_turn_path s (ct_conversation_id t)) (marshal_turn t) fs')"

definition conversation_scan_limit :: nat where "conversation_scan_limit = 1048576"

definition peek_conversation_turns ::
    "os_faults \<Rightarrow> ((conversation_turn \<Rightarrow> int) \<Rightarrow> conversation_turn list \<Rightarrow> conversation_turn list)
      \<Rightarrow> file_store \<Rightarrow> string \<Rightarrow> int \<Rightarrow> file_sys \<Rightarrow> conversation_turn list result" where
  "peek_conversation_turns faults srt s cid n fs =
     peek_lines faults srt conversation_scan_limit ''conversation turn'' unmarshal_turn ct_index
       (conversation_turn_path s cid) n fs"

text \<open>Reading one document: a missing file is no document.\<close>

definition get_doc :: "os_faults \<Rightarrow> (json \<Rightarrow> 'a option) \<Rightarrow> string \<Rightarrow> file_sys \<Rightarrow> 'a option result" where
  "get_doc faults decode path fs =
     (case fs_lookup fs path of
        None \<Rightarrow> Inr None
      | Some c \<Rightarrow>
         (case of_read faults path of
            Some e \<Rightarrow> Inl e
          | None \<Rightarrow> (case Option.bind (as_doc c) decode of
              None \<Rightarrow> Inl json_decode_error | Some x \<Rightarrow> Inr (Some x))))"

definition get_session :: "os_faults \<Rightarrow> file_store \<Rightarrow> string \<Rightarrow> file_sys \<Rightarrow> session option result" where
  "get_session faults s sid fs = get_doc faults unmarshal_session (session_path s sid) fs"

definition get_conversation :: "os_faults \<Rightarrow> file_store \<Rightarrow> string \<Rightarrow> file_sys \<Rightarrow> conversation option result" where
  "get_conversation faults s cid fs = get_doc faults unmarshal_conversation (conversation_path s cid) fs"

section \<open>Listing\<close>

text \<open>The prefix that the paths of the files of a directory share.\<close>

definition path_prefix :: "string \<Rightarrow> string" where
  "path_prefix d = (if path_rooted d then [slash] else []) @ concat (map (\<lambda>e. e @ [slash]) (clean_elems d))"

text \<open>\<open>os.ReadDir\<close>: the names of the files of a directory, sorted.\<close>

definition read_dir :: "string \<Rightarrow> file_sys \<Rightarrow> string list" where
  "read_dir d fs =
     sort (map (drop (length (path_prefix d)))
       (filter (\<lambda>p. has_prefix p (path_prefix d) \<and> p \<noteq> path_prefix d \<and>
          slash \<notin> set (drop (length (path_prefix d)) p)) (map fst (fs_files fs))))"

definition list_docs ::
    "os_faults \<Rightarrow> (json \<Rightarrow> 'a option) \<Rightarrow> ('a \<Rightarrow> bool) \<Rightarrow> string \<Rightarrow> file_sys \<Rightarrow> 'a list" where
  "list_docs faults decode keep d fs =
     filter keep (List.map_filter (\<lambda>name.
       if path_ext name \<noteq> ''.json'' then None
       else case read_file faults (path_join [d, name]) fs of
           Inl e \<Rightarrow> None
         | Inr c \<Rightarrow> Option.bind (as_doc c) decode) (read_dir d fs))"

text \<open>The page of a sorted list: beyond the end nothing, a limit of zero or less means no limit.\<close>

definition page :: "int \<Rightarrow> int \<Rightarrow> 'a list \<Rightarrow> 'a list" where
  "page offset limit xs =
     (if offset \<ge> int (length xs) then []
      else let ys = (if offset > 0 then drop (nat offset) xs else xs)
           in if limit > 0 \<and> int (length ys) > limit then take (nat limit) ys else ys)"

definition list_page ::
    "os_faults \<Rightarrow> (('a \<Rightarrow> int) \<Rightarrow> 'a list \<Rightarrow> 'a list) \<Rightarrow> (json \<Rightarrow> 'a option) \<Rightarrow> ('a \<Rightarrow> bool) \<Rightarrow> ('a \<Rightarrow> int)
      \<Rightarrow> string \<Rightarrow> int \<Rightarrow> int \<Rightarrow> file_sys \<Rightarrow> ('a list \<times> int) result" where
  "list_page faults srt decode keep time d offset limit fs =
     (if d \<notin> set (fs_dirs fs) then Inr ([], 0)
      else case of_read faults d of
          Some e \<Rightarrow> Inl e
        | None \<Rightarrow>
           (let sorted = srt (\<lambda>x. - time x) (list_docs faults decode keep d fs)
            in Inr (page offset limit sorted, int (length sorted))))"

definition status_matches :: "string option \<Rightarrow> string \<Rightarrow> bool" where
  "status_matches want status \<longleftrightarrow> (case want of None \<Rightarrow> True | Some w \<Rightarrow> status = w)"

definition list_sessions ::
    "os_faults \<Rightarrow> ((session \<Rightarrow> int) \<Rightarrow> session list \<Rightarrow> session list) \<Rightarrow> file_store \<Rightarrow> session_filter
      \<Rightarrow> file_sys \<Rightarrow> (session list \<times> int) result" where
  "list_sessions faults srt s f fs =
     list_page faults srt unmarshal_session (\<lambda>x. status_matches (sf_status f) (ses_status x)) ses_started_at
       (sessions_dir s) (sf_offset f) (sf_limit f) fs"

definition list_conversations ::
    "os_faults \<Rightarrow> ((conversation \<Rightarrow> int) \<Rightarrow> conversation list \<Rightarrow> conversation list) \<Rightarrow> file_store
      \<Rightarrow> conversation_filter \<Rightarrow> file_sys \<Rightarrow> (conversation list \<times> int) result" where
  "list_conversations faults srt s f fs =
     list_page faults srt unmarshal_conversation (\<lambda>x. status_matches (cf_status f) (conv_status x)) conv_created_at
       (conversations_dir s) (cf_offset f) (cf_limit f) fs"

section \<open>Paths of different ids are different\<close>

definition plain_name :: "string \<Rightarrow> bool" where
  "plain_name e \<longleftrightarrow> e \<noteq> [] \<and> e \<noteq> ''.'' \<and> e \<noteq> ''..'' \<and> slash \<notin> set e"

lemma str_join_snoc: "str_join [c] (xs @ [x]) = concat (map (\<lambda>e. e @ [c]) xs) @ x"
proof (induction xs)
  case (Cons y ys)
  then show ?case by (cases "ys @ [x]") (auto simp: str_join_Cons)
qed simp

lemma path_join_name:
  assumes "d \<noteq> []" and "plain_name e"
  shows "path_join [d, e] = path_prefix d @ e"
proof -
  have e: "e \<noteq> []" "e \<noteq> ''.''" "e \<noteq> ''..''" "slash \<notin> set e" using assms(2) by (auto simp: plain_name_def)
  have j: "path_join [d, e] = path_clean (d @ slash # e)" using assms(1) e(1) by (simp add: path_join_def)
  have r: "path_rooted (d @ slash # e) = path_rooted d" using assms(1) by (simp add: path_rooted_def)
  have "clean_elems (d @ slash # e) = clean_elems d @ [e]"
    unfolding clean_elems_def r using e by (simp add: split_char_append split_char_no_sep clean_step_def)
  then have "str_join [slash] (clean_elems (d @ slash # e)) = concat (map (\<lambda>e. e @ [slash]) (clean_elems d)) @ e"
    by (simp add: str_join_snoc)
  with e(1) show ?thesis
    unfolding j path_clean_def Let_def r path_prefix_def by simp
qed

definition id_ok :: "string \<Rightarrow> bool" where
  "id_ok i \<longleftrightarrow> slash \<notin> set i"

lemma plain_name_json: "id_ok i \<Longrightarrow> plain_name (i @ ''.json'') \<and> plain_name (i @ ''.jsonl'')"
  by (auto simp: plain_name_def id_ok_def append_eq_Cons_conv)

lemma conversations_dir_nonempty: "conversations_dir s \<noteq> []"
proof (cases "st_root s = []")
  case True
  then show ?thesis by (simp add: conversations_dir_def path_join_def path_clean_def Let_def
        clean_elems_def clean_step_def path_rooted_def)
next
  case False
  then show ?thesis by (simp add: conversations_dir_def path_join_name plain_name_def)
qed

text \<open>The prefix of a subdirectory, and with it the paths of a session.\<close>

lemma clean_elems_subdir:
  assumes "plain_name e"
  shows "clean_elems (path_join [d, e]) = clean_elems d @ [e]" and "path_rooted (path_join [d, e]) = path_rooted d"
proof -
  have e: "e \<noteq> []" "e \<noteq> ''.''" "e \<noteq> ''..''" "slash \<notin> set e" using assms by (auto simp: plain_name_def)
  have j: "path_join [d, e] = path_clean (if d = [] then e else d @ slash # e)" using e(1) by (simp add: path_join_def)
  have r: "path_rooted (if d = [] then e else d @ slash # e) = path_rooted d"
    using e by (cases e) (auto simp: path_rooted_def)
  have "clean_elems (if d = [] then e else d @ slash # e) = clean_elems d @ [e]"
    unfolding clean_elems_def r using e
    by (auto simp: split_char_append split_char_no_sep clean_step_def)
  then show "clean_elems (path_join [d, e]) = clean_elems d @ [e]" unfolding j clean_elems_path_clean .
  show "path_rooted (path_join [d, e]) = path_rooted d" unfolding j path_rooted_path_clean r ..
qed

lemma path_prefix_subdir: "plain_name e \<Longrightarrow> path_prefix (path_join [d, e]) = path_prefix d @ e @ [slash]"
  by (simp add: path_prefix_def clean_elems_subdir)

lemma path_join_nonempty:
  assumes "plain_name e"
  shows "path_join [d, e] \<noteq> []"
proof
  assume "path_join [d, e] = []"
  with clean_elems_subdir(1) [OF assms, of d] have "clean_elems [] = clean_elems d @ [e]" by simp
  then show False by (simp add: clean_elems_def clean_step_def)
qed

lemma session_paths:
  assumes "id_ok i"
  shows "session_path s i = path_prefix (st_root s) @ ''sessions'' @ slash # i @ ''.json''"
    and "turn_path s i = path_prefix (st_root s) @ ''turns'' @ slash # i @ ''.jsonl''"
    and "raw_path s i = path_prefix (st_root s) @ ''raw'' @ slash # i @ ''.jsonl''"
proof -
  have n: "plain_name ''sessions''" "plain_name ''turns''" "plain_name ''raw''" by (simp_all add: plain_name_def)
  show "session_path s i = path_prefix (st_root s) @ ''sessions'' @ slash # i @ ''.json''"
    "turn_path s i = path_prefix (st_root s) @ ''turns'' @ slash # i @ ''.jsonl''"
    "raw_path s i = path_prefix (st_root s) @ ''raw'' @ slash # i @ ''.jsonl''"
    unfolding session_path_def turn_path_def raw_path_def sessions_dir_def turns_dir_def raw_dir_def
    using plain_name_json [OF assms] n by (simp_all add: path_join_name path_join_nonempty path_prefix_subdir)
qed

lemma session_path_id: "id_ok i \<Longrightarrow> session_path s i = path_prefix (sessions_dir s) @ i @ ''.json''"
  by (simp add: session_paths sessions_dir_def path_prefix_subdir plain_name_def)

lemma session_paths_differ:
  assumes "id_ok i" "id_ok k"
  shows "session_path s i = session_path s k \<longleftrightarrow> i = k" and "turn_path s i = turn_path s k \<longleftrightarrow> i = k"
    and "turn_path s i \<noteq> session_path s k" and "raw_path s i \<noteq> session_path s k" and "raw_path s i \<noteq> turn_path s k"
    and "session_path s i \<noteq> session_path s k @ ''.tmp''" and "turn_path s i \<noteq> session_path s k @ ''.tmp''"
proof -
  have n: "xs @ ''.jsonl'' \<noteq> ys @ ''.json''" "xs @ ''.json'' \<noteq> ys @ ''.tmp''" "xs @ ''.jsonl'' \<noteq> ys @ ''.tmp''"
    for xs ys :: string by (auto dest: arg_cong [where f = last])
  note paths = session_paths [OF assms(1), of s] session_paths [OF assms(2), of s]
  show "turn_path s i \<noteq> session_path s k" "raw_path s i \<noteq> session_path s k"
    "session_path s i \<noteq> session_path s k @ ''.tmp''" "turn_path s i \<noteq> session_path s k @ ''.tmp''"
    unfolding paths append_assoc [symmetric] append_Cons [symmetric] by (rule n)+
  show "raw_path s i \<noteq> turn_path s k" unfolding paths by simp
  show "session_path s i = session_path s k \<longleftrightarrow> i = k" "turn_path s i = turn_path s k \<longleftrightarrow> i = k" unfolding paths by simp_all
qed

lemma conversation_paths:
  assumes "id_ok i"
  shows "conversation_path s i = path_prefix (conversations_dir s) @ i @ ''.json''"
    and "conversation_turn_path s i = path_prefix (conversations_dir s) @ i @ ''.jsonl''"
  using assms plain_name_json conversations_dir_nonempty
  by (simp_all add: conversation_path_def conversation_turn_path_def path_join_name)

lemma conversation_paths_differ:
  assumes "id_ok i" "id_ok k"
  shows "conversation_path s i = conversation_path s k \<longleftrightarrow> i = k"
    and "conversation_turn_path s i = conversation_turn_path s k \<longleftrightarrow> i = k"
    and "conversation_turn_path s i \<noteq> conversation_path s k"
    and "conversation_path s i \<noteq> conversation_path s k @ ''.tmp''"
    and "conversation_turn_path s i \<noteq> conversation_path s k @ ''.tmp''"
proof -
  have n: "xs @ ''.jsonl'' \<noteq> ys @ ''.json''" "xs @ ''.json'' \<noteq> ys @ ''.tmp''" "xs @ ''.jsonl'' \<noteq> ys @ ''.tmp''"
    for xs ys :: string by (auto dest: arg_cong [where f = last])
  show "conversation_turn_path s i \<noteq> conversation_path s k"
    "conversation_path s i \<noteq> conversation_path s k @ ''.tmp''"
    "conversation_turn_path s i \<noteq> conversation_path s k @ ''.tmp''"
    unfolding conversation_paths [OF assms(1)] conversation_paths [OF assms(2)] append_assoc [symmetric]
    by (rule n)+
qed (use assms in \<open>simp_all add: conversation_paths\<close>)

section \<open>Documents are replaced atomically\<close>

text \<open>
  Documents are replaced atomically: whatever write or rename fails, the document at the path
  is either the new one, completely, with the temporary file gone and no error reported, or the one
  that was there before, with an error; no file other than these two is touched.
\<close>

theorem write_json_atomic_safe:
  assumes "write_json_atomic faults path value fs = (r, fs')"
  shows "(case r of
      None \<Rightarrow> (\<exists>j. value = Inr j \<and> fs_lookup fs' path = Some (Doc (Some j))) \<and> fs_lookup fs' (path @ ''.tmp'') = None
    | Some e \<Rightarrow> fs_lookup fs' path = fs_lookup fs path) \<and>
    (\<forall>q. q \<noteq> path \<and> q \<noteq> path @ ''.tmp'' \<longrightarrow> fs_lookup fs' q = fs_lookup fs q)"
  using assms by (auto simp: write_json_atomic_def Let_def split: sum.splits option.splits)

theorem write_json_atomic_safe_witness:
  "fs_lookup (snd (write_json_atomic (no_faults\<lparr>of_rename := (\<lambda>_. Some (ErrMsg ''disk full''))\<rparr>) ''c.json''
      (Inr JNull) \<lparr>fs_dirs = [], fs_files = [(''c.json'', Doc (Some (JBool True)))]\<rparr>)) ''c.json'' =
   Some (Doc (Some (JBool True)))"
proof -
  let ?fs = "\<lparr>fs_dirs = [], fs_files = [(''c.json'', Doc (Some (JBool True)))]\<rparr>"
  let ?f = "no_faults\<lparr>of_rename := (\<lambda>_. Some (ErrMsg ''disk full''))\<rparr>"
  obtain r fs' where r: "write_json_atomic ?f ''c.json'' (Inr JNull) ?fs = (r, fs')"
    by (cases "write_json_atomic ?f ''c.json'' (Inr JNull) ?fs")
  have "r = Some (ErrWrap ''rename temp file: '' (ErrMsg ''disk full''))"
    using r by (simp add: write_json_atomic_def no_faults_def Let_def)
  from conjunct1 [OF write_json_atomic_safe [OF r], unfolded this option.case]
  show ?thesis unfolding r snd_conv by (simp add: fs_lookup_def)
qed

section \<open>Sorting\<close>

text \<open>
  The contract of \<open>sort.Slice\<close> with a comparison of keys: a permutation with ascending keys.
  It is not stable, so equal keys may end up in any order.
\<close>

locale slice_sort =
  fixes srt :: "('a \<Rightarrow> int) \<Rightarrow> 'a list \<Rightarrow> 'a list"
  assumes srt_perm: "mset (srt key xs) = mset xs"
    and srt_sorted: "sorted (map key (srt key xs))"
begin

lemma srt_length: "length (srt key xs) = length xs"
  using srt_perm by (metis size_mset)

lemma srt_set: "set (srt key xs) = set xs"
  using srt_perm by (metis set_mset_mset)

lemma srt_ascending:
  assumes "sorted_wrt (<) (map key xs)"
  shows "srt key xs = xs"
proof -
  have d: "sorted (map key xs)" "distinct (map key xs)"
    using assms by (simp_all add: strict_sorted_iff)
  have "mset (map key (srt key xs)) = mset (map key xs)" using srt_perm by simp
  then have "map key (srt key xs) = map key xs"
    using srt_sorted d(1) by (metis properties_for_sort)
  moreover have "inj_on key (set (srt key xs) \<union> set xs)"
    using d(2) by (simp add: srt_set distinct_map)
  ultimately show ?thesis by (rule map_inj_on)
qed

end

interpretation insertion: slice_sort "sort_key"
  by unfold_locales simp_all

section \<open>The conversation log\<close>

text \<open>Appending turns one after the other, up to the first error.\<close>

fun append_each :: "('t \<Rightarrow> 's \<Rightarrow> go_error option \<times> 's) \<Rightarrow> 't list \<Rightarrow> 's \<Rightarrow> go_error option \<times> 's" where
  "append_each append_one [] s = (None, s)"
| "append_each append_one (t # ts) s =
     (case append_one t s of (Some e, s') \<Rightarrow> (Some e, s') | (None, s') \<Rightarrow> append_each append_one ts s')"

text \<open>
  What a store promises about conversations, as laws over what can be read from it: the document
  of a conversation and the log of its turns, each with the size of its record.
\<close>

locale conversation_log =
  fixes create :: "conversation \<Rightarrow> 's \<Rightarrow> go_error option \<times> 's"
    and update :: "string \<Rightarrow> conversation_patch \<Rightarrow> 's \<Rightarrow> go_error option \<times> 's"
    and append_one :: "conversation_turn \<Rightarrow> 's \<Rightarrow> go_error option \<times> 's"
    and conv_of :: "'s \<Rightarrow> string \<Rightarrow> conversation option"
    and log_of :: "'s \<Rightarrow> string \<Rightarrow> (conversation_turn option \<times> nat) list"
    and ok :: "string \<Rightarrow> bool"
    and size_of :: "conversation_turn \<Rightarrow> nat"
  assumes create_conv: "create c s = (None, s') \<Longrightarrow> ok (conv_id c) \<Longrightarrow> ok i \<Longrightarrow>
      conv_of s' i = (if i = conv_id c then Some (valid_conversation (stamp_schema_version c)) else conv_of s i)"
    and create_log: "create c s = (None, s') \<Longrightarrow> ok (conv_id c) \<Longrightarrow> ok i \<Longrightarrow> log_of s' i = log_of s i"
    and update_conv: "update k p s = (None, s') \<Longrightarrow> ok k \<Longrightarrow> ok i \<Longrightarrow>
      conv_of s' i = (if i = k then map_option (\<lambda>c. valid_conversation (apply_conversation_patch p c)) (conv_of s k)
        else conv_of s i)"
    and update_log: "update k p s = (None, s') \<Longrightarrow> ok k \<Longrightarrow> ok i \<Longrightarrow> log_of s' i = log_of s i"
    and update_unknown: "ok k \<Longrightarrow> conv_of s k = None \<Longrightarrow> fst (update k p s) \<noteq> None"
    and append_conv: "append_one t s = (None, s') \<Longrightarrow> ok (ct_conversation_id t) \<Longrightarrow> ok i \<Longrightarrow>
      conv_of s' i = conv_of s i"
    and append_log: "append_one t s = (None, s') \<Longrightarrow> ok (ct_conversation_id t) \<Longrightarrow> ok i \<Longrightarrow>
      log_of s' i = (if i = ct_conversation_id t then log_of s i @ [(Some (valid_turn t), size_of t)] else log_of s i)"
begin

lemma append_all_log:
  "append_each append_one ts s = (None, s') \<Longrightarrow> ok i \<Longrightarrow> \<forall>t \<in> set ts. ct_conversation_id t = i \<Longrightarrow>
     conv_of s' i = conv_of s i \<and> log_of s' i = log_of s i @ map (\<lambda>t. (Some (valid_turn t), size_of t)) ts"
proof (induction ts arbitrary: s)
  case (Cons t ts)
  from Cons.prems obtain s1 where s1: "append_one t s = (None, s1)" "append_each append_one ts s1 = (None, s')"
    by (auto split: prod.splits option.splits)
  have t: "ct_conversation_id t = i" using Cons.prems(3) by simp
  from Cons.IH [OF s1(2) Cons.prems(2)] Cons.prems(3)
    append_conv [OF s1(1)] append_log [OF s1(1)] Cons.prems(2) t show ?case by auto
qed simp

text \<open>A conversation as the broker records it: created, its turns appended, finally updated.\<close>

lemma conversation_recorded:
  assumes "create c s = (None, s1)" and "append_each append_one ts s1 = (None, s2)" and "update (conv_id c) p s2 = (None, s3)"
    and "ok (conv_id c)" and "\<forall>t \<in> set ts. ct_conversation_id t = conv_id c"
  shows "conv_of s3 (conv_id c) = Some (valid_conversation (apply_conversation_patch p
      (valid_conversation (stamp_schema_version c))))"
    and "log_of s3 (conv_id c) = log_of s (conv_id c) @ map (\<lambda>t. (Some (valid_turn t), size_of t)) ts"
  using append_all_log [OF assms(2,4,5)] create_conv [OF assms(1,4,4)] create_log [OF assms(1,4,4)]
    update_conv [OF assms(3,4,4)] update_log [OF assms(3,4,4)] by simp_all

end

text \<open>What is on disk for a conversation.\<close>

definition conv_at :: "file_store \<Rightarrow> file_sys \<Rightarrow> string \<Rightarrow> conversation option" where
  "conv_at s fs i = (case fs_lookup fs (conversation_path s i) of
     None \<Rightarrow> None | Some c \<Rightarrow> Option.bind (as_doc c) unmarshal_conversation)"

definition turn_log :: "file_store \<Rightarrow> file_sys \<Rightarrow> string \<Rightarrow> (conversation_turn option \<times> nat) list" where
  "turn_log s fs i = (case fs_lookup fs (conversation_turn_path s i) of
     None \<Rightarrow> [] | Some c \<Rightarrow> map (\<lambda>(j, n). (Option.bind j unmarshal_turn, n)) (as_lines c))"

definition turn_size :: "(json \<Rightarrow> nat) \<Rightarrow> conversation_turn \<Rightarrow> nat" where
  "turn_size text_len t = text_len (JObj (raw_turn_fields t))"

lemma write_json_atomic_Inr:
  assumes "write_json_atomic faults path value fs = (None, fs')" and "q \<noteq> path @ ''.tmp''"
  shows "\<exists>j. value = Inr j \<and> fs_lookup fs' q = (if q = path then Some (Doc (Some j)) else fs_lookup fs q)"
  using assms by (auto simp: write_json_atomic_def Let_def split: sum.splits option.splits)

lemma append_jsonl_Inr:
  assumes "append_jsonl faults len path value fs = (None, fs')"
  shows "\<exists>j. value = Inr j \<and> fs_lookup fs' q = (if q = path
    then Some (Lines ((case fs_lookup fs path of None \<Rightarrow> [] | Some c \<Rightarrow> as_lines c) @ [(Some j, len)]))
    else fs_lookup fs q)"
  using assms by (auto simp: append_jsonl_def Let_def split: sum.splits option.splits if_splits)

lemma create_conversation_lookup:
  assumes "create_conversation faults s c fs = (None, fs')" and "q \<noteq> conversation_path s (conv_id c) @ ''.tmp''"
  shows "\<exists>j. marshal_conversation (stamp_schema_version c) = Inr j \<and> fs_lookup fs' q =
    (if q = conversation_path s (conv_id c) then Some (Doc (Some j)) else fs_lookup fs q)"
proof -
  from assms(1) obtain fs1 where m: "mkdir_all faults (conversations_dir s) fs = (None, fs1)"
    and w: "write_json_atomic faults (conversation_path s (conv_id c))
      (marshal_conversation (stamp_schema_version c)) fs1 = (None, fs')"
    by (auto simp: create_conversation_def split: prod.splits option.splits)
  have "fs_lookup fs1 q = fs_lookup fs q" using m by (auto simp: mkdir_all_def split: option.splits)
  then show ?thesis using write_json_atomic_Inr [OF w assms(2)] by (simp only:)
qed

lemma update_conversation_lookup:
  assumes "update_conversation faults s k p fs = (None, fs')" and "q \<noteq> conversation_path s k @ ''.tmp''"
  shows "\<exists>c j. conv_at s fs k = Some c \<and> marshal_conversation (apply_conversation_patch p c) = Inr j \<and>
    fs_lookup fs' q = (if q = conversation_path s k then Some (Doc (Some j)) else fs_lookup fs q)"
proof -
  from assms(1) obtain c where r: "read_json faults unmarshal_conversation (conversation_path s k) fs = Inr c"
    and w: "write_json_atomic faults (conversation_path s k) (marshal_conversation (apply_conversation_patch p c)) fs
      = (None, fs')"
    by (auto simp: update_conversation_def split: sum.splits)
  from r have "conv_at s fs k = Some c"
    by (auto simp: read_json_def read_file_def conv_at_def split: sum.splits option.splits)
  with write_json_atomic_Inr [OF w assms(2)] show ?thesis by blast
qed

lemma append_conversation_turn_lookup:
  assumes "append_conversation_turn faults text_len s t fs = (None, fs')"
  shows "\<exists>j. marshal_turn t = Inr j \<and> fs_lookup fs' q = (if q = conversation_turn_path s (ct_conversation_id t)
    then Some (Lines ((case fs_lookup fs q of None \<Rightarrow> [] | Some c \<Rightarrow> as_lines c) @ [(Some j, turn_size text_len t)]))
    else fs_lookup fs q)"
proof -
  from assms obtain fs1 where m: "mkdir_all faults (conversations_dir s) fs = (None, fs1)"
    and w: "append_jsonl faults (turn_size text_len t) (conversation_turn_path s (ct_conversation_id t)) (marshal_turn t) fs1
      = (None, fs')"
    by (auto simp: append_conversation_turn_def turn_size_def split: prod.splits option.splits)
  have "fs_lookup fs1 x = fs_lookup fs x" for x using m by (auto simp: mkdir_all_def split: option.splits)
  with append_jsonl_Inr [OF w, of q] show ?thesis by auto
qed

interpretation disk: conversation_log "create_conversation faults s" "update_conversation faults s"
  "append_conversation_turn faults text_len s" "conv_at s" "turn_log s" id_ok "turn_size text_len"
  for faults text_len s
proof (unfold_locales, goal_cases)
  case (1 c fs fs' i)
  with create_conversation_lookup [OF 1(1), of "conversation_path s i"] conversation_paths_differ [OF 1(3,2), of s]
  show ?case by (auto simp: conv_at_def conversation_roundtrip split: if_splits)
next
  case (2 c fs fs' i)
  with create_conversation_lookup [OF 2(1), of "conversation_turn_path s i"] conversation_paths_differ [OF 2(3,2), of s]
  show ?case by (auto simp: turn_log_def split: if_splits)
next
  case (3 k p fs fs' i)
  with update_conversation_lookup [OF 3(1), of "conversation_path s i"] conversation_paths_differ [OF 3(3,2), of s]
  show ?case by (auto simp: conv_at_def conversation_roundtrip split: if_splits)
next
  case (4 k p fs fs' i)
  with update_conversation_lookup [OF 4(1), of "conversation_turn_path s i"] conversation_paths_differ [OF 4(3,2), of s]
  show ?case by (auto simp: turn_log_def split: if_splits)
next
  case (5 k fs p)
  then show ?case
    by (auto simp: update_conversation_def read_json_def read_file_def conv_at_def split: sum.splits option.splits)
next
  case (6 t fs fs' i)
  with append_conversation_turn_lookup [OF 6(1), of "conversation_path s i"] conversation_paths_differ [OF 6(2,3), of s]
  show ?case by (auto simp: conv_at_def split: if_splits)
next
  case (7 t fs fs' i)
  with append_conversation_turn_lookup [OF 7(1), of "conversation_turn_path s i"]
    conversation_paths_differ [OF 7(3,2), of s]
  show ?case
    by (auto simp: turn_log_def marshal_turn_def unmarshal_turn_fields split: if_splits option.splits)
qed

section \<open>A recorded conversation can be read back\<close>

lemma scan_lines_ok:
  "list_all (\<lambda>(j, n). n < limit) ls \<Longrightarrow> map (\<lambda>(j, n). Option.bind j decode) ls = map Some xs \<Longrightarrow>
     scan_lines limit what decode ls = Inr xs"
proof (induction ls arbitrary: xs)
  case (Cons l ls)
  obtain j n where l: "l = (j, n)" by (cases l)
  from Cons.prems(2) obtain x xs' where xs: "xs = x # xs'" "Option.bind j decode = Some x"
    by (cases xs) (auto simp: l)
  with Cons.IH [of xs'] Cons.prems show ?case by (simp add: l)
qed simp

lemma no_faults_sel [simp]:
  "of_mkdir no_faults p = None" "of_write no_faults p = None" "of_rename no_faults p = None"
  "of_open no_faults p = None" "of_append no_faults p = None" "of_read no_faults p = None"
  by (simp_all add: no_faults_def)

lemma write_json_atomic_no_faults [simp]: "fst (write_json_atomic no_faults path (Inr j) fs) = None"
  by (simp add: write_json_atomic_def Let_def)

lemma marshal_conversation_ok:
  "json_time_ok (conv_created_at c) \<and> opt_time_ok (conv_ended_at c) \<Longrightarrow>
     \<exists>j. marshal_conversation c = Inr j"
  by (simp add: marshal_conversation_def)

lemma create_conversation_ok:
  assumes "json_time_ok (conv_created_at c)" "opt_time_ok (conv_ended_at c)"
  shows "fst (create_conversation no_faults s c fs) = None"
proof -
  have "json_time_ok (conv_created_at (stamp_schema_version c)) \<and> opt_time_ok (conv_ended_at (stamp_schema_version c))"
    using assms by (simp add: stamp_schema_version_def)
  from marshal_conversation_ok [OF this] show ?thesis
    by (auto simp: create_conversation_def mkdir_all_def)
qed

lemma append_conversation_turn_ok:
  "marshal_turn t = Inr j \<Longrightarrow> fst (append_conversation_turn no_faults text_len s t fs) = None"
  by (simp add: append_conversation_turn_def mkdir_all_def append_jsonl_def Let_def)

lemma append_all_ok:
  "\<forall>t \<in> set ts. \<exists>j. marshal_turn t = Inr j \<Longrightarrow> fst (append_each (append_conversation_turn no_faults text_len s) ts fs) = None"
proof (induction ts arbitrary: fs)
  case (Cons t ts)
  then obtain j where "marshal_turn t = Inr j" by auto
  from append_conversation_turn_ok [OF this, of text_len s fs] Cons show ?case
    by (cases "append_conversation_turn no_faults text_len s t fs") (simp add: append_each.simps)
qed (simp add: append_each.simps)

lemma get_conversation_conv_at:
  assumes "conv_at s fs i = Some c"
  shows "get_conversation no_faults s i fs = Inr (Some c)"
    and "read_json no_faults unmarshal_conversation (conversation_path s i) fs = Inr c"
  using assms
  by (auto simp: conv_at_def get_conversation_def get_doc_def read_json_def read_file_def
      split: option.splits)

lemma update_conversation_ok:
  assumes "conv_at s fs i = Some c" "json_time_ok (conv_created_at c)" "opt_time_ok (conv_ended_at c)"
    "opt_time_ok (cp_ended_at p)"
  shows "fst (update_conversation no_faults s i p fs) = None"
proof -
  have "json_time_ok (conv_created_at (apply_conversation_patch p c)) \<and>
      opt_time_ok (conv_ended_at (apply_conversation_patch p c))"
    using assms(2-4) by (auto simp: apply_conversation_patch_def patch_opt_def split: option.splits)
  from marshal_conversation_ok [OF this] get_conversation_conv_at(2) [OF assms(1)] show ?thesis
    by (auto simp: update_conversation_def)
qed

lemma peek_turn_log:
  assumes srt: "slice_sort srt" and log: "turn_log s fs i = map (\<lambda>t. (Some (f t), sz t)) ts"
    and sz: "\<forall>t \<in> set ts. sz t < conversation_scan_limit" and asc: "sorted_wrt (<) (map ct_index (map f ts))"
  shows "peek_conversation_turns no_faults srt s i n fs = Inr (last_n n (map f ts))"
proof (cases "fs_lookup fs (conversation_turn_path s i)")
  case None
  with log show ?thesis by (simp add: peek_conversation_turns_def peek_lines_def turn_log_def last_n_def)
next
  case (Some c)
  with log have l: "map (\<lambda>(j, n). (Option.bind j unmarshal_turn, n)) (as_lines c) = map (\<lambda>t. (Some (f t), sz t)) ts"
    by (simp add: turn_log_def)
  have "map (\<lambda>(j, n). Option.bind j unmarshal_turn) (as_lines c) = map Some (map f ts)"
    using arg_cong [OF l, of "map fst"] by (simp add: comp_def case_prod_beta')
  moreover have "map snd (as_lines c) = map sz ts"
    using arg_cong [OF l, of "map snd"] by (simp add: comp_def case_prod_beta')
  then have "snd ` set (as_lines c) = sz ` set ts" by (metis list.set_map)
  then have "list_all (\<lambda>(j, n). n < conversation_scan_limit) (as_lines c)"
    using sz by (force simp: list_all_iff)
  ultimately have "scan_lines conversation_scan_limit ''conversation turn'' unmarshal_turn (as_lines c) = Inr (map f ts)"
    by (intro scan_lines_ok)
  with Some slice_sort.srt_ascending [OF srt asc] show ?thesis
    by (simp add: peek_conversation_turns_def peek_lines_def)
qed

text \<open>
  What the broker records can be read back: create a conversation, append its turns, update
  it at the end, on a file system without faults and without an earlier log of that id. Every call
  succeeds, the conversation then reads as the patched document, and peeking at the last \<open>n\<close>
  turns (all, for \<open>n = 0\<close>) returns exactly the last appended turns in order, provided the
  indices ascend and each line is shorter than a mebibyte; \<open>srt\<close> is any sorting routine.
\<close>

theorem conversation_persisted:
  assumes "id_ok (conv_id c)" and "json_time_ok (conv_created_at c)" "opt_time_ok (conv_ended_at c)"
    and "opt_time_ok (cp_ended_at p)"
    and "\<And>key xs. mset (srt key xs) = mset xs" "\<And>key xs. sorted (map key (srt key xs))"
    and "turn_log s fs (conv_id c) = []"
    and "\<forall>t \<in> set ts. ct_conversation_id t = conv_id c \<and> json_time_ok (ct_started_at t) \<and>
      json_time_ok (ct_ended_at t) \<and> turn_size text_len t < 1048576"
    and "sorted_wrt (<) (map ct_index ts)"
    and "create_conversation no_faults s c fs = (e1, fs1)"
    and "append_each (append_conversation_turn no_faults text_len s) ts fs1 = (e2, fs2)"
    and "update_conversation no_faults s (conv_id c) p fs2 = (e3, fs3)"
  shows "e1 = None \<and> e2 = None \<and> e3 = None \<and>
    get_conversation no_faults s (conv_id c) fs3 = Inr (Some (valid_conversation (apply_conversation_patch p
      (valid_conversation (stamp_schema_version c))))) \<and>
    peek_conversation_turns no_faults srt s (conv_id c) n fs3 = Inr (last_n n (map valid_turn ts))"
proof -
  have e1: "e1 = None" using create_conversation_ok [OF assms(2,3), of s fs] assms(10) by simp
  have "\<forall>t \<in> set ts. \<exists>j. marshal_turn t = Inr j" using assms(8) by (simp add: marshal_turn_def)
  from append_all_ok [OF this, of text_len s fs1] assms(11) have e2: "e2 = None" by simp
  have ids: "\<forall>t \<in> set ts. ct_conversation_id t = conv_id c" using assms(8) by simp
  let ?c = "valid_conversation (stamp_schema_version c)"
  have at2: "conv_at s fs2 (conv_id c) = Some ?c"
    using disk.append_all_log [OF assms(11) [unfolded e2] assms(1) ids]
      disk.create_conv [OF assms(10) [unfolded e1] assms(1,1)] by simp
  have t: "json_time_ok (conv_created_at ?c)" "opt_time_ok (conv_ended_at ?c)"
    using assms(2,3) by (simp_all add: valid_conversation_def stamp_schema_version_def)
  have e3: "e3 = None" using update_conversation_ok [OF at2 t assms(4)] assms(12) by simp
  note rec = disk.conversation_recorded [OF assms(10) [unfolded e1] assms(11) [unfolded e2] assms(12) [unfolded e3]
      assms(1) ids]
  have log: "turn_log s fs3 (conv_id c) = map (\<lambda>t. (Some (valid_turn t), turn_size text_len t)) ts"
    using rec(2) assms(7) by simp
  have "slice_sort srt" using assms(5,6) by (rule slice_sort.intro)
  moreover have "sorted_wrt (<) (map ct_index (map valid_turn ts))"
  proof -
    have "map ct_index (map valid_turn ts) = map ct_index ts" by (simp add: valid_turn_def)
    with assms(9) show ?thesis by (simp only:)
  qed
  moreover have "\<forall>t \<in> set ts. turn_size text_len t < conversation_scan_limit"
    using assms(8) by (simp add: conversation_scan_limit_def)
  ultimately have "peek_conversation_turns no_faults srt s (conv_id c) n fs3 = Inr (last_n n (map valid_turn ts))"
    using log by (intro peek_turn_log)
  with e1 e2 e3 get_conversation_conv_at(1) [OF rec(1)] show ?thesis by simp
qed

section \<open>Pages\<close>

lemma page_drop_take: "0 \<le> offset \<Longrightarrow> 0 < limit \<Longrightarrow> page offset limit xs = take (nat limit) (drop (nat offset) xs)"
  by (auto simp: page_def Let_def)

lemma concat_pages:
  "0 < n \<Longrightarrow> length xs \<le> k * n \<Longrightarrow> concat (map (\<lambda>i. take n (drop (i * n) xs)) [0 ..< k]) = xs"
proof (induction k arbitrary: xs)
  case (Suc k)
  have "concat (map (\<lambda>i. take n (drop (i * n) xs)) [0 ..< Suc k]) =
      take n xs @ concat (map (\<lambda>i. take n (drop (i * n) (drop n xs))) [0 ..< k])"
    by (simp add: upt_rec [of 0 "Suc k"] map_Suc_upt [symmetric] comp_def add.commute del: upt_Suc)
  also have "concat (map (\<lambda>i. take n (drop (i * n) (drop n xs))) [0 ..< k]) = drop n xs"
    by (rule Suc.IH) (use Suc.prems in auto)
  finally show ?case by simp
qed simp


section \<open>Long session turns\<close>

lemma scan_lines_too_long:
  "\<exists>(j, n) \<in> set ls. limit \<le> n \<Longrightarrow> \<exists>e. scan_lines limit what decode ls = Inl e"
proof (induction ls)
  case (Cons l ls)
  obtain j n where l: "l = (j, n)" by (cases l)
  show ?case
  proof (cases "limit \<le> n")
    case False
    with Cons obtain e where "scan_lines limit what decode ls = Inl e" by (auto simp: l)
    with False show ?thesis by (auto simp: l split: option.splits)
  qed (simp add: l)
qed simp

text \<open>A file with a line the scanner of \<open>PeekTurns\<close> cannot read, and that appending keeps it.\<close>

definition has_long_line :: "string \<Rightarrow> file_sys \<Rightarrow> bool" where
  "has_long_line p fs = (case fs_lookup fs p of None \<Rightarrow> False
     | Some c \<Rightarrow> list_ex (\<lambda>l. 65536 \<le> snd l) (as_lines c))"

lemma has_long_line_append:
  assumes "has_long_line p fs"
  shows "has_long_line p (snd (append_jsonl faults len p v fs))"
proof -
  obtain c where c: "fs_lookup fs p = Some c" "list_ex (\<lambda>l. 65536 \<le> snd l) (as_lines c)"
    using assms by (auto simp: has_long_line_def split: option.splits)
  have "snd (append_jsonl faults len p v fs) \<in>
      {fs} \<union> range (\<lambda>j. fs_put p (Lines (as_lines c @ [(Some j, len)])) fs)"
    using c(1) by (simp add: append_jsonl_def Let_def split: option.split sum.split)
  then show ?thesis using assms c(2) by (auto simp: has_long_line_def)
qed

lemma has_long_line_unreadable:
  assumes "has_long_line (turn_path s sid) fs"
  shows "\<exists>e. peek_turns no_faults srt s sid n fs = Inl e"
proof -
  obtain c where c: "fs_lookup fs (turn_path s sid) = Some c" "list_ex (\<lambda>l. 65536 \<le> snd l) (as_lines c)"
    using assms by (auto simp: has_long_line_def split: option.splits)
  have "\<exists>(j, n) \<in> set (as_lines c). max_scan_token_size \<le> n"
    using c(2) by (auto simp: list_ex_iff max_scan_token_size_def)
  from scan_lines_too_long [OF this, of "''turn''" unmarshal_session_turn] c(1) show ?thesis
    unfolding peek_turns_def peek_lines_def by auto
qed

text \<open>
  C35. A session turn of 64 KiB or more makes its session unreadable: it is appended without an
  error, but from then on \<open>PeekTurns\<close> fails for that session, whatever was stored before and
  whatever is appended after it (the conversation log, with its larger buffer, still reads it).
\<close>

theorem long_turn_unreadable:
  assumes "append_turn faults text_len s t fs = (None, fs1)"
    and "65536 \<le> text_len (JObj (raw_session_turn_fields t))"
    and "\<forall>t' \<in> set later. tn_session_id t' = tn_session_id t"
  shows "\<exists>e. peek_turns no_faults srt s (tn_session_id t) n
    (fold (\<lambda>t' fs. snd (append_turn faults text_len s t' fs)) later fs1) = Inl e"
proof -
  let ?p = "turn_path s (tn_session_id t)"
  have "\<exists>j. fs_lookup fs1 ?p = Some (Lines ((case fs_lookup fs ?p of None \<Rightarrow> [] | Some c \<Rightarrow> as_lines c)
      @ [(Some j, text_len (JObj (raw_session_turn_fields t)))]))"
    using append_jsonl_Inr [OF assms(1) [unfolded append_turn_def], of ?p, unfolded if_P [OF refl]] by blast
  with assms(2) have "has_long_line ?p fs1"
    unfolding has_long_line_def by auto
  then have "has_long_line ?p (fold (\<lambda>t' fs. snd (append_turn faults text_len s t' fs)) later fs1)"
    using assms(3)
  proof (induction later arbitrary: fs1)
    case (Cons t' later)
    have "tn_session_id t' = tn_session_id t" using Cons.prems(2) by (meson list.set_intros(1))
    then have "has_long_line ?p (snd (append_turn faults text_len s t' fs1))"
      unfolding append_turn_def by (simp only: has_long_line_append [OF Cons.prems(1)])
    moreover have "\<forall>t' \<in> set later. tn_session_id t' = tn_session_id t"
      using Cons.prems(2) by (meson list.set_intros(2))
    ultimately show ?case unfolding fold.simps comp_apply by (rule Cons.IH)
  qed simp
  then show ?thesis by (rule has_long_line_unreadable)
qed

section \<open>Concrete stores\<close>

definition demo_store :: file_store where
  "demo_store = \<lparr>st_root = ''logs'', st_debug_raw = False\<rparr>"

definition empty_fs :: file_sys where
  "empty_fs = \<lparr>fs_dirs = [], fs_files = []\<rparr>"

definition demo_conv :: conversation where
  "demo_conv = zero_conversation\<lparr>conv_id := ''c1''\<rparr>"

definition demo_turn :: "int \<Rightarrow> conversation_turn" where
  "demo_turn i = zero_conversation_turn\<lparr>ct_conversation_id := ''c1'', ct_index := i\<rparr>"

definition demo_patch :: conversation_patch where
  "demo_patch = \<lparr>cp_status = Some ConvMaxTurnsHit, cp_ended_at = Some 7, cp_turns_consumed = Some 2\<rparr>"

theorem conversation_persisted_witness:
  "\<exists>fs1 fs2 fs3. create_conversation no_faults demo_store demo_conv empty_fs = (None, fs1) \<and>
     append_each (append_conversation_turn no_faults (\<lambda>_. 100) demo_store) [demo_turn 1, demo_turn 2] fs1 = (None, fs2) \<and>
     update_conversation no_faults demo_store ''c1'' demo_patch fs2 = (None, fs3) \<and>
     peek_conversation_turns no_faults sort_key demo_store ''c1'' 1 fs3 =
       Inr (last_n 1 (map valid_turn [demo_turn 1, demo_turn 2]))"
proof -
  have id: "conv_id demo_conv = ''c1''" by (simp add: demo_conv_def)
  obtain e1 fs1 where c: "create_conversation no_faults demo_store demo_conv empty_fs = (e1, fs1)"
    by (cases "create_conversation no_faults demo_store demo_conv empty_fs")
  obtain e2 fs2 where a: "append_each (append_conversation_turn no_faults (\<lambda>_. 100) demo_store) [demo_turn 1, demo_turn 2] fs1 = (e2, fs2)"
    by (cases "append_each (append_conversation_turn no_faults (\<lambda>_. 100) demo_store) [demo_turn 1, demo_turn 2] fs1")
  obtain e3 fs3 where u: "update_conversation no_faults demo_store (conv_id demo_conv) demo_patch fs2 = (e3, fs3)"
    by (cases "update_conversation no_faults demo_store (conv_id demo_conv) demo_patch fs2")
  have t: "\<forall>t \<in> set [demo_turn 1, demo_turn 2]. ct_conversation_id t = conv_id demo_conv \<and>
      json_time_ok (ct_started_at t) \<and> json_time_ok (ct_ended_at t) \<and> turn_size (\<lambda>_. 100) t < 1048576"
    by (simp add: demo_turn_def id zero_conversation_turn_def json_time_ok_def turn_size_def)
  have "e1 = None \<and> e2 = None \<and> e3 = None \<and>
    get_conversation no_faults demo_store (conv_id demo_conv) fs3 = Inr (Some (valid_conversation
      (apply_conversation_patch demo_patch (valid_conversation (stamp_schema_version demo_conv))))) \<and>
    peek_conversation_turns no_faults sort_key demo_store (conv_id demo_conv) 1 fs3 =
      Inr (last_n 1 (map valid_turn [demo_turn 1, demo_turn 2]))"
    by (rule conversation_persisted [OF _ _ _ _ _ _ _ t _ c a u])
       (simp_all add: id id_ok_def demo_conv_def zero_conversation_def json_time_ok_def opt_time_ok_def
         demo_patch_def demo_turn_def turn_log_def empty_fs_def fs_lookup_def)
  then show ?thesis using c a u by (auto simp: id)
qed


theorem long_turn_unreadable_witness:
  "\<exists>e. peek_turns no_faults sort_key demo_store ''s'' 0
     (snd (append_turn no_faults (\<lambda>_. 70000) demo_store \<lparr>tn_session_id = ''s'', tn_index = 0, tn_role = ''user'',
        tn_content = ''long'', tn_created_at = 1\<rparr> empty_fs)) = Inl e"
proof -
  let ?t = "\<lparr>tn_session_id = ''s'', tn_index = 0, tn_role = ''user'', tn_content = ''long'', tn_created_at = 1\<rparr>"
  obtain r fs1 where a: "append_turn no_faults (\<lambda>_. 70000) demo_store ?t empty_fs = (r, fs1)"
    by (cases "append_turn no_faults (\<lambda>_. 70000) demo_store ?t empty_fs")
  have "r = None"
    using a by (auto simp: append_turn_def append_jsonl_def marshal_session_turn_def json_time_ok_def Let_def)
  from long_turn_unreadable [OF a [unfolded this], of "[]"] show ?thesis by (simp add: a)
qed

end
