(* ===== verification/Recorded.thy ===== *)
theory Recorded
  imports Converse FileStore
begin

text \<open>
  The broker on a store, as \<open>src/internal/cli/converse.go\<close> wires them: the operations of the broker's
  environment split into those of the store (\<open>src/internal/store/file\<close>) and all others, which have a
  state of their own.  The theory shows that the store never changes what a conversation does, and
  that a conversation whose result carries no warning of the store can be read back from disk.
\<close>

section \<open>Wiring\<close>

definition on_store_part :: "('s \<Rightarrow> 'a \<times> 's) \<Rightarrow> 's \<times> 'v \<Rightarrow> 'a \<times> 's \<times> 'v" where
  "on_store_part f w = (let (x, s) = f (fst w) in (x, s, snd w))"

definition on_rest :: "('v \<Rightarrow> 'a \<times> 'v) \<Rightarrow> 's \<times> 'v \<Rightarrow> 'a \<times> 's \<times> 'v" where
  "on_rest f w = (let (x, v) = f (snd w) in (x, fst w, v))"

definition on_store ::
    "(conversation \<Rightarrow> 's \<Rightarrow> go_error option \<times> 's)
      \<Rightarrow> (string \<Rightarrow> conversation_patch \<Rightarrow> 's \<Rightarrow> go_error option \<times> 's)
      \<Rightarrow> (conversation_turn \<Rightarrow> 's \<Rightarrow> go_error option \<times> 's)
      \<Rightarrow> 'v broker_ops \<Rightarrow> ('s \<times> 'v) broker_ops" where
  "on_store create update append_one base =
     \<lparr>op_now = on_rest (op_now base), op_ctx_done = on_rest (op_ctx_done base),
      op_random = on_rest (op_random base),
      op_create = (\<lambda>c. on_store_part (create c)),
      op_update = (\<lambda>i p. on_store_part (update i p)),
      op_append = (\<lambda>t. on_store_part (append_one t)),
      op_peer_start = (\<lambda>ref spec cid slot. on_rest (op_peer_start base ref spec cid slot)),
      op_deliver = (\<lambda>ref env. on_rest (op_deliver base ref env)),
      op_peer_stop = (\<lambda>ref. apsnd (op_peer_stop base ref)),
      op_term_start = (\<lambda>conv. on_rest (op_term_start base conv)),
      op_term_stop = apsnd (op_term_stop base),
      op_subscribe = (\<lambda>topic. on_rest (op_subscribe base topic)),
      op_cancel = (\<lambda>topic i. apsnd (op_cancel base topic i)),
      op_publish = (\<lambda>topic m. on_rest (op_publish base topic m)),
      op_recv_wait = (\<lambda>i dl. on_rest (op_recv_wait base i dl)),
      op_recv_rest = (\<lambda>i. on_rest (op_recv_rest base i))\<rparr>"

text \<open>The broker on the file store.\<close>

definition file_ops ::
    "os_faults \<Rightarrow> (json \<Rightarrow> nat) \<Rightarrow> file_store \<Rightarrow> 'v broker_ops \<Rightarrow> (file_sys \<times> 'v) broker_ops" where
  "file_ops faults text_len st base =
     on_store (create_conversation faults st) (update_conversation faults st)
       (append_conversation_turn faults text_len st) base"

text \<open>The same environment with a store that accepts everything and keeps nothing.\<close>

definition storeless :: "'v broker_ops \<Rightarrow> 'v broker_ops" where
  "storeless base =
     base\<lparr>op_create := (\<lambda>_ w. (None, w)), op_update := (\<lambda>_ _ w. (None, w)), op_append := (\<lambda>_ w. (None, w))\<rparr>"

lemma on_store_sel:
  "op_now (on_store c u a base) (s, v) = (fst (op_now base v), s, snd (op_now base v))"
  "op_ctx_done (on_store c u a base) (s, v) = (fst (op_ctx_done base v), s, snd (op_ctx_done base v))"
  "op_random (on_store c u a base) (s, v) = (fst (op_random base v), s, snd (op_random base v))"
  "op_create (on_store c u a base) conv (s, v) = (fst (c conv s), snd (c conv s), v)"
  "op_update (on_store c u a base) k p (s, v) = (fst (u k p s), snd (u k p s), v)"
  "op_append (on_store c u a base) t (s, v) = (fst (a t s), snd (a t s), v)"
  "op_peer_start (on_store c u a base) ref spec cid slot (s, v) =
     (fst (op_peer_start base ref spec cid slot v), s, snd (op_peer_start base ref spec cid slot v))"
  "op_deliver (on_store c u a base) ref env (s, v) = (fst (op_deliver base ref env v), s, snd (op_deliver base ref env v))"
  "op_peer_stop (on_store c u a base) ref (s, v) = (s, op_peer_stop base ref v)"
  "op_term_start (on_store c u a base) conv (s, v) = (fst (op_term_start base conv v), s, snd (op_term_start base conv v))"
  "op_term_stop (on_store c u a base) (s, v) = (s, op_term_stop base v)"
  "op_subscribe (on_store c u a base) topic (s, v) = (fst (op_subscribe base topic v), s, snd (op_subscribe base topic v))"
  "op_cancel (on_store c u a base) topic i (s, v) = (s, op_cancel base topic i v)"
  "op_publish (on_store c u a base) topic m (s, v) = (fst (op_publish base topic m v), s, snd (op_publish base topic m v))"
  "op_recv_wait (on_store c u a base) i dl (s, v) = (fst (op_recv_wait base i dl v), s, snd (op_recv_wait base i dl v))"
  "op_recv_rest (on_store c u a base) i (s, v) = (fst (op_recv_rest base i v), s, snd (op_recv_rest base i v))"
  by (simp_all add: on_store_def on_store_part_def on_rest_def split_beta)

lemma storeless_sel [simp]:
  "op_now (storeless base) = op_now base" "op_ctx_done (storeless base) = op_ctx_done base"
  "op_random (storeless base) = op_random base" "op_create (storeless base) c v = (None, v)"
  "op_update (storeless base) k p v = (None, v)" "op_append (storeless base) t v = (None, v)"
  "op_peer_start (storeless base) = op_peer_start base" "op_deliver (storeless base) = op_deliver base"
  "op_peer_stop (storeless base) = op_peer_stop base" "op_term_start (storeless base) = op_term_start base"
  "op_term_stop (storeless base) = op_term_stop base" "op_subscribe (storeless base) = op_subscribe base"
  "op_cancel (storeless base) = op_cancel base" "op_publish (storeless base) = op_publish base"
  "op_recv_wait (storeless base) = op_recv_wait base" "op_recv_rest (storeless base) = op_recv_rest base"
  by (simp_all add: storeless_def)

section \<open>The store does not steer the conversation\<close>

text \<open>Everything a round or a run computes, less the warnings.\<close>

fun quiet_round :: "round_result \<Rightarrow> round_result" where
  "quiet_round (Finish conv turns ws status msg) = Finish conv turns [] status msg"
| "quiet_round (Continue st) = Continue (st\<lparr>ls_warnings := []\<rparr>)"

definition quiet_result :: "final_result \<Rightarrow> final_result" where
  "quiet_result r = r\<lparr>fr_warnings := []\<rparr>"

text \<open>What does not touch the store runs on the rest of the world.\<close>

named_theorems rest_simps

lemma stop_peer_ids_rest [rest_simps]:
  "stop_peer_ids (on_store c u a base) d ids (s, v) = (s, stop_peer_ids base d ids v)"
  "stop_peer_ids (storeless base) d ids v = stop_peer_ids base d ids v"
  by (induction ids arbitrary: v) (simp_all add: stop_peer_ids_def on_store_sel)

lemma stop_all_peers_rest [rest_simps]:
  "stop_all_peers (on_store c u a base) d (s, v) = (s, stop_all_peers base d v)"
  "stop_all_peers (storeless base) d v = stop_all_peers base d v"
  by (simp_all add: stop_all_peers_def rest_simps on_store_sel)

lemma start_n_peers_rest [rest_simps]:
  "start_n_peers (on_store c u a base) d conv started ids (s, v) =
     (fst (start_n_peers base d conv started ids v), s, snd (start_n_peers base d conv started ids v))"
  "start_n_peers (storeless base) d conv started ids v = start_n_peers base d conv started ids v"
  by (induction ids arbitrary: started v)
     (auto simp: rest_simps on_store_sel split: prod.splits option.splits)

lemma start_all_peers_rest [rest_simps]:
  "start_all_peers (on_store c u a base) d conv (s, v) =
     (fst (start_all_peers base d conv v), s, snd (start_all_peers base d conv v))"
  "start_all_peers (storeless base) d conv v = start_all_peers base d conv v"
  by (auto simp: start_all_peers_def rest_simps on_store_sel split: prod.splits option.splits)

lemma publish_turn_rest [rest_simps]:
  "publish_turn (on_store c u a base) t (s, v) = (fst (publish_turn base t v), s, snd (publish_turn base t v))"
  "publish_turn (storeless base) t v = publish_turn base t v"
  by (auto simp: publish_turn_def on_store_sel Let_def split: sum.splits prod.splits)

lemma drain_control_timed_rest [rest_simps]:
  "drain_control_timed (on_store c u a base) i dl (s, v) =
     (fst (drain_control_timed base i dl v), s, snd (drain_control_timed base i dl v))"
  "drain_control_timed (storeless base) i dl v = drain_control_timed base i dl v"
  by (cases "op_recv_wait base i dl v", auto simp: drain_control_timed_def on_store_sel Let_def split_beta split: recv.split option.split)

lemma broker_after_policy_rest [rest_simps]:
  "broker_after_policy (on_store c u a base) d ctl conv turns ws active resp dec (s, v) =
     map_option (\<lambda>(rr, v'). (rr, s, v')) (broker_after_policy base d ctl conv turns ws active resp dec v)"
  "broker_after_policy (storeless base) d ctl conv turns ws active resp dec v =
     broker_after_policy base d ctl conv turns ws active resp dec v"
  by (auto simp: broker_after_policy_def rest_simps on_store_sel Let_def split: prod.splits option.splits)

lemma broker_after_policy_quiet:
  "map_option (map_prod quiet_round id) (broker_after_policy base d ctl conv turns ws active resp dec v) =
     map_option (map_prod quiet_round id) (broker_after_policy base d ctl conv turns [] active resp dec v)"
  by (auto simp: broker_after_policy_def Let_def split: prod.splits option.splits)

lemma broker_after_deliver_quiet:
  "map_option (map_prod quiet_round snd) (broker_after_deliver (on_store c u a base) d ctl st t (s, v)) =
     map_option (map_prod quiet_round id)
       (broker_after_deliver (storeless base) d ctl (st\<lparr>ls_warnings := ws\<rparr>) t v)"
proof -
  have drop_store: "map_option (map_prod quiet_round snd) (map_option (\<lambda>(rr, v'). (rr, s', v')) x) =
      map_option (map_prod quiet_round id) x" for s' :: 's and x :: "(round_result \<times> 'v) option"
    by (cases x) auto
  show ?thesis
    by (auto simp: broker_after_deliver_def Let_def on_store_sel rest_simps drop_store split_beta
        broker_after_policy_quiet [of _ _ _ _ _ "add_warning x y z" for x y z]
        simp del: option.map_comp split: option.split)
qed

lemma broker_round_quiet:
  "map_option (map_prod quiet_round snd) (broker_round (on_store c u a base) d ctl st (s, v)) =
     map_option (map_prod quiet_round id) (broker_round (storeless base) d ctl (st\<lparr>ls_warnings := ws\<rparr>) v)"
  using broker_after_deliver_quiet [of c u a base d ctl st _ s _ ws]
  by (auto simp: broker_round_def Let_def on_store_sel split: prod.splits option.splits sum.splits)

lemma quiet_round_cases:
  assumes "quiet_round rr = quiet_round rr'"
  shows "case rr of
      Finish conv turns ws status msg \<Rightarrow> \<exists>ws'. rr' = Finish conv turns ws' status msg
    | Continue st \<Rightarrow> \<exists>ws'. rr' = Continue (st\<lparr>ls_warnings := ws'\<rparr>)"
proof (cases rr)
  case (Continue st)
  with assms obtain st' where st': "rr' = Continue st'" "st\<lparr>ls_warnings := []\<rparr> = st'\<lparr>ls_warnings := []\<rparr>"
    by (cases rr') auto
  then have "st' = st\<lparr>ls_warnings := ls_warnings st'\<rparr>" by (cases st; cases st') simp
  with st' Continue show ?thesis by auto
qed (use assms in \<open>cases rr'; simp\<close>)

lemma finalize_quiet:
  "map_prod quiet_result snd (finalize (on_store c u a base) conv turns ws status msg (s, v)) =
     map_prod quiet_result id (finalize (storeless base) conv turns ws' status msg v)"
  by (simp add: finalize_def Let_def on_store_sel split_beta quiet_result_def)

lemma broker_loop_quiet:
  "map_option (map_prod quiet_result snd) (broker_loop (on_store c u a base) d ctl st (s, v)) =
     map_option (map_prod quiet_result id) (broker_loop (storeless base) d ctl (st\<lparr>ls_warnings := ws\<rparr>) v)"
proof (induction "nat (conv_max_turns (ls_conv st) - int (length (ls_turns st)))" arbitrary: st s v ws
    rule: less_induct)
  case less
  note rd = broker_round_quiet [of c u a base d ctl st s v ws]
  show ?case
  proof (cases "broker_round (on_store c u a base) d ctl st (s, v)")
    case None
    with rd show ?thesis by (simp add: broker_loop.simps)
  next
    case (Some x)
    obtain rr s1 v1 where x: "x = (rr, s1, v1)" by (cases x)
    from rd [symmetric] obtain rr' where
      r': "broker_round (storeless base) d ctl (st\<lparr>ls_warnings := ws\<rparr>) v = Some (rr', v1)"
        "quiet_round rr = quiet_round rr'"
      by (auto simp: Some x)
    show ?thesis
    proof (cases rr)
      case (Finish conv turns ws1 status msg)
      with quiet_round_cases [OF r'(2)] obtain ws2 where "rr' = Finish conv turns ws2 status msg" by auto
      with r' Some x Finish finalize_quiet show ?thesis by (simp add: broker_loop.simps)
    next
      case (Continue st1)
      with quiet_round_cases [OF r'(2)] obtain ws2 where "rr' = Continue (st1\<lparr>ls_warnings := ws2\<rparr>)" by auto
      moreover have "nat (conv_max_turns (ls_conv st1) - int (length (ls_turns st1))) <
          nat (conv_max_turns (ls_conv st) - int (length (ls_turns st)))"
        using Some x Continue by (auto elim: broker_round_Continue)
      ultimately show ?thesis
        using less r'(1) Some x Continue
        by (subst (1 2) broker_loop.simps) simp
    qed
  qed
qed

lemma broker_run_quiet:
  "map_option (map_prod quiet_result snd) (broker_run (on_store c u a base) d (s, v)) =
     map_option (map_prod quiet_result id) (broker_run (storeless base) d v)"
proof -
  have stop: "map_option (map_prod quiet_result snd)
      (map_option (\<lambda>(r, w). (r, stop_all_peers (on_store c u a base) d (op_term_stop (on_store c u a base)
        (op_cancel (on_store c u a base) k i w)))) x) =
      map_option (\<lambda>(r, w). (r, stop_all_peers base d (op_term_stop base (op_cancel base k i w))))
        (map_option (map_prod quiet_result snd) x)" for k i x
    by (cases x) (auto simp: on_store_sel rest_simps)
  have stop': "map_option (map_prod quiet_result id)
      (map_option (\<lambda>(r, w). (r, stop_all_peers base d (op_term_stop base (op_cancel base k i w)))) y) =
      map_option (\<lambda>(r, w). (r, stop_all_peers base d (op_term_stop base (op_cancel base k i w))))
        (map_option (map_prod quiet_result id) y)" for k i y
    by (cases y) auto
  let ?ops = "on_store c u a base"
  obtain now v1 where now: "op_now base v = (now, v1)" by fastforce
  define conv where "conv = (bd_conversation d)\<lparr>conv_status := ConvRunning, conv_created_at := now\<rparr>"
  let ?s = "snd (c conv s)"
  obtain se v3 where st: "start_all_peers base d conv v1 = (se, v3)" by fastforce
  obtain te v4 where ts: "op_term_start base conv v3 = (te, v4)" by fastforce
  obtain sub v5 where sb: "op_subscribe base (topic_control (conv_id conv)) v4 = (sub, v5)" by fastforce
  obtain rnd v6 where rn: "op_random base v5 = (rnd, v6)" by fastforce
  note known = now st ts sb rn
  show ?thesis
  proof (cases se)
    case (Some e)
    then show ?thesis
      using finalize_quiet [of c u a base conv "[]" "add_warning ''store create_conversation: '' (fst (c conv s)) []"
          ConvError "err_text e" ?s v3 "[]"]
      by (simp add: broker_run_def on_store_sel rest_simps known conv_def [symmetric] add_warning_def Let_def)
  next
    case started: None
    show ?thesis
    proof (cases sub)
      case (Inl e)
      let ?ws = "add_warning ''terminator start: '' te (add_warning ''store create_conversation: '' (fst (c conv s)) [])"
      let ?msg = "''control subscribe: '' @ err_text e"
      obtain r1 s1 w1 where f1: "finalize ?ops conv [] ?ws ConvError ?msg (?s, v5) = (r1, s1, w1)"
        by (cases "finalize ?ops conv [] ?ws ConvError ?msg (?s, v5)") auto
      obtain r2 w2 where f2: "finalize (storeless base) conv [] (add_warning ''terminator start: '' te []) ConvError
          ?msg v5 = (r2, w2)" by fastforce
      have "quiet_result r1 = quiet_result r2" "w1 = w2"
        using finalize_quiet [of c u a base conv "[]" ?ws ConvError ?msg ?s v5 "add_warning ''terminator start: '' te []"]
        by (simp_all only: f1 f2 map_prod_simp prod.inject snd_conv id_apply)
      then show ?thesis
        by (simp add: broker_run_def on_store_sel rest_simps known conv_def [symmetric] Let_def started Inl
            add_warning_def [of "''store create_conversation: ''" None] f1 [simplified] f2 [simplified])
    next
      case (Inr ctl)
      note lq = broker_loop_quiet [of c u a base d ctl _ ?s v6 "add_warning ''terminator start: '' te []"]
      show ?thesis
        using lq
        by (auto simp: broker_run_def on_store_sel rest_simps known conv_def [symmetric] Let_def started Inr
            add_warning_def [of "''store create_conversation: ''" None] stop stop'
            simp del: option.map_comp split: option.split)
    qed
  qed
qed

text \<open>
  C16. The store never steers a conversation: whatever the file system does, failures of every call
  included, the run on the file store gives the same turns, status, note and document, and leaves
  the rest of the world in the same state, as a run on a store that accepts everything and keeps
  nothing; only the warnings differ, and the one run returns exactly if the other does.
\<close>

theorem store_never_steers:
  "map_option (map_prod quiet_result snd) (broker_run (file_ops faults text_len st base) d (fs, v)) =
     map_option (map_prod quiet_result id) (broker_run (storeless base) d v)"
  unfolding file_ops_def by (rule broker_run_quiet)

section \<open>What a run leaves in the store\<close>

text \<open>The warnings that report a failure of the store.\<close>

definition store_ok :: "string list \<Rightarrow> bool" where
  "store_ok ws \<longleftrightarrow> list_all (\<lambda>w. \<not> has_prefix w ''store '') ws"

lemma store_ok_simps [simp]:
  "store_ok []"
  "store_ok (add_warning (''store '' @ what) e ws) \<longleftrightarrow> e = None \<and> store_ok ws"
  "store_ok (add_warning ''store create_conversation: '' e ws) \<longleftrightarrow> e = None \<and> store_ok ws"
  "store_ok (add_warning ''store append_turn: '' e ws) \<longleftrightarrow> e = None \<and> store_ok ws"
  "store_ok (add_warning ''store update_conversation: '' e ws) \<longleftrightarrow> e = None \<and> store_ok ws"
  "store_ok (add_warning ''publish turn: '' e ws) \<longleftrightarrow> store_ok ws"
  "store_ok (add_warning ''terminator start: '' e ws) \<longleftrightarrow> store_ok ws"
  by (auto simp: store_ok_def add_warning_def has_prefix_def split: option.splits)

text \<open>The conversation, turns and warnings a round hands on.\<close>

fun round_parts :: "round_result \<Rightarrow> conversation \<times> conversation_turn list \<times> string list" where
  "round_parts (Finish conv turns ws status msg) = (conv, turns, ws)"
| "round_parts (Continue st) = (ls_conv st, ls_turns st, ls_warnings st)"

lemma after_policy_parts:
  "broker_after_policy base d ctl conv turns ws active resp dec v = Some (rr, v') \<Longrightarrow>
     round_parts rr = (conv, turns, ws)"
  by (auto simp: broker_after_policy_def Let_def split: if_splits prod.splits option.splits)

text \<open>A round appends at most one turn to the store, and records it with the policy's decision.\<close>

lemma round_parts_cases [consumes 1, case_names idle turn]:
  assumes "broker_round (on_store c u a base) d ctl st (s, v) = Some (rr, s', v')"
  obtains n where "round_parts rr = ((ls_conv st)\<lparr>conv_turns_consumed := n\<rparr>, ls_turns st, ls_warnings st)" "s' = s"
  | n t0 ref v1 v2 x y t dec e pe where "op_deliver base ref (ls_env st) v1 = (Inr t0, v2)"
      "t = t0\<lparr>ct_from_id := x, ct_reason := y\<rparr>" "a t s = (e, s')" "round_parts rr = ((ls_conv st)\<lparr>conv_turns_consumed := n\<rparr>,
      ls_turns st @ [annotate_turn dec t],
      add_warning ''publish turn: '' pe (add_warning ''store append_turn: '' e (ls_warnings st)))"
proof -
  obtain cancelled v1 where cd: "op_ctx_done base v = (cancelled, v1)" by fastforce
  show thesis
  proof (cases cancelled)
    case True
    with assms cd show thesis
      by (intro that(1) [of "int (length (ls_turns st))"])
         (auto simp: broker_round_def on_store_sel Let_def)
  next
    case False
    with assms cd obtain ref where ref: "transport_for d (ls_active st) = Some ref"
      by (auto simp: broker_round_def on_store_sel Let_def split: option.splits)
    obtain res v2 where del: "op_deliver base ref (ls_env st) v1 = (res, v2)" by fastforce
    show thesis
    proof (cases res)
      case (Inl e)
      with assms cd ref del False show thesis
        by (intro that(1) [of "int (length (ls_turns st))"])
           (auto simp: broker_round_def on_store_sel Let_def)
    next
      case (Inr t0)
      with assms cd ref del False
      have ad: "broker_after_deliver (on_store c u a base) d ctl st t0 (s, v2) = Some (rr, s', v')"
        by (simp add: broker_round_def on_store_sel Let_def)
      define t where "t = t0\<lparr>ct_from_id := peer_id_from_slot (ls_active st),
        ct_reason := (if ls_turns st = [] then TurnReasonOpener else ct_reason t0)\<rparr>"
      obtain e s1 where ap: "a t s = (e, s1)" by fastforce
      from ad ap obtain dec where
        "s' = s1" "broker_after_policy base d ctl ((ls_conv st)\<lparr>conv_turns_consumed := int (length (ls_turns st) + 1)\<rparr>)
          (ls_turns st @ [annotate_turn dec t])
          (add_warning ''publish turn: '' (fst (publish_turn base t v2))
            (add_warning ''store append_turn: '' e (ls_warnings st)))
          (ls_active st)
          (stripped_response ((ls_conv st)\<lparr>conv_turns_consumed := int (length (ls_turns st) + 1)\<rparr>) t)
          dec (snd (publish_turn base t v2)) = Some (rr, v')"
        by (auto simp: broker_after_deliver_def t_def [symmetric] on_store_sel rest_simps Let_def
            split: option.splits)
      with after_policy_parts [OF this(2)] ap show thesis by (intro that(2) [OF del [unfolded Inr] t_def]) simp_all
    qed
  qed
qed

text \<open>A run creates the document and then fails before the first turn or runs the loop.\<close>

lemma on_store_run_cases [consumes 1, case_names failed loop]:
  assumes run: "broker_run (on_store c u a base) d (s, v) = Some (r, s', v')"
  obtains ce s2 conv ws msg v2 v3 where
    "conv = (bd_conversation d)\<lparr>conv_status := ConvRunning, conv_created_at := fst (op_now base v)\<rparr>"
    "c conv s = (ce, s2)" "store_ok ws \<longleftrightarrow> ce = None"
    "finalize (on_store c u a base) conv [] ws ConvError msg (s2, v2) = (r, s', v3)"
  | ce s2 conv ctl ls v2 v3 where
    "conv = (bd_conversation d)\<lparr>conv_status := ConvRunning, conv_created_at := fst (op_now base v)\<rparr>"
    "c conv s = (ce, s2)" "store_ok (ls_warnings ls) \<longleftrightarrow> ce = None" "ls_conv ls = conv" "ls_turns ls = []"
    "broker_loop (on_store c u a base) d ctl ls (s2, v2) = Some (r, s', v3)"
proof -
  let ?ops = "on_store c u a base"
  obtain now v1 where now: "op_now base v = (now, v1)" by fastforce
  define conv where "conv = (bd_conversation d)\<lparr>conv_status := ConvRunning, conv_created_at := now\<rparr>"
  have conv: "conv = (bd_conversation d)\<lparr>conv_status := ConvRunning, conv_created_at := fst (op_now base v)\<rparr>"
    by (simp add: conv_def now)
  obtain ce s2 where cr: "c conv s = (ce, s2)" by fastforce
  obtain se v3 where st: "start_all_peers base d conv v1 = (se, v3)" by fastforce
  obtain te v4 where ts: "op_term_start base conv v3 = (te, v4)" by fastforce
  obtain sub v5 where sb: "op_subscribe base (topic_control (conv_id conv)) v4 = (sub, v5)" by fastforce
  obtain rnd v6 where rn: "op_random base v5 = (rnd, v6)" by fastforce
  let ?ws = "add_warning ''store create_conversation: '' ce []"
  let ?ws' = "add_warning ''terminator start: '' te ?ws"
  note known = now cr st ts sb rn conv_def [symmetric]
  show thesis
  proof (cases se)
    case (Some e)
    with run have "finalize ?ops conv [] ?ws ConvError (err_text e) (s2, v3) = (r, s', v')"
      by (simp add: broker_run_def on_store_sel rest_simps known Let_def)
    then show thesis by (intro that(1) [OF conv cr]) simp_all
  next
    case started: None
    show thesis
    proof (cases sub)
      case (Inl e)
      let ?fin = "finalize ?ops conv [] ?ws' ConvError (''control subscribe: '' @ err_text e) (s2, v5)"
      obtain r1 s1 w1 where f: "?fin = (r1, s1, w1)" by (cases ?fin) auto
      with run started Inl have "r1 = r" "s1 = s'"
        by (auto simp: broker_run_def on_store_sel rest_simps known Let_def)
      with f show thesis by (intro that(1) [OF conv cr]) simp_all
    next
      case (Inr ctl)
      from run started Inr obtain stt s1 w1 where
        "broker_loop ?ops d ctl stt (s2, v6) = Some (r, s1, w1)" "s1 = s'"
        "ls_conv stt = conv" "ls_turns stt = []" "ls_warnings stt = ?ws'"
        by (auto simp: broker_run_def on_store_sel rest_simps known Let_def split: if_splits option.splits)
      then show thesis by (intro that(2) [OF conv cr, of stt]) simp_all
    qed
  qed
qed

lemma stamp_schema_version_end:
  "stamp_schema_version (c\<lparr>conv_turns_consumed := n, conv_status := x, conv_ended_at := y\<rparr>) =
     (stamp_schema_version c)\<lparr>conv_turns_consumed := n, conv_status := x, conv_ended_at := y\<rparr>"
  by (simp add: stamp_schema_version_def)

lemma valid_conversation_end:
  "valid_conversation (c\<lparr>conv_turns_consumed := n, conv_status := x, conv_ended_at := y\<rparr>) =
     (valid_conversation c)\<lparr>conv_turns_consumed := n, conv_status := to_valid_utf8 x, conv_ended_at := y\<rparr>"
  by (simp add: valid_conversation_def)

text \<open>
  The broker on any store that keeps the laws of \<open>conversation_log\<close>.  \<open>kept\<close> holds between the
  rounds: unless the store has failed, the document is the one created, and the log has grown by
  the turns so far.
\<close>

context conversation_log
begin

definition logged_turns :: "'s \<Rightarrow> string \<Rightarrow> conversation_turn list \<Rightarrow> 's \<Rightarrow> bool" where
  "logged_turns s0 cid turns s \<longleftrightarrow> (\<exists>ts. map unrouted ts = map unrouted turns \<and>
     log_of s cid = log_of s0 cid @ map (\<lambda>t. (Some (valid_turn t), size_of t)) ts)"

definition kept :: "'s \<Rightarrow> conversation \<Rightarrow> conversation \<times> conversation_turn list \<times> string list \<Rightarrow> 's \<Rightarrow> bool" where
  "kept s0 c parts s \<longleftrightarrow> (case parts of (conv, turns, ws) \<Rightarrow>
     (\<exists>n. conv = c\<lparr>conv_turns_consumed := n\<rparr>) \<and>
     (store_ok ws \<and> list_all (\<lambda>t. ct_conversation_id t = conv_id c) turns \<longrightarrow>
        conv_of s (conv_id c) = Some (valid_conversation (stamp_schema_version c)) \<and>
        logged_turns s0 (conv_id c) turns s))"

definition kept_result :: "'s \<Rightarrow> string \<Rightarrow> final_result \<Rightarrow> 's \<Rightarrow> bool" where
  "kept_result s0 cid r s \<longleftrightarrow>
     (store_ok (fr_warnings r) \<and> list_all (\<lambda>t. ct_conversation_id t = cid) (fr_turns r) \<longrightarrow>
        conv_of s cid = Some (valid_conversation ((valid_conversation
          (stamp_schema_version (fr_conversation r)))\<lparr>conv_status := conv_status (fr_conversation r)\<rparr>)) \<and>
        logged_turns s0 cid (fr_turns r) s)"

lemma kept_round:
  assumes "kept s0 c (ls_conv st, ls_turns st, ls_warnings st) s" and "ok (conv_id c)"
    and "broker_round (on_store create update append_one base) d ctl st (s, v) = Some (rr, s', v')"
  shows "kept s0 c (round_parts rr) s'"
  using assms(3)
proof (cases rule: round_parts_cases)
  case (idle n)
  with assms(1) show ?thesis by (auto simp: kept_def)
next
  case (turn n t0 ref v1 v2 x y t dec e pe)
  have cid: "ct_conversation_id (annotate_turn dec t) = ct_conversation_id t" by (simp add: annotate_turn_def)
  show ?thesis
  proof (cases "e = None \<and> ct_conversation_id t = conv_id c")
    case True
    then have ap: "append_one t s = (None, s')" "ok (ct_conversation_id t)" using turn(3) assms(2) by auto
    have "logged_turns s0 (conv_id c) (ls_turns st @ [annotate_turn dec t]) s'"
      if l: "logged_turns s0 (conv_id c) (ls_turns st) s"
    proof -
      from l obtain ts where ts: "map unrouted ts = map unrouted (ls_turns st)"
        "log_of s (conv_id c) = log_of s0 (conv_id c) @ map (\<lambda>t. (Some (valid_turn t), size_of t)) ts"
        by (auto simp: logged_turns_def)
      with append_log [OF ap assms(2)] True show ?thesis
        by (auto simp: logged_turns_def intro!: exI [of _ "ts @ [t]"])
    qed
    with assms(1) turn(4) append_conv [OF ap assms(2)] show ?thesis by (auto simp: kept_def cid)
  next
    case False
    with assms(1) turn(4) show ?thesis by (auto simp: kept_def cid)
  qed
qed

lemma kept_finalize:
  assumes k: "kept s0 c (conv, turns, ws) s" and id: "ok (conv_id c)"
    and fin: "finalize (on_store create update append_one base) conv turns ws status msg (s, v) = (r, s', v')"
  shows "kept_result s0 (conv_id c) r s'"
  unfolding kept_result_def
proof (intro impI, elim conjE)
  assume ok: "store_ok (fr_warnings r)"
    and ids: "list_all (\<lambda>t. ct_conversation_id t = conv_id c) (fr_turns r)"
  from k obtain n where conv: "conv = c\<lparr>conv_turns_consumed := n\<rparr>" by (auto simp: kept_def)
  define now where "now = fst (op_now base v)"
  define m where "m = (if n = 0 \<and> turns \<noteq> [] then int (length turns) else n)"
  define p where "p = \<lparr>cp_status = Some status, cp_ended_at = Some now, cp_turns_consumed = Some m\<rparr>"
  have fc: "fr_conversation r = c\<lparr>conv_turns_consumed := m, conv_status := status, conv_ended_at := Some now\<rparr>"
    and up: "update (conv_id c) p s = (fst (update (conv_id c) p s), s')"
    and ws: "fr_warnings r = add_warning ''store update_conversation: '' (fst (update (conv_id c) p s)) ws"
    using fin by (auto simp: finalize_def on_store_sel Let_def conv m_def p_def now_def split: if_splits)
  have none: "update (conv_id c) p s = (None, s')" "store_ok ws" using ok ws up by auto
  from k none(2) ids finalize_fields(1) [OF fin] have
    doc: "conv_of s (conv_id c) = Some (valid_conversation (stamp_schema_version c))"
    and lg: "logged_turns s0 (conv_id c) (fr_turns r) s"
    by (auto simp: kept_def)
  have "conv_of s' (conv_id c) =
      Some (valid_conversation (apply_conversation_patch p (valid_conversation (stamp_schema_version c))))"
    using update_conv [OF none(1) id id] doc by simp
  moreover have "apply_conversation_patch p (valid_conversation (stamp_schema_version c)) =
      (valid_conversation (stamp_schema_version (fr_conversation r)))\<lparr>conv_status := conv_status (fr_conversation r)\<rparr>"
    by (simp add: fc stamp_schema_version_end valid_conversation_end apply_conversation_patch_def p_def
        patch_val_def patch_opt_def)
  moreover have "logged_turns s0 (conv_id c) (fr_turns r) s'"
    using lg update_log [OF none(1) id id] by (simp add: logged_turns_def)
  ultimately show "conv_of s' (conv_id c) = Some (valid_conversation ((valid_conversation
      (stamp_schema_version (fr_conversation r)))\<lparr>conv_status := conv_status (fr_conversation r)\<rparr>)) \<and>
      logged_turns s0 (conv_id c) (fr_turns r) s'" by simp
qed

lemma kept_loop:
  assumes "broker_loop (on_store create update append_one base) d ctl st (s, v) = Some (r, s', v')"
    and "kept s0 c (ls_conv st, ls_turns st, ls_warnings st) s" and id: "ok (conv_id c)"
  shows "kept_result s0 (conv_id c) r s'"
proof -
  have "kept_result s0 (conv_id c) r (fst (s', v'))"
    using assms(1)
  proof (rule broker_loop_world_invariant [where
        I = "\<lambda>st w. kept s0 c (ls_conv st, ls_turns st, ls_warnings st) (fst w)"
        and Q = "\<lambda>r w. kept_result s0 (conv_id c) r (fst w)"], goal_cases)
    case 1
    with assms(2) show ?case by simp
  next
    case (2 st w st' w')
    from kept_round [OF 2(1) id, of base d ctl "snd w" "Continue st'" "fst w'" "snd w'"] 2(2) show ?case by simp
  next
    case (3 st w conv turns ws status msg w1 w2 r)
    from kept_round [OF 3(1) id, of base d ctl "snd w" _ "fst w1" "snd w1"] 3(2)
    have "kept s0 c (conv, turns, ws) (fst w1)" by fastforce
    from kept_finalize [OF this id, of base status msg "snd w1" r "fst w2" "snd w2"] 3(3) show ?case by simp
  qed
  then show ?thesis by simp
qed

lemma kept_created:
  assumes "create c s = (ce, s2)" and "ok (conv_id c)" and "store_ok ws \<longleftrightarrow> ce = None"
  shows "kept s c (c, [], ws) s2"
proof -
  have "\<exists>n. c = c\<lparr>conv_turns_consumed := n\<rparr>"
    by (rule exI [of _ "conv_turns_consumed c"]) simp
  moreover have "logged_turns s (conv_id c) [] s2" "conv_of s2 (conv_id c) =
      Some (valid_conversation (stamp_schema_version c))" if "ce = None"
    using that assms create_conv [OF _ assms(2,2)] create_log [OF _ assms(2,2)] by (auto simp: logged_turns_def)
  ultimately show ?thesis unfolding kept_def prod.case using assms(3) by simp
qed

lemma kept_run:
  assumes run: "broker_run (on_store create update append_one base) d (s, v) = Some (r, s', v')"
    and id: "ok (conv_id (bd_conversation d))"
  shows "kept_result s (conv_id (bd_conversation d)) r s'"
  using run
proof (cases rule: on_store_run_cases)
  case (failed ce s2 conv ws msg v2 v3)
  then have c: "conv_id conv = conv_id (bd_conversation d)" by simp
  from kept_finalize [OF kept_created [OF failed(2) _ failed(3)] _ failed(4)] id show ?thesis by (simp add: c)
next
  case (loop ce s2 conv ctl ls v2 v3)
  then have c: "conv_id conv = conv_id (bd_conversation d)" by simp
  from kept_loop [OF loop(6), of s conv] kept_created [OF loop(2) _ loop(3)] loop(4,5) id show ?thesis
    by (simp add: c)
qed

end

section \<open>Conversations on disk\<close>

lemma unrouted_fields:
  "unrouted s = unrouted t \<Longrightarrow> ct_index s = ct_index t \<and> ct_conversation_id s = ct_conversation_id t \<and>
     unrouted (valid_turn s) = unrouted (valid_turn t)"
proof -
  assume eq: "unrouted s = unrouted t"
  have "unrouted (valid_turn x) = valid_turn (unrouted x)" for x
    by (simp add: unrouted_def valid_turn_def)
  with eq have "unrouted (valid_turn s) = unrouted (valid_turn t)" by simp
  moreover have "ct_index x = ct_index (unrouted x)" "ct_conversation_id x = ct_conversation_id (unrouted x)" for x
    by (simp_all add: unrouted_def)
  ultimately show ?thesis using eq by metis
qed

lemma map_unrouted_fields:
  "map unrouted ss = map unrouted ts \<Longrightarrow> map ct_index ss = map ct_index ts \<and>
     map unrouted (map valid_turn ss) = map unrouted (map valid_turn ts)"
proof (induction ss arbitrary: ts)
  case (Cons s ss)
  then obtain t ts' where ts: "ts = t # ts'" "unrouted s = unrouted t" "map unrouted ss = map unrouted ts'"
    by (cases ts) auto
  with Cons.IH [OF ts(3)] unrouted_fields [OF ts(2)] show ?case by simp
qed simp

text \<open>What the store holds after a run that it did not complain about.\<close>

lemma run_read_back:
  assumes run: "broker_run (file_ops faults text_len st base) d (fs, v) = Some (r, fs', v')"
    and id: "id_ok (conv_id (bd_conversation d))"
    and fresh: "turn_log st fs (conv_id (bd_conversation d)) = []"
    and warn: "store_ok (fr_warnings r)"
    and ids: "list_all (\<lambda>t. ct_conversation_id t = conv_id (bd_conversation d)) (fr_turns r)"
    and asc: "sorted_wrt (<) (map ct_index (fr_turns r))"
    and short: "list_all (\<lambda>(t, n). n < 1048576) (turn_log st fs' (conv_id (bd_conversation d)))"
    and srt: "slice_sort srt"
  obtains ts where "get_conversation no_faults st (conv_id (bd_conversation d)) fs' =
      Inr (Some (valid_conversation ((valid_conversation
        (stamp_schema_version (fr_conversation r)))\<lparr>conv_status := conv_status (fr_conversation r)\<rparr>)))"
    "map unrouted ts = map unrouted (fr_turns r)"
    "\<And>n. peek_conversation_turns no_faults srt st (conv_id (bd_conversation d)) n fs' = Inr (last_n n (map valid_turn ts))"
proof -
  let ?cid = "conv_id (bd_conversation d)"
  have k: "conv_at st fs' ?cid = Some (valid_conversation ((valid_conversation
      (stamp_schema_version (fr_conversation r)))\<lparr>conv_status := conv_status (fr_conversation r)\<rparr>))"
    "disk.logged_turns st text_len fs ?cid (fr_turns r) fs'"
    using disk.kept_run [OF run [unfolded file_ops_def] id] warn ids by (auto simp: disk.kept_result_def)
  from k(2) fresh obtain ts where ts: "map unrouted ts = map unrouted (fr_turns r)"
    "turn_log st fs' ?cid = map (\<lambda>t. (Some (valid_turn t), turn_size text_len t)) ts"
    by (auto simp: disk.logged_turns_def)
  have "map ct_index (map valid_turn ts) = map ct_index ts" by (simp add: valid_turn_def)
  with asc map_unrouted_fields [OF ts(1)] have "sorted_wrt (<) (map ct_index (map valid_turn ts))" by simp
  moreover have "\<forall>t \<in> set ts. turn_size text_len t < conversation_scan_limit"
    using short ts(2) by (auto simp: list_all_iff conversation_scan_limit_def)
  ultimately have "peek_conversation_turns no_faults srt st ?cid n fs' = Inr (last_n n (map valid_turn ts))" for n
    using ts(2) srt by (intro peek_turn_log)
  from that [OF get_conversation_conv_at(1) [OF k(1)] ts(1) this] show thesis .
qed


section \<open>Without faults nothing is warned about\<close>

text \<open>
  On a file system without faults the store fails only on times that JSON cannot write.  Peers
  whose turns carry the conversation's id and such times therefore leave no store warning.
\<close>

definition fine_turn :: "string \<Rightarrow> conversation_turn \<Rightarrow> bool" where
  "fine_turn cid t \<longleftrightarrow> ct_conversation_id t = cid \<and> json_time_ok (ct_started_at t) \<and> json_time_ok (ct_ended_at t)"

lemma fine_turn_simps [simp]:
  "fine_turn cid (t\<lparr>ct_from_id := x, ct_reason := y\<rparr>) = fine_turn cid t"
  "fine_turn cid (annotate_turn dec t) = fine_turn cid t"
  by (simp_all add: fine_turn_def annotate_turn_def)

lemma fine_round:
  assumes rd: "broker_round (file_ops no_faults text_len st base) d ctl ls (fs, v) = Some (rr, fs', v')"
    and del: "\<And>ref env v t v'. op_deliver base ref env v = (Inr t, v') \<Longrightarrow> fine_turn cid t"
    and I: "list_all (fine_turn cid) (ls_turns ls)" "store_ok (ls_warnings ls)"
  shows "case round_parts rr of (conv, turns, ws) \<Rightarrow> list_all (fine_turn cid) turns \<and> store_ok ws"
  using rd [unfolded file_ops_def]
proof (cases rule: round_parts_cases)
  case (turn n t0 ref v1 v2 x y t dec e pe)
  have t: "fine_turn cid t" using del [OF turn(1)] by (simp add: turn(2))
  then have "\<exists>j. marshal_turn t = Inr j" by (simp add: fine_turn_def marshal_turn_def)
  then have "fst (append_conversation_turn no_faults text_len st t fs) = None"
    using append_conversation_turn_ok by blast
  with turn(3) have "e = None" by simp
  with I t show ?thesis by (simp add: turn(4))
qed (use I in simp)

lemma fine_finalize:
  assumes fin: "finalize (file_ops no_faults text_len st base) conv turns ws status msg (fs, v) = (r, fs', v')"
    and clock: "\<And>v. json_time_ok (fst (op_now base v))"
    and doc: "conv_at st fs (conv_id conv) = Some c" "json_time_ok (conv_created_at c)" "opt_time_ok (conv_ended_at c)"
    and I: "list_all (fine_turn cid) turns" "store_ok ws"
  shows "list_all (fine_turn cid) (fr_turns r) \<and> store_ok (fr_warnings r)"
proof -
  have "fst (update_conversation no_faults st (conv_id conv) p fs) = None"
    if "cp_ended_at p = Some (fst (op_now base v))" for p
    by (rule update_conversation_ok [OF doc]) (simp add: that opt_time_ok_def clock)
  with fin I show ?thesis
    by (auto simp: finalize_def file_ops_def on_store_sel Let_def)
qed

lemma fine_loop:
  assumes loop: "broker_loop (file_ops no_faults text_len st base) d ctl ls (fs, v) = Some (r, fs', v')"
    and del: "\<And>ref env v t v'. op_deliver base ref env v = (Inr t, v') \<Longrightarrow> fine_turn (conv_id c) t"
    and clock: "\<And>v. json_time_ok (fst (op_now base v))"
    and id: "id_ok (conv_id c)" and times: "json_time_ok (conv_created_at c)" "opt_time_ok (conv_ended_at c)"
    and I: "disk.kept st text_len fs0 c (ls_conv ls, ls_turns ls, ls_warnings ls) fs"
      "list_all (fine_turn (conv_id c)) (ls_turns ls)" "store_ok (ls_warnings ls)"
  shows "list_all (fine_turn (conv_id c)) (fr_turns r) \<and> store_ok (fr_warnings r)"
  using loop
proof (rule broker_loop_world_invariant [where
      I = "\<lambda>ls w. disk.kept st text_len fs0 c (ls_conv ls, ls_turns ls, ls_warnings ls) (fst w) \<and>
        list_all (fine_turn (conv_id c)) (ls_turns ls) \<and> store_ok (ls_warnings ls)"
      and Q = "\<lambda>r _. list_all (fine_turn (conv_id c)) (fr_turns r) \<and> store_ok (fr_warnings r)"], goal_cases)
  case 1
  with I show ?case by simp
next
  case (2 ls w ls' w')
  obtain fs1 v1 fs2 v2 where w: "w = (fs1, v1)" "w' = (fs2, v2)" by (cases w; cases w')
  note rd = 2(2) [unfolded w]
  from fine_round [OF rd del] disk.kept_round [OF _ id rd [unfolded file_ops_def]] 2(1) show ?case
    by (simp add: w)
next
  case (3 ls w conv turns ws status msg w1 w2 r)
  obtain fs0' v0 fs1 v1 fs2 v2 where w: "w = (fs0', v0)" "w1 = (fs1, v1)" "w2 = (fs2, v2)"
    by (cases w; cases w1; cases w2)
  note rd = 3(2) [unfolded w]
  from fine_round [OF rd del] 3(1) have f: "list_all (fine_turn (conv_id c)) turns" "store_ok ws" by (simp_all add: w)
  from f(1) have ids: "list_all (\<lambda>t. ct_conversation_id t = conv_id c) turns"
    by (auto simp: list_all_iff fine_turn_def)
  from disk.kept_round [OF _ id rd [unfolded file_ops_def]] 3(1) f ids obtain n where
    conv: "conv = c\<lparr>conv_turns_consumed := n\<rparr>"
    and doc: "conv_at st fs1 (conv_id c) = Some (valid_conversation (stamp_schema_version c))"
    by (auto simp: w disk.kept_def)
  have "json_time_ok (conv_created_at (valid_conversation (stamp_schema_version c)))"
    "opt_time_ok (conv_ended_at (valid_conversation (stamp_schema_version c)))"
    using times by (simp_all add: valid_conversation_def stamp_schema_version_def)
  from fine_finalize [OF 3(3) [unfolded w] clock _ this f] doc show ?case by (simp add: conv)
qed

lemma fine_run:
  assumes run: "broker_run (file_ops no_faults text_len st base) d (fs, v) = Some (r, fs', v')"
    and del: "\<And>ref env v t v'. op_deliver base ref env v = (Inr t, v') \<Longrightarrow> fine_turn (conv_id (bd_conversation d)) t"
    and clock: "\<And>v. json_time_ok (fst (op_now base v))"
    and id: "id_ok (conv_id (bd_conversation d))" and ended: "opt_time_ok (conv_ended_at (bd_conversation d))"
  shows "list_all (fine_turn (conv_id (bd_conversation d))) (fr_turns r) \<and> store_ok (fr_warnings r)"
  using run [unfolded file_ops_def]
proof (cases rule: on_store_run_cases)
  case (failed ce fs2 conv ws msg v2 v3)
  then have conv: "conv_id conv = conv_id (bd_conversation d)" "json_time_ok (conv_created_at conv)"
    "opt_time_ok (conv_ended_at conv)" using clock ended by simp_all
  have ce: "ce = None" using create_conversation_ok [OF conv(2,3), of st fs] failed(2) by simp
  with disk.create_conv [of no_faults st conv fs fs2 "conv_id conv"] failed(2) id
  have doc: "conv_at st fs2 (conv_id conv) = Some (valid_conversation (stamp_schema_version conv))"
    by (simp add: conv(1))
  have "json_time_ok (conv_created_at (valid_conversation (stamp_schema_version conv)))"
    "opt_time_ok (conv_ended_at (valid_conversation (stamp_schema_version conv)))"
    using conv by (simp_all add: valid_conversation_def stamp_schema_version_def)
  from fine_finalize [OF failed(4) [folded file_ops_def] clock doc this] failed(3) ce show ?thesis by simp
next
  case (loop ce fs2 conv ctl ls v2 v3)
  then have conv: "conv_id conv = conv_id (bd_conversation d)" "json_time_ok (conv_created_at conv)"
    "opt_time_ok (conv_ended_at conv)" using clock ended by simp_all
  have ce: "ce = None" using create_conversation_ok [OF conv(2,3), of st fs] loop(2) by simp
  have "disk.kept st text_len fs conv (ls_conv ls, ls_turns ls, ls_warnings ls) fs2"
    using disk.kept_created [OF loop(2) _ loop(3)] id loop(4,5) by (simp add: conv(1))
  from fine_loop [OF loop(6) [folded file_ops_def] _ clock _ conv(2,3) this] del id loop(3,5) ce show ?thesis
    by (simp add: conv(1))
qed

section \<open>A concrete conversation on disk\<close>

text \<open>Peers that answer \<open>ok\<close> in the conversation they are asked for.\<close>

definition told_ops :: "unit broker_ops" where
  "told_ops = quiet_ops\<lparr>op_deliver := (\<lambda>_ env w. (Inr (zero_conversation_turn\<lparr>ct_conversation_id := ''c1'',
     ct_index := env_turn_index env, ct_response := ''ok''\<rparr>), w))\<rparr>"

definition on_disk_deps :: broker_deps where
  "on_disk_deps = new_broker (zero_conversation\<lparr>conv_id := ''c1'', conv_max_turns := 3\<rparr>) 0 None [] []"

lemma on_disk_sel:
  "conv_id (bd_conversation on_disk_deps) = ''c1''" "conv_ended_at (bd_conversation on_disk_deps) = None"
  "bd_policy on_disk_deps = addressed_next" "conv_max_turns (bd_conversation on_disk_deps) = 3"
  "\<not> n_peer_mode on_disk_deps"
  by (simp_all add: on_disk_deps_def new_broker_def n_peer_mode_def zero_conversation_def)

interpretation told: indexed_world "file_ops faults text_len st told_ops" for faults text_len st
  by unfold_locales (auto simp: file_ops_def on_store_def on_rest_def told_ops_def)

lemma told_laws:
  "op_deliver told_ops ref env v = (Inr t, v') \<Longrightarrow> fine_turn ''c1'' t \<and> ct_index t = env_turn_index env"
  "json_time_ok (fst (op_now told_ops v))"
  by (auto simp: told_ops_def quiet_ops_def fine_turn_def zero_conversation_turn_def json_time_ok_def)

lemma told_fresh: "turn_log demo_store empty_fs ''c1'' = []"
  by (simp add: turn_log_def empty_fs_def fs_lookup_def)

lemma told_run:
  obtains r fs' where
    "broker_run (file_ops no_faults (\<lambda>_. 100) demo_store told_ops) on_disk_deps (empty_fs, ()) = Some (r, fs', ())"
    "list_all (fine_turn ''c1'') (fr_turns r)" "store_ok (fr_warnings r)"
    "list_all (\<lambda>(t, n). n < 1048576) (turn_log demo_store fs' ''c1'')"
proof -
  let ?ops = "file_ops no_faults (\<lambda>_. 100) demo_store told_ops"
  have "fst (op_random ?ops w) \<noteq> None" for w
    by (cases w) (simp add: file_ops_def on_store_sel told_ops_def quiet_ops_def)
  then have "broker_run ?ops on_disk_deps (empty_fs, ()) \<noteq> None"
    by (intro addressed.broker_run_returns) (simp_all add: on_disk_sel)
  then obtain r fs' where run: "broker_run ?ops on_disk_deps (empty_fs, ()) = Some (r, fs', ())" by auto
  have id: "id_ok (conv_id (bd_conversation on_disk_deps))" by (simp add: on_disk_sel id_ok_def)
  have fine: "list_all (fine_turn ''c1'') (fr_turns r)" "store_ok (fr_warnings r)"
    using fine_run [OF run _ told_laws(2) id] told_laws(1) by (simp_all add: on_disk_sel opt_time_ok_def)
  have "list_all (\<lambda>(t, n). n < 1048576) (turn_log demo_store fs' ''c1'')"
    using disk.kept_run [OF run [unfolded file_ops_def] id] fine told_fresh
    by (auto simp: disk.kept_result_def disk.logged_turns_def list_all_iff turn_size_def on_disk_sel fine_turn_def)
  from that [OF run fine this] show thesis .
qed


end
