(* ===== verification/Api.thy ===== *)
theory Api
  imports FileStore
begin

text \<open>
  The HTTP API over the file store, \<open>src/internal/api\<close>: request routing (\<open>server.go\<close>), the REST
  handlers (\<open>handlers_rest.go\<close>), the middleware (\<open>middleware.go\<close>) and the admission of event
  streams (\<open>handlers_sse.go\<close>).  A request is its method, the segments of its path, its query and
  its \<open>Authorization\<close> header; a body is a JSON tree or plain text.
\<close>

section \<open>Requests and responses\<close>

record http_request =
  hr_method :: string
  hr_path :: "string list"
  hr_query :: str_map
  hr_authorization :: string

datatype http_body = JsonBody json | TextBody string | NoBody

record http_response =
  hs_status :: int
  hs_headers :: str_map
  hs_body :: http_body

record api_config =
  ac_api_key :: string
  ac_cors_origin :: string

definition max_limit :: int where "max_limit = 500"

definition is_alnum :: "char \<Rightarrow> bool" where
  "is_alnum c \<longleftrightarrow> is_digit c \<or> 65 \<le> byte c \<and> byte c \<le> 90 \<or> is_lower c"

text \<open>The regular expression \<open>^[a-zA-Z0-9_-]{1,128}$\<close>.\<close>

definition is_valid_id :: "string \<Rightarrow> bool" where
  "is_valid_id i \<longleftrightarrow> 1 \<le> length i \<and> length i \<le> 128 \<and>
     list_all (\<lambda>c. is_alnum c \<or> c = CHR ''_'' \<or> c = CHR ''-'') i"

text \<open>A value that cannot be encoded leaves the body empty: the error of the encoder is dropped.\<close>

definition write_json :: "int \<Rightarrow> json result \<Rightarrow> http_response" where
  "write_json status v =
     \<lparr>hs_status = status, hs_headers = [(''Content-Type'', ''application/json'')],
      hs_body = (case v of Inl e \<Rightarrow> NoBody | Inr j \<Rightarrow> JsonBody j)\<rparr>"

definition write_error :: "int \<Rightarrow> string \<Rightarrow> http_response" where
  "write_error status msg = write_json status (Inr (JObj [(''error'', jstr msg), (''success'', JBool False)]))"

text \<open>\<open>http.Error\<close>: plain text and a line feed.\<close>

definition http_error :: "string \<Rightarrow> int \<Rightarrow> http_response" where
  "http_error msg status =
     \<lparr>hs_status = status, hs_headers = [(''Content-Type'', ''text/plain; charset=utf-8''),
        (''X-Content-Type-Options'', ''nosniff'')], hs_body = TextBody (msg @ [nl])\<rparr>"

definition parse_limit :: "str_map \<Rightarrow> int" where
  "parse_limit q =
     (let v = map_get q ''limit'' in
      if v = [] then 20
      else case atoi v of
          None \<Rightarrow> 20
        | Some n \<Rightarrow> if n > 0 then (if n > max_limit then max_limit else n) else 20)"

definition parse_offset :: "str_map \<Rightarrow> int" where
  "parse_offset q =
     (let v = map_get q ''offset'' in
      if v = [] then 0 else case atoi v of None \<Rightarrow> 0 | Some n \<Rightarrow> if n \<ge> 0 then n else 0)"

definition parse_pagination :: "str_map \<Rightarrow> int \<times> int" where
  "parse_pagination q = (parse_limit q, parse_offset q)"

definition query_status :: "str_map \<Rightarrow> string option" where
  "query_status q = (let v = map_get q ''status'' in if v = [] then None else Some v)"

text \<open>Encoding a list fails when one of its elements cannot be encoded.\<close>

fun marshal_all :: "('a \<Rightarrow> json result) \<Rightarrow> 'a list \<Rightarrow> json list result" where
  "marshal_all f [] = Inr []"
| "marshal_all f (x # xs) =
     (case f x of Inl e \<Rightarrow> Inl e
      | Inr j \<Rightarrow> (case marshal_all f xs of Inl e \<Rightarrow> Inl e | Inr js \<Rightarrow> Inr (j # js)))"

definition list_response :: "('a \<Rightarrow> json result) \<Rightarrow> 'a list \<Rightarrow> int \<Rightarrow> int \<Rightarrow> int \<Rightarrow> json result" where
  "list_response f xs total_count limit offset =
     (case marshal_all f xs of Inl e \<Rightarrow> Inl e
      | Inr js \<Rightarrow> Inr (JObj [(''success'', JBool True), (''data'', JArr js), (''total'', JNum total_count),
          (''limit'', JNum limit), (''offset'', JNum offset)]))"

definition data_response :: "json result \<Rightarrow> json result" where
  "data_response r = (case r of Inl e \<Rightarrow> Inl e
     | Inr j \<Rightarrow> Inr (JObj [(''data'', j), (''success'', JBool True)]))"

section \<open>Handlers\<close>

text \<open>
  The sorting routines of the two list operations and of the turn log, and the faults of the
  operating system, are the same for all handlers.
\<close>

record api_env =
  ae_faults :: os_faults
  ae_store :: file_store
  ae_sort_sessions :: "(session \<Rightarrow> int) \<Rightarrow> session list \<Rightarrow> session list"
  ae_sort_conversations :: "(conversation \<Rightarrow> int) \<Rightarrow> conversation list \<Rightarrow> conversation list"
  ae_sort_turns :: "(conversation_turn \<Rightarrow> int) \<Rightarrow> conversation_turn list \<Rightarrow> conversation_turn list"

definition handle_list_sessions :: "api_env \<Rightarrow> http_request \<Rightarrow> file_sys \<Rightarrow> http_response" where
  "handle_list_sessions env r fs =
     (let (limit, offset) = parse_pagination (hr_query r);
          f = \<lparr>sf_status = query_status (hr_query r), sf_limit = limit, sf_offset = offset\<rparr>
      in case list_sessions (ae_faults env) (ae_sort_sessions env) (ae_store env) f fs of
           Inl e \<Rightarrow> write_error 500 ''internal server error''
         | Inr (xs, n) \<Rightarrow> write_json 200 (list_response marshal_session xs n limit offset))"

definition handle_get_session :: "api_env \<Rightarrow> string \<Rightarrow> file_sys \<Rightarrow> http_response" where
  "handle_get_session env i fs =
     (if \<not> is_valid_id i then write_error 400 ''invalid id''
      else case get_session (ae_faults env) (ae_store env) i fs of
          Inl e \<Rightarrow> write_error 500 ''internal server error''
        | Inr None \<Rightarrow> write_error 404 ''session not found''
        | Inr (Some s) \<Rightarrow> write_json 200 (data_response (marshal_session s)))"

definition handle_list_conversations :: "api_env \<Rightarrow> http_request \<Rightarrow> file_sys \<Rightarrow> http_response" where
  "handle_list_conversations env r fs =
     (let (limit, offset) = parse_pagination (hr_query r);
          f = \<lparr>cf_status = query_status (hr_query r), cf_limit = limit, cf_offset = offset\<rparr>
      in case list_conversations (ae_faults env) (ae_sort_conversations env) (ae_store env) f fs of
           Inl e \<Rightarrow> write_error 500 ''internal server error''
         | Inr (xs, n) \<Rightarrow> write_json 200 (list_response marshal_conversation xs n limit offset))"

definition handle_get_conversation :: "api_env \<Rightarrow> string \<Rightarrow> file_sys \<Rightarrow> http_response" where
  "handle_get_conversation env i fs =
     (if \<not> is_valid_id i then write_error 400 ''invalid id''
      else case get_conversation (ae_faults env) (ae_store env) i fs of
          Inl e \<Rightarrow> write_error 500 ''internal server error''
        | Inr None \<Rightarrow> write_error 404 ''conversation not found''
        | Inr (Some c) \<Rightarrow> write_json 200 (data_response (marshal_conversation c)))"

definition handle_list_turns :: "api_env \<Rightarrow> string \<Rightarrow> file_sys \<Rightarrow> http_response" where
  "handle_list_turns env i fs =
     (if \<not> is_valid_id i then write_error 400 ''invalid id''
      else case peek_conversation_turns (ae_faults env) (ae_sort_turns env) (ae_store env) i 0 fs of
          Inl e \<Rightarrow> write_error 500 ''internal server error''
        | Inr ts \<Rightarrow> write_json 200 (case marshal_all marshal_turn ts of Inl e \<Rightarrow> Inl e
            | Inr js \<Rightarrow> Inr (JObj [(''data'', JArr js), (''success'', JBool True), (''total'', JNum (int (length ts)))])))"

definition handle_health :: http_response where
  "handle_health = write_json 200 (Inr (JObj [(''status'', jstr ''ok'')]))"

definition handle_status :: "nat \<Rightarrow> http_response" where
  "handle_status sse = write_json 200 (Inr (JObj [(''sse_count'', JNum (int sse)), (''status'', jstr ''ok'')]))"

section \<open>Event streams\<close>

definition max_sse_connections :: nat where "max_sse_connections = 10"

text \<open>
  \<open>acquireSSESlot\<close>: the compare-and-swap loop makes the test and the increment one step. A stream
  gives its slot back when its handler returns.
\<close>

definition acquire_sse_slot :: "nat \<Rightarrow> http_response option \<times> nat" where
  "acquire_sse_slot cur =
     (if cur \<ge> max_sse_connections then (Some (http_error ''too many SSE connections'' 503), cur) else (None, cur + 1))"

definition release_sse_slot :: "nat \<Rightarrow> nat" where
  "release_sse_slot cur = cur - 1"

definition stream_headers :: str_map where
  "stream_headers = [(''Content-Type'', ''text/event-stream''), (''Cache-Control'', ''no-cache''),
     (''X-Accel-Buffering'', ''no'')]"

text \<open>The text of one event; \<open>data\<close> is the JSON text of its payload.\<close>

definition send_sse_event :: "string \<Rightarrow> string \<Rightarrow> string" where
  "send_sse_event kind data = ''event: '' @ kind @ [nl] @ ''data: '' @ data @ [nl, nl]"

definition send_sse_comment :: "string \<Rightarrow> string" where
  "send_sse_comment c = '': '' @ c @ [nl, nl]"

section \<open>Routing and middleware\<close>

datatype endpoint =
    EHealth | EStatus | ESessions | ESession string | EConversations | EConversation string | ETurns string
  | ELifecycleStream | EStream string

text \<open>
  The patterns of \<open>registerRoutes\<close>; the literal \<open>stream\<close> wins over the wildcard, which does not
  match an empty segment.  The segments are those of a cleaned path, with percent escapes
  decoded: the multiplexer redirects other paths before it looks at its patterns.
\<close>

definition route_path :: "string list \<Rightarrow> endpoint option" where
  "route_path p =
     (if [] \<in> set p then None
      else if p = [''health''] then Some EHealth
      else if take 2 p = [''api'', ''v1''] then
        (case drop 2 p of
           [a] \<Rightarrow> if a = ''status'' then Some EStatus
             else if a = ''sessions'' then Some ESessions
             else if a = ''conversations'' then Some EConversations else None
         | [a, i] \<Rightarrow> if a = ''sessions'' then Some (ESession i)
             else if a = ''conversations'' then (if i = ''stream'' then Some ELifecycleStream else Some (EConversation i))
             else None
         | [a, i, b] \<Rightarrow> if a = ''conversations'' \<and> b = ''turns'' then Some (ETurns i)
             else if a = ''conversations'' \<and> b = ''stream'' then Some (EStream i) else None
         | _ \<Rightarrow> None)
      else None)"

text \<open>The state of the server is its stream counter; an admitted stream answers with its headers.\<close>

definition handle_endpoint ::
    "api_env \<Rightarrow> http_request \<Rightarrow> file_sys \<Rightarrow> endpoint \<Rightarrow> nat \<Rightarrow> http_response \<times> nat" where
  "handle_endpoint env r fs ep sse =
     (let admit = (case acquire_sse_slot sse of
            (Some resp, n) \<Rightarrow> (resp, n)
          | (None, n) \<Rightarrow> (\<lparr>hs_status = 200, hs_headers = stream_headers, hs_body = NoBody\<rparr>, n))
      in case ep of
           EHealth \<Rightarrow> (handle_health, sse)
         | EStatus \<Rightarrow> (handle_status sse, sse)
         | ESessions \<Rightarrow> (handle_list_sessions env r fs, sse)
         | ESession i \<Rightarrow> (handle_get_session env i fs, sse)
         | EConversations \<Rightarrow> (handle_list_conversations env r fs, sse)
         | EConversation i \<Rightarrow> (handle_get_conversation env i fs, sse)
         | ETurns i \<Rightarrow> (handle_list_turns env i fs, sse)
         | ELifecycleStream \<Rightarrow> admit
         | EStream i \<Rightarrow> if is_valid_id i then admit else (write_error 400 ''invalid id'', sse))"

definition mux_serve :: "api_env \<Rightarrow> http_request \<Rightarrow> file_sys \<Rightarrow> nat \<Rightarrow> http_response \<times> nat" where
  "mux_serve env r fs sse =
     (case route_path (hr_path r) of
        None \<Rightarrow> (http_error ''404 page not found'' 404, sse)
      | Some ep \<Rightarrow>
         if hr_method r = ''GET'' \<or> hr_method r = ''HEAD'' then handle_endpoint env r fs ep sse
         else ((http_error ''Method Not Allowed'' 405)\<lparr>hs_headers := [(''Allow'', ''GET, HEAD''),
             (''Content-Type'', ''text/plain; charset=utf-8''), (''X-Content-Type-Options'', ''nosniff'')]\<rparr>, sse))"

text \<open>A header set before the handler runs is kept unless the handler sets it again.\<close>

definition add_headers :: "str_map \<Rightarrow> http_response \<Rightarrow> http_response" where
  "add_headers hs resp = resp\<lparr>hs_headers := fold (\<lambda>(k, v). map_put k v) (hs_headers resp) hs\<rparr>"

definition cors_headers :: "string \<Rightarrow> str_map" where
  "cors_headers origin =
     [(''Access-Control-Allow-Origin'', if origin = [] then ''*'' else origin),
      (''Access-Control-Allow-Methods'', ''GET, POST, OPTIONS''),
      (''Access-Control-Allow-Headers'', ''Content-Type, Authorization'')]"

definition cors_middleware ::
    "string \<Rightarrow> (http_request \<Rightarrow> nat \<Rightarrow> http_response \<times> nat) \<Rightarrow> http_request \<Rightarrow> nat \<Rightarrow> http_response \<times> nat" where
  "cors_middleware origin next r sse =
     (if hr_method r = ''OPTIONS''
      then (\<lparr>hs_status = 204, hs_headers = cors_headers origin, hs_body = NoBody\<rparr>, sse)
      else let (resp, n) = next r sse in (add_headers (cors_headers origin) resp, n))"

definition api_key_middleware ::
    "string \<Rightarrow> (http_request \<Rightarrow> nat \<Rightarrow> http_response \<times> nat) \<Rightarrow> http_request \<Rightarrow> nat \<Rightarrow> http_response \<times> nat" where
  "api_key_middleware key next r sse =
     (if key = [] then next r sse
      else let auth = hr_authorization r in
        if \<not> has_prefix auth ''Bearer '' \<or> trim_prefix auth ''Bearer '' \<noteq> key
        then (http_error ''unauthorized'' 401, sse) else next r sse)"

definition api_serve :: "api_config \<Rightarrow> api_env \<Rightarrow> http_request \<Rightarrow> file_sys \<Rightarrow> nat \<Rightarrow> http_response \<times> nat" where
  "api_serve cfg env r fs sse =
     (let h = cors_middleware (ac_cors_origin cfg) (\<lambda>r sse. mux_serve env r fs sse)
      in if ac_api_key cfg \<noteq> [] then api_key_middleware (ac_api_key cfg) h r sse else h r sse)"

text \<open>The address the server listens on, and the end of \<open>ListenAndServe\<close>: cancelled, or the server returned.\<close>

definition server_addr :: "int \<Rightarrow> string" where
  "server_addr port = (if port \<noteq> 0 then '':'' @ itoa port else '':0'')"

datatype serve_end = ServeCancelled | ServeReturned "go_error option"

definition listen_and_serve :: "serve_end \<Rightarrow> go_error option" where
  "listen_and_serve e = (case e of ServeCancelled \<Rightarrow> None | ServeReturned err \<Rightarrow> err)"

section \<open>Access control\<close>

lemma bearer_check:
  "(\<not> has_prefix auth p \<or> trim_prefix auth p \<noteq> key) \<longleftrightarrow> auth \<noteq> p @ key"
  by (auto simp: trim_prefix_def has_prefix_iff prefix_def)

text \<open>
  With an API key configured, a request is handled if its \<open>Authorization\<close> header is exactly
  \<open>Bearer\<close>, a blank and the key, and then as a server without key handles it. Every other
  request, also the preflight request of a browser, is answered with 401, whatever the files
  and the open streams are, and takes no stream slot.
\<close>

theorem api_key_required:
  assumes "ac_api_key cfg \<noteq> []"
  shows "api_serve cfg env r fs sse =
     (if hr_authorization r = ''Bearer '' @ ac_api_key cfg then api_serve (cfg\<lparr>ac_api_key := []\<rparr>) env r fs sse
      else (http_error ''unauthorized'' 401, sse))"
  unfolding api_serve_def api_key_middleware_def Let_def bearer_check using assms by simp

section \<open>No path traversal\<close>

lemma is_valid_id_ok: "is_valid_id i \<Longrightarrow> id_ok i"
proof -
  have "\<not> (is_alnum slash \<or> slash = CHR ''_'' \<or> slash = CHR ''-'')"
    by (simp add: is_alnum_def is_digit_def is_lower_def byte_def)
  then show "is_valid_id i \<Longrightarrow> id_ok i" unfolding is_valid_id_def id_ok_def list_all_iff by blast
qed

text \<open>The files an id names: direct children of the store's directories whose name starts with the id.\<close>

definition id_files :: "file_store \<Rightarrow> string \<Rightarrow> string set" where
  "id_files s i = {path_prefix (sessions_dir s) @ i @ ''.json'', path_prefix (conversations_dir s) @ i @ ''.json'',
     path_prefix (conversations_dir s) @ i @ ''.jsonl''}"

lemma store_reads_id_files:
  assumes "id_ok i" and "\<forall>p \<in> id_files s i. fs_lookup fs p = fs_lookup fs' p"
  shows "get_session faults s i fs = get_session faults s i fs'"
    and "get_conversation faults s i fs = get_conversation faults s i fs'"
    and "peek_conversation_turns faults srt s i n fs = peek_conversation_turns faults srt s i n fs'"
proof -
  have "session_path s i \<in> id_files s i" "conversation_path s i \<in> id_files s i" "conversation_turn_path s i \<in> id_files s i"
    using assms(1) by (simp_all add: id_files_def session_path_id conversation_paths)
  then have eq: "fs_lookup fs (session_path s i) = fs_lookup fs' (session_path s i)"
    "fs_lookup fs (conversation_path s i) = fs_lookup fs' (conversation_path s i)"
    "fs_lookup fs (conversation_turn_path s i) = fs_lookup fs' (conversation_turn_path s i)"
    using assms(2) by blast+
  show "get_session faults s i fs = get_session faults s i fs'"
    "get_conversation faults s i fs = get_conversation faults s i fs'"
    "peek_conversation_turns faults srt s i n fs = peek_conversation_turns faults srt s i n fs'"
    unfolding get_session_def get_conversation_def peek_conversation_turns_def get_doc_def peek_lines_def eq
    by (rule refl)+
qed

lemma handlers_read_id_files:
  assumes "\<forall>p \<in> id_files (ae_store env) i. fs_lookup fs p = fs_lookup fs' p"
  shows "handle_get_session env i fs = handle_get_session env i fs'"
    and "handle_get_conversation env i fs = handle_get_conversation env i fs'"
    and "handle_list_turns env i fs = handle_list_turns env i fs'"
proof -
  have eq: "is_valid_id i \<Longrightarrow> get_session (ae_faults env) (ae_store env) i fs = get_session (ae_faults env) (ae_store env) i fs'"
    "is_valid_id i \<Longrightarrow> get_conversation (ae_faults env) (ae_store env) i fs = get_conversation (ae_faults env) (ae_store env) i fs'"
    "is_valid_id i \<Longrightarrow> peek_conversation_turns (ae_faults env) (ae_sort_turns env) (ae_store env) i 0 fs =
       peek_conversation_turns (ae_faults env) (ae_sort_turns env) (ae_store env) i 0 fs'"
    by (rule store_reads_id_files [OF is_valid_id_ok assms], assumption)+
  show "handle_get_session env i fs = handle_get_session env i fs'"
    "handle_get_conversation env i fs = handle_get_conversation env i fs'"
    "handle_list_turns env i fs = handle_list_turns env i fs'"
    by (cases "is_valid_id i"; simp add: handle_get_session_def handle_get_conversation_def handle_list_turns_def eq)+
qed

fun names_id :: "endpoint \<Rightarrow> string \<Rightarrow> bool" where
  "names_id (ESession k) i \<longleftrightarrow> k = i"
| "names_id (EConversation k) i \<longleftrightarrow> k = i"
| "names_id (ETurns k) i \<longleftrightarrow> k = i"
| "names_id (EStream k) i \<longleftrightarrow> k = i"
| "names_id _ i \<longleftrightarrow> False"

lemma handle_endpoint_reads_id_files:
  assumes "names_id ep i" and "\<forall>p \<in> id_files (ae_store env) i. fs_lookup fs p = fs_lookup fs' p"
  shows "handle_endpoint env r fs ep sse = handle_endpoint env r fs' ep sse"
  using assms(1) handlers_read_id_files [OF assms(2)] by (cases ep) (simp_all add: handle_endpoint_def)

lemma api_serve_cong:
  assumes "mux_serve env r fs sse = mux_serve env r fs' sse"
  shows "api_serve cfg env r fs sse = api_serve cfg env r fs' sse"
  using assms by (simp add: api_serve_def api_key_middleware_def cors_middleware_def Let_def)

text \<open>
  C23. A request that names an id, whatever characters the id has, reads no other file than the
  documents of that id that lie directly in the store's directories: on two file systems that agree
  on those three paths the server answers alike.  An id that is not 1 to 128 letters, digits,
  underscores and dashes is refused with 400 before the store is asked.
\<close>

theorem api_reads_only_the_id:
  assumes "route_path (hr_path r) = Some ep" and "names_id ep i"
    and "\<forall>p \<in> id_files (ae_store env) i. fs_lookup fs p = fs_lookup fs' p"
  shows "api_serve cfg env r fs sse = api_serve cfg env r fs' sse \<and>
    (is_valid_id i \<or> handle_endpoint env r fs ep sse = (write_error 400 ''invalid id'', sse))"
proof (intro conjI)
  show "api_serve cfg env r fs sse = api_serve cfg env r fs' sse"
    by (intro api_serve_cong) (simp add: mux_serve_def assms(1) handle_endpoint_reads_id_files [OF assms(2,3)])
  show "is_valid_id i \<or> handle_endpoint env r fs ep sse = (write_error 400 ''invalid id'', sse)"
    using assms(2) by (cases ep) (simp_all add: handle_endpoint_def handle_get_session_def
        handle_get_conversation_def handle_list_turns_def)
qed

section \<open>The stream counter under concurrency\<close>

text \<open>
  Handlers run concurrently and share the counter.  A handler that wants a slot loads the counter,
  gives up if it is at the limit, and otherwise tries to swap in the value it computed from what it
  loaded; it starts again if another handler was faster.  Each load, swap and release is one
  atomic step of one handler.
\<close>

datatype slot_state = Wants | Loaded nat | Holding | Refused | Finished

record sse_server =
  sv_count :: nat
  sv_handlers :: "slot_state list"

definition slot_load :: "nat \<Rightarrow> sse_server \<Rightarrow> sse_server" where
  "slot_load i s =
     (let cur = sv_count s in
      s\<lparr>sv_handlers := (sv_handlers s)[i := if cur \<ge> max_sse_connections then Refused else Loaded cur]\<rparr>)"

definition slot_swap :: "nat \<Rightarrow> nat \<Rightarrow> sse_server \<Rightarrow> sse_server" where
  "slot_swap i cur s =
     (if sv_count s = cur then s\<lparr>sv_count := cur + 1, sv_handlers := (sv_handlers s)[i := Holding]\<rparr>
      else s\<lparr>sv_handlers := (sv_handlers s)[i := Wants]\<rparr>)"

definition slot_release :: "nat \<Rightarrow> sse_server \<Rightarrow> sse_server" where
  "slot_release i s = s\<lparr>sv_count := release_sse_slot (sv_count s), sv_handlers := (sv_handlers s)[i := Finished]\<rparr>"

inductive sse_step :: "sse_server \<Rightarrow> sse_server \<Rightarrow> bool" where
  arrive: "sse_step s (s\<lparr>sv_handlers := sv_handlers s @ [Wants]\<rparr>)"
| load: "i < length (sv_handlers s) \<Longrightarrow> sv_handlers s ! i = Wants \<Longrightarrow> sse_step s (slot_load i s)"
| swap: "i < length (sv_handlers s) \<Longrightarrow> sv_handlers s ! i = Loaded cur \<Longrightarrow> sse_step s (slot_swap i cur s)"
| release: "i < length (sv_handlers s) \<Longrightarrow> sv_handlers s ! i = Holding \<Longrightarrow> sse_step s (slot_release i s)"

definition sse_start :: sse_server where
  "sse_start = \<lparr>sv_count = 0, sv_handlers = []\<rparr>"

text \<open>\<open>NewServer\<close>: \<open>listen\<close> binds the address; the routes are those of \<open>route_path\<close>.\<close>

definition new_server :: "(string \<Rightarrow> go_error option) \<Rightarrow> int \<Rightarrow> sse_server result" where
  "new_server listen port = (case listen (server_addr port) of Some e \<Rightarrow> Inl e | None \<Rightarrow> Inr sse_start)"

definition holders :: "sse_server \<Rightarrow> nat" where
  "holders s = count_list (sv_handlers s) Holding"

definition slots_inv :: "sse_server \<Rightarrow> bool" where
  "slots_inv s \<longleftrightarrow> sv_count s = holders s \<and> sv_count s \<le> max_sse_connections \<and>
     (\<forall>cur. Loaded cur \<in> set (sv_handlers s) \<longrightarrow> cur < max_sse_connections)"

lemma count_list_update:
  "i < length xs \<Longrightarrow> count_list (xs[i := y]) z + (if xs ! i = z then 1 else 0) = count_list xs z + (if y = z then 1 else 0)"
proof (induction xs arbitrary: i)
  case (Cons x xs)
  then show ?case by (cases i) (auto simp: algebra_simps)
qed simp

lemma Loaded_in_update:
  "Loaded cur \<in> set (xs[i := y]) \<Longrightarrow> Loaded cur \<in> set xs \<or> y = Loaded cur"
  using set_update_subset_insert by fastforce

lemma slots_inv_step: "sse_step s s' \<Longrightarrow> slots_inv s \<Longrightarrow> slots_inv s'"
proof (induction rule: sse_step.induct)
  case (arrive s)
  then show ?case by (auto simp: slots_inv_def holders_def)
next
  case (load i s)
  then show ?case using count_list_update [OF load(1), of _ Holding]
    by (auto simp: slots_inv_def holders_def slot_load_def Let_def dest!: Loaded_in_update split: if_splits)
next
  case (swap i s cur)
  then have "cur < max_sse_connections" by (metis nth_mem slots_inv_def)
  with swap show ?case using count_list_update [OF swap(1), of _ Holding]
    by (auto simp: slots_inv_def holders_def slot_swap_def dest!: Loaded_in_update split: if_splits)
next
  case (release i s)
  then show ?case using count_list_update [OF release(1), of Finished Holding]
    by (auto simp: slots_inv_def holders_def slot_release_def release_sse_slot_def dest!: Loaded_in_update split: if_splits)
qed

lemma slots_inv_reachable: "sse_step\<^sup>*\<^sup>* sse_start s \<Longrightarrow> slots_inv s"
  by (induction rule: rtranclp_induct) (auto simp: slots_inv_step, simp add: sse_start_def slots_inv_def holders_def)

text \<open>
  Each step is one atomic operation on the counter, or leaves it alone: a handler that is refused
  saw a full server, one that is admitted took a free slot, and the others changed nothing.
\<close>

lemma sse_step_atomic:
  assumes "sse_step s s'" and that: "slots_inv s"
  shows "sv_count s' = sv_count s \<or> acquire_sse_slot (sv_count s) = (None, sv_count s') \<or>
     sv_count s' = release_sse_slot (sv_count s)"
  using assms(1)
proof cases
  case (swap i cur)
  then have "cur < max_sse_connections" using that by (metis nth_mem slots_inv_def)
  then show ?thesis by (simp add: swap(1) slot_swap_def acquire_sse_slot_def)
qed (simp_all add: slot_load_def slot_release_def Let_def)

text \<open>
  C24. However the handlers of the event streams interleave, the counter equals the number of
  open streams and never exceeds 10; a handler is refused only when all slots are taken, and
  every change of the counter is an admission or a release that the sequential operations describe.
\<close>

theorem sse_slots_bounded:
  assumes "sse_step\<^sup>*\<^sup>* sse_start s" and "sse_step s s'"
  shows "sv_count s = holders s \<and> holders s \<le> max_sse_connections \<and>
    (count_list (sv_handlers s') Refused > count_list (sv_handlers s) Refused \<longrightarrow>
       holders s = max_sse_connections \<and> acquire_sse_slot (sv_count s) \<noteq> (None, sv_count s + 1)) \<and>
    (sv_count s' \<noteq> sv_count s \<longrightarrow> acquire_sse_slot (sv_count s) = (None, sv_count s') \<or>
       sv_count s' = release_sse_slot (sv_count s))"
proof (intro conjI impI)
  have inv: "slots_inv s" by (rule slots_inv_reachable [OF assms(1)])
  then show c: "sv_count s = holders s" and le: "holders s \<le> max_sse_connections" by (simp_all add: slots_inv_def)
  show "acquire_sse_slot (sv_count s) = (None, sv_count s') \<or> sv_count s' = release_sse_slot (sv_count s)"
    if "sv_count s' \<noteq> sv_count s" using sse_step_atomic [OF assms(2) inv] that by simp
  assume more: "count_list (sv_handlers s') Refused > count_list (sv_handlers s) Refused"
  from assms(2) have "sv_count s \<ge> max_sse_connections"
  proof cases
    case (load i)
    then show ?thesis using more count_list_update [OF load(2), of "Loaded (sv_count s)" Refused]
      by (auto simp: slot_load_def Let_def split: if_splits)
  next
    case (swap i cur)
    then show ?thesis using more count_list_update [OF swap(2), of _ Refused]
      by (auto simp: slot_swap_def split: if_splits) 
  next
    case (release i)
    then show ?thesis using more count_list_update [OF release(2), of _ Refused]
      by (auto simp: slot_release_def split: if_splits)
  qed (use more in simp)
  with c le show "holders s = max_sse_connections" "acquire_sse_slot (sv_count s) \<noteq> (None, sv_count s + 1)"
    by (simp_all add: acquire_sse_slot_def)
qed

definition demo_env :: api_env where
  "demo_env = \<lparr>ae_faults = no_faults, ae_store = \<lparr>st_root = ''/s'', st_debug_raw = False\<rparr>,
     ae_sort_sessions = (\<lambda>k. sort_key k), ae_sort_conversations = (\<lambda>k. sort_key k), ae_sort_turns = (\<lambda>k. sort_key k)\<rparr>"

definition get_request :: "string list \<Rightarrow> http_request" where
  "get_request p = \<lparr>hr_method = ''GET'', hr_path = p, hr_query = [], hr_authorization = ''Bearer k''\<rparr>"

definition demo_config :: "string \<Rightarrow> api_config" where
  "demo_config key = \<lparr>ac_api_key = key, ac_cors_origin = []\<rparr>"

theorem api_key_required_witness:
  "fst (api_serve (demo_config ''key'') demo_env (get_request [''health''])
     \<lparr>fs_dirs = [], fs_files = []\<rparr> 3) = http_error ''unauthorized'' 401"
  by (subst api_key_required) (simp_all add: demo_config_def get_request_def)

theorem api_reads_only_the_id_witness:
  "api_serve (demo_config []) demo_env (get_request [''api'', ''v1'', ''sessions'', ''../secret''])
       \<lparr>fs_dirs = [], fs_files = [(''/s/secret.json'', Doc None)]\<rparr> 0
     = api_serve (demo_config []) demo_env (get_request [''api'', ''v1'', ''sessions'', ''../secret''])
       \<lparr>fs_dirs = [], fs_files = []\<rparr> 0"
  by (rule api_reads_only_the_id [of _ "ESession ''../secret''" "''../secret''", THEN conjunct1])
    (simp_all add: get_request_def route_path_def id_files_def demo_env_def fs_lookup_def sessions_dir_def conversations_dir_def
      path_prefix_def path_rooted_def path_join_def path_clean_def clean_elems_def clean_step_def Let_def)


text \<open>Two handlers load the empty counter, and the first swaps: the second is about to fail.\<close>

definition demo_race :: sse_server where
  "demo_race = \<lparr>sv_count = 1, sv_handlers = [Holding, Loaded 0]\<rparr>"

lemma demo_race_reachable: "sse_step\<^sup>*\<^sup>* sse_start demo_race"
proof -
  have "sse_step\<^sup>*\<^sup>* sse_start \<lparr>sv_count = 0, sv_handlers = [Wants]\<rparr>"
    using sse_step.arrive [of sse_start] by (simp add: sse_start_def r_into_rtranclp)
  also have "sse_step \<dots> \<lparr>sv_count = 0, sv_handlers = [Wants, Wants]\<rparr>"
    using sse_step.arrive [of "\<lparr>sv_count = 0, sv_handlers = [Wants]\<rparr>"] by simp
  also have "sse_step \<dots> \<lparr>sv_count = 0, sv_handlers = [Loaded 0, Wants]\<rparr>"
    using sse_step.load [of 0 "\<lparr>sv_count = 0, sv_handlers = [Wants, Wants]\<rparr>"]
    by (simp add: slot_load_def max_sse_connections_def)
  also have "sse_step \<dots> \<lparr>sv_count = 0, sv_handlers = [Loaded 0, Loaded 0]\<rparr>"
    using sse_step.load [of 1 "\<lparr>sv_count = 0, sv_handlers = [Loaded 0, Wants]\<rparr>"]
    by (simp add: slot_load_def max_sse_connections_def)
  also have "sse_step \<dots> demo_race"
    using sse_step.swap [of 0 "\<lparr>sv_count = 0, sv_handlers = [Loaded 0, Loaded 0]\<rparr>" 0]
    by (simp add: slot_swap_def demo_race_def)
  finally show ?thesis .
qed

theorem sse_slots_bounded_witness:
  "sse_step\<^sup>*\<^sup>* sse_start demo_race \<and> sse_step demo_race (slot_swap 1 0 demo_race) \<and>
   sv_count demo_race = holders demo_race \<and> holders demo_race \<le> max_sse_connections"
proof -
  have "sse_step demo_race (slot_swap 1 0 demo_race)" by (rule sse_step.swap) (simp_all add: demo_race_def)
  then show ?thesis using demo_race_reachable sse_slots_bounded [OF demo_race_reachable] by blast
qed

end
