(* ===== verification/Served.thy ===== *)
theory Served
  imports Recorded Api
begin

text \<open>
  The broker, the file store and the HTTP server together: what \<open>vitis serve\<close> answers about a
  conversation that \<open>vitis converse\<close> has recorded.
\<close>

section \<open>The times of a recorded conversation\<close>

lemma finalize_times:
  assumes "finalize ops conv turns ws status msg w = (r, w')"
  shows "conv_created_at (fr_conversation r) = conv_created_at conv"
    "conv_ended_at (fr_conversation r) = Some (fst (op_now ops w))"
  using assms by (auto simp: finalize_def Let_def split: prod.splits if_splits)

lemma round_created:
  assumes "broker_round (on_store c u a base) d ctl ls w = Some (rr, w')"
  shows "conv_created_at (fst (round_parts rr)) = conv_created_at (ls_conv ls)"
proof -
  obtain s v s' v' where w: "w = (s, v)" "w' = (s', v')" by (cases w; cases w')
  show ?thesis using assms [unfolded w] by (cases rule: round_parts_cases) auto
qed

lemma run_times:
  assumes "broker_run (on_store c u a base) d (s, v) = Some (r, s', v')"
  obtains v1 v2 where "conv_created_at (fr_conversation r) = fst (op_now base v1)"
    "conv_ended_at (fr_conversation r) = Some (fst (op_now base v2))"
  using assms
proof (cases rule: on_store_run_cases)
  case (failed ce s2 conv ws msg v2 v3)
  with finalize_times [OF failed(4)] show thesis by (intro that) (auto simp: on_store_sel)
next
  case (loop ce s2 conv ctl ls v2 v3)
  have "conv_created_at (fr_conversation r) = conv_created_at conv \<and>
      (\<exists>w. conv_ended_at (fr_conversation r) = Some (fst (op_now (on_store c u a base) w)))"
    using loop(6)
  proof (rule broker_loop_world_invariant [where
        I = "\<lambda>st _. conv_created_at (ls_conv st) = conv_created_at conv"
        and Q = "\<lambda>r _. conv_created_at (fr_conversation r) = conv_created_at conv \<and>
          (\<exists>w. conv_ended_at (fr_conversation r) = Some (fst (op_now (on_store c u a base) w)))"], goal_cases)
    case (3 st w conv' turns ws status msg w1 w2 r)
    from round_created [OF 3(2)] finalize_times [OF 3(3)] 3(1) show ?case by (cases w1) auto
  qed (use loop(4) round_created in force)+
  with loop(1) that show thesis by (fastforce simp: on_store_sel)
qed

section \<open>Answers\<close>

definition answer :: "api_config \<Rightarrow> api_env \<Rightarrow> string \<Rightarrow> file_sys \<Rightarrow> nat \<Rightarrow> string list \<Rightarrow> int \<times> http_body" where
  "answer cfg env auth fs sse p =
     (let resp = fst (api_serve cfg env \<lparr>hr_method = ''GET'', hr_path = p, hr_query = [], hr_authorization = auth\<rparr> fs sse)
      in (hs_status resp, hs_body resp))"

lemma answer_endpoint:
  assumes "ac_api_key cfg = [] \<or> auth = ''Bearer '' @ ac_api_key cfg" and "route_path p = Some ep"
  shows "answer cfg env auth fs sse p =
    (let resp = fst (handle_endpoint env \<lparr>hr_method = ''GET'', hr_path = p, hr_query = [], hr_authorization = auth\<rparr> fs ep sse)
     in (hs_status resp, hs_body resp))"
  using assms
  by (auto simp: answer_def api_serve_def api_key_middleware_def cors_middleware_def mux_serve_def add_headers_def Let_def
      trim_prefix_def has_prefix_iff split: prod.splits)

lemma route_conversation:
  assumes "i \<noteq> []" "i \<noteq> ''stream''"
  shows "route_path [''api'', ''v1'', ''conversations'', i] = Some (EConversation i)"
    "route_path [''api'', ''v1'', ''conversations'', i, ''turns''] = Some (ETurns i)"
  using assms by (simp_all add: route_path_def)

lemma marshal_all_turns:
  "\<forall>t \<in> set ts. json_time_ok (ct_started_at t) \<and> json_time_ok (ct_ended_at t) \<Longrightarrow>
     marshal_all marshal_turn ts = Inr (map (\<lambda>t. JObj (turn_fields t)) ts)"
  by (induction ts) (simp_all add: marshal_turn_def)

lemma fine_unrouted:
  assumes "map unrouted ts = map unrouted us" "list_all (fine_turn cid) us"
  shows "\<forall>t \<in> set (map valid_turn ts). json_time_ok (ct_started_at t) \<and> json_time_ok (ct_ended_at t)"
proof -
  have un: "fine_turn cid t \<longleftrightarrow> fine_turn cid (unrouted t)" for t by (simp add: fine_turn_def unrouted_def)
  have "list_all (fine_turn cid) (map unrouted us)" using assms(2) un by (simp add: list_all_iff)
  then have "list_all (fine_turn cid) ts" using un by (simp add: assms(1) [symmetric] list_all_iff)
  then show ?thesis by (auto simp: list_all_iff fine_turn_def valid_turn_def)
qed

text \<open>What the two handlers answer when the store reads back a document and a list of turns.\<close>

lemma answers_read:
  assumes cid: "is_valid_id cid" "cid \<noteq> ''stream''" and auth: "ac_api_key cfg = [] \<or> auth = ''Bearer '' @ ac_api_key cfg"
    and doc: "get_conversation (ae_faults env) (ae_store env) cid fs = Inr (Some c)" "json_time_ok (conv_created_at c)"
      "opt_time_ok (conv_ended_at c)"
    and turns: "peek_conversation_turns (ae_faults env) (ae_sort_turns env) (ae_store env) cid 0 fs = Inr ts"
      "\<forall>t \<in> set ts. json_time_ok (ct_started_at t) \<and> json_time_ok (ct_ended_at t)"
  shows "answer cfg env auth fs sse [''api'', ''v1'', ''conversations'', cid] =
      (200, JsonBody (JObj [(''data'', JObj (conversation_fields c)), (''success'', JBool True)]))"
    "answer cfg env auth fs sse [''api'', ''v1'', ''conversations'', cid, ''turns''] =
      (200, JsonBody (JObj [(''data'', JArr (map (\<lambda>t. JObj (turn_fields t)) ts)), (''success'', JBool True),
        (''total'', JNum (int (length ts)))]))"
proof -
  have ne: "cid \<noteq> []" using cid(1) by (auto simp: is_valid_id_def)
  note rt = answer_endpoint [OF auth route_conversation(1) [OF ne cid(2)]]
    answer_endpoint [OF auth route_conversation(2) [OF ne cid(2)]]
  show "answer cfg env auth fs sse [''api'', ''v1'', ''conversations'', cid] =
      (200, JsonBody (JObj [(''data'', JObj (conversation_fields c)), (''success'', JBool True)]))"
    using cid(1) doc
    by (simp add: rt handle_endpoint_def handle_get_conversation_def data_response_def marshal_conversation_def
        write_json_def Let_def)
  show "answer cfg env auth fs sse [''api'', ''v1'', ''conversations'', cid, ''turns''] =
      (200, JsonBody (JObj [(''data'', JArr (map (\<lambda>t. JObj (turn_fields t)) ts)), (''success'', JBool True),
        (''total'', JNum (int (length ts)))]))"
    using cid(1) turns
    by (simp add: rt handle_endpoint_def handle_list_turns_def marshal_all_turns write_json_def Let_def)
qed



end
