(* ===== verification/Watch.thy ===== *)
theory Watch
  imports Api
begin

text \<open>
  The event streams of the HTTP API: the watcher that turns reports about changed files into
  events (\<open>src/internal/api/watcher.go\<close>) and the two stream handlers after they got their slot
  (\<open>src/internal/api/handlers_sse.go\<close>).  The reports of the notification library are an
  input, as are the wake-ups of a stream: its context, its ticker and the watcher's channel.
\<close>

section \<open>Paths\<close>

text \<open>\<open>filepath.Base\<close> and \<open>filepath.Dir\<close>.\<close>

definition path_base :: "string \<Rightarrow> string" where
  "path_base p =
     (if p = [] then ''.''
      else let t = rev (dropWhile (\<lambda>c. c = slash) (rev p)) in
        if t = [] then [slash] else rev (takeWhile (\<lambda>c. c \<noteq> slash) (rev t)))"

definition path_dir :: "string \<Rightarrow> string" where
  "path_dir p = path_clean (rev (dropWhile (\<lambda>c. c \<noteq> slash) (rev p)))"

text \<open>\<open>filepath.Rel\<close>, on the elements of the cleaned paths.\<close>

fun strip_common :: "string list \<Rightarrow> string list \<Rightarrow> string list \<times> string list" where
  "strip_common (b # bs) (t # ts) = (if b = t then strip_common bs ts else (b # bs, t # ts))"
| "strip_common bs ts = (bs, ts)"

definition path_rel :: "string \<Rightarrow> string \<Rightarrow> string option" where
  "path_rel base targ =
     (if path_clean targ = path_clean base then Some ''.''
      else if path_rooted base \<noteq> path_rooted targ then None
      else let (bs, ts) = strip_common (clean_elems base)
                 (if path_clean targ = ''.'' then [''.''] else clean_elems targ)
           in if bs \<noteq> [] \<and> ts \<noteq> [] \<and> hd bs = ''..'' then None
              else Some (str_join [slash] (map (\<lambda>_. ''..'') bs @ ts)))"

section \<open>The watcher\<close>

datatype watch_event_kind = WatchEventConversationUpdated | WatchEventTurnAdded

record watch_event =
  we_kind :: watch_event_kind
  we_conversation_id :: string
  we_file_path :: string

text \<open>A report of the notification library: whether its operation includes a write or a creation, and the path.\<close>

record file_report =
  fr_written :: bool
  fr_name :: string

definition event_buffer :: nat where "event_buffer = 64"

definition watch_dir :: "string \<Rightarrow> string \<Rightarrow> string" where
  "watch_dir root cid = path_join [root, ''conversations'', cid]"

definition watch_kind :: "string \<Rightarrow> watch_event_kind option" where
  "watch_kind base =
     (if base = ''conversation.json'' then Some WatchEventConversationUpdated
      else if base = ''turns.jsonl'' then Some WatchEventTurnAdded else None)"

definition watch_report :: "string \<Rightarrow> file_report \<Rightarrow> watch_event option" where
  "watch_report root ev =
     (if \<not> fr_written ev then None
      else case path_rel (path_join [root, ''conversations'']) (path_dir (fr_name ev)) of
          None \<Rightarrow> None
        | Some rel \<Rightarrow>
           if str_contains rel ''..'' then None
           else (case watch_kind (path_base (fr_name ev)) of
               None \<Rightarrow> None
             | Some k \<Rightarrow> Some \<lparr>we_kind = k, we_conversation_id = rel, we_file_path = fr_name ev\<rparr>))"

text \<open>One turn of the watcher's loop on its channel: an event that does not fit is dropped.\<close>

definition watch_step :: "string \<Rightarrow> file_report \<Rightarrow> watch_event list \<Rightarrow> watch_event list" where
  "watch_step root ev ch =
     (case watch_report root ev of
        None \<Rightarrow> ch
      | Some e \<Rightarrow> if length ch < event_buffer then ch @ [e] else ch)"

text \<open>
  The whole loop on its channel and whether it is closed: reports and errors of the library, and
  the ends of their channels, which \<open>Close\<close> brings about.
\<close>

datatype library_input = LibEvent file_report | LibError | LibEventsClosed | LibErrorsClosed

definition watcher_loop_step ::
    "string \<Rightarrow> library_input \<Rightarrow> watch_event list \<times> bool \<Rightarrow> watch_event list \<times> bool" where
  "watcher_loop_step root inp st =
     (case st of (ch, closed) \<Rightarrow>
        if closed then st
        else case inp of
            LibEvent ev \<Rightarrow> (watch_step root ev ch, False)
          | LibError \<Rightarrow> st
          | LibEventsClosed \<Rightarrow> (ch, True)
          | LibErrorsClosed \<Rightarrow> (ch, True))"

definition watcher_loop :: "string \<Rightarrow> library_input list \<Rightarrow> watch_event list \<times> bool" where
  "watcher_loop root inputs = fold (watcher_loop_step root) inputs ([], False)"

lemma watcher_loop_bounded: "length (fst (watcher_loop root inputs)) \<le> event_buffer"
proof -
  have "length (fst st) \<le> event_buffer \<Longrightarrow> length (fst (fold (watcher_loop_step root) inputs st)) \<le> event_buffer" for st
    by (induction inputs arbitrary: st)
       (auto simp: watcher_loop_step_def watch_step_def split: prod.splits library_input.splits option.splits)
  then show ?thesis by (simp add: watcher_loop_def event_buffer_def)
qed

section \<open>The streams\<close>

datatype sse_frame = SseEvent string json | SseComment string

fun sse_event_type :: "watch_event_kind \<Rightarrow> string" where
  "sse_event_type WatchEventConversationUpdated = ''conversation_updated''"
| "sse_event_type WatchEventTurnAdded = ''turn_added''"

fun watch_kind_number :: "watch_event_kind \<Rightarrow> int" where
  "watch_kind_number WatchEventConversationUpdated = 0"
| "watch_kind_number WatchEventTurnAdded = 1"

definition watch_event_json :: "watch_event \<Rightarrow> json" where
  "watch_event_json e = JObj [(''Kind'', JNum (watch_kind_number (we_kind e))),
     (''ConversationID'', jstr (we_conversation_id e)), (''FilePath'', jstr (we_file_path e))]"

text \<open>
  What happens while a stream is open: the client goes away, the ticker fires, the watcher takes a
  report, its channel is ready, or the library closes (which closes the channel behind the events it holds).
\<close>

datatype stream_input = ClientGone | Tick | Report file_report | Receive | LibraryClosed

record stream_state =
  ss_channel :: "watch_event list"
  ss_watching :: bool
  ss_closed :: bool
  ss_returned :: bool
  ss_frames :: "sse_frame list"

definition send :: "sse_frame \<Rightarrow> stream_state \<Rightarrow> stream_state" where
  "send f s = s\<lparr>ss_frames := ss_frames s @ [f]\<rparr>"

text \<open>
  One input of the conversation stream.  Without a store root, or if the watcher cannot be made,
  the channel is nil and never ready.
\<close>

definition stream_step :: "string \<Rightarrow> stream_input \<Rightarrow> stream_state \<Rightarrow> stream_state" where
  "stream_step root inp s =
     (if ss_returned s then s
      else case inp of
          ClientGone \<Rightarrow> s\<lparr>ss_returned := True\<rparr>
        | Tick \<Rightarrow> send (SseComment ''heartbeat'') s
        | Report ev \<Rightarrow> if ss_watching s \<and> \<not> ss_closed s then s\<lparr>ss_channel := watch_step root ev (ss_channel s)\<rparr> else s
        | LibraryClosed \<Rightarrow> if ss_watching s then s\<lparr>ss_closed := True\<rparr> else s
        | Receive \<Rightarrow>
           if \<not> ss_watching s then s
           else case ss_channel s of
               [] \<Rightarrow> if ss_closed s then s\<lparr>ss_returned := True\<rparr> else s
             | e # es \<Rightarrow> send (SseEvent (sse_event_type (we_kind e)) (watch_event_json e)) (s\<lparr>ss_channel := es\<rparr>))"

definition connected_frame :: "string option \<Rightarrow> sse_frame" where
  "connected_frame cid =
     SseEvent ''connected'' (JObj ((case cid of None \<Rightarrow> [] | Some i \<Rightarrow> [(''conversationId'', jstr i)])
       @ [(''status'', jstr ''connected'')]))"

text \<open>
  \<open>handleConversationStream\<close> from the first event on; \<open>watcher_ok\<close> says whether \<open>NewWatcher\<close>
  succeeds.  The lifecycle stream has no watcher at all.
\<close>

definition conversation_stream :: "string \<Rightarrow> bool \<Rightarrow> string \<Rightarrow> stream_input list \<Rightarrow> stream_state" where
  "conversation_stream root watcher_ok cid inputs =
     fold (stream_step root) inputs
       \<lparr>ss_channel = [], ss_watching = (root \<noteq> [] \<and> watcher_ok), ss_closed = False, ss_returned = False,
        ss_frames = [connected_frame (Some cid)]\<rparr>"

definition lifecycle_stream :: "stream_input list \<Rightarrow> stream_state" where
  "lifecycle_stream inputs =
     fold (stream_step []) inputs
       \<lparr>ss_channel = [], ss_watching = False, ss_closed = False, ss_returned = False,
        ss_frames = [connected_frame None]\<rparr>"

section \<open>What a stream sends\<close>

text \<open>The events the watcher accepts, in the order of their reports.\<close>

definition accepted :: "string \<Rightarrow> stream_input list \<Rightarrow> watch_event list" where
  "accepted root inputs = List.map_filter (\<lambda>inp. case inp of Report ev \<Rightarrow> watch_report root ev | _ \<Rightarrow> None) inputs"

fun frame_events :: "sse_frame list \<Rightarrow> json list" where
  "frame_events [] = []"
| "frame_events (SseEvent k j # fs) = j # frame_events fs"
| "frame_events (SseComment c # fs) = frame_events fs"

lemma frame_events_append [simp]: "frame_events (xs @ ys) = frame_events xs @ frame_events ys"
  by (induction xs rule: frame_events.induct) simp_all

definition stream_inv :: "json \<Rightarrow> watch_event list \<Rightarrow> stream_state \<Rightarrow> bool" where
  "stream_inv first evs s \<longleftrightarrow> length (ss_channel s) \<le> event_buffer \<and>
     (\<exists>js. frame_events (ss_frames s) = first # js \<and>
       subseq (js @ map watch_event_json (ss_channel s)) (map watch_event_json evs))"

lemma stream_inv_step:
  assumes "stream_inv first evs s"
  shows "stream_inv first (evs @ accepted root [inp]) (stream_step root inp s)"
proof -
  obtain js where js: "frame_events (ss_frames s) = first # js"
    "subseq (js @ map watch_event_json (ss_channel s)) (map watch_event_json evs)"
    and len: "length (ss_channel s) \<le> event_buffer" using assms by (auto simp: stream_inv_def)
  have more: "subseq (js @ map watch_event_json (ss_channel s)) (map watch_event_json (evs @ new))" for new
    using list_emb_append_mono [OF js(2) list_emb_Nil] by simp
  show ?thesis
  proof (cases "ss_returned s")
    case True
    then show ?thesis using js(1) more len by (auto simp: stream_inv_def stream_step_def)
  next
    case False
    show ?thesis
    proof (cases inp)
      case (Report ev)
      have "subseq (js @ map watch_event_json (ss_channel s) @ [x]) (map watch_event_json evs @ [x])" for x
        using list_emb_append_mono [OF js(2), of "[x]" "[x]"] by simp
      moreover have "subseq (js @ map watch_event_json (ss_channel s)) (map watch_event_json evs @ [x])" for x
        using list_emb_append_mono [OF js(2) list_emb_Nil, of "[x]"] by simp
      ultimately show ?thesis using False Report js more len
        by (auto simp: stream_inv_def stream_step_def watch_step_def accepted_def List.map_filter_simps split: option.splits)
    next
      case Receive
      then show ?thesis using False js(1) more len
        by (auto simp: stream_inv_def stream_step_def send_def split: list.splits)
    qed (use False js(1) more len in \<open>auto simp: stream_inv_def stream_step_def send_def\<close>)
  qed
qed

lemma accepted_append: "accepted root (xs @ ys) = accepted root xs @ accepted root ys"
  by (simp add: accepted_def List.map_filter_def)

lemma stream_inv_fold:
  "stream_inv first (accepted root done_inputs) s \<Longrightarrow>
     stream_inv first (accepted root (done_inputs @ inputs)) (fold (stream_step root) inputs s)"
proof (induction inputs arbitrary: done_inputs s)
  case (Cons inp inputs)
  have "stream_inv first (accepted root (done_inputs @ [inp])) (stream_step root inp s)"
    using stream_inv_step [OF Cons.prems] by (simp add: accepted_append)
  from Cons.IH [OF this] show ?case by simp
qed simp

lemma conversation_stream_inv:
  "stream_inv (JObj [(''conversationId'', jstr cid), (''status'', jstr ''connected'')]) (accepted root inputs)
     (conversation_stream root ok cid inputs)"
proof -
  have "stream_inv (JObj [(''conversationId'', jstr cid), (''status'', jstr ''connected'')]) (accepted root [])
     \<lparr>ss_channel = [], ss_watching = (root \<noteq> [] \<and> ok), ss_closed = False, ss_returned = False,
      ss_frames = [connected_frame (Some cid)]\<rparr>"
    by (simp add: stream_inv_def accepted_def List.map_filter_def connected_frame_def)
  from stream_inv_fold [OF this] show ?thesis unfolding conversation_stream_def by simp
qed

section \<open>The store's files are not the watched files\<close>

lemma path_prefix_last: "path_prefix d = [] \<or> last (path_prefix d) = slash"
  by (cases "clean_elems d" rule: rev_cases) (simp_all add: path_prefix_def)

lemma path_base_name:
  assumes "plain_name e"
  shows "path_base (path_prefix d @ e) = e"
proof -
  have e: "e \<noteq> []" "slash \<notin> set e" using assms by (auto simp: plain_name_def)
  then obtain c es where rev_e: "rev e = c # es" "c \<noteq> slash"
    by (metis list.exhaust list.set_intros(1) rev_is_Nil_conv set_rev)
  then have t: "dropWhile (\<lambda>c. c = slash) (rev (path_prefix d @ e)) = rev e @ rev (path_prefix d)" by simp
  have "takeWhile (\<lambda>c. c \<noteq> slash) (rev (path_prefix d)) = []"
    using path_prefix_last [of d] by (cases "path_prefix d" rule: rev_cases) auto
  then have "takeWhile (\<lambda>c. c \<noteq> slash) (rev e @ rev (path_prefix d)) = rev e"
    using e(2) by (subst takeWhile_append2) auto
  with e(1) show ?thesis unfolding path_base_def Let_def t by simp
qed

definition store_files :: "file_store \<Rightarrow> string \<Rightarrow> string set" where
  "store_files s i = {conversation_path s i, conversation_path s i @ ''.tmp'', conversation_turn_path s i}"

lemma store_files_base:
  assumes "id_ok i" and "p \<in> store_files s i"
  shows "path_base p \<in> {i @ ''.json'', i @ ''.json.tmp'', i @ ''.jsonl''}"
proof -
  have n: "plain_name (i @ ''.json'')" "plain_name (i @ ''.json.tmp'')" "plain_name (i @ ''.jsonl'')"
    using assms(1) by (auto simp: plain_name_def id_ok_def append_eq_Cons_conv)
  have "p \<in> {path_prefix (conversations_dir s) @ (i @ ''.json''), path_prefix (conversations_dir s) @ (i @ ''.json.tmp''),
      path_prefix (conversations_dir s) @ (i @ ''.jsonl'')}"
    using assms(2) unfolding store_files_def conversation_paths [OF assms(1)] by simp
  then show ?thesis using path_base_name n by auto
qed

lemma watch_kind_store_files:
  assumes "id_ok i" "i \<noteq> ''conversation''" "i \<noteq> ''turns''" and "p \<in> store_files s i"
  shows "watch_kind (path_base p) = None"
proof -
  have "xs @ ''.json'' \<noteq> ''turns.jsonl''" "xs @ ''.jsonl'' \<noteq> ''conversation.json''"
    "xs @ ''.json.tmp'' \<noteq> ''conversation.json''" "xs @ ''.json.tmp'' \<noteq> ''turns.jsonl''" for xs :: string
    by (auto dest: arg_cong [where f = last])
  moreover have "i @ ''.json'' \<noteq> ''conversation.json''" "i @ ''.jsonl'' \<noteq> ''turns.jsonl''"
    using assms(2,3) append_same_eq [of i "''.json''" "''conversation''"] append_same_eq [of i "''.jsonl''" "''turns''"] by simp_all
  ultimately show ?thesis using store_files_base [OF assms(1,4)] unfolding watch_kind_def by auto
qed

text \<open>
  C37. The stream of a conversation never tells its client about a change the file store makes:
  even if every change of every conversation file of the store were reported to the watcher,
  the stream sends the first event and then nothing but heartbeats.  The watcher waits for
  files \<open>conversation.json\<close> and \<open>turns.jsonl\<close> in a directory per conversation, which the store
  does not write.
\<close>

theorem stream_blind_to_store:
  assumes "\<forall>ev. Report ev \<in> set inputs \<longrightarrow> (\<exists>i. id_ok i \<and> i \<noteq> ''conversation'' \<and> i \<noteq> ''turns'' \<and>
      fr_name ev \<in> store_files s i)"
  shows "ss_channel (conversation_stream root ok cid inputs) = [] \<and>
    frame_events (ss_frames (conversation_stream root ok cid inputs)) =
      [JObj [(''conversationId'', jstr cid), (''status'', jstr ''connected'')]]"
proof -
  have "watch_report root ev = None" if "Report ev \<in> set inputs" for ev
    using assms that watch_kind_store_files unfolding watch_report_def
    by (fastforce split: option.split)
  then have "accepted root inputs = []"
    unfolding accepted_def List.map_filter_def by (auto simp: filter_empty_conv split: stream_input.splits)
  with conversation_stream_inv [of cid root inputs ok] show ?thesis unfolding stream_inv_def by (auto dest!: list_emb_Nil2)
qed

definition watched_store :: file_store where
  "watched_store = \<lparr>st_root = ''/s'', st_debug_raw = False\<rparr>"

theorem stream_blind_to_store_witness:
  "frame_events (ss_frames (conversation_stream ''/s'' True ''c1''
     [Report \<lparr>fr_written = True, fr_name = conversation_turn_path watched_store ''c1''\<rparr>, Receive, Tick])) =
   [JObj [(''conversationId'', jstr ''c1''), (''status'', jstr ''connected'')]]"
  by (rule stream_blind_to_store [of _ watched_store, THEN conjunct2])
    (auto intro!: exI [of _ "''c1''"] simp: id_ok_def store_files_def)

end
