(* ===== verification/GoJson.thy ===== *)
theory GoJson
  imports GoText
begin

text \<open>
  The text of JSON as package \<open>encoding/json\<close> writes and reads it: string literals with their
  escapes (HTML characters and the line separators U+2028 and U+2029 included, invalid bytes as
  U+FFFD), number literals, arrays and objects, compact as \<open>Marshal\<close> writes them or indented as
  \<open>MarshalIndent\<close> does.  A document keeps the literal of a number, since its meaning depends on the Go
  type it is read into.  Reading accepts white space between tokens and skips nothing else.  The
  nesting limit of the decoder (ten thousand) is left out: no document of the program nests deeper
  than four levels.
\<close>

datatype jdoc =
    DNull
  | DBool bool
  | DNum string
  | DStr string
  | DArr "jdoc list"
  | DObj "(string \<times> jdoc) list"

section \<open>String literals\<close>

definition unicode_escape :: "nat \<Rightarrow> string" where
  "unicode_escape r = [backslash, CHR ''u'', hex_low (r div 4096 mod 16), hex_low (r div 256 mod 16),
     hex_low (r div 16 mod 16), hex_low (r mod 16)]"

definition escape_ascii :: "char \<Rightarrow> string" where
  "escape_ascii c =
     (if c = dquote \<or> c = backslash then [backslash, c]
      else if byte c = 8 then [backslash, CHR ''b'']
      else if byte c = 12 then [backslash, CHR ''f'']
      else if c = nl then [backslash, CHR ''n'']
      else if c = cr then [backslash, CHR ''r'']
      else if c = tab then [backslash, CHR ''t'']
      else if byte c < 0x20 \<or> c = CHR ''<'' \<or> c = CHR ''>'' \<or> c = CHR ''&'' then unicode_escape (byte c)
      else [c])"

function json_escape :: "string \<Rightarrow> string" where
  "json_escape s =
     (if s = [] then []
      else (let (r, n) = utf8_decode s in
        (if r = rune_error \<and> n = 1 then unicode_escape rune_error
         else if n = 1 then escape_ascii (hd s)
         else if r = 0x2028 \<or> r = 0x2029 then unicode_escape r
         else take n s) @ json_escape (drop n s)))"
  by pat_completeness auto
termination
proof (relation "measure length", goal_cases)
  case (2 s x r n)
  then have "1 \<le> n" and "0 < length s"
    using utf8_decode_size [of s] by (auto simp: prod_eq_iff)
  then show ?case by simp
qed simp

declare json_escape.simps [simp del]

definition json_quote :: "string \<Rightarrow> string" where
  "json_quote s = dquote # json_escape s @ [dquote]"

text \<open>Four hexadecimal digits, and the two halves of a rune outside the basic plane.\<close>

definition hex_value :: "char \<Rightarrow> nat option" where
  "hex_value c =
     (let b = byte c in
      if 48 \<le> b \<and> b \<le> 57 then Some (b - 48)
      else if 97 \<le> b \<and> b \<le> 102 then Some (b - 87)
      else if 65 \<le> b \<and> b \<le> 70 then Some (b - 55)
      else None)"

fun get_u4 :: "string \<Rightarrow> nat option" where
  "get_u4 (a # b # c # d # s) =
     (case (hex_value a, hex_value b, hex_value c, hex_value d) of
        (Some w, Some x, Some y, Some z) \<Rightarrow> Some (w * 4096 + x * 256 + y * 16 + z)
      | _ \<Rightarrow> None)"
| "get_u4 _ = None"

definition is_surrogate :: "nat \<Rightarrow> bool" where
  "is_surrogate r \<longleftrightarrow> 0xD800 \<le> r \<and> r < 0xE000"

fun low_surrogate :: "string \<Rightarrow> nat option" where
  "low_surrogate (a # b # s) = (if a = backslash \<and> b = CHR ''u'' then get_u4 s else None)"
| "low_surrogate _ = None"

text \<open>The rune of an escape and how many bytes after the \<open>u\<close> it took.\<close>

definition unicode_unescape :: "string \<Rightarrow> (nat \<times> nat) option" where
  "unicode_unescape s =
     (case get_u4 s of
        None \<Rightarrow> None
      | Some r \<Rightarrow>
         if \<not> is_surrogate r then Some (r, 4)
         else (case low_surrogate (drop 4 s) of
             None \<Rightarrow> Some (rune_error, 4)
           | Some r2 \<Rightarrow>
              if r < 0xDC00 \<and> 0xDC00 \<le> r2 \<and> r2 < 0xE000
              then Some ((r - 0xD800) * 1024 + (r2 - 0xDC00) + 0x10000, 10)
              else Some (rune_error, 4)))"

definition simple_unescape :: "char \<Rightarrow> char option" where
  "simple_unescape e =
     (if e = dquote \<or> e = backslash \<or> e = CHR ''/'' then Some e
      else if e = CHR ''b'' then Some (char_of (8 :: nat))
      else if e = CHR ''f'' then Some (char_of (12 :: nat))
      else if e = CHR ''n'' then Some nl
      else if e = CHR ''r'' then Some cr
      else if e = CHR ''t'' then Some tab
      else None)"

text \<open>The rest of a string literal behind its opening quote: its value and what follows it.\<close>

function json_unescape :: "string \<Rightarrow> (string \<times> string) option" where
  "json_unescape [] = None"
| "json_unescape (c # s) =
     (if c = dquote then Some ([], s)
      else if c = backslash then
        (case s of
           [] \<Rightarrow> None
         | e # t \<Rightarrow>
            if e = CHR ''u'' then
              (case unicode_unescape t of
                 None \<Rightarrow> None
               | Some (r, n) \<Rightarrow> map_option (map_prod ((@) (utf8_encode r)) id) (json_unescape (drop n t)))
            else (case simple_unescape e of
                None \<Rightarrow> None
              | Some d \<Rightarrow> map_option (map_prod ((#) d) id) (json_unescape t)))
      else if byte c < 0x20 then None
      else (let (r, n) = utf8_decode (c # s) in
        map_option (map_prod ((@) (if r = rune_error \<and> n = 1 then utf8_encode rune_error else take n (c # s))) id)
          (json_unescape (drop (n - 1) s))))"
  by pat_completeness auto
termination
  by (relation "measure length") auto

declare json_unescape.simps [simp del]

lemma json_unescape_close [simp]: "json_unescape (dquote # s) = Some ([], s)"
  by (simp add: json_unescape.simps)

lemma hex_value_low: "n < 16 \<Longrightarrow> hex_value (hex_low n) = Some n"
proof -
  assume n: "n < 16"
  have "n \<in> set [0 ..< 16] \<Longrightarrow> hex_value (hex_low n) = Some n"
    by (auto simp: hex_value_def hex_low_def byte_def)
  with n show ?thesis by auto
qed

lemma json_unescape_unicode:
  assumes "r < 65536" and "\<not> is_surrogate r"
  shows "json_unescape (unicode_escape r @ s) = map_option (map_prod ((@) (utf8_encode r)) id) (json_unescape s)"
proof -
  have "r div 256 = r div 16 div 16" "r div 4096 = r div 256 div 16"
    by (simp_all add: div_mult2_eq [symmetric])
  moreover have "r div 4096 mod 16 = r div 4096" using assms(1) by (intro mod_less) simp
  ultimately have "r div 4096 mod 16 * 4096 + r div 256 mod 16 * 256 + r div 16 mod 16 * 16 + r mod 16 = r"
    using div_mult_mod_eq [of r 16] div_mult_mod_eq [of "r div 16" 16] div_mult_mod_eq [of "r div 256" 16] by linarith
  moreover have "hex_value (hex_low (x mod 16)) = Some (x mod 16)" for x by (simp add: hex_value_low)
  ultimately have "get_u4 (hex_low (r div 4096 mod 16) # hex_low (r div 256 mod 16) # hex_low (r div 16 mod 16)
      # hex_low (r mod 16) # s) = Some r"
    by (simp only: get_u4.simps option.case prod.case)
  with assms(2) have "unicode_unescape (hex_low (r div 4096 mod 16) # hex_low (r div 256 mod 16)
      # hex_low (r div 16 mod 16) # hex_low (r mod 16) # s) = Some (r, 4)"
    by (simp add: unicode_unescape_def)
  then show ?thesis
    by (simp add: unicode_escape_def json_unescape.simps)
qed

lemma utf8_encode_ascii: "byte c < 0x80 \<Longrightarrow> utf8_encode (byte c) = [c]"
  by (simp add: utf8_encode_def byte_def)

lemma json_unescape_ascii:
  assumes "byte c < 0x80"
  shows "json_unescape (escape_ascii c @ s) = map_option (map_prod ((#) c) id) (json_unescape s)"
proof -
  have named: "json_unescape (backslash # e # s) = map_option (map_prod ((#) d) id) (json_unescape s)"
    if "simple_unescape e = Some d" "e \<noteq> CHR ''u''" for e d
    using that by (simp add: json_unescape.simps(2) [of backslash])
  have n: "json_unescape (backslash # e # s) = map_option (map_prod ((#) d) id) (json_unescape s)"
    if "(e, d) \<in> {(dquote, dquote), (backslash, backslash), (CHR ''b'', char_of (8 :: nat)),
      (CHR ''f'', char_of (12 :: nat)), (CHR ''n'', nl), (CHR ''r'', cr), (CHR ''t'', tab)}" for e d
    using that by (intro named) (auto simp: simple_unescape_def)
  have char: "c = char_of n" if "byte c = n" for n using that by (auto simp: byte_def)
  have uni: "json_unescape (unicode_escape (byte c) @ s) = map_option (map_prod ((#) c) id) (json_unescape s)"
    using json_unescape_unicode [of "byte c" s] assms
    by (simp add: is_surrogate_def utf8_encode_ascii append_Cons [abs_def] append_Nil [abs_def])
  have raw: "json_unescape (c # s) = map_option (map_prod ((#) c) id) (json_unescape s)"
    if "c \<noteq> dquote" "c \<noteq> backslash" "\<not> byte c < 0x20"
    using that assms
    by (simp add: json_unescape.simps(2) [of c] utf8_decode_ascii append_Cons [abs_def] append_Nil [abs_def])
  show ?thesis
    unfolding escape_ascii_def
    using n [of dquote dquote] n [of backslash backslash] n [of "CHR ''b''" "char_of (8 :: nat)"]
      n [of "CHR ''f''" "char_of (12 :: nat)"] n [of "CHR ''n''" nl] n [of "CHR ''r''" cr] n [of "CHR ''t''" tab]
      uni raw char [of 8] char [of 12]
    by (simp split: if_split)
qed

text \<open>The four shapes of a valid encoding; a decoded rune depends on its own bytes only.\<close>

lemma utf8_first_bounds:
  "utf8_first b = Some (k, lo, hi) \<Longrightarrow> 0x80 \<le> lo \<and> hi \<le> 0xBF \<and>
     (k = 2 \<and> 0xC2 \<le> b \<and> b < 0xE0 \<or> k = 3 \<and> 0xE0 \<le> b \<and> b < 0xF0 \<or>
      k = 4 \<and> 0xF0 \<le> b \<and> b \<le> 0xF4 \<and> (b = 0xF0 \<longrightarrow> lo = 0x90))"
  by (auto simp: utf8_first_def split: if_splits)

lemma utf8_decode_bytes_cases [consumes 3, case_names one two three four]:
  assumes dec: "utf8_decode_bytes bs = (r, n)" and "bs \<noteq> []" and bad: "\<not> (r = rune_error \<and> n = 1)"
  obtains r0 where "bs = r # r0" "r < 0x80" "n = 1"
  | b0 lo hi b1 r1 where "bs = b0 # b1 # r1" "\<not> b0 < 0x80" "utf8_first b0 = Some (2, lo, hi)" "lo \<le> b1" "b1 \<le> hi"
      "n = 2" "r = (b0 - 0xC0) * 64 + (b1 - 0x80)"
  | b0 lo hi b1 b2 r2 where "bs = b0 # b1 # b2 # r2" "\<not> b0 < 0x80" "utf8_first b0 = Some (3, lo, hi)" "lo \<le> b1" "b1 \<le> hi"
      "utf8_cont b2" "n = 3" "r = (b0 - 0xE0) * 4096 + (b1 - 0x80) * 64 + (b2 - 0x80)"
  | b0 lo hi b1 b2 b3 r3 where "bs = b0 # b1 # b2 # b3 # r3" "\<not> b0 < 0x80" "utf8_first b0 = Some (4, lo, hi)" "lo \<le> b1"
      "b1 \<le> hi" "utf8_cont b2" "utf8_cont b3" "n = 4"
      "r = (b0 - 0xF0) * 262144 + (b1 - 0x80) * 4096 + (b2 - 0x80) * 64 + (b3 - 0x80)"
proof -
  obtain b0 r0 where bs: "bs = b0 # r0" using assms(2) by (cases bs) auto
  show thesis
  proof (cases "b0 < 0x80")
    case True
    with dec show thesis by (intro that(1)) (auto simp: bs utf8_decode_bytes_def)
  next
    case big: False
    with dec bad obtain k lo hi b1 r1 where f: "utf8_first b0 = Some (k, lo, hi)" "r0 = b1 # r1" "lo \<le> b1" "b1 \<le> hi"
      by (auto simp: bs utf8_decode_bytes_def not_less split: list.splits option.splits if_splits)
    note hyp = big dec bad f
    show thesis
    proof (cases "k = 2")
      case True
      with hyp show thesis by (intro that(2) [of b0 b1 r1 lo hi]) (auto simp: bs utf8_decode_bytes_def)
    next
      case k2: False
      with hyp obtain b2 r2 where b2: "r1 = b2 # r2" "utf8_cont b2"
        by (auto simp: bs utf8_decode_bytes_def split: list.splits if_splits)
      show thesis
      proof (cases "k = 3")
        case True
        with hyp k2 b2 show thesis by (intro that(3) [of b0 b1 b2 r2 lo hi]) (auto simp: bs utf8_decode_bytes_def)
      next
        case False
        with utf8_first_bounds [OF f(1)] k2 have k: "k = 4" by auto
        with hyp b2 obtain b3 r3 where "r2 = b3 # r3" "utf8_cont b3"
          by (auto simp: bs utf8_decode_bytes_def split: list.splits if_splits)
        with hyp k b2 show thesis by (intro that(4) [of b0 b1 b2 b3 r3 lo hi]) (auto simp: bs utf8_decode_bytes_def)
      qed
    qed
  qed
qed

lemma utf8_decode_bytes_own:
  assumes "utf8_decode_bytes bs = (r, n)" and "bs \<noteq> []" and "\<not> (r = rune_error \<and> n = 1)"
  shows "utf8_decode_bytes (take n bs @ cs) = (r, n) \<and> n \<le> length bs \<and> n \<le> 4"
  using assms by (cases rule: utf8_decode_bytes_cases) (auto simp: utf8_decode_bytes_def)

lemma utf8_decode_own:
  assumes "utf8_decode s = (r, n)" and "s \<noteq> []" and "\<not> (r = rune_error \<and> n = 1)"
  shows "utf8_decode (take n s @ t) = (r, n)"
proof -
  let ?bs = "map byte (take 4 s)"
  have bs: "utf8_decode_bytes ?bs = (r, n)" "?bs \<noteq> []" using assms(1,2) by (simp_all add: utf8_decode_def)
  have n: "n \<le> 4" "n \<le> length s" using utf8_decode_bytes_own [OF bs assms(3)] by simp_all
  have "map byte (take 4 (take n s @ t)) = take n ?bs @ map byte (take (4 - n) t)"
    using n by (simp add: take_map min_absorb1 min_absorb2)
  then show ?thesis
    using utf8_decode_bytes_own [OF bs assms(3)] by (simp add: utf8_decode_def)
qed

lemma utf8_decode_multi:
  assumes "utf8_decode (c # s) = (r, n)" and "\<not> (r = rune_error \<and> n = 1)" and "n \<noteq> 1"
  shows "0x80 \<le> byte c"
  using assms utf8_decode_ascii [of c s] by (cases "byte c < 0x80") auto

lemma utf8_decode_single:
  assumes "utf8_decode (c # s) = (r, 1)" and "r \<noteq> rune_error"
  shows "byte c < 0x80"
proof -
  have "utf8_decode_bytes (map byte (take 4 (c # s))) = (r, 1)" using assms(1) by (simp add: utf8_decode_def)
  moreover have "map byte (take 4 (c # s)) \<noteq> []" "\<not> (r = rune_error \<and> (1 :: nat) = 1)" using assms(2) by simp_all
  ultimately show ?thesis by (cases rule: utf8_decode_bytes_cases) auto
qed

lemma utf8_separator_bytes:
  assumes "utf8_decode_bytes bs = (r, n)" and r: "r = 0x2028 \<or> r = 0x2029" and "bs \<noteq> []"
  shows "take n bs = [0xE2, 0x80, r - 0x1F80]"
proof -
  have "\<not> (r = rune_error \<and> n = 1)" using r by auto
  with assms(1,3) show ?thesis
  proof (cases rule: utf8_decode_bytes_cases)
    case (three b0 lo hi b1 b2 r2)
    from utf8_first_bounds [OF three(3)] three(4,5,6) have
      "0xE0 \<le> b0" "0x80 \<le> b1" "b1 \<le> 0xBF" "0x80 \<le> b2" "b2 \<le> 0xBF" by (auto simp: utf8_cont_def)
    then obtain x y z where x: "b0 = 0xE0 + x" "b1 = 0x80 + y" "b2 = 0x80 + z" "y < 64" "z < 64"
      by (intro that [of "b0 - 0xE0" "b1 - 0x80" "b2 - 0x80"]) auto
    with three(8) have "r = x * 4096 + y * 64 + z" by simp
    note sum = this
    have "x * 4096 < 3 * 4096" using sum r by linarith
    moreover have "1 * 4096 < x * 4096" using sum r x(4,5) by linarith
    ultimately have x2: "x = 2" by simp
    then have "y * 64 < 1 * 64" using sum r by auto
    then have "y = 0" by simp
    with sum x2 have "x = 2 \<and> y = 0 \<and> z = r - 0x2000" by simp
    with r x three(1,7) show ?thesis by auto
  next
    case (two b0 lo hi b1 r1)
    with utf8_first_bounds [OF two(3)] r show ?thesis by auto
  next
    case (four b0 lo hi b1 b2 b3 r3)
    from utf8_first_bounds [OF four(3)] four(4) have "0xF1 \<le> b0 \<or> 0x90 \<le> b1" by auto
    with four(9) r show ?thesis by auto
  qed (use r in auto)
qed

lemma utf8_separator:
  assumes "utf8_decode s = (r, n)" and "r = 0x2028 \<or> r = 0x2029" and "s \<noteq> []"
  shows "take n s = utf8_encode r"
proof -
  let ?bs = "map byte (take 4 s)"
  have bs: "utf8_decode_bytes ?bs = (r, n)" "?bs \<noteq> []" using assms(1,3) by (simp_all add: utf8_decode_def)
  have "\<not> (r = rune_error \<and> n = 1)" using assms(2) by auto
  from utf8_decode_bytes_own [OF bs this] have n: "n \<le> 4" by simp
  from utf8_separator_bytes [OF bs(1) assms(2) bs(2)] have "map byte (take n s) = [0xE2, 0x80, r - 0x1F80]"
    using n by (simp add: take_map min_absorb1)
  then have "map char_of (map byte (take n s)) = map char_of [0xE2, 0x80, r - 0x1F80 :: nat]" by (simp only:)
  moreover have "map char_of (map byte x) = x" for x by (induction x) (simp_all add: byte_def)
  ultimately have "take n s = map char_of [0xE2, 0x80, r - 0x1F80 :: nat]" by simp
  with assms(2) show ?thesis by (auto simp: utf8_encode_def)
qed

text \<open>Reading a literal gives back the string, with its invalid bytes replaced.\<close>

lemma json_unescape_escape:
  "json_unescape (json_escape s @ dquote # t) = Some (to_valid_utf8 s, t)"
proof (induction s rule: json_escape.induct)
  case (1 s)
  show ?case
  proof (cases "s = []")
    case True
    then show ?thesis by (simp add: json_escape.simps)
  next
    case ne: False
    obtain r n where d: "utf8_decode s = (r, n)" by fastforce
    have IH: "json_unescape (json_escape (drop n s) @ dquote # t) = Some (to_valid_utf8 (drop n s), t)"
      using 1 [OF ne d [symmetric] refl] .
    note esc = json_escape.simps [of s] to_valid_utf8.simps [of s]
    obtain c s' where s: "s = c # s'" using ne by (cases s) auto
    show ?thesis
    proof (cases "r = rune_error \<and> n = 1")
      case True
      with ne d IH show ?thesis
        by (simp add: esc json_unescape_unicode is_surrogate_def)
    next
      case ok: False
      show ?thesis
      proof (cases "n = 1")
        case True
        have "byte c < 0x80"
          using utf8_decode_single [of c s' r] ok d True s by simp
        moreover have "json_escape s = escape_ascii c @ json_escape (drop n s)"
          "to_valid_utf8 s = c # to_valid_utf8 (drop n s)"
          using ok True d by (simp_all add: json_escape.simps [of "c # s'"] to_valid_utf8.simps [of "c # s'"] s)
        ultimately show ?thesis using IH by (simp add: json_unescape_ascii)
      next
        case multi: False
        have big: "0x80 \<le> byte c" using utf8_decode_multi [of c s' r n] d ok multi s by simp
        show ?thesis
        proof (cases "r = 0x2028 \<or> r = 0x2029")
          case True
          then have "\<not> is_surrogate r" "r < 65536" by (auto simp: is_surrogate_def)
          with True ok multi ne d IH utf8_separator [OF d True ne] show ?thesis
            by (simp add: esc json_unescape_unicode)
        next
          case False
          let ?u = "json_escape (drop n s) @ dquote # t"
          have own: "utf8_decode (take n s @ ?u) = (r, n)" by (rule utf8_decode_own [OF d ne ok])
          have n: "1 \<le> n" "n \<le> length s" using utf8_decode_size [OF ne] d by simp_all
          then have tk: "take n s = c # take (n - 1) s'" "length (take (n - 1) s') = n - 1"
            by (cases n; simp add: s)+
          have "json_unescape (take n s @ ?u) = map_option (map_prod ((@) (take n s)) id) (json_unescape ?u)"
          proof -
            have "c \<noteq> dquote" "c \<noteq> backslash" "\<not> byte c < 0x20" using big by (auto simp: byte_def)
            moreover have "take n (c # take (n - 1) s' @ ?u) = take n s" using n tk by (cases n) (auto simp: s)
            ultimately show ?thesis
              using own ok tk by (auto simp: json_unescape.simps(2) [of c])
          qed
          with False ok multi ne d IH show ?thesis by (simp add: esc)
        qed
      qed
    qed
  qed
qed

section \<open>Number literals\<close>

definition num_char :: "char \<Rightarrow> bool" where
  "num_char c \<longleftrightarrow> is_digit c \<or> c = CHR ''-'' \<or> c = CHR ''+'' \<or> c = CHR ''.'' \<or> c = CHR ''e'' \<or> c = CHR ''E''"

definition digits_ok :: "string \<Rightarrow> bool" where
  "digits_ok ds \<longleftrightarrow> ds \<noteq> [] \<and> list_all is_digit ds"

text \<open>The grammar: sign, integer part without leading zeros, fraction, exponent.\<close>

definition exponent_ok :: "string \<Rightarrow> bool" where
  "exponent_ok s = (case s of
     [] \<Rightarrow> True
   | e # ds \<Rightarrow> (e = CHR ''e'' \<or> e = CHR ''E'') \<and>
      digits_ok (case ds of [] \<Rightarrow> [] | c # r \<Rightarrow> if c = CHR ''-'' \<or> c = CHR ''+'' then r else ds))"

definition fraction_ok :: "string \<Rightarrow> bool" where
  "fraction_ok s = (case s of
     [] \<Rightarrow> True
   | c # r \<Rightarrow> if c = CHR ''.'' then digits_ok (takeWhile is_digit r) \<and> exponent_ok (dropWhile is_digit r)
      else exponent_ok s)"

definition number_ok :: "string \<Rightarrow> bool" where
  "number_ok s =
     (let u = (case s of [] \<Rightarrow> [] | c # r \<Rightarrow> if c = CHR ''-'' then r else s);
          ds = takeWhile is_digit u
      in ds \<noteq> [] \<and> (length ds > 1 \<longrightarrow> hd ds \<noteq> CHR ''0'') \<and> fraction_ok (dropWhile is_digit u))"

section \<open>Documents\<close>

text \<open>
  Writing: \<open>lay k\<close> is what goes before an element at depth \<open>k\<close>, \<open>col\<close> what separates a key from its
  value.  \<open>Marshal\<close> uses nothing and a colon; \<open>MarshalIndent\<close> with the indent of two blanks that the
  program uses starts a new line.
\<close>

fun doc_text :: "(nat \<Rightarrow> string) \<Rightarrow> string \<Rightarrow> nat \<Rightarrow> jdoc \<Rightarrow> string"
  and elems_text :: "(nat \<Rightarrow> string) \<Rightarrow> string \<Rightarrow> nat \<Rightarrow> jdoc list \<Rightarrow> string"
  and fields_text :: "(nat \<Rightarrow> string) \<Rightarrow> string \<Rightarrow> nat \<Rightarrow> (string \<times> jdoc) list \<Rightarrow> string" where
  "doc_text lay col k DNull = ''null''"
| "doc_text lay col k (DBool b) = (if b then ''true'' else ''false'')"
| "doc_text lay col k (DNum lit) = lit"
| "doc_text lay col k (DStr s) = json_quote s"
| "doc_text lay col k (DArr xs) = (if xs = [] then ''[]''
     else CHR ''['' # elems_text lay col (k + 1) xs @ lay k @ '']'')"
| "doc_text lay col k (DObj fs) = (if fs = [] then ''{}''
     else CHR ''{'' # fields_text lay col (k + 1) fs @ lay k @ ''}'')"
| "elems_text lay col k [] = []"
| "elems_text lay col k (x # xs) =
     lay k @ doc_text lay col k x @ (if xs = [] then [] else CHR '','' # elems_text lay col k xs)"
| "fields_text lay col k [] = []"
| "fields_text lay col k ((key, x) # fs) =
     lay k @ json_quote key @ col @ doc_text lay col k x @
       (if fs = [] then [] else CHR '','' # fields_text lay col k fs)"

definition compact_text :: "jdoc \<Rightarrow> string" where
  "compact_text d = doc_text (\<lambda>_. []) '':'' 0 d"

definition indent_text :: "jdoc \<Rightarrow> string" where
  "indent_text d = doc_text (\<lambda>k. nl # replicate (2 * k) sp) '': '' 0 d"

text \<open>Reading, with one unit of fuel per value, element or field.\<close>

definition skip_ws :: "string \<Rightarrow> string" where
  "skip_ws s = dropWhile blank_char s"

definition parse_word :: "string \<Rightarrow> jdoc \<Rightarrow> string \<Rightarrow> (jdoc \<times> string) option" where
  "parse_word word d s = (if has_prefix s word then Some (d, drop (length word) s) else None)"

definition parse_number :: "string \<Rightarrow> (jdoc \<times> string) option" where
  "parse_number s = (let lit = takeWhile num_char s in
     if number_ok lit then Some (DNum lit, dropWhile num_char s) else None)"

fun parse_value :: "nat \<Rightarrow> string \<Rightarrow> (jdoc \<times> string) option"
  and parse_elems :: "nat \<Rightarrow> string \<Rightarrow> (jdoc list \<times> string) option"
  and parse_fields :: "nat \<Rightarrow> string \<Rightarrow> ((string \<times> jdoc) list \<times> string) option" where
  "parse_value 0 s = None"
| "parse_value (Suc n) s =
     (case skip_ws s of
        [] \<Rightarrow> None
      | c # r \<Rightarrow>
         if c = dquote then map_option (map_prod DStr id) (json_unescape r)
         else if c = CHR ''['' then
           (if has_prefix (skip_ws r) '']'' then Some (DArr [], drop 1 (skip_ws r))
            else map_option (map_prod DArr id) (parse_elems n r))
         else if c = CHR ''{'' then
           (if has_prefix (skip_ws r) ''}'' then Some (DObj [], drop 1 (skip_ws r))
            else map_option (map_prod DObj id) (parse_fields n r))
         else if c = CHR ''t'' then parse_word ''true'' (DBool True) (c # r)
         else if c = CHR ''f'' then parse_word ''false'' (DBool False) (c # r)
         else if c = CHR ''n'' then parse_word ''null'' DNull (c # r)
         else parse_number (c # r))"
| "parse_elems 0 s = None"
| "parse_elems (Suc n) s =
     (case parse_value n s of
        None \<Rightarrow> None
      | Some (x, t) \<Rightarrow>
         (case skip_ws t of
            [] \<Rightarrow> None
          | c # r \<Rightarrow>
             if c = CHR '']'' then Some ([x], r)
             else if c = CHR '','' then map_option (map_prod ((#) x) id) (parse_elems n r)
             else None))"
| "parse_fields 0 s = None"
| "parse_fields (Suc n) s =
     (case skip_ws s of
        [] \<Rightarrow> None
      | q # r \<Rightarrow>
         if q \<noteq> dquote then None
         else (case json_unescape r of
             None \<Rightarrow> None
           | Some (key, t) \<Rightarrow>
              if \<not> has_prefix (skip_ws t) '':'' then None
              else (case parse_value n (drop 1 (skip_ws t)) of
                  None \<Rightarrow> None
                | Some (x, u) \<Rightarrow>
                   (case skip_ws u of
                      [] \<Rightarrow> None
                    | c # v \<Rightarrow>
                       if c = CHR ''}'' then Some ([(key, x)], v)
                       else if c = CHR '','' then map_option (map_prod ((#) (key, x)) id) (parse_fields n v)
                       else None))))"

definition json_parse :: "string \<Rightarrow> jdoc option" where
  "json_parse s = (case parse_value (length s + 1) s of
     Some (d, t) \<Rightarrow> if skip_ws t = [] then Some d else None
   | None \<Rightarrow> None)"

text \<open>What is left of a document after it was written and read.\<close>

fun valid_doc :: "jdoc \<Rightarrow> jdoc" where
  "valid_doc (DStr s) = DStr (to_valid_utf8 s)"
| "valid_doc (DArr xs) = DArr (map valid_doc xs)"
| "valid_doc (DObj fs) = DObj (map (\<lambda>(k, x). (to_valid_utf8 k, valid_doc x)) fs)"
| "valid_doc d = d"

fun numbers_ok :: "jdoc \<Rightarrow> bool" where
  "numbers_ok (DNum lit) = (number_ok lit \<and> list_all num_char lit)"
| "numbers_ok (DArr xs) = list_all numbers_ok xs"
| "numbers_ok (DObj fs) = list_all (\<lambda>(k, x). numbers_ok x) fs"
| "numbers_ok d = True"

section \<open>Reading what was written\<close>

definition blank :: "string \<Rightarrow> bool" where
  "blank w \<longleftrightarrow> list_all blank_char w"

definition num_end :: "string \<Rightarrow> bool" where
  "num_end s \<longleftrightarrow> s = [] \<or> \<not> num_char (hd s)"

lemma skip_ws_blank [simp]: "blank w \<Longrightarrow> skip_ws (w @ s) = skip_ws s"
  by (induction w) (simp_all add: blank_def skip_ws_def)

lemma skip_ws_token [simp]: "\<not> blank_char c \<Longrightarrow> skip_ws (c # s) = c # s"
  by (simp add: skip_ws_def)

lemma parse_value_blank: "blank w \<Longrightarrow> parse_value n (w @ s) = parse_value n s"
  by (cases n) simp_all

lemma blank_no_num: "blank_char c \<Longrightarrow> \<not> num_char c"
  by (auto simp: blank_char_def horiz_def num_char_def is_digit_def byte_def)

lemma num_end_blank:
  "blank w \<Longrightarrow> \<not> num_char c \<Longrightarrow> num_end (w @ c # s)"
  by (cases w) (auto simp: num_end_def blank_def blank_no_num)

lemma punctuation [simp]:
  "\<not> blank_char (CHR '']'')" "\<not> blank_char (CHR ''}'')" "\<not> blank_char (CHR '','')" "\<not> blank_char (CHR '':'')"
  "\<not> blank_char (CHR ''['')" "\<not> blank_char (CHR ''{'')" "\<not> blank_char dquote" "\<not> blank_char (CHR ''t'')"
  "\<not> blank_char (CHR ''f'')" "\<not> blank_char (CHR ''n'')"
  "\<not> num_char (CHR '']'')" "\<not> num_char (CHR ''}'')" "\<not> num_char (CHR '','')"
  by (simp_all add: blank_char_def horiz_def num_char_def is_digit_def byte_def)

text \<open>A number literal starts with a sign or a digit.\<close>

lemma number_ok_hd:
  assumes "number_ok lit"
  obtains c r where "lit = c # r" "is_digit c \<or> c = CHR ''-''"
  using assms by (cases lit) (auto simp: number_ok_def Let_def split: if_splits)

lemma number_start:
  assumes "is_digit c \<or> c = CHR ''-''"
  shows "\<not> blank_char c" "c \<noteq> dquote" "c \<noteq> CHR ''[''" "c \<noteq> CHR ''{''" "c \<noteq> CHR ''t''" "c \<noteq> CHR ''f''" "c \<noteq> CHR ''n''"
    "c \<noteq> CHR '']''" "c \<noteq> CHR ''}''"
  using assms by (auto simp: is_digit_def byte_def blank_char_def horiz_def)

lemma parse_number_literal:
  assumes "number_ok lit" "list_all num_char lit" "num_end s"
  shows "parse_number (lit @ s) = Some (DNum lit, s)"
proof -
  have "takeWhile num_char (lit @ s) = lit" "dropWhile num_char (lit @ s) = s"
    using assms(2,3) by (induction lit) (cases s; simp add: num_end_def)+
  with assms(1) show ?thesis by (simp add: parse_number_def)
qed

lemma doc_text_start:
  assumes "numbers_ok d"
  shows "\<exists>c r. doc_text lay col k d = c # r \<and> \<not> blank_char c \<and> c \<noteq> CHR '']'' \<and> c \<noteq> CHR ''}''"
proof (cases d)
  case (DNum lit)
  with assms obtain c r where "lit = c # r" "is_digit c \<or> c = CHR ''-''" by (auto elim: number_ok_hd)
  with number_start [of c] DNum show ?thesis by auto
qed (simp_all add: json_quote_def)

lemma elems_text_start:
  assumes "list_all numbers_ok xs" "xs \<noteq> []" "blank (lay k)"
  shows "\<not> has_prefix (skip_ws (elems_text lay col k xs @ s)) '']''"
proof -
  obtain x xs' where xs: "xs = x # xs'" using assms(2) by (cases xs) auto
  with assms(1) doc_text_start [of x lay col k] obtain c r where
    "doc_text lay col k x = c # r" "\<not> blank_char c" "c \<noteq> CHR '']''" by auto
  with assms(3) show ?thesis by (simp add: xs has_prefix_def)
qed

lemma fields_text_start:
  assumes "fs \<noteq> []" "blank (lay k)"
  shows "\<not> has_prefix (skip_ws (fields_text lay col k fs @ s)) ''}''"
  using assms by (cases fs) (auto simp: json_quote_def has_prefix_def)

definition layout :: "(nat \<Rightarrow> string) \<Rightarrow> string \<Rightarrow> bool" where
  "layout lay col \<longleftrightarrow> (\<forall>k. blank (lay k)) \<and> (\<exists>w. col = CHR '':'' # w \<and> blank w)"

lemma parse_text:
  "layout lay col \<Longrightarrow> numbers_ok d \<Longrightarrow> num_end s \<Longrightarrow> length (doc_text lay col k d) \<le> n \<Longrightarrow>
     parse_value n (doc_text lay col k d @ s) = Some (valid_doc d, s)"
  "layout lay col \<Longrightarrow> list_all numbers_ok xs \<Longrightarrow> xs \<noteq> [] \<Longrightarrow> blank w \<Longrightarrow> length (elems_text lay col k xs) < n \<Longrightarrow>
     parse_elems n (elems_text lay col k xs @ w @ CHR '']'' # s) = Some (map valid_doc xs, s)"
  "layout lay col \<Longrightarrow> list_all (\<lambda>(k, x). numbers_ok x) fs \<Longrightarrow> fs \<noteq> [] \<Longrightarrow> blank w \<Longrightarrow>
     length (fields_text lay col k fs) < n \<Longrightarrow>
     parse_fields n (fields_text lay col k fs @ w @ CHR ''}'' # s) =
       Some (map (\<lambda>(k, x). (to_valid_utf8 k, valid_doc x)) fs, s)"
proof (induction lay col k d and lay col k xs and lay col k fs arbitrary: n s and n s w and n s w
    rule: doc_text_elems_text_fields_text.induct)
  case (1 lay col k)
  then obtain m where "n = Suc m" by (cases n) auto
  then show ?case by (simp add: parse_word_def has_prefix_def)
next
  case (2 lay col k b)
  then obtain m where "n = Suc m" by (cases n) (auto split: if_splits)
  then show ?case by (simp add: parse_word_def has_prefix_def)
next
  case (3 lay col k lit)
  then obtain c r where lit: "lit = c # r" "is_digit c \<or> c = CHR ''-''" by (auto elim: number_ok_hd)
  obtain m where "n = Suc m" using 3(4) lit by (cases n) auto
  with lit number_start [OF lit(2)] parse_number_literal [of lit s] 3 show ?case by simp
next
  case (4 lay col k x)
  then obtain m where "n = Suc m" by (cases n) (auto simp: json_quote_def)
  then show ?case by (simp add: json_quote_def json_unescape_escape)
next
  case (5 lay col k xs)
  then obtain m where n: "n = Suc m" by (cases n) (auto split: if_splits)
  show ?case
  proof (cases "xs = []")
    case True
    then show ?thesis by (simp add: n has_prefix_def)
  next
    case False
    have b: "blank (lay k)" "blank (lay (k + 1))" using 5(2) by (simp_all add: layout_def)
    have ok: "list_all numbers_ok xs" using 5(3) by simp
    have "parse_elems m (elems_text lay col (k + 1) xs @ lay k @ CHR '']'' # s) = Some (map valid_doc xs, s)"
      using 5(1) [OF False 5(2) ok False b(1)] 5(5) False by (simp add: n)
    with elems_text_start [OF ok False, of lay "k + 1" col "lay k @ CHR '']'' # s"] b(2) False show ?thesis
      by (simp add: n)
  qed
next
  case (6 lay col k fs)
  then obtain m where n: "n = Suc m" by (cases n) (auto split: if_splits)
  show ?case
  proof (cases "fs = []")
    case True
    then show ?thesis by (simp add: n has_prefix_def)
  next
    case False
    have b: "blank (lay k)" "blank (lay (k + 1))" using 6(2) by (simp_all add: layout_def)
    have ok: "list_all (\<lambda>(k, x). numbers_ok x) fs" using 6(3) by simp
    have "parse_fields m (fields_text lay col (k + 1) fs @ lay k @ CHR ''}'' # s) =
        Some (map (\<lambda>(k, x). (to_valid_utf8 k, valid_doc x)) fs, s)"
      using 6(1) [OF False 6(2) ok False b(1)] 6(5) False by (simp add: n)
    with fields_text_start [OF False, of lay "k + 1" col "lay k @ CHR ''}'' # s"] b(2) False show ?thesis
      by (simp add: n)
  qed
next
  case (8 lay col k x xs)
  then obtain m where n: "n = Suc m" by (cases n) auto
  have b: "blank (lay k)" using 8(3) by (simp add: layout_def)
  let ?tail = "(if xs = [] then [] else CHR '','' # elems_text lay col k xs) @ w @ CHR '']'' # s"
  have "num_end ?tail" using num_end_blank [of w "CHR '']''" s] 8(6) by (auto simp: num_end_def)
  then have v: "parse_value m (lay k @ doc_text lay col k x @ ?tail) = Some (valid_doc x, ?tail)"
    using 8(1) [OF 8(3)] 8(4,7) n by (simp add: parse_value_blank b)
  show ?case
  proof (cases "xs = []")
    case True
    with v 8(6) show ?thesis by (simp add: n)
  next
    case False
    have "parse_elems m (elems_text lay col k xs @ w @ CHR '']'' # s) = Some (map valid_doc xs, s)"
      using 8(2) [OF False 8(3) _ False 8(6)] 8(4,7) False n by simp
    with v False show ?thesis by (simp add: n)
  qed
next
  case (10 lay col k key x fs)
  then obtain m where n: "n = Suc m" by (cases n) auto
  obtain w0 where col: "col = CHR '':'' # w0" "blank w0" using 10(3) by (auto simp: layout_def)
  have b: "blank (lay k)" using 10(3) by (simp add: layout_def)
  let ?tail = "(if fs = [] then [] else CHR '','' # fields_text lay col k fs) @ w @ CHR ''}'' # s"
  have "num_end ?tail" using num_end_blank [of w "CHR ''}''" s] 10(6) by (auto simp: num_end_def)
  then have v: "parse_value m (w0 @ doc_text lay col k x @ ?tail) = Some (valid_doc x, ?tail)"
    using 10(1) [OF 10(3)] 10(4,7) n by (simp add: parse_value_blank col(2))
  have key: "json_unescape (json_escape key @ dquote # u) = Some (to_valid_utf8 key, u)" for u
    by (rule json_unescape_escape)
  show ?case
  proof (cases "fs = []")
    case True
    with v 10(6) key show ?thesis by (simp add: n b col(1) json_quote_def has_prefix_def)
  next
    case False
    have "parse_fields m (fields_text lay col k fs @ w @ CHR ''}'' # s) =
        Some (map (\<lambda>(k, x). (to_valid_utf8 k, valid_doc x)) fs, s)"
      using 10(2) [OF False 10(3) _ False 10(6)] 10(4,7) False n by simp
    with v False key show ?thesis by (simp add: n b col(1) json_quote_def has_prefix_def)
  qed
qed simp_all

lemma layouts: "layout (\<lambda>_. []) '':''" "layout (\<lambda>k. nl # replicate (2 * k) sp) '': ''"
  by (auto simp: layout_def blank_def blank_char_def horiz_def list_all_iff)

lemma json_parse_text:
  assumes "layout lay col" "numbers_ok d" "blank w"
  shows "json_parse (doc_text lay col k d @ w) = Some (valid_doc d)"
proof -
  have "num_end w" using assms(3) by (cases w) (auto simp: num_end_def blank_def blank_no_num)
  moreover have "skip_ws w = []" using skip_ws_blank [OF assms(3), of "[]"] by (simp add: skip_ws_def)
  ultimately show ?thesis
    using parse_text(1) [OF assms(1,2), of w k "length (doc_text lay col k d @ w) + 1"] by (simp add: json_parse_def)
qed

text \<open>Documents read back, compact or indented, with the newline that an \<open>Encoder\<close> adds or without.\<close>

lemma json_parse_written:
  assumes "numbers_ok d" "blank w"
  shows "json_parse (compact_text d @ w) = Some (valid_doc d)" "json_parse (indent_text d @ w) = Some (valid_doc d)"
  using assms layouts by (simp_all add: compact_text_def indent_text_def json_parse_text)

section \<open>A compact text is one line\<close>

definition printable :: "string \<Rightarrow> bool" where
  "printable s \<longleftrightarrow> list_all (\<lambda>c. 0x20 \<le> byte c) s"

lemma printable_simps [simp]:
  "printable []" "printable (c # s) \<longleftrightarrow> 0x20 \<le> byte c \<and> printable s"
  "printable (s @ t) \<longleftrightarrow> printable s \<and> printable t"
  by (auto simp: printable_def)

lemma printable_line: "printable s \<Longrightarrow> nl \<notin> set s \<and> cr \<notin> set s"
  by (auto simp: printable_def list_all_iff byte_def)

lemma byte_hex_low: "0x20 \<le> byte (hex_low n)" if "n < 16"
proof -
  have "n \<in> set [0 ..< 16] \<Longrightarrow> 0x20 \<le> byte (hex_low n)" by (auto simp: hex_low_def byte_def)
  with that show ?thesis by auto
qed

lemma printable_codes [simp]:
  "0x20 \<le> byte backslash" "0x20 \<le> byte dquote" "0x20 \<le> byte (CHR ''u'')" "0x20 \<le> byte (CHR ''b'')"
  "0x20 \<le> byte (CHR ''f'')" "0x20 \<le> byte (CHR ''n'')" "0x20 \<le> byte (CHR ''r'')" "0x20 \<le> byte (CHR ''t'')"
  "0x20 \<le> byte (CHR '']'')" "0x20 \<le> byte (CHR ''}'')" "0x20 \<le> byte (CHR '','')" "0x20 \<le> byte (CHR '':'')"
  "0x20 \<le> byte (CHR ''['')" "0x20 \<le> byte (CHR ''{'')" "0x20 \<le> byte (CHR ''l'')" "0x20 \<le> byte (CHR ''e'')"
  "0x20 \<le> byte (CHR ''a'')" "0x20 \<le> byte (CHR ''s'')"
  by (simp_all add: byte_def)

lemma printable_unicode_escape [simp]: "printable (unicode_escape r)"
  by (simp add: unicode_escape_def byte_hex_low)

lemma printable_escape_ascii [simp]: "printable (escape_ascii c)"
  by (simp add: escape_ascii_def not_less)

lemma utf8_multi_bytes:
  assumes "utf8_decode_bytes bs = (r, n)" "bs \<noteq> []" "n \<noteq> 1"
  shows "list_all (\<lambda>b. 0x80 \<le> b) (take n bs)"
proof -
  have "\<not> (r = rune_error \<and> n = 1)" using assms(3) by simp
  with assms(1,2) show ?thesis
    by (cases rule: utf8_decode_bytes_cases)
       (use assms(3) utf8_first_bounds in \<open>fastforce simp: utf8_cont_def\<close>)+
qed

lemma printable_multi:
  assumes "utf8_decode s = (r, n)" "s \<noteq> []" "n \<noteq> 1"
  shows "printable (take n s)"
proof -
  let ?bs = "map byte (take 4 s)"
  have bs: "utf8_decode_bytes ?bs = (r, n)" "?bs \<noteq> []" using assms(1,2) by (simp_all add: utf8_decode_def)
  have "\<not> (r = rune_error \<and> n = 1)" using assms(3) by simp
  from utf8_decode_bytes_own [OF bs this] have "n \<le> 4" by simp
  then have "take n ?bs = map byte (take n s)" by (simp add: take_map min_absorb1)
  with utf8_multi_bytes [OF bs assms(3)] show ?thesis
    by (auto simp: printable_def list_all_iff)
qed

lemma printable_json_escape: "printable (json_escape s)"
proof (induction s rule: json_escape.induct)
  case (1 s)
  obtain r n where d: "utf8_decode s = (r, n)" by fastforce
  show ?case
  proof (cases "s = []")
    case True
    then show ?thesis by (simp add: json_escape.simps)
  next
    case False
    have "printable (json_escape (drop n s))" using 1 [OF False d [symmetric] refl] .
    then show ?thesis
      using printable_multi [OF d False] False d by (simp add: json_escape.simps [of s])
  qed
qed

lemma printable_json_quote [simp]: "printable (json_quote s)"
  using printable_json_escape [of s] by (simp add: json_quote_def)

lemma num_char_printable: "list_all num_char lit \<Longrightarrow> printable lit"
  by (auto simp: printable_def list_all_iff num_char_def is_digit_def byte_def)

lemma printable_text:
  "numbers_ok d \<Longrightarrow> (\<And>k. printable (lay k)) \<Longrightarrow> printable col \<Longrightarrow> printable (doc_text lay col k d)"
  "list_all numbers_ok xs \<Longrightarrow> (\<And>k. printable (lay k)) \<Longrightarrow> printable col \<Longrightarrow> printable (elems_text lay col k xs)"
  "list_all (\<lambda>(k, x). numbers_ok x) fs \<Longrightarrow> (\<And>k. printable (lay k)) \<Longrightarrow> printable col \<Longrightarrow>
     printable (fields_text lay col k fs)"
  by (induction lay col k d and lay col k xs and lay col k fs rule: doc_text_elems_text_fields_text.induct)
     (simp_all add: num_char_printable)

lemma compact_text_line: "numbers_ok d \<Longrightarrow> nl \<notin> set (compact_text d) \<and> cr \<notin> set (compact_text d)"
  unfolding compact_text_def by (rule printable_line, rule printable_text) simp_all

end
