(* ===== verification/GoTime.thy ===== *)
theory GoTime
  imports GoText
begin

text \<open>
  The text of an instant, as \<open>time.Time\<close> marshals itself: RFC 3339 with up to nine digits of
  fraction.  Every instant that the program stores is in UTC, so the zone is \<open>Z\<close>; reading accepts
  numeric zones too.  An instant counts nanoseconds from the first of January of the year one.
\<close>

section \<open>Digits\<close>

fun fixed_digits :: "nat \<Rightarrow> nat \<Rightarrow> string" where
  "fixed_digits 0 n = []"
| "fixed_digits (Suc k) n = fixed_digits k (n div 10) @ [digit_char (n mod 10)]"

lemma length_fixed_digits [simp]: "length (fixed_digits k n) = k"
  by (induction k n rule: fixed_digits.induct) simp_all

lemma fixed_digits_digits: "list_all is_digit (fixed_digits k n)"
  by (induction k n rule: fixed_digits.induct) (simp_all add: is_digit_digit_char)

lemma digits_value_fixed: "digits_value acc (fixed_digits k n) = Some (acc * 10 ^ k + n mod 10 ^ k)"
proof (induction k n arbitrary: acc rule: fixed_digits.induct)
  case (2 k n)
  have "n mod 10 ^ Suc k = 10 * (n div 10 mod 10 ^ k) + n mod 10"
    by (simp add: mod_mult2_eq)
  with 2 show ?case
    by (simp add: digits_value_append is_digit_digit_char byte_digit_char algebra_simps)
qed simp

lemma digits_value_fixed_less [simp]: "n < 10 ^ k \<Longrightarrow> digits_value 0 (fixed_digits k n) = Some n"
  by (simp add: digits_value_fixed)

section \<open>Dates\<close>

text \<open>The days before a year, counted from the year one; the year zero is a leap year.\<close>

definition days_before :: "nat \<Rightarrow> int" where
  "days_before y = (let m = int y - 1 in 365 * m + m div 4 - m div 100 + m div 400)"

definition is_leap :: "nat \<Rightarrow> bool" where
  "is_leap y \<longleftrightarrow> y mod 4 = 0 \<and> (y mod 100 \<noteq> 0 \<or> y mod 400 = 0)"

definition month_lengths :: "nat \<Rightarrow> int list" where
  "month_lengths y = [31, if is_leap y then 29 else 28, 31, 30, 31, 30, 31, 31, 30, 31, 30, 31]"

lemma days_before_Suc_ge: "365 * int y \<le> days_before (Suc y)"
proof -
  have "int y div 100 \<le> int y div 4" by (intro zdiv_mono2) simp_all
  moreover have "0 \<le> int y div 400" by simp
  ultimately show ?thesis by (simp add: days_before_def Let_def)
qed

function year_from :: "int \<Rightarrow> nat \<Rightarrow> nat" where
  "year_from d y = (if days_before (Suc y) \<le> d then year_from d (Suc y) else y)"
  by pat_completeness auto
termination
proof (relation "measure (\<lambda>(d, y). nat (d + 1 - int y))", goal_cases)
  case (2 d y)
  with days_before_Suc_ge [of y] show ?case by auto
qed simp

declare year_from.simps [simp del]

definition year_of :: "int \<Rightarrow> nat" where
  "year_of d = year_from d (nat (d div 366 + 1))"

fun month_from :: "int list \<Rightarrow> nat \<Rightarrow> int \<Rightarrow> nat \<times> int" where
  "month_from [] m d = (m, d + 1)"
| "month_from (l # ls) m d = (if d < l then (m, d + 1) else month_from ls (Suc m) (d - l))"

definition days_of_date :: "nat \<Rightarrow> nat \<Rightarrow> nat \<Rightarrow> int" where
  "days_of_date y m day = days_before y + sum_list (take (m - 1) (month_lengths y)) + int day - 1"

lemma year_from_bounds:
  "days_before y \<le> d \<Longrightarrow> days_before (year_from d y) \<le> d \<and> d < days_before (Suc (year_from d y))"
proof (induction d y rule: year_from.induct)
  case (1 d y)
  then show ?case by (cases "days_before (Suc y) \<le> d") (simp_all add: year_from.simps [of d y])
qed

lemma days_before_start: "-366 \<le> d \<Longrightarrow> days_before (nat (d div 366 + 1)) \<le> d"
proof (cases "0 \<le> d")
  case True
  define m where "m = d div 366"
  have m: "0 \<le> m" "366 * m \<le> d" using True by (simp_all add: m_def)
  have "m div 4 \<le> m" using zdiv_mono2 [of m 1 4] m(1) by simp
  moreover have "m div 400 \<le> m div 100" using m(1) by (intro zdiv_mono2) simp_all
  ultimately have "365 * m + m div 4 - m div 100 + m div 400 \<le> d" using m by linarith
  moreover have "int (nat (m + 1)) - 1 = m" using m by simp
  ultimately show ?thesis by (simp add: days_before_def Let_def m_def)
next
  case False
  moreover assume "-366 \<le> d"
  ultimately have "d div 366 = - 1" by (intro int_div_pos_eq [of _ _ _ "d + 366"]) simp_all
  with \<open>-366 \<le> d\<close> show ?thesis by (simp add: days_before_def)
qed

lemma year_of_bounds: "-366 \<le> d \<Longrightarrow> days_before (year_of d) \<le> d \<and> d < days_before (Suc (year_of d))"
  unfolding year_of_def by (rule year_from_bounds [OF days_before_start])

lemma div_step: "0 < k \<Longrightarrow> int (Suc y) div int k = int y div int k + (if Suc y mod k = 0 then 1 else 0)"
proof -
  assume "0 < k"
  then have "Suc y div k = y div k + (if Suc y mod k = 0 then 1 else 0)"
    by (simp add: div_Suc)
  then show ?thesis unfolding zdiv_int [symmetric] by simp
qed

lemma year_length_sum:
  "(x :: int) = 365 * (z + 1) + (p + a) - (q + b) + (r + c) \<Longrightarrow> y = 365 * z + p - q + r \<Longrightarrow> l = s \<Longrightarrow>
     x - y - l = 365 + a - b + c - s"
  by simp

lemma year_length: "days_before (Suc y) = days_before y + sum_list (month_lengths y)"
proof (cases y)
  case 0
  then show ?thesis by (simp add: days_before_def month_lengths_def is_leap_def)
next
  case (Suc z)
  define A B C where "A \<longleftrightarrow> Suc z mod 4 = 0" and "B \<longleftrightarrow> Suc z mod 100 = 0" and "C \<longleftrightarrow> Suc z mod 400 = 0"
  have "Suc z mod 400 mod 100 = Suc z mod 100" "Suc z mod 100 mod 4 = Suc z mod 4" by (simp_all add: mod_mod_cancel)
  then have imp: "C \<Longrightarrow> B" "B \<Longrightarrow> A" by (simp_all add: A_def B_def C_def)
  have d: "int (Suc z) div 4 = int z div 4 + (if A then 1 else 0)" "int (Suc z) div 100 = int z div 100 + (if B then 1 else 0)"
    "int (Suc z) div 400 = int z div 400 + (if C then 1 else 0)"
    using div_step [of 4 z] div_step [of 100 z] div_step [of 400 z] by (simp_all only: A_def B_def C_def of_nat_numeral)
  have l: "sum_list (month_lengths y) = (if A \<and> (\<not> B \<or> C) then 366 else 365)"
    by (simp add: month_lengths_def is_leap_def Suc A_def B_def C_def)
  have "days_before (Suc y) = 365 * (int z + 1) + int (Suc z) div 4 - int (Suc z) div 100 + int (Suc z) div 400"
    "days_before y = 365 * int z + int z div 4 - int z div 100 + int z div 400"
    unfolding days_before_def Let_def Suc of_nat_Suc add_diff_cancel_left' add_diff_cancel_right' by (simp_all only: add.commute)
  then have "days_before (Suc y) - days_before y - sum_list (month_lengths y) =
      365 + (if A then 1 else 0) - (if B then 1 else 0) + (if C then 1 else 0) - (if A \<and> (\<not> B \<or> C) then 366 else 365)"
    unfolding d using l by (intro year_length_sum)
  also have "\<dots> = 0" using imp by (cases A; cases B; cases C) simp_all
  finally show ?thesis by simp
qed

lemma month_from_days:
  assumes "month_from ls m d = (m', day)" "0 \<le> d" "d < sum_list ls"
  shows "m \<le> m' \<and> m' < m + length ls \<and> 1 \<le> day \<and> day \<le> ls ! (m' - m) \<and> sum_list (take (m' - m) ls) + day - 1 = d"
  using assms
proof (induction ls m d rule: month_from.induct)
  case (2 l ls m d)
  show ?case
  proof (cases "d < l")
    case True
    with 2(2,3) show ?thesis by auto
  next
    case False
    with 2 have IH: "Suc m \<le> m' \<and> m' < Suc m + length ls \<and> 1 \<le> day \<and> day \<le> ls ! (m' - Suc m) \<and>
        sum_list (take (m' - Suc m) ls) + day - 1 = d - l" by auto
    moreover obtain j where "m' = Suc (m + j)" using IH by (metis add_Suc le_Suc_ex)
    ultimately show ?thesis by auto
  qed
qed simp

section \<open>Writing and reading instants\<close>

definition fraction_text :: "nat \<Rightarrow> string" where
  "fraction_text ns = (if ns = 0 then [] else CHR ''.'' # trim_end (\<lambda>c. c = CHR ''0'') (fixed_digits 9 ns))"

definition time_text :: "go_time \<Rightarrow> string" where
  "time_text t =
     (let secs = t div 10 ^ 9; ns = nat (t mod 10 ^ 9); d = secs div 86400; sod = nat (secs mod 86400);
          y = year_of d; (m, day) = month_from (month_lengths y) 1 (d - days_before y)
      in fixed_digits 4 y @ CHR ''-'' # fixed_digits 2 m @ CHR ''-'' # fixed_digits 2 (nat day) @ CHR ''T''
           # fixed_digits 2 (sod div 3600) @ CHR '':'' # fixed_digits 2 (sod div 60 mod 60) @ CHR '':''
           # fixed_digits 2 (sod mod 60) @ fraction_text ns @ ''Z'')"

text \<open>The offset of a zone in seconds: \<open>Z\<close>, or a sign, hours and minutes.\<close>

definition zone_value :: "string \<Rightarrow> int option" where
  "zone_value z =
     (if z = ''Z'' then Some 0
      else if length z = 6 \<and> (z ! 0 = CHR ''+'' \<or> z ! 0 = CHR ''-'') \<and> z ! 3 = CHR '':'' then
        (case (digits_value 0 (take 2 (drop 1 z)), digits_value 0 (drop 4 z)) of
           (Some h, Some m) \<Rightarrow> if h < 24 \<and> m < 60
             then Some ((if z ! 0 = CHR ''-'' then - 1 else 1) * (int h * 3600 + int m * 60)) else None
         | _ \<Rightarrow> None)
      else None)"

text \<open>A fraction has at least one digit; digits after the ninth are dropped.\<close>

definition fraction_value :: "string \<Rightarrow> (nat \<times> string) option" where
  "fraction_value s =
     (case s of
        [] \<Rightarrow> Some (0, [])
      | c # r \<Rightarrow>
         if c \<noteq> CHR ''.'' then Some (0, s)
         else if takeWhile is_digit r = [] then None
         else map_option (\<lambda>n. (n, dropWhile is_digit r))
           (digits_value 0 (take 9 (takeWhile is_digit r @ replicate 9 (CHR ''0'')))))"

definition time_value :: "string \<Rightarrow> go_time option" where
  "time_value s =
     (if length s < 20 \<or> s ! 4 \<noteq> CHR ''-'' \<or> s ! 7 \<noteq> CHR ''-'' \<or> s ! 10 \<noteq> CHR ''T'' \<or> s ! 13 \<noteq> CHR '':''
        \<or> s ! 16 \<noteq> CHR '':'' then None
      else (case (digits_value 0 (take 4 s), digits_value 0 (take 2 (drop 5 s)), digits_value 0 (take 2 (drop 8 s)),
                  digits_value 0 (take 2 (drop 11 s)), digits_value 0 (take 2 (drop 14 s)),
                  digits_value 0 (take 2 (drop 17 s)), fraction_value (drop 19 s)) of
           (Some y, Some m, Some day, Some h, Some mi, Some sec, Some (ns, z)) \<Rightarrow>
             (if m < 1 \<or> 12 < m \<or> day < 1 \<or> month_lengths y ! (m - 1) < int day \<or> 24 \<le> h \<or> 60 \<le> mi \<or> 60 \<le> sec
              then None
              else map_option (\<lambda>off. (days_of_date y m day * 86400 + int (h * 3600 + mi * 60 + sec) - off) * 10 ^ 9 + int ns)
                (zone_value z))
         | _ \<Rightarrow> None))"

lemma trim_zeros:
  obtains t j where "trim_end (\<lambda>c. c = CHR ''0'') ds = t" "ds = t @ replicate j (CHR ''0'')"
proof -
  obtain ys where ys: "ds = trim_end (\<lambda>c. c = CHR ''0'') ds @ ys" "\<forall>y \<in> set ys. y = CHR ''0''"
    using trim_end_split [of ds "\<lambda>c. c = CHR ''0''"] by blast
  have eq: "replicate (length ys) (CHR ''0'') = ys" using ys(2) by (simp add: replicate_length_same)
  show thesis by (rule that [OF refl, of "length ys"], unfold eq, rule ys(1))
qed

lemma digits_value_zeros: "digits_value 0 (replicate j (CHR ''0'')) = Some 0"
  by (induction j) (simp_all add: is_digit_def byte_def)

lemma fraction_value_text:
  assumes "ns < 10 ^ 9" and "z \<noteq> []" "\<not> is_digit (hd z)" "hd z \<noteq> CHR ''.''"
  shows "fraction_value (fraction_text ns @ z) = Some (ns, z)"
proof (cases "ns = 0")
  case True
  with assms show ?thesis by (cases z) (simp_all add: fraction_text_def fraction_value_def)
next
  case False
  obtain t j where t: "trim_end (\<lambda>c. c = CHR ''0'') (fixed_digits 9 ns) = t"
    "fixed_digits 9 ns = t @ replicate j (CHR ''0'')" by (rule trim_zeros)
  have val: "digits_value 0 (t @ replicate j (CHR ''0'')) = Some ns" using assms(1) by (simp add: t(2) [symmetric])
  have len: "length t + j = 9" using arg_cong [OF t(2), of length] by simp
  then have pad: "take 9 t = t" "9 - length t = j" "min j 9 = j" by simp_all
  have dig: "list_all is_digit t" using fixed_digits_digits [of 9 ns] by (simp add: t(2))
  have ne: "t \<noteq> []" using val False digits_value_zeros [of j] by auto
  have "takeWhile is_digit (t @ z) = t" "dropWhile is_digit (t @ z) = z"
    using dig assms(2,3) by (cases z; simp add: list_all_iff takeWhile_append2 dropWhile_append2)+
  then show ?thesis
    using False ne by (simp add: fraction_text_def fraction_value_def t(1) pad val)
qed

lemma days_before_mono: "y \<le> z \<Longrightarrow> days_before y \<le> days_before z"
proof (induction rule: dec_induct)
  case (step n)
  have "0 \<le> sum_list (month_lengths n)" by (simp add: month_lengths_def)
  with step year_length [of n] show ?case by simp
qed simp

lemma year_of_max: "-366 \<le> d \<Longrightarrow> d < 3652059 \<Longrightarrow> year_of d < 10000"
proof (rule ccontr)
  assume d: "-366 \<le> d" "d < 3652059" and "\<not> year_of d < 10000"
  then have "days_before 10000 \<le> days_before (year_of d)" by (intro days_before_mono) simp
  moreover have "days_before 10000 = 3652059" by (simp add: days_before_def)
  ultimately show False using year_of_bounds [OF d(1)] d(2) by simp
qed

text \<open>The parts of the text and their ranges.\<close>

lemma date_parts:
  assumes "-366 \<le> d" "d < 3652059" and "month_from (month_lengths (year_of d)) 1 (d - days_before (year_of d)) = (m, day)"
  shows "1 \<le> m" "m \<le> 12" "1 \<le> day" "day \<le> month_lengths (year_of d) ! (m - 1)" "day \<le> 31"
    "days_of_date (year_of d) m (nat day) = d"
proof -
  let ?y = "year_of d"
  have d: "0 \<le> d - days_before ?y" "d - days_before ?y < sum_list (month_lengths ?y)"
    using year_of_bounds [OF assms(1)] year_length [of ?y] by simp_all
  have len: "length (month_lengths ?y) = 12" by (simp add: month_lengths_def)
  note mf = month_from_days [OF assms(3) d]
  then show m: "1 \<le> m" "m \<le> 12" "1 \<le> day" "day \<le> month_lengths ?y ! (m - 1)" by (simp_all add: len)
  from mf m(3) show "days_of_date ?y m (nat day) = d" by (simp add: days_of_date_def)
  have "list_all (\<lambda>l. l \<le> 31) (month_lengths ?y)" by (simp add: month_lengths_def)
  with m len have "month_lengths ?y ! (m - 1) \<le> 31" by (simp add: list_all_length)
  with m(4) show "day \<le> 31" by simp
qed

text \<open>
  Every instant of the years zero to 9999 is read back from its text exactly, to the nanosecond.
\<close>

lemma time_value_text:
  assumes "-31622400000000000 \<le> t" and "t < 315537897600000000000"
  shows "time_value (time_text t) = Some t"
proof -
  define secs ns where "secs = t div 10 ^ 9" and "ns = nat (t mod 10 ^ 9)"
  define d sod where "d = secs div 86400" and "sod = nat (secs mod 86400)"
  obtain m day where md: "month_from (month_lengths (year_of d)) 1 (d - days_before (year_of d)) = (m, day)" by fastforce
  have t: "t = secs * 10 ^ 9 + int ns" "ns < 10 ^ 9" by (simp_all add: secs_def ns_def nat_less_iff)
  have s: "secs = d * 86400 + int sod" "sod < 86400" by (simp_all add: d_def sod_def nat_less_iff)
  have "-31622400 \<le> secs" "secs < 315537897600" using assms t by simp_all
  then have d: "-366 \<le> d" "d < 3652059" using s by simp_all
  note parts = date_parts [OF d md]
  have y: "year_of d < 10 ^ 4" using year_of_max [OF d] by simp
  have m: "m < 10 ^ 2" "nat day < 10 ^ 2" using parts by simp_all
  have h: "sod div 3600 < 24" using s(2) by (simp add: less_mult_imp_div_less)
  have "sod div 3600 = sod div 60 div 60" by (simp add: div_mult2_eq [symmetric])
  then have sum: "sod div 3600 * 3600 + sod div 60 mod 60 * 60 + sod mod 60 = sod"
    using div_mult_mod_eq [of sod 60] div_mult_mod_eq [of "sod div 60" 60] by linarith
  have z: "zone_value ''Z'' = Some 0" by (simp add: zone_value_def)
  have f: "fraction_value (fraction_text ns @ ''Z'') = Some (ns, ''Z'')"
    by (rule fraction_value_text [OF t(2)]) (simp_all add: is_digit_def byte_def)
  have written: "time_text t = fixed_digits 4 (year_of d) @ CHR ''-'' # fixed_digits 2 m @ CHR ''-''
      # fixed_digits 2 (nat day) @ CHR ''T'' # fixed_digits 2 (sod div 3600) @ CHR '':''
      # fixed_digits 2 (sod div 60 mod 60) @ CHR '':'' # fixed_digits 2 (sod mod 60) @ fraction_text ns @ ''Z''"
    unfolding time_text_def Let_def secs_def [symmetric] ns_def [symmetric] d_def [symmetric] sod_def [symmetric] md
    by simp
  have "int (sod div 3600 * 3600 + sod div 60 mod 60 * 60 + sod mod 60) = int sod" by (simp only: sum)
  then have val: "(d * 86400 + int (sod div 3600 * 3600 + sod div 60 mod 60 * 60 + sod mod 60) - 0) * 10 ^ 9 + int ns = t"
    using t(1) s(1) by simp
  have two: "digits_value 0 (fixed_digits 2 (sod div 3600)) = Some (sod div 3600)"
    "digits_value 0 (fixed_digits 2 (sod div 60 mod 60)) = Some (sod div 60 mod 60)"
    "digits_value 0 (fixed_digits 2 (sod mod 60)) = Some (sod mod 60)"
    using h by (simp_all add: less_trans [of _ 60])
  have cond: "\<not> (m < 1 \<or> 12 < m \<or> nat day < 1 \<or> month_lengths (year_of d) ! (m - 1) < int (nat day) \<or>
      24 \<le> sod div 3600 \<or> 60 \<le> sod div 60 mod 60 \<or> 60 \<le> sod mod 60)"
    using parts h by (auto simp: not_le)
  show ?thesis
    unfolding time_value_def written
    by (simp add: f digits_value_fixed_less [OF y] digits_value_fixed_less [OF m(1)] digits_value_fixed_less [OF m(2)]
        two nth_append cond [simplified] z parts(6) val [simplified])
qed

end
