(* ===== verification/Util.thy ===== *)
theory Util
  imports Envelope GoPath
begin

text \<open>
  Small helpers of \<open>src/internal/util\<close>: identifiers (\<open>ids.go\<close>) and environment files
  (\<open>env.go\<close>).
\<close>

section \<open>Identifiers\<close>

text \<open>The argument is what the random source returned: eight bytes, or an error.\<close>

definition new_session_id :: "string result \<Rightarrow> string result" where
  "new_session_id random =
     (case random of
        Inl e \<Rightarrow> Inl (ErrWrap ''generate session id: '' e)
      | Inr raw \<Rightarrow> Inr (''sess_'' @ hex_encode raw))"

text \<open>\<open>None\<close> is the panic on an entropy failure.\<close>

definition new_id :: "string result \<Rightarrow> string \<Rightarrow> string option" where
  "new_id random pre = (case random of Inl e \<Rightarrow> None | Inr raw \<Rightarrow> Some (pre @ hex_encode raw))"

section \<open>Environment files\<close>

text \<open>
  \<open>bufio.ScanLines\<close>: lines end at a line feed and lose one carriage return before it; what
  follows the last line feed is a line if it is not empty.  The limit on the length of a line
  counts its carriage return.
\<close>

definition drop_cr :: "string \<Rightarrow> string" where
  "drop_cr l = (if l \<noteq> [] \<and> last l = cr then butlast l else l)"

definition scan_text :: "string \<Rightarrow> string list" where
  "scan_text s =
     (let ls = split_char nl s in if last ls = [] then butlast ls else ls)"

definition scan_token_limit :: nat where "scan_token_limit = 65536"

definition str_cut :: "string \<Rightarrow> string \<Rightarrow> (string \<times> string) option" where
  "str_cut s sep = (case str_index s sep of None \<Rightarrow> None | Some i \<Rightarrow> Some (take i s, drop (i + length sep) s))"

fun load_env_lines :: "string list \<Rightarrow> str_map \<Rightarrow> str_map result" where
  "load_env_lines [] env = Inr env"
| "load_env_lines (l # ls) env =
     (if length l \<ge> scan_token_limit
      then Inl (ErrWrap ''scan env file: '' (ErrMsg ''bufio.Scanner: token too long''))
      else let line = trim_space (drop_cr l) in
        if line = [] \<or> has_prefix line ''#'' then load_env_lines ls env
        else case str_cut line ''='' of
            None \<Rightarrow> Inl (ErrMsg (''invalid env line '' @ go_quote line))
          | Some (k, v) \<Rightarrow> load_env_lines ls (map_put (trim_space k) (trim_space v) env))"

text \<open>\<open>contents\<close> is what opening and reading the file gives.\<close>

definition load_env_file :: "(string \<Rightarrow> string result) \<Rightarrow> string \<Rightarrow> str_map result" where
  "load_env_file contents path =
     (if path = [] then Inr []
      else if str_contains (path_clean path) ''..''
      then Inl (ErrMsg (''env-file path must not contain '' @ [CHR 0x27] @ ''..'' @ [CHR 0x27] @ '': '' @ path))
      else case contents path of
          Inl e \<Rightarrow> Inl (ErrWrap ''open env file: '' e)
        | Inr text \<Rightarrow> load_env_lines (scan_text text) [])"

end
