(* ===== verification/JsonText.thy ===== *)
theory JsonText
  imports GoJson GoTime FileStore Util
begin

text \<open>
  The bytes behind the JSON trees: how \<open>encoding/json\<close> writes the trees of theories \<open>Wire\<close> and
  \<open>StoreWire\<close> as text, and how it reads a text into a Go value of a given type, which decides what a
  number or a string stands for.  A type is a schema here.  The theory shows that the trees are a
  faithful abstraction: what is written is read back as the same tree, compact or indented, and a
  JSON-lines file splits into exactly the lines that were appended to it.
\<close>

section \<open>Leaves\<close>

text \<open>A \<open>float64\<close> of at most two decimals, in the shortest form.\<close>

definition conf_text :: "confidence \<Rightarrow> string" where
  "conf_text c =
     (let a = nat \<bar>c\<bar> in
      (if c < 0 then ''-'' else []) @ nat_to_str (a div 100) @
      (if a mod 100 = 0 then [] else CHR ''.'' # trim_end (\<lambda>d. d = CHR ''0'') (fixed_digits 2 (a mod 100))))"

text \<open>Literals with more decimals or an exponent are outside the model.\<close>

definition hundredths_value :: "string \<Rightarrow> int option" where
  "hundredths_value u =
     (let r = dropWhile is_digit u in
      case (digits_value 0 (takeWhile is_digit u),
        if r = [] then Some 0
        else if hd r = CHR ''.'' \<and> tl r \<noteq> [] \<and> length (tl r) \<le> 2 then digits_value 0 (take 2 (tl r @ ''00''))
        else None) of
        (Some i, Some h) \<Rightarrow> Some (100 * int i + int h)
      | _ \<Rightarrow> None)"

definition conf_value :: "string \<Rightarrow> confidence option" where
  "conf_value s =
     (if has_prefix s ''-'' then map_option uminus (hundredths_value (drop 1 s)) else hundredths_value s)"

lemma takeWhile_digits:
  assumes "list_all is_digit ds" "s = [] \<or> \<not> is_digit (hd s)"
  shows "takeWhile is_digit (ds @ s) = ds" "dropWhile is_digit (ds @ s) = s"
  using assms by (cases s; simp add: list_all_iff takeWhile_append2 dropWhile_append2)+

lemma nat_to_str_digits_all: "list_all is_digit (nat_to_str n)"
  by (simp add: list_all_iff nat_to_str_digits)

lemma hundredths:
  assumes "0 < h" "h < 100"
  obtains t where "trim_end (\<lambda>d. d = CHR ''0'') (fixed_digits 2 h) = t" "list_all is_digit t" "t \<noteq> []" "length t \<le> 2"
    "digits_value 0 (take 2 (t @ ''00'')) = Some h"
proof -
  obtain t j where t: "trim_end (\<lambda>d. d = CHR ''0'') (fixed_digits 2 h) = t"
    "fixed_digits 2 h = t @ replicate j (CHR ''0'')" by (rule trim_zeros)
  have val: "digits_value 0 (t @ replicate j (CHR ''0'')) = Some h" using assms(2) by (simp add: t(2) [symmetric])
  have len: "length t + j = 2" using arg_cong [OF t(2), of length] by simp
  have "''00'' = replicate 2 (CHR ''0'')" by (simp add: numeral_2_eq_2)
  then have "take 2 (t @ ''00'') = t @ replicate j (CHR ''0'')" using len by (simp add: min_def)
  moreover have "t \<noteq> []" using val assms(1) digits_value_zeros [of j] by auto
  moreover have "list_all is_digit t" using fixed_digits_digits [of 2 h] by (simp add: t(2))
  ultimately show thesis using that t(1) val len by simp
qed

lemma conf_value_text: "conf_value (conf_text c) = Some c"
proof -
  define a where "a = nat \<bar>c\<bar>"
  define f where "f = (if a mod 100 = 0 then [] else CHR ''.'' # trim_end (\<lambda>d. d = CHR ''0'') (fixed_digits 2 (a mod 100)))"
  have f: "f = [] \<or> \<not> is_digit (hd f)" by (simp add: f_def is_digit_def byte_def)
  note tw = takeWhile_digits [OF nat_to_str_digits_all [of "a div 100"] f]
  have frac: "(if f = [] then Some 0
      else if hd f = CHR ''.'' \<and> tl f \<noteq> [] \<and> length (tl f) \<le> 2 then digits_value 0 (take 2 (tl f @ ''00''))
      else None) = Some (a mod 100)"
  proof (cases "a mod 100 = 0")
    case False
    obtain t where t: "trim_end (\<lambda>d. d = CHR ''0'') (fixed_digits 2 (a mod 100)) = t" "t \<noteq> []" "length t \<le> 2"
      "digits_value 0 (take 2 (t @ ''00'')) = Some (a mod 100)"
      using hundredths [of "a mod 100"] False by auto
    have ft: "f = CHR ''.'' # t" using False t(1) by (simp add: f_def)
    show ?thesis unfolding ft using t(2,3,4) by simp
  qed (simp add: f_def)
  obtain d r where hd: "nat_to_str (a div 100) = d # r" "is_digit d"
    using nat_to_str_digits_all [of "a div 100"] by (cases "nat_to_str (a div 100)") auto
  have sign: "has_prefix (nat_to_str (a div 100) @ f) ''-'' = False"
    using hd digit_not_sign [of d] by (simp add: has_prefix_def)
  have sum: "100 * int (a div 100) + int (a mod 100) = int a" by (metis mult_div_mod_eq of_nat_add of_nat_mult of_nat_numeral)
  have written: "conf_text c = (if c < 0 then ''-'' else []) @ nat_to_str (a div 100) @ f"
    by (simp add: conf_text_def Let_def a_def f_def)
  have body: "hundredths_value (nat_to_str (a div 100) @ f) = Some (int a)"
    unfolding hundredths_value_def Let_def tw frac digits_value_nat_to_str by (simp add: sum)
  show ?thesis
  proof (cases "c < 0")
    case True
    then have "has_prefix (conf_text c) ''-''" "drop 1 (conf_text c) = nat_to_str (a div 100) @ f" "- int a = c"
      by (simp_all add: written has_prefix_def a_def)
    with body show ?thesis by (simp add: conf_value_def)
  next
    case False
    then have "conf_text c = nat_to_str (a div 100) @ f" "int a = c" by (simp_all add: written a_def)
    with body sign show ?thesis by (simp add: conf_value_def)
  qed
qed

lemma nat_to_str_hd: "length (nat_to_str n) > 1 \<Longrightarrow> hd (nat_to_str n) \<noteq> CHR ''0''"
proof (induction n rule: nat_to_str.induct)
  case (1 n)
  show ?case
  proof (cases "n < 10")
    case True
    with 1(2) show ?thesis by (simp add: nat_to_str.simps [of n])
  next
    case False
    note n = nat_to_str.simps [of n]
    show ?thesis
    proof (cases "length (nat_to_str (n div 10)) > 1")
      case True
      with 1(1) [OF False] False show ?thesis by (simp add: n hd_append)
    next
      case short: False
      have "n div 10 < 10"
      proof (rule ccontr)
        assume "\<not> n div 10 < 10"
        then have "nat_to_str (n div 10) = nat_to_str (n div 10 div 10) @ [digit_char (n div 10 mod 10)]"
          by (simp add: nat_to_str.simps [of "n div 10"])
        moreover have "length (nat_to_str (n div 10 div 10)) \<ge> 1"
          by (simp add: Suc_le_eq)
        ultimately show False using short by simp
      qed
      then have "nat_to_str (n div 10) = [digit_char (n div 10)]" "0 < n div 10"
        using False by (simp_all add: nat_to_str.simps [of "n div 10"] div_greater_zero_iff)
      moreover have "digit_char (n div 10) \<noteq> CHR ''0''"
      proof
        assume "digit_char (n div 10) = CHR ''0''"
        then have "byte (digit_char (n div 10)) = byte (CHR ''0'')" by (simp only:)
        with \<open>n div 10 < 10\<close> \<open>0 < n div 10\<close> show False by (simp add: byte_digit_char) (simp add: byte_def)
      qed
      ultimately show ?thesis using False by (simp add: n)
    qed
  qed
qed

lemma all_digits: "list_all is_digit t \<Longrightarrow> takeWhile is_digit t = t \<and> dropWhile is_digit t = []"
  by (simp add: list_all_iff takeWhile_eq_all_conv dropWhile_eq_Nil_conv)

lemma number_ok_decimal:
  assumes "f = [] \<or> (\<exists>t. f = CHR ''.'' # t \<and> t \<noteq> [] \<and> list_all is_digit t)"
  shows "number_ok (nat_to_str n @ f)" "number_ok (CHR ''-'' # nat_to_str n @ f)"
proof -
  have end': "f = [] \<or> \<not> is_digit (hd f)" using assms by (auto simp: is_digit_def byte_def)
  note tw = takeWhile_digits [OF nat_to_str_digits_all [of n] end']
  have fr: "fraction_ok f"
    using assms by (auto simp: fraction_ok_def exponent_ok_def digits_ok_def all_digits)
  obtain d r where hd: "nat_to_str n = d # r" "is_digit d"
    using nat_to_str_digits_all [of n] by (cases "nat_to_str n") auto
  have "(case nat_to_str n @ f of [] \<Rightarrow> [] | c # r \<Rightarrow> if c = CHR ''-'' then r else nat_to_str n @ f) = nat_to_str n @ f"
    using hd digit_not_sign [of d] by simp
  then show "number_ok (nat_to_str n @ f)"
    unfolding number_ok_def Let_def using tw fr nat_to_str_hd [of n] by simp
  show "number_ok (CHR ''-'' # nat_to_str n @ f)"
    unfolding number_ok_def Let_def using tw fr nat_to_str_hd [of n] by simp
qed

lemma digits_num_char: "list_all is_digit ds \<Longrightarrow> list_all num_char ds"
  by (auto simp: list_all_iff num_char_def)

lemma num_char_signs [simp]: "num_char (CHR ''-'')" "num_char (CHR ''.'')"
  by (simp_all add: num_char_def)

lemma itoa_literal: "number_ok (itoa i) \<and> list_all num_char (itoa i)"
  using number_ok_decimal [of "[]"] digits_num_char [OF nat_to_str_digits_all] by (simp add: itoa_def)

lemma conf_literal: "number_ok (conf_text c) \<and> list_all num_char (conf_text c)"
proof -
  define h where "h = nat \<bar>c\<bar> mod 100"
  define f where "f = (if h = 0 then [] else CHR ''.'' # trim_end (\<lambda>d. d = CHR ''0'') (fixed_digits 2 h))"
  have "f = [] \<or> (\<exists>t. f = CHR ''.'' # t \<and> t \<noteq> [] \<and> list_all is_digit t)"
  proof (cases "h = 0")
    case False
    obtain t where "trim_end (\<lambda>d. d = CHR ''0'') (fixed_digits 2 h) = t" "list_all is_digit t" "t \<noteq> []"
      using hundredths [of h] False by (auto simp: h_def)
    with False show ?thesis by (simp add: f_def)
  qed (simp add: f_def)
  note f = this
  have "list_all num_char f" using f digits_num_char by auto
  moreover have "conf_text c = (if c < 0 then ''-'' else []) @ nat_to_str (nat \<bar>c\<bar> div 100) @ f"
    by (simp add: conf_text_def Let_def f_def h_def)
  ultimately show ?thesis
    using number_ok_decimal [OF f] digits_num_char [OF nat_to_str_digits_all] by simp
qed

section \<open>Trees as text\<close>

fun json_doc :: "json \<Rightarrow> jdoc" where
  "json_doc JNull = DNull"
| "json_doc (JBool b) = DBool b"
| "json_doc (JNum i) = DNum (itoa i)"
| "json_doc (JConf c) = DNum (conf_text c)"
| "json_doc (JTime t) = DStr (time_text t)"
| "json_doc (JStr s) = DStr s"
| "json_doc (JArr js) = DArr (map json_doc js)"
| "json_doc (JObj fs) = DObj (map (\<lambda>(k, j). (k, json_doc j)) fs)"

text \<open>\<open>json.Marshal\<close> and \<open>json.MarshalIndent\<close>.\<close>

definition json_text :: "json \<Rightarrow> string" where
  "json_text j = compact_text (json_doc j)"

definition json_indent :: "json \<Rightarrow> string" where
  "json_indent j = indent_text (json_doc j)"

text \<open>The Go types of the documents.  \<open>SObj\<close> lists the fields of a struct; other fields are skipped.\<close>

datatype schema =
    SStr | SInt | SBool | STime | SConf
  | SList schema
  | SMap schema
  | SObj "(string \<times> schema) list"

fun doc_json :: "schema \<Rightarrow> jdoc \<Rightarrow> json option"
  and doc_elems :: "schema \<Rightarrow> jdoc list \<Rightarrow> json list option"
  and doc_entries :: "schema \<Rightarrow> (string \<times> jdoc) list \<Rightarrow> (string \<times> json) list option"
  and doc_fields :: "(string \<times> schema) list \<Rightarrow> (string \<times> jdoc) list \<Rightarrow> (string \<times> json) list option" where
  "doc_json sc DNull = Some JNull"
| "doc_json sc (DBool b) = (if sc = SBool then Some (JBool b) else None)"
| "doc_json sc (DNum lit) =
     (if sc = SInt then map_option JNum (atoi lit)
      else if sc = SConf then map_option JConf (conf_value lit) else None)"
| "doc_json sc (DStr s) =
     (if sc = SStr then Some (JStr s) else if sc = STime then map_option JTime (time_value s) else None)"
| "doc_json sc (DArr xs) =
     (case sc of SList el \<Rightarrow> map_option JArr (doc_elems el xs) | _ \<Rightarrow> None)"
| "doc_json sc (DObj fs) =
     (case sc of SMap el \<Rightarrow> map_option JObj (doc_entries el fs)
      | SObj scs \<Rightarrow> map_option JObj (doc_fields scs fs) | _ \<Rightarrow> None)"
| "doc_elems el [] = Some []"
| "doc_elems el (x # xs) = Option.bind (doc_json el x) (\<lambda>j. map_option ((#) j) (doc_elems el xs))"
| "doc_entries el [] = Some []"
| "doc_entries el ((k, x) # fs) = Option.bind (doc_json el x) (\<lambda>j. map_option ((#) (k, j)) (doc_entries el fs))"
| "doc_fields scs [] = Some []"
| "doc_fields scs ((k, x) # fs) =
     (case map_of scs k of
        None \<Rightarrow> doc_fields scs fs
      | Some sc \<Rightarrow> Option.bind (doc_json sc x) (\<lambda>j. map_option ((#) (k, j)) (doc_fields scs fs)))"

text \<open>\<open>json.Unmarshal\<close> up to the tree.\<close>

definition read_text :: "schema \<Rightarrow> string \<Rightarrow> json option" where
  "read_text sc s = Option.bind (json_parse s) (doc_json sc)"

text \<open>The trees that a value of a type is written as.\<close>

fun fits :: "schema \<Rightarrow> json \<Rightarrow> bool" where
  "fits sc JNull = True"
| "fits sc (JBool b) = (sc = SBool)"
| "fits sc (JNum i) = (sc = SInt \<and> min_int64 \<le> i \<and> i \<le> max_int64)"
| "fits sc (JConf c) = (sc = SConf)"
| "fits sc (JTime t) = (sc = STime \<and> json_time_ok t)"
| "fits sc (JStr s) = (sc = SStr)"
| "fits sc (JArr js) = (case sc of SList el \<Rightarrow> list_all (fits el) js | _ \<Rightarrow> False)"
| "fits sc (JObj fs) = (case sc of
     SMap el \<Rightarrow> list_all (\<lambda>(k, j). fits el j) fs
   | SObj scs \<Rightarrow> list_all (\<lambda>(k, j). is_ascii k \<and> (case map_of scs k of None \<Rightarrow> False | Some sc \<Rightarrow> fits sc j)) fs
   | _ \<Rightarrow> False)"

fun valid_json :: "json \<Rightarrow> json" where
  "valid_json (JStr s) = JStr (to_valid_utf8 s)"
| "valid_json (JArr js) = JArr (map valid_json js)"
| "valid_json (JObj fs) = JObj (map (\<lambda>(k, j). (to_valid_utf8 k, valid_json j)) fs)"
| "valid_json j = j"

section \<open>Reading what was written\<close>

lemma is_ascii_simps [simp]:
  "is_ascii []" "is_ascii (c # s) \<longleftrightarrow> byte c < 0x80 \<and> is_ascii s" "is_ascii (s @ t) \<longleftrightarrow> is_ascii s \<and> is_ascii t"
  by (auto simp: is_ascii_def)

lemma digits_ascii: "list_all is_digit ds \<Longrightarrow> is_ascii ds"
  by (auto simp: is_ascii_def list_all_iff is_digit_def)

lemma time_text_ascii: "is_ascii (time_text t)"
proof -
  have fr: "is_ascii (fraction_text ns)" for ns
  proof -
    obtain u j where u: "trim_end (\<lambda>c. c = CHR ''0'') (fixed_digits 9 ns) = u" "fixed_digits 9 ns = u @ replicate j (CHR ''0'')"
      by (rule trim_zeros)
    then have "list_all is_digit u" using fixed_digits_digits [of 9 ns] by simp
    from digits_ascii [OF this] show ?thesis by (simp add: fraction_text_def u(1)) (simp add: byte_def)
  qed
  have codes: "byte (CHR ''-'') < 0x80" "byte (CHR ''T'') < 0x80" "byte (CHR '':'') < 0x80" "byte (CHR ''Z'') < 0x80"
    by (simp_all add: byte_def)
  show ?thesis
    by (simp add: time_text_def Let_def split_beta fr codes digits_ascii [OF fixed_digits_digits])
qed

lemma numbers_ok_json: "numbers_ok (json_doc j)"
  using itoa_literal conf_literal by (induction j) (auto simp: list_all_iff)

lemma doc_json_doc: "fits sc j \<Longrightarrow> doc_json sc (valid_doc (json_doc j)) = Some (valid_json j)"
proof (induction j arbitrary: sc)
  case (JTime t)
  then show ?case by (simp add: to_valid_utf8_ascii [OF time_text_ascii] time_value_text json_time_ok_def)
next
  case (JArr js)
  then obtain el where sc: "sc = SList el" "list_all (fits el) js" by (cases sc) auto
  have "doc_elems el (map (valid_doc \<circ> json_doc) js') = Some (map valid_json js')" if "set js' \<subseteq> set js" for js'
    using that JArr.IH sc(2) by (induction js') (auto simp: list_all_iff)
  from this [of js] show ?case by (simp add: sc(1))
next
  case (JObj fs)
  show ?case
  proof (cases sc)
    case (SMap el)
    have "doc_entries el (map (\<lambda>(k, x). (to_valid_utf8 k, valid_doc x)) (map (\<lambda>(k, j). (k, json_doc j)) fs')) =
        Some (map (\<lambda>(k, j). (to_valid_utf8 k, valid_json j)) fs')" if "set fs' \<subseteq> set fs" for fs'
      using that JObj SMap by (induction fs') (fastforce simp: list_all_iff)+
    from this [of fs] show ?thesis by (simp add: SMap)
  next
    case (SObj scs)
    have "doc_fields scs (map (\<lambda>(k, x). (to_valid_utf8 k, valid_doc x)) (map (\<lambda>(k, j). (k, json_doc j)) fs')) =
        Some (map (\<lambda>(k, j). (to_valid_utf8 k, valid_json j)) fs')" if "set fs' \<subseteq> set fs" for fs'
      using that
    proof (induction fs')
      case (Cons f fs')
      obtain k j where f: "f = (k, j)" by (cases f)
      with Cons.prems JObj.prems obtain sc' where "is_ascii k" "map_of scs k = Some sc'" "fits sc' j"
        by (auto simp: SObj list_all_iff split: option.splits)
      moreover have "doc_json sc' (valid_doc (json_doc j)) = Some (valid_json j)"
        using JObj.IH [of f j sc'] Cons.prems f \<open>fits sc' j\<close> by auto
      ultimately show ?case using Cons by (simp add: f to_valid_utf8_ascii)
    qed simp
    from this [of fs] show ?thesis by (simp add: SObj)
  qed (use JObj.prems in simp_all)
qed (simp_all add: atoi_itoa conf_value_text)

lemma read_text_written:
  assumes "fits sc j" "blank w"
  shows "read_text sc (json_text j @ w) = Some (valid_json j)" "read_text sc (json_indent j @ w) = Some (valid_json j)"
  using json_parse_written [OF numbers_ok_json assms(2)] doc_json_doc [OF assms(1)]
  by (simp_all add: read_text_def json_text_def json_indent_def)

text \<open>Valid strings stay as they are.\<close>

lemma to_valid_utf8_own:
  assumes "utf8_decode s = (r, n)" "s \<noteq> []" "\<not> (r = rune_error \<and> n = 1)"
  shows "to_valid_utf8 (take n s @ t) = take n s @ to_valid_utf8 t"
proof -
  have n: "1 \<le> n" "n \<le> length s" using utf8_decode_size [OF assms(2)] assms(1) by simp_all
  then have "take n s @ t \<noteq> []" using assms(2) by (cases n) auto
  with utf8_decode_own [OF assms, of t] assms(3) n show ?thesis
    by (auto simp: to_valid_utf8.simps [of "take n s @ t"])
qed

lemma utf8_decode_replacement: "utf8_decode (utf8_encode rune_error) = (rune_error, 3)"
  by (simp add: utf8_encode_def utf8_decode_def utf8_decode_bytes_def byte_def utf8_first_def utf8_cont_def)

lemma to_valid_utf8_idem: "to_valid_utf8 (to_valid_utf8 s) = to_valid_utf8 s"
proof (induction s rule: to_valid_utf8.induct)
  case (1 s)
  show ?case
  proof (cases "s = []")
    case False
    obtain r n where d: "utf8_decode s = (r, n)" by fastforce
    have IH: "to_valid_utf8 (to_valid_utf8 (drop n s)) = to_valid_utf8 (drop n s)"
      using 1 [OF False d [symmetric] refl] .
    note step = to_valid_utf8.simps [of s]
    show ?thesis
    proof (cases "r = rune_error \<and> n = 1")
      case True
      have "length (utf8_encode rune_error) = 3" "utf8_encode rune_error \<noteq> []" by (simp_all add: utf8_encode_def)
      with to_valid_utf8_own [OF utf8_decode_replacement, of "to_valid_utf8 (drop n s)"] True IH False d
      show ?thesis by (auto simp: step)
    next
      case ok: False
      have "to_valid_utf8 s = take n s @ to_valid_utf8 (drop n s)" using False d ok by (auto simp: step)
      with to_valid_utf8_own [OF d False ok, of "to_valid_utf8 (drop n s)"] IH show ?thesis by simp
    qed
  qed simp
qed

section \<open>The documents of the program\<close>

text \<open>A struct with the given fields, all of whose names are ASCII.\<close>

definition field_fits :: "(string \<times> schema) list \<Rightarrow> string \<times> json \<Rightarrow> bool" where
  "field_fits scs f \<longleftrightarrow> is_ascii (fst f) \<and> (case map_of scs (fst f) of None \<Rightarrow> False | Some sc \<Rightarrow> fits sc (snd f))"

lemma fits_SObj: "fits (SObj scs) (JObj fs) \<longleftrightarrow> list_all (field_fits scs) fs"
  by (auto simp: field_fits_def list_all_iff split_beta)

lemma field_fits_omit:
  "field_fits scs (k, JStr s) \<Longrightarrow> list_all (field_fits scs) (omit_raw k s)"
  "field_fits scs (k, jstr s) \<Longrightarrow> list_all (field_fits scs) (omit_str k s)"
  "(\<And>x. v = Some x \<Longrightarrow> field_fits scs (k, f x)) \<Longrightarrow> list_all (field_fits scs) (omit_none k f v)"
  "field_fits scs (k, JBool True) \<Longrightarrow> list_all (field_fits scs) (omit_false k b)"
  "field_fits scs (k, JArr (map g xs)) \<Longrightarrow> list_all (field_fits scs) (omit_nil k g xs)"
  "field_fits scs (k, JNum n) \<Longrightarrow> list_all (field_fits scs) (omit_zero k n)"
  "field_fits scs (k, map_json m) \<Longrightarrow> list_all (field_fits scs) (omit_map k m)"
  by (auto simp: omit_raw_def omit_str_def omit_none_def omit_false_def omit_nil_def omit_zero_def omit_map_def
      split: option.splits)

definition turn_schema :: "(string \<times> schema) list" where
  "turn_schema =
     [(''conversation_id'', SStr), (''index'', SInt), (''from'', SStr), (''from_id'', SStr), (''to_id'', SStr),
      (''reason'', SStr), (''next_id_parsed'', SStr), (''fallback_used'', SBool), (''envelope'', SStr),
      (''response'', SStr), (''marker_token'', SStr), (''started_at'', STime), (''ended_at'', STime),
      (''completion_confidence'', SConf), (''parser_confidence'', SConf), (''warnings'', SList SStr)]"

lemma turn_schema_fields:
  "field_fits turn_schema (''conversation_id'', j) = fits SStr j" "field_fits turn_schema (''index'', j) = fits SInt j"
  "field_fits turn_schema (''from'', j) = fits SStr j" "field_fits turn_schema (''from_id'', j) = fits SStr j"
  "field_fits turn_schema (''to_id'', j) = fits SStr j" "field_fits turn_schema (''reason'', j) = fits SStr j"
  "field_fits turn_schema (''next_id_parsed'', j) = fits SStr j" "field_fits turn_schema (''fallback_used'', j) = fits SBool j"
  "field_fits turn_schema (''envelope'', j) = fits SStr j" "field_fits turn_schema (''response'', j) = fits SStr j"
  "field_fits turn_schema (''marker_token'', j) = fits SStr j" "field_fits turn_schema (''started_at'', j) = fits STime j"
  "field_fits turn_schema (''ended_at'', j) = fits STime j"
  "field_fits turn_schema (''completion_confidence'', j) = fits SConf j"
  "field_fits turn_schema (''parser_confidence'', j) = fits SConf j"
  "field_fits turn_schema (''warnings'', j) = fits (SList SStr) j"
  by (simp_all add: field_fits_def turn_schema_def byte_def)

lemma fits_strings: "fits (SList SStr) (JArr (map JStr xs))" "fits (SList SStr) (JArr (map jstr xs))"
  by (simp_all add: list_all_iff jstr_def)

lemma turn_fits:
  assumes "json_time_ok (ct_started_at t)" "json_time_ok (ct_ended_at t)" "min_int64 \<le> ct_index t" "ct_index t \<le> max_int64"
  shows "fits (SObj turn_schema) (JObj (raw_turn_fields t))"
proof -
  have "list_all (field_fits turn_schema) (omit_nil ''warnings'' JStr (ct_warnings t))"
    by (rule field_fits_omit(5)) (simp only: turn_schema_fields fits_strings)
  then show ?thesis
    unfolding fits_SObj raw_turn_fields_def list_all_append
    using assms by (simp add: turn_schema_fields field_fits_omit)
qed

lemma valid_omit:
  "map (\<lambda>(k, j). (to_valid_utf8 k, valid_json j)) (omit_raw k s) = omit_str (to_valid_utf8 k) s"
  "map (\<lambda>(k, j). (to_valid_utf8 k, valid_json j)) (omit_none k JStr v) = omit_none (to_valid_utf8 k) jstr v"
  "map (\<lambda>(k, j). (to_valid_utf8 k, valid_json j)) (omit_false k b) = omit_false (to_valid_utf8 k) b"
  "map (\<lambda>(k, j). (to_valid_utf8 k, valid_json j)) (omit_nil k JStr xs) = omit_nil (to_valid_utf8 k) jstr xs"
  by (simp_all add: omit_raw_def omit_str_def omit_none_def omit_false_def omit_nil_def jstr_def split: option.split)

lemma valid_turn_text: "valid_json (JObj (raw_turn_fields t)) = JObj (turn_fields t)"
proof -
  have k: "list_all (\<lambda>k. to_valid_utf8 k = k) (map fst turn_schema)"
  proof -
    have "list_all is_ascii (map fst turn_schema)" by (simp add: turn_schema_def byte_def)
    then show ?thesis by (auto simp: list_all_iff to_valid_utf8_ascii)
  qed
  show ?thesis
    using k by (simp add: raw_turn_fields_def turn_fields_def valid_omit turn_schema_def jstr_def)
qed

text \<open>A turn as \<open>json.Marshal\<close> writes it, and \<open>json.Unmarshal\<close> into a turn.\<close>

definition turn_line :: "conversation_turn \<Rightarrow> string" where
  "turn_line t = json_text (JObj (raw_turn_fields t))"

definition read_turn :: "string \<Rightarrow> conversation_turn option" where
  "read_turn s = Option.bind (read_text (SObj turn_schema) s) unmarshal_turn"

lemma json_text_line: "nl \<notin> set (json_text j) \<and> cr \<notin> set (json_text j)"
  unfolding json_text_def by (rule compact_text_line [OF numbers_ok_json])

lemma read_turn_line:
  assumes "json_time_ok (ct_started_at t)" "json_time_ok (ct_ended_at t)" "min_int64 \<le> ct_index t" "ct_index t \<le> max_int64"
    and "blank w"
  shows "read_text (SObj turn_schema) (turn_line t @ w) = Some (JObj (turn_fields t))"
    and "read_turn (turn_line t @ w) = Some (valid_turn t)"
proof -
  have r: "read_text (SObj turn_schema) (turn_line t @ w) = Some (JObj (turn_fields t))"
    using read_text_written(1) [OF turn_fits [OF assms(1-4)] assms(5)] unfolding valid_turn_text turn_line_def .
  show "read_text (SObj turn_schema) (turn_line t @ w) = Some (JObj (turn_fields t))" by (rule r)
  show "read_turn (turn_line t @ w) = Some (valid_turn t)"
    using unmarshal_turn_fields by (simp add: read_turn_def r)
qed

section \<open>JSON-lines files\<close>

text \<open>What the scanner makes of the bytes of a file: the tree of each line and its length.\<close>

definition jsonl_lines :: "schema \<Rightarrow> string \<Rightarrow> (json option \<times> nat) list" where
  "jsonl_lines sc b = map (\<lambda>l. (read_text sc (drop_cr l), length l)) (scan_text b)"

definition ended :: "string \<Rightarrow> bool" where
  "ended b \<longleftrightarrow> b = [] \<or> last b = nl"

text \<open>The bytes behind a file of the store.\<close>

definition represents :: "schema \<Rightarrow> fcontent option \<Rightarrow> string \<Rightarrow> bool" where
  "represents sc c b \<longleftrightarrow> ended b \<and> (case c of None \<Rightarrow> b = [] | Some c \<Rightarrow> c = Lines (jsonl_lines sc b))"

lemma scan_text_append:
  assumes "ended b" "nl \<notin> set l"
  shows "scan_text (b @ l @ [nl]) = scan_text b @ [l]"
proof (cases "b = []")
  case True
  with assms(2) show ?thesis
    using split_char_append [of nl l "[]"] by (simp add: scan_text_def split_char_no_sep Let_def)
next
  case False
  with assms(1) obtain a where b: "b = a @ [nl]" by (metis append_butlast_last_id ended_def)
  have "split_char nl (b @ l @ [nl]) = split_char nl a @ [l] @ [[]]"
    using split_char_append [of nl a "l @ [nl]"] split_char_append [of nl l "[]"] assms(2)
    by (simp add: b split_char_no_sep)
  moreover have "split_char nl b = split_char nl a @ [[]]" by (simp add: b split_char_snoc_sep)
  ultimately show ?thesis by (simp add: scan_text_def Let_def butlast_append)
qed

lemma drop_cr_id: "cr \<notin> set l \<Longrightarrow> drop_cr l = l"
  by (metis drop_cr_def last_in_set)

lemma jsonl_lines_append:
  assumes "ended b"
  shows "jsonl_lines sc (b @ json_text j @ [nl]) = jsonl_lines sc b @ [(read_text sc (json_text j), length (json_text j))]"
  using scan_text_append [OF assms, of "json_text j"] json_text_line [of j]
  by (simp add: jsonl_lines_def drop_cr_id)

text \<open>One append of the store, on the bytes.\<close>

lemma append_turn_bytes:
  assumes app: "append_conversation_turn faults (\<lambda>j. length (json_text j)) s t fs = (None, fs')"
    and idx: "min_int64 \<le> ct_index t" "ct_index t \<le> max_int64"
    and rep: "represents (SObj turn_schema) (fs_lookup fs (conversation_turn_path s (ct_conversation_id t))) b"
  shows "represents (SObj turn_schema) (fs_lookup fs' (conversation_turn_path s (ct_conversation_id t)))
    (b @ turn_line t @ [nl])"
proof -
  let ?p = "conversation_turn_path s (ct_conversation_id t)"
  obtain j where j: "marshal_turn t = Inr j" and l: "fs_lookup fs' ?p =
      Some (Lines ((case fs_lookup fs ?p of None \<Rightarrow> [] | Some c \<Rightarrow> as_lines c)
        @ [(Some j, turn_size (\<lambda>j. length (json_text j)) t)]))"
    using append_conversation_turn_lookup [OF app, of ?p] by auto
  from j have t: "json_time_ok (ct_started_at t)" "json_time_ok (ct_ended_at t)" "j = JObj (turn_fields t)"
    by (auto simp: marshal_turn_def split: if_splits)
  have "(case fs_lookup fs ?p of None \<Rightarrow> [] | Some c \<Rightarrow> as_lines c) = jsonl_lines (SObj turn_schema) b"
    using rep by (auto simp: represents_def jsonl_lines_def scan_text_def Let_def split: option.splits)
  moreover have "ended b" using rep by (simp add: represents_def)
  ultimately show ?thesis
    using read_turn_line(1) [OF t(1,2) idx, of "[]"]
    by (simp add: represents_def l t(3) turn_size_def turn_line_def jsonl_lines_append ended_def blank_def)
qed

definition log_bytes :: "conversation_turn list \<Rightarrow> string" where
  "log_bytes ts = concat (map (\<lambda>t. turn_line t @ [nl]) ts)"

lemma append_turns_bytes:
  assumes "append_each (append_conversation_turn faults (\<lambda>j. length (json_text j)) s) ts fs = (None, fs')"
    and "\<forall>t \<in> set ts. ct_conversation_id t = i \<and> min_int64 \<le> ct_index t \<and> ct_index t \<le> max_int64"
    and "represents (SObj turn_schema) (fs_lookup fs (conversation_turn_path s i)) b"
  shows "represents (SObj turn_schema) (fs_lookup fs' (conversation_turn_path s i)) (b @ log_bytes ts) \<and>
    list_all (\<lambda>t. json_time_ok (ct_started_at t) \<and> json_time_ok (ct_ended_at t)) ts"
  using assms
proof (induction ts arbitrary: fs b)
  case (Cons t ts)
  from Cons.prems(1) obtain fs1 where a: "append_conversation_turn faults (\<lambda>j. length (json_text j)) s t fs = (None, fs1)"
    "append_each (append_conversation_turn faults (\<lambda>j. length (json_text j)) s) ts fs1 = (None, fs')"
    by (auto split: prod.splits option.splits)
  have t: "ct_conversation_id t = i" "min_int64 \<le> ct_index t" "ct_index t \<le> max_int64" using Cons.prems(2) by simp_all
  have ok: "json_time_ok (ct_started_at t) \<and> json_time_ok (ct_ended_at t)"
    using append_conversation_turn_lookup [OF a(1), of "[]"] by (auto simp: marshal_turn_def split: if_splits)
  have "represents (SObj turn_schema) (fs_lookup fs1 (conversation_turn_path s i)) (b @ turn_line t @ [nl])"
    using append_turn_bytes [OF a(1) t(2,3)] Cons.prems(3) t(1) by simp
  from Cons.IH [OF a(2) _ this] Cons.prems(2) ok show ?case by (simp add: log_bytes_def)
qed (simp add: log_bytes_def)

lemma scan_log_bytes: "scan_text (log_bytes ts) = map turn_line ts" and ended_log_bytes: "ended (log_bytes ts)"
proof (induction ts rule: rev_induct)
  case (snoc t ts)
  have "log_bytes (ts @ [t]) = log_bytes ts @ turn_line t @ [nl]" by (simp add: log_bytes_def)
  with snoc scan_text_append [of "log_bytes ts" "turn_line t"] json_text_line show
    "scan_text (log_bytes (ts @ [t])) = map turn_line (ts @ [t])" "ended (log_bytes (ts @ [t]))"
    by (simp_all add: turn_line_def ended_def)
qed (simp_all add: log_bytes_def scan_text_def ended_def)

text \<open>
  C17. The log of a conversation as bytes: after turns were appended without an error to a
  conversation that had no log, the lines of the store are what the scanner makes of the concatenated
  JSON texts, one per line, and reading the file line by line gives the turns in order, with invalid
  UTF-8 replaced and every other field as it was.
\<close>

theorem turn_log_bytes:
  assumes "append_each (append_conversation_turn faults (\<lambda>j. length (json_text j)) s) ts fs = (None, fs')"
    and "\<forall>t \<in> set ts. ct_conversation_id t = i \<and> min_int64 \<le> ct_index t \<and> ct_index t \<le> max_int64"
    and "fs_lookup fs (conversation_turn_path s i) = None"
  shows "(ts \<noteq> [] \<longrightarrow> fs_lookup fs' (conversation_turn_path s i) =
      Some (Lines (jsonl_lines (SObj turn_schema) (log_bytes ts)))) \<and>
    map (\<lambda>l. read_turn (drop_cr l)) (scan_text (log_bytes ts)) = map (\<lambda>t. Some (valid_turn t)) ts"
proof -
  have rep: "represents (SObj turn_schema) (fs_lookup fs' (conversation_turn_path s i)) (log_bytes ts)"
    and ok: "list_all (\<lambda>t. json_time_ok (ct_started_at t) \<and> json_time_ok (ct_ended_at t)) ts"
    using append_turns_bytes [OF assms(1,2), of "[]"] assms(3) by (simp_all add: represents_def ended_def)
  have "read_turn (drop_cr (turn_line t)) = Some (valid_turn t)" if "t \<in> set ts" for t
    using read_turn_line(2) [of t "[]"] that assms(2) ok json_text_line
    by (simp add: turn_line_def drop_cr_id list_all_iff blank_def)
  moreover have "log_bytes ts \<noteq> []" if "ts \<noteq> []" using that by (cases ts) (simp_all add: log_bytes_def)
  ultimately show ?thesis
    using rep by (auto simp: represents_def scan_log_bytes split: option.splits)
qed

theorem turn_log_bytes_witness:
  "\<exists>fs'. append_each (append_conversation_turn no_faults (\<lambda>j. length (json_text j)) demo_store)
       [demo_turn 1, demo_turn 2] empty_fs = (None, fs') \<and>
     fs_lookup fs' (conversation_turn_path demo_store ''c1'') =
       Some (Lines (jsonl_lines (SObj turn_schema) (log_bytes [demo_turn 1, demo_turn 2]))) \<and>
     map (\<lambda>l. read_turn (drop_cr l)) (scan_text (log_bytes [demo_turn 1, demo_turn 2])) =
       [Some (valid_turn (demo_turn 1)), Some (valid_turn (demo_turn 2))]"
proof -
  let ?ts = "[demo_turn 1, demo_turn 2]"
  let ?app = "append_each (append_conversation_turn no_faults (\<lambda>j. length (json_text j)) demo_store) ?ts empty_fs"
  have "\<forall>t \<in> set ?ts. \<exists>j. marshal_turn t = Inr j"
    by (simp add: marshal_turn_def demo_turn_def zero_conversation_turn_def json_time_ok_def)
  from append_all_ok [OF this, of "\<lambda>j. length (json_text j)" demo_store empty_fs]
  obtain fs' where a: "?app = (None, fs')" by (metis prod.collapse)
  have i: "\<forall>t \<in> set ?ts. ct_conversation_id t = ''c1'' \<and> min_int64 \<le> ct_index t \<and> ct_index t \<le> max_int64"
    by (simp add: demo_turn_def zero_conversation_turn_def min_int64_def max_int64_def)
  from turn_log_bytes [OF a i] a show ?thesis by (simp add: empty_fs_def fs_lookup_def)
qed

end
