(* ===== verification/Frames.thy ===== *)
theory Frames
  imports Watch JsonText
begin

text \<open>
  The event streams of the HTTP server as bytes: the frames of theory \<open>Watch\<close> are written with
  \<open>sendSSEEvent\<close> and \<open>sendSSEComment\<close> (\<open>src/internal/api/handlers_sse.go\<close>), and a client reads them
  line by line.  No payload can break the framing, because the JSON text of an event has no line break.
\<close>

section \<open>Writing and reading frames\<close>

fun frame_text :: "sse_frame \<Rightarrow> string" where
  "frame_text (SseEvent kind payload) = send_sse_event kind (json_text payload)"
| "frame_text (SseComment c) = send_sse_comment c"

definition stream_text :: "sse_frame list \<Rightarrow> string" where
  "stream_text fs = concat (map frame_text fs)"

text \<open>
  The event stream format on the side of a client: a blank line dispatches the data collected so
  far, lines that start with a colon are comments, several data lines are joined.
\<close>

fun sse_dispatch :: "string \<Rightarrow> string option \<Rightarrow> string list \<Rightarrow> (string \<times> string) list" where
  "sse_dispatch ev dat [] = []"
| "sse_dispatch ev dat (l # ls) =
     (if l = [] then (case dat of None \<Rightarrow> sse_dispatch [] None ls | Some x \<Rightarrow> (ev, x) # sse_dispatch [] None ls)
      else if has_prefix l '':'' then sse_dispatch ev dat ls
      else if has_prefix l ''event: '' then sse_dispatch (drop 7 l) dat ls
      else if has_prefix l ''data: '' then
        sse_dispatch ev (Some (case dat of None \<Rightarrow> drop 6 l | Some x \<Rightarrow> x @ nl # drop 6 l)) ls
      else sse_dispatch ev dat ls)"

definition client_events :: "string \<Rightarrow> (string \<times> string) list" where
  "client_events s = sse_dispatch [] None (split_char nl s)"

fun sent_events :: "sse_frame list \<Rightarrow> (string \<times> string) list" where
  "sent_events [] = []"
| "sent_events (SseEvent kind payload # fs) = (kind, json_text payload) # sent_events fs"
| "sent_events (SseComment c # fs) = sent_events fs"

section \<open>Framing\<close>

fun frame_ok :: "sse_frame \<Rightarrow> bool" where
  "frame_ok (SseEvent kind payload) \<longleftrightarrow> nl \<notin> set kind"
| "frame_ok (SseComment c) \<longleftrightarrow> nl \<notin> set c"

lemma split_line: "nl \<notin> set l \<Longrightarrow> split_char nl (l @ nl # s) = l # split_char nl s"
  by (simp add: split_char_append split_char_no_sep)

lemma client_events_stream: "list_all frame_ok fs \<Longrightarrow> client_events (stream_text fs) = sent_events fs"
proof (induction fs)
  case Nil
  then show ?case by (simp add: client_events_def stream_text_def)
next
  case (Cons f fs)
  then have IH: "sse_dispatch [] None (split_char nl (stream_text fs)) = sent_events fs" by (simp add: client_events_def)
  show ?case
  proof (cases f)
    case (SseEvent kind payload)
    with Cons.prems have "nl \<notin> set (''event: '' @ kind)" "nl \<notin> set (''data: '' @ json_text payload)"
      using json_text_line [of payload] by auto
    from split_line [OF this(1)] split_line [OF this(2)]
    have "split_char nl (stream_text (f # fs)) =
        (''event: '' @ kind) # (''data: '' @ json_text payload) # [] # split_char nl (stream_text fs)"
      by (simp add: stream_text_def SseEvent send_sse_event_def)
    then show ?thesis using IH by (simp add: client_events_def SseEvent has_prefix_def)
  next
    case (SseComment c)
    with Cons.prems have "nl \<notin> set ('': '' @ c)" by auto
    from split_line [OF this] have "split_char nl (stream_text (f # fs)) = ('': '' @ c) # [] # split_char nl (stream_text fs)"
      by (simp add: stream_text_def SseComment send_sse_comment_def)
    then show ?thesis using IH by (simp add: client_events_def SseComment has_prefix_def)
  qed
qed

lemma stream_step_frames_ok: "list_all frame_ok (ss_frames s) \<Longrightarrow> list_all frame_ok (ss_frames (stream_step root inp s))"
proof -
  have "nl \<notin> set (sse_event_type k)" for k by (cases k) simp_all
  then show "list_all frame_ok (ss_frames s) \<Longrightarrow> ?thesis"
    by (auto simp: stream_step_def send_def split: stream_input.split list.split)
qed

lemma stream_frames_ok:
  "list_all frame_ok (ss_frames s) \<Longrightarrow> list_all frame_ok (ss_frames (fold (stream_step root) inputs s))"
  by (induction inputs arbitrary: s) (simp_all add: stream_step_frames_ok)

text \<open>
  C25. What a client reads from a conversation stream is what the server sent: for every store root,
  conversation id and sequence of reports, ticks and closings, reading the bytes of the stream line
  by line gives exactly the events of its frames in order, each with its kind and the JSON text of its
  payload; heartbeats are skipped, and no id and no file name, whatever characters it has, ends or
  forges an event.
\<close>

theorem stream_events_read:
  "client_events (stream_text (ss_frames (conversation_stream root watcher_ok cid inputs))) =
     sent_events (ss_frames (conversation_stream root watcher_ok cid inputs))"
  unfolding conversation_stream_def
  by (intro client_events_stream stream_frames_ok) (simp add: connected_frame_def)

end
