(* ===== verification/Documents.thy ===== *)
theory Documents
  imports JsonText
begin

text \<open>
  The documents of the file store as bytes: conversations and sessions as \<open>json.MarshalIndent\<close> writes
  them in \<open>writeJSONAtomic\<close> and \<open>json.Unmarshal\<close> reads them in \<open>readJSON\<close>
  (\<open>src/internal/store/file/file_store.go\<close>), what \<open>WriteJSON\<close> of \<open>src/internal/cli/render.go\<close> prints, and
  the JSON form of \<open>Bytes\<close> in \<open>src/internal/util/json.go\<close>.  The trees with the strings as they are in
  memory stand for what is written, the trees of theory \<open>StoreWire\<close> for what is read.
\<close>

section \<open>Building blocks\<close>

definition raw_map_json :: "str_map \<Rightarrow> json" where
  "raw_map_json m = JObj (map (\<lambda>(k, v). (k, JStr v)) (sort_key fst m))"

definition omit_raw_map :: "string \<Rightarrow> str_map \<Rightarrow> (string \<times> json) list" where
  "omit_raw_map k m = (if m = [] then [] else [(k, raw_map_json m)])"

definition valid_field :: "string \<times> json \<Rightarrow> string \<times> json" where
  "valid_field = (\<lambda>(k, j). (to_valid_utf8 k, valid_json j))"

lemma valid_JObj: "valid_json (JObj fs) = JObj (map valid_field fs)"
  by (simp add: valid_field_def)

lemma valid_raw_map: "valid_json (raw_map_json m) = map_json m"
  by (simp add: raw_map_json_def map_json_def jstr_def case_prod_beta')

lemma fits_raw_map: "fits (SMap SStr) (raw_map_json m)"
  by (simp add: raw_map_json_def list_all_iff split_beta)

lemma valid_fields:
  assumes "to_valid_utf8 k = k"
  shows "valid_field (k, j) = (k, valid_json j)"
    "map valid_field (omit_raw k s) = omit_str k s"
    "map valid_field (omit_zero k n) = omit_zero k n"
    "map valid_field (omit_none k JStr w) = omit_none k jstr w"
    "map valid_field (omit_none k JTime t) = omit_none k JTime t"
    "map valid_field (omit_none k JNum i) = omit_none k JNum i"
    "map valid_field (omit_none k JConf c) = omit_none k JConf c"
    "map valid_field (omit_raw_map k m) = omit_map k m"
    "map valid_field (omit_nil k g xs) = omit_nil k (\<lambda>x. valid_json (g x)) xs"
  using assms
  by (simp_all add: valid_field_def omit_raw_def omit_str_def omit_zero_def omit_none_def omit_raw_map_def omit_map_def
      omit_nil_def jstr_def valid_raw_map comp_def split: option.split)

lemma field_fits_raw_map: "field_fits scs (k, raw_map_json m) \<Longrightarrow> list_all (field_fits scs) (omit_raw_map k m)"
  by (simp add: omit_raw_map_def)

lemma valid_ascii_keys: "list_all is_ascii ks \<Longrightarrow> list_all (\<lambda>k. to_valid_utf8 k = k) ks"
  by (auto simp: list_all_iff to_valid_utf8_ascii)

lemma fits_items: "list_all (fits sc) js \<Longrightarrow> fits (SList sc) (JArr js)"
  by simp

definition int64_ok :: "int \<Rightarrow> bool" where
  "int64_ok i \<longleftrightarrow> min_int64 \<le> i \<and> i \<le> max_int64"

section \<open>Conversations\<close>

definition raw_peer_spec_json :: "peer_spec \<Rightarrow> json" where
  "raw_peer_spec_json p = JObj ((''uri'', JStr (ps_uri p)) # omit_raw_map ''options'' (ps_options p))"

definition raw_participant_json :: "peer_participant \<Rightarrow> json" where
  "raw_participant_json p = JObj [(''id'', JStr (part_id p)), (''spec'', raw_peer_spec_json (part_spec p))]"

definition raw_terminator_json :: "terminator_spec \<Rightarrow> json" where
  "raw_terminator_json t = JObj ((''kind'', JStr (term_kind t))
     # omit_raw ''sentinel'' (term_sentinel t) @ omit_raw ''judge_uri'' (term_judge_uri t))"

definition raw_conversation_fields :: "conversation \<Rightarrow> (string \<times> json) list" where
  "raw_conversation_fields c =
     [(''conversation_id'', JStr (conv_id c))]
     @ omit_zero ''schema_version'' (conv_schema_version c)
     @ [(''created_at'', JTime (conv_created_at c))]
     @ omit_none ''ended_at'' JTime (conv_ended_at c)
     @ [(''status'', JStr (conv_status c)), (''max_turns'', JNum (conv_max_turns c)),
        (''per_turn_timeout_sec'', JNum (conv_per_turn_timeout c)),
        (''overall_timeout_sec'', JNum (conv_overall_timeout c)),
        (''terminator'', raw_terminator_json (conv_terminator c))]
     @ omit_nil ''peers'' raw_participant_json (conv_peers c)
     @ omit_raw_map ''seeds'' (conv_seeds c)
     @ omit_raw ''opener_id'' (conv_opener_id c)
     @ [(''peer_a'', raw_peer_spec_json (conv_peer_a c)), (''peer_b'', raw_peer_spec_json (conv_peer_b c)),
        (''seed_a'', JStr (conv_seed_a c)), (''seed_b'', JStr (conv_seed_b c)),
        (''opener'', JStr (conv_opener c)), (''turns_consumed'', JNum (conv_turns_consumed c))]
     @ omit_raw ''reply_style'' (conv_reply_style c)"

definition spec_schema :: "(string \<times> schema) list" where
  "spec_schema = [(''uri'', SStr), (''options'', SMap SStr)]"

definition participant_schema :: "(string \<times> schema) list" where
  "participant_schema = [(''id'', SStr), (''spec'', SObj spec_schema)]"

definition terminator_schema :: "(string \<times> schema) list" where
  "terminator_schema = [(''kind'', SStr), (''sentinel'', SStr), (''judge_uri'', SStr)]"

definition conversation_schema :: "(string \<times> schema) list" where
  "conversation_schema =
     [(''conversation_id'', SStr), (''schema_version'', SInt), (''created_at'', STime), (''ended_at'', STime),
      (''status'', SStr), (''max_turns'', SInt), (''per_turn_timeout_sec'', SInt), (''overall_timeout_sec'', SInt),
      (''terminator'', SObj terminator_schema), (''peers'', SList (SObj participant_schema)), (''seeds'', SMap SStr),
      (''opener_id'', SStr), (''peer_a'', SObj spec_schema), (''peer_b'', SObj spec_schema), (''seed_a'', SStr),
      (''seed_b'', SStr), (''opener'', SStr), (''turns_consumed'', SInt), (''reply_style'', SStr)]"

lemma conversation_keys:
  "list_all (\<lambda>k. to_valid_utf8 k = k) (map fst (spec_schema @ participant_schema @ terminator_schema @ conversation_schema))"
  by (rule valid_ascii_keys)
     (simp add: spec_schema_def participant_schema_def terminator_schema_def conversation_schema_def byte_def)

lemmas conversation_keys' = conversation_keys [unfolded spec_schema_def participant_schema_def terminator_schema_def
  conversation_schema_def append.simps list.map fst_conv list.pred_inject]

lemma valid_peer_spec_text: "valid_json (raw_peer_spec_json p) = peer_spec_json p"
  unfolding raw_peer_spec_json_def peer_spec_json_def valid_JObj
  using conversation_keys' by (simp add: valid_fields jstr_def)

lemma valid_participant_text: "valid_json (raw_participant_json p) = participant_json p"
  unfolding raw_participant_json_def participant_json_def valid_JObj
  using conversation_keys' by (simp add: valid_fields jstr_def valid_peer_spec_text)

lemma valid_terminator_text: "valid_json (raw_terminator_json t) = terminator_json t"
  unfolding raw_terminator_json_def terminator_json_def valid_JObj
  using conversation_keys' by (simp add: valid_fields jstr_def)

lemma valid_conversation_text: "valid_json (JObj (raw_conversation_fields c)) = JObj (conversation_fields c)"
  unfolding raw_conversation_fields_def conversation_fields_def valid_JObj
  using conversation_keys'
  by (simp add: valid_fields jstr_def valid_peer_spec_text valid_participant_text valid_terminator_text)

lemma conversation_schema_fields:
  "field_fits spec_schema (''uri'', j) = fits SStr j" "field_fits spec_schema (''options'', j) = fits (SMap SStr) j"
  "field_fits participant_schema (''id'', j) = fits SStr j" "field_fits participant_schema (''spec'', j) = fits (SObj spec_schema) j"
  "field_fits terminator_schema (''kind'', j) = fits SStr j" "field_fits terminator_schema (''sentinel'', j) = fits SStr j"
  "field_fits terminator_schema (''judge_uri'', j) = fits SStr j"
  "field_fits conversation_schema (''conversation_id'', j) = fits SStr j"
  "field_fits conversation_schema (''schema_version'', j) = fits SInt j"
  "field_fits conversation_schema (''created_at'', j) = fits STime j" "field_fits conversation_schema (''ended_at'', j) = fits STime j"
  "field_fits conversation_schema (''status'', j) = fits SStr j" "field_fits conversation_schema (''max_turns'', j) = fits SInt j"
  "field_fits conversation_schema (''per_turn_timeout_sec'', j) = fits SInt j"
  "field_fits conversation_schema (''overall_timeout_sec'', j) = fits SInt j"
  "field_fits conversation_schema (''terminator'', j) = fits (SObj terminator_schema) j"
  "field_fits conversation_schema (''peers'', j) = fits (SList (SObj participant_schema)) j"
  "field_fits conversation_schema (''seeds'', j) = fits (SMap SStr) j" "field_fits conversation_schema (''opener_id'', j) = fits SStr j"
  "field_fits conversation_schema (''peer_a'', j) = fits (SObj spec_schema) j"
  "field_fits conversation_schema (''peer_b'', j) = fits (SObj spec_schema) j"
  "field_fits conversation_schema (''seed_a'', j) = fits SStr j" "field_fits conversation_schema (''seed_b'', j) = fits SStr j"
  "field_fits conversation_schema (''opener'', j) = fits SStr j" "field_fits conversation_schema (''turns_consumed'', j) = fits SInt j"
  "field_fits conversation_schema (''reply_style'', j) = fits SStr j"
  by (simp_all add: field_fits_def spec_schema_def participant_schema_def terminator_schema_def conversation_schema_def byte_def)

lemma peer_spec_fits: "fits (SObj spec_schema) (raw_peer_spec_json p)"
  unfolding raw_peer_spec_json_def fits_SObj
  using field_fits_raw_map [of spec_schema "''options''"] by (simp add: conversation_schema_fields fits_raw_map)

lemma participant_fits: "fits (SObj participant_schema) (raw_participant_json p)"
  unfolding raw_participant_json_def fits_SObj by (simp add: conversation_schema_fields peer_spec_fits)

lemma terminator_fits: "fits (SObj terminator_schema) (raw_terminator_json t)"
  unfolding raw_terminator_json_def fits_SObj by (simp add: conversation_schema_fields field_fits_omit)

text \<open>The integers of a document are Go integers.\<close>

definition conversation_ints_ok :: "conversation \<Rightarrow> bool" where
  "conversation_ints_ok c \<longleftrightarrow> list_all int64_ok [conv_schema_version c, conv_max_turns c, conv_per_turn_timeout c,
     conv_overall_timeout c, conv_turns_consumed c]"

lemma conversation_fits:
  assumes "json_time_ok (conv_created_at c)" "opt_time_ok (conv_ended_at c)" "conversation_ints_ok c"
  shows "fits (SObj conversation_schema) (JObj (raw_conversation_fields c))"
proof -
  have "list_all (field_fits conversation_schema) (omit_nil ''peers'' raw_participant_json (conv_peers c))"
    by (rule field_fits_omit(5)) (simp add: conversation_schema_fields list_all_iff participant_fits)
  moreover have "list_all (field_fits conversation_schema) (omit_raw_map ''seeds'' (conv_seeds c))"
    by (rule field_fits_raw_map) (simp only: conversation_schema_fields fits_raw_map)
  moreover have "list_all (field_fits conversation_schema) (omit_none ''ended_at'' JTime (conv_ended_at c))"
    by (rule field_fits_omit(3)) (use assms(2) in \<open>simp add: conversation_schema_fields opt_time_ok_def\<close>)
  ultimately show ?thesis
    unfolding fits_SObj raw_conversation_fields_def list_all_append
    using assms by (simp add: conversation_schema_fields field_fits_omit peer_spec_fits terminator_fits
        conversation_ints_ok_def int64_ok_def)
qed

text \<open>A conversation as \<open>writeJSONAtomic\<close> writes it, and \<open>readJSON\<close> into a conversation.\<close>

definition conversation_document :: "conversation \<Rightarrow> string" where
  "conversation_document c = json_indent (JObj (raw_conversation_fields c))"

definition read_conversation :: "string \<Rightarrow> conversation option" where
  "read_conversation s = Option.bind (read_text (SObj conversation_schema) s) unmarshal_conversation"

lemma read_conversation_document:
  assumes "json_time_ok (conv_created_at c)" "opt_time_ok (conv_ended_at c)" "conversation_ints_ok c"
  shows "read_text (SObj conversation_schema) (conversation_document c) = Some (JObj (conversation_fields c))"
    and "read_conversation (conversation_document c) = Some (valid_conversation c)"
proof -
  have r: "read_text (SObj conversation_schema) (conversation_document c) = Some (JObj (conversation_fields c))"
    using read_text_written(2) [OF conversation_fits [OF assms], of "[]"]
    unfolding valid_conversation_text conversation_document_def by (simp add: blank_def)
  show "read_text (SObj conversation_schema) (conversation_document c) = Some (JObj (conversation_fields c))" by (rule r)
  have "marshal_conversation c = Inr (JObj (conversation_fields c))" using assms by (simp add: marshal_conversation_def)
  then show "read_conversation (conversation_document c) = Some (valid_conversation c)"
    by (simp add: read_conversation_def r conversation_roundtrip)
qed

section \<open>Sessions\<close>

definition raw_session_fields :: "session \<Rightarrow> (string \<times> json) list" where
  "raw_session_fields s =
     [(''session_id'', JStr (ses_id s)), (''provider'', JStr (ses_provider s)), (''status'', JStr (ses_status s)),
      (''started_at'', JTime (ses_started_at s))]
     @ omit_none ''ended_at'' JTime (ses_ended_at s)
     @ omit_none ''duration_ms'' JNum (ses_duration_ms s)
     @ omit_none ''exit_code'' JNum (ses_exit_code s)
     @ omit_none ''parser_confidence'' JConf (ses_parser_confidence s)
     @ omit_none ''observation_confidence'' JConf (ses_observation_confidence s)
     @ [(''auth_mode'', JStr (ses_auth_mode s))]
     @ omit_none ''blocked_reason'' JStr (ses_blocked_reason s)
     @ omit_none ''bytes_captured'' JNum (ses_bytes_captured s)
     @ omit_nil ''warnings'' JStr (ses_warnings s)
     @ omit_none ''terminal_cols'' JNum (ses_terminal_cols s)
     @ omit_none ''terminal_rows'' JNum (ses_terminal_rows s)"

definition session_schema :: "(string \<times> schema) list" where
  "session_schema =
     [(''session_id'', SStr), (''provider'', SStr), (''status'', SStr), (''started_at'', STime), (''ended_at'', STime),
      (''duration_ms'', SInt), (''exit_code'', SInt), (''parser_confidence'', SConf), (''observation_confidence'', SConf),
      (''auth_mode'', SStr), (''blocked_reason'', SStr), (''bytes_captured'', SInt), (''warnings'', SList SStr),
      (''terminal_cols'', SInt), (''terminal_rows'', SInt)]"

lemma session_keys: "list_all (\<lambda>k. to_valid_utf8 k = k) (map fst session_schema)"
  by (rule valid_ascii_keys) (simp add: session_schema_def byte_def)

lemmas session_keys' = session_keys [unfolded session_schema_def list.map fst_conv list.pred_inject]

lemma valid_session_text: "valid_json (JObj (raw_session_fields s)) = JObj (session_fields s)"
  unfolding raw_session_fields_def session_fields_def valid_JObj
  using session_keys' by (simp add: valid_fields jstr_def [abs_def])

lemma session_schema_fields:
  "field_fits session_schema (''session_id'', j) = fits SStr j" "field_fits session_schema (''provider'', j) = fits SStr j"
  "field_fits session_schema (''status'', j) = fits SStr j" "field_fits session_schema (''started_at'', j) = fits STime j"
  "field_fits session_schema (''ended_at'', j) = fits STime j" "field_fits session_schema (''duration_ms'', j) = fits SInt j"
  "field_fits session_schema (''exit_code'', j) = fits SInt j"
  "field_fits session_schema (''parser_confidence'', j) = fits SConf j"
  "field_fits session_schema (''observation_confidence'', j) = fits SConf j"
  "field_fits session_schema (''auth_mode'', j) = fits SStr j" "field_fits session_schema (''blocked_reason'', j) = fits SStr j"
  "field_fits session_schema (''bytes_captured'', j) = fits SInt j"
  "field_fits session_schema (''warnings'', j) = fits (SList SStr) j"
  "field_fits session_schema (''terminal_cols'', j) = fits SInt j" "field_fits session_schema (''terminal_rows'', j) = fits SInt j"
  by (simp_all add: field_fits_def session_schema_def byte_def)

definition session_ints_ok :: "session \<Rightarrow> bool" where
  "session_ints_ok s \<longleftrightarrow> list_all (\<lambda>v. case v of None \<Rightarrow> True | Some i \<Rightarrow> int64_ok i)
     [ses_duration_ms s, ses_exit_code s, ses_bytes_captured s, ses_terminal_cols s, ses_terminal_rows s]"

lemma session_fits:
  assumes "json_time_ok (ses_started_at s)" "opt_time_ok (ses_ended_at s)" "session_ints_ok s"
  shows "fits (SObj session_schema) (JObj (raw_session_fields s))"
proof -
  have "list_all (field_fits session_schema) (omit_nil ''warnings'' JStr (ses_warnings s))"
    by (rule field_fits_omit(5)) (simp only: session_schema_fields fits_strings)
  moreover have "list_all (field_fits session_schema) (omit_none ''ended_at'' JTime (ses_ended_at s))"
    by (rule field_fits_omit(3)) (use assms(2) in \<open>simp add: session_schema_fields opt_time_ok_def\<close>)
  moreover have num: "list_all (field_fits session_schema) (omit_none k JNum v)"
    if "\<And>j. field_fits session_schema (k, j) = fits SInt j" "case v of None \<Rightarrow> True | Some i \<Rightarrow> int64_ok i" for k v
    by (rule field_fits_omit(3)) (use that in \<open>simp add: int64_ok_def\<close>)
  ultimately show ?thesis
    unfolding fits_SObj raw_session_fields_def list_all_append
    using assms by (simp add: session_schema_fields field_fits_omit(3) session_ints_ok_def)
qed

definition session_document :: "session \<Rightarrow> string" where
  "session_document s = json_indent (JObj (raw_session_fields s))"

definition read_session :: "string \<Rightarrow> session option" where
  "read_session s = Option.bind (read_text (SObj session_schema) s) unmarshal_session"

lemma read_session_document:
  assumes "json_time_ok (ses_started_at s)" "opt_time_ok (ses_ended_at s)" "session_ints_ok s"
  shows "read_text (SObj session_schema) (session_document s) = Some (JObj (session_fields s))"
    and "read_session (session_document s) = Some (valid_session s)"
proof -
  have r: "read_text (SObj session_schema) (session_document s) = Some (JObj (session_fields s))"
    using read_text_written(2) [OF session_fits [OF assms], of "[]"]
    unfolding valid_session_text session_document_def by (simp add: blank_def)
  show "read_text (SObj session_schema) (session_document s) = Some (JObj (session_fields s))" by (rule r)
  have "marshal_session s = Inr (JObj (session_fields s))" using assms by (simp add: marshal_session_def)
  then show "read_session (session_document s) = Some (valid_session s)"
    by (simp add: read_session_def r session_roundtrip)
qed

section \<open>The documents in the store\<close>

lemma ints_ok_stamp: "conversation_ints_ok c \<Longrightarrow> conversation_ints_ok (stamp_schema_version c)"
  by (simp add: conversation_ints_ok_def stamp_schema_version_def int64_ok_def min_int64_def max_int64_def)

lemma ints_ok_patch:
  "conversation_ints_ok c \<Longrightarrow> (case cp_turns_consumed p of None \<Rightarrow> True | Some n \<Rightarrow> int64_ok n) \<Longrightarrow>
     conversation_ints_ok (apply_conversation_patch p (valid_conversation c))"
  by (auto simp: conversation_ints_ok_def apply_conversation_patch_def valid_conversation_def patch_val_def patch_opt_def
      split: option.splits)

lemma path_not_tmp: "q \<noteq> q @ ''.tmp''"
  by simp

lemma marshalled_document:
  assumes "marshal_conversation c = Inr j" "conversation_ints_ok c"
  shows "Some j = read_text (SObj conversation_schema) (conversation_document c)"
    "unmarshal_conversation j = Some (valid_conversation c)"
    "read_conversation (conversation_document c) = Some (valid_conversation c)"
proof -
  from assms(1) have t: "json_time_ok (conv_created_at c)" "opt_time_ok (conv_ended_at c)" "j = JObj (conversation_fields c)"
    by (auto simp: marshal_conversation_def split: if_splits)
  from read_conversation_document [OF t(1,2) assms(2)] conversation_roundtrip [OF assms(1)] t(3)
  show "Some j = read_text (SObj conversation_schema) (conversation_document c)"
    "unmarshal_conversation j = Some (valid_conversation c)"
    "read_conversation (conversation_document c) = Some (valid_conversation c)" by simp_all
qed

text \<open>
  C18. The document of a conversation as bytes: after a conversation was created, and again after it was
  patched, the tree that the store keeps is what \<open>encoding/json\<close> reads from the indented text
  that was written, and reading that text gives the conversation with invalid UTF-8 replaced and
  every other field as it was; the integers have to be Go integers.
\<close>

theorem conversation_document_bytes:
  assumes cr: "create_conversation faults s c fs = (None, fs1)"
    and up: "update_conversation faults s (conv_id c) p fs1 = (None, fs2)"
    and ints: "conversation_ints_ok c" "case cp_turns_consumed p of None \<Rightarrow> True | Some n \<Rightarrow> int64_ok n"
  shows "let path = conversation_path s (conv_id c); c1 = stamp_schema_version c;
      c2 = apply_conversation_patch p (valid_conversation c1)
    in fs_lookup fs1 path = Some (Doc (read_text (SObj conversation_schema) (conversation_document c1))) \<and>
      fs_lookup fs2 path = Some (Doc (read_text (SObj conversation_schema) (conversation_document c2))) \<and>
      read_conversation (conversation_document c1) = Some (valid_conversation c1) \<and>
      read_conversation (conversation_document c2) = Some (valid_conversation c2)"
proof -
  let ?path = "conversation_path s (conv_id c)" and ?c1 = "stamp_schema_version c"
  let ?c2 = "apply_conversation_patch p (valid_conversation ?c1)"
  have i: "conversation_ints_ok ?c1" "conversation_ints_ok ?c2"
    by (intro ints_ok_stamp ints_ok_patch ints)+
  from create_conversation_lookup [OF cr path_not_tmp] obtain j1 where j1: "marshal_conversation ?c1 = Inr j1"
    "fs_lookup fs1 ?path = Some (Doc (Some j1))" by auto
  have "conv_at s fs1 (conv_id c) = Some (valid_conversation ?c1)"
    using j1(2) marshalled_document(2) [OF j1(1) i(1)] by (simp add: conv_at_def)
  with update_conversation_lookup [OF up path_not_tmp] obtain j2 where j2: "marshal_conversation ?c2 = Inr j2"
    "fs_lookup fs2 ?path = Some (Doc (Some j2))" by auto
  from j1 j2 marshalled_document(1,3) [OF j1(1) i(1)] marshalled_document(1,3) [OF j2(1) i(2)] show ?thesis
    by (simp add: Let_def)
qed

theorem conversation_document_bytes_witness:
  "\<exists>fs1 fs2. create_conversation no_faults demo_store demo_conv empty_fs = (None, fs1) \<and>
     update_conversation no_faults demo_store ''c1'' demo_patch fs1 = (None, fs2) \<and>
     fs_lookup fs2 (conversation_path demo_store ''c1'') = Some (Doc (read_text (SObj conversation_schema)
       (conversation_document (apply_conversation_patch demo_patch (valid_conversation (stamp_schema_version demo_conv))))))"
proof -
  have id: "conv_id demo_conv = ''c1''" by (simp add: demo_conv_def)
  have t: "json_time_ok (conv_created_at demo_conv)" "opt_time_ok (conv_ended_at demo_conv)"
    "opt_time_ok (cp_ended_at demo_patch)"
    by (simp_all add: demo_conv_def zero_conversation_def demo_patch_def json_time_ok_def opt_time_ok_def)
  have i: "conversation_ints_ok demo_conv" "case cp_turns_consumed demo_patch of None \<Rightarrow> True | Some n \<Rightarrow> int64_ok n"
    by (simp_all add: demo_conv_def zero_conversation_def demo_patch_def conversation_ints_ok_def int64_ok_def
        min_int64_def max_int64_def)
  obtain fs1 where cr: "create_conversation no_faults demo_store demo_conv empty_fs = (None, fs1)"
    using create_conversation_ok [OF t(1,2), of demo_store empty_fs] by (metis prod.collapse)
  from create_conversation_lookup [OF cr path_not_tmp] obtain j where
    j: "marshal_conversation (stamp_schema_version demo_conv) = Inr j"
      "fs_lookup fs1 (conversation_path demo_store (conv_id demo_conv)) = Some (Doc (Some j))" by auto
  from j conversation_roundtrip [OF j(1)]
  have "conv_at demo_store fs1 (conv_id demo_conv) = Some (valid_conversation (stamp_schema_version demo_conv))"
    by (simp add: conv_at_def)
  from update_conversation_ok [OF this _ _ t(3)] t(1,2)
  have "fst (update_conversation no_faults demo_store (conv_id demo_conv) demo_patch fs1) = None"
    by (simp add: valid_conversation_def stamp_schema_version_def)
  then obtain fs2 where up: "update_conversation no_faults demo_store (conv_id demo_conv) demo_patch fs1 = (None, fs2)"
    by (metis prod.collapse)
  from conversation_document_bytes [OF cr up i] cr up show ?thesis by (simp add: Let_def id)
qed

section \<open>Output of the commands\<close>

text \<open>\<open>WriteJSON\<close>: two blanks per level and a line feed at the end.\<close>

definition cli_write_json :: "json \<Rightarrow> string" where
  "cli_write_json j = json_indent j @ [nl]"

lemma read_cli_json: "fits sc j \<Longrightarrow> read_text sc (cli_write_json j) = Some (valid_json j)"
  unfolding cli_write_json_def by (rule read_text_written(2)) (simp_all add: blank_def blank_char_def)

text \<open>\<open>Bytes\<close> in JSON: a quoted base64 text, in which nothing needs an escape.\<close>

definition bytes_json :: "string \<Rightarrow> string" where
  "bytes_json b = json_quote (base64_encode b)"

definition plain_char :: "char \<Rightarrow> bool" where
  "plain_char c \<longleftrightarrow> byte c < 0x80 \<and> escape_ascii c = [c]"

lemma json_escape_plain: "list_all plain_char s \<Longrightarrow> json_escape s = s"
proof (induction s)
  case (Cons c s)
  then have "utf8_decode (c # s) = (byte c, 1)" "escape_ascii c = [c]" "byte c \<noteq> rune_error"
    by (auto simp: plain_char_def utf8_decode_ascii)
  with Cons show ?case by (simp add: json_escape.simps [of "c # s"])
qed (simp add: json_escape.simps)

lemma base64_char_plain: "n < 64 \<Longrightarrow> plain_char (base64_char n)"
proof -
  have "list_all plain_char ''ABCDEFGHIJKLMNOPQRSTUVWXYZabcdefghijklmnopqrstuvwxyz0123456789+/''" by code_simp
  then show "n < 64 \<Longrightarrow> plain_char (base64_char n)" by (simp add: base64_char_def list_all_length)
qed

lemma base64_encode_plain: "list_all plain_char (base64_encode b)"
proof -
  have eq: "plain_char (CHR ''='')" by code_simp
  have r: "byte c < 256" for c by (simp add: byte_def)
  have "byte a div 4 < 64" "byte a mod 4 * 16 < 64" "byte b mod 16 * 4 < 64" "byte a mod 64 < 64"
    "byte a mod 4 * 16 + byte b div 16 < 64" "byte b mod 16 * 4 + byte c div 64 < 64" for a b c
    using r [of a] r [of b] r [of c] by (simp_all; linarith)+
  then show ?thesis by (induction b rule: base64_encode.induct) (simp_all add: base64_char_plain eq)
qed

lemma bytes_json_plain: "bytes_json b = dquote # base64_encode b @ [dquote]"
  by (simp add: bytes_json_def json_quote_def json_escape_plain base64_encode_plain)

end
