(* ===== verification/GoFlags.thy ===== *)
theory GoFlags
  imports Model GoText
begin

text \<open>
  The part of Go's \<open>flag\<close> package that the commands use: integers as \<open>strconv.ParseInt\<close> reads them
  with base 0 (prefixes and underscores included), booleans, and the parsing of an argument vector
  against a set of declared flags with the error handling \<open>ContinueOnError\<close>.  A declared flag is a
  setter on the state that the command keeps for its flags.
\<close>

section \<open>Integers and booleans\<close>

datatype num_error = SyntaxError | RangeError

definition lower_byte :: "char \<Rightarrow> nat" where
  "lower_byte c = (let b = byte c in if 0x41 \<le> b \<and> b \<le> 0x5A then b + 0x20 else b)"

definition digit_value :: "char \<Rightarrow> nat option" where
  "digit_value c =
     (if is_digit c then Some (byte c - 48)
      else if 0x61 \<le> lower_byte c \<and> lower_byte c \<le> 0x7A then Some (lower_byte c - 0x61 + 10) else None)"

fun uint_digits :: "nat \<Rightarrow> nat \<Rightarrow> string \<Rightarrow> num_error + nat" where
  "uint_digits base acc [] = Inr acc"
| "uint_digits base acc (c # cs) =
     (if c = CHR ''_'' then uint_digits base acc cs
      else case digit_value c of
          None \<Rightarrow> Inl SyntaxError
        | Some d \<Rightarrow>
           if d \<ge> base then Inl SyntaxError
           else if base * acc + d \<ge> 2 ^ 64 then Inl RangeError
           else uint_digits base (base * acc + d) cs)"

text \<open>The base that a prefix selects, and the digits behind it.\<close>

definition int_base :: "string \<Rightarrow> nat \<times> string" where
  "int_base s =
     (case s of
        z # cs \<Rightarrow>
          if z = CHR ''0'' then
            (case cs of
               b # ds \<Rightarrow>
                 if ds \<noteq> [] \<and> lower_byte b = byte CHR ''b'' then (2, ds)
                 else if ds \<noteq> [] \<and> lower_byte b = byte CHR ''o'' then (8, ds)
                 else if ds \<noteq> [] \<and> lower_byte b = byte CHR ''x'' then (16, ds)
                 else (8, cs)
             | [] \<Rightarrow> (8, cs))
          else (10, s)
      | [] \<Rightarrow> (10, s))"

text \<open>\<open>underscoreOK\<close>: underscores only between digits or after the prefix.\<close>

fun underscore_scan :: "bool \<Rightarrow> char \<Rightarrow> string \<Rightarrow> bool" where
  "underscore_scan hex saw [] = (saw \<noteq> CHR ''_'')"
| "underscore_scan hex saw (c # cs) =
     (if is_digit c \<or> (hex \<and> 0x61 \<le> lower_byte c \<and> lower_byte c \<le> 0x66) then underscore_scan hex (CHR ''0'') cs
      else if c = CHR ''_'' then saw = CHR ''0'' \<and> underscore_scan hex c cs
      else saw \<noteq> CHR ''_'' \<and> underscore_scan hex (CHR ''!'') cs)"

definition underscore_ok :: "string \<Rightarrow> bool" where
  "underscore_ok s =
     (case s of
        z # b # cs \<Rightarrow>
          if z = CHR ''0'' \<and> lower_byte b \<in> {byte CHR ''b'', byte CHR ''o'', byte CHR ''x''}
          then underscore_scan (lower_byte b = byte CHR ''x'') (CHR ''0'') cs
          else underscore_scan False (CHR ''^'') s
      | _ \<Rightarrow> underscore_scan False (CHR ''^'') s)"

definition parse_uint0 :: "string \<Rightarrow> num_error + nat" where
  "parse_uint0 s =
     (if s = [] then Inl SyntaxError
      else let (base, ds) = int_base s in
        case uint_digits base 0 ds of
          Inl e \<Rightarrow> Inl e
        | Inr n \<Rightarrow> if CHR ''_'' \<in> set ds \<and> \<not> underscore_ok s then Inl SyntaxError else Inr n)"

definition parse_int0 :: "string \<Rightarrow> num_error + int" where
  "parse_int0 s =
     (case s of
        [] \<Rightarrow> Inl SyntaxError
      | c # cs \<Rightarrow>
         (case parse_uint0 (if c = CHR ''+'' \<or> c = CHR ''-'' then cs else s) of
            Inl e \<Rightarrow> Inl e
          | Inr n \<Rightarrow>
             if c = CHR ''-''
             then (if int n > 2 ^ 63 then Inl RangeError else Inr (- int n))
             else (if int n \<ge> 2 ^ 63 then Inl RangeError else Inr (int n))))"

definition parse_bool :: "string \<Rightarrow> bool option" where
  "parse_bool s =
     (if s \<in> set [''1'', ''t'', ''T'', ''TRUE'', ''true'', ''True''] then Some True
      else if s \<in> set [''0'', ''f'', ''F'', ''FALSE'', ''false'', ''False''] then Some False else None)"

section \<open>Parsing an argument vector\<close>

datatype 'f flag_value =
    StrFlag "string \<Rightarrow> 'f \<Rightarrow> 'f" | IntFlag "int \<Rightarrow> 'f \<Rightarrow> 'f" | BoolFlag "bool \<Rightarrow> 'f \<Rightarrow> 'f"
  | VarFlag "string \<Rightarrow> 'f \<Rightarrow> go_error option \<times> 'f"

fun num_error_text :: "num_error \<Rightarrow> string" where
  "num_error_text SyntaxError = ''parse error''"
| "num_error_text RangeError = ''value out of range''"

fun set_flag :: "'f flag_value \<Rightarrow> string \<Rightarrow> 'f \<Rightarrow> go_error + 'f" where
  "set_flag (StrFlag upd) v f = Inr (upd v f)"
| "set_flag (IntFlag upd) v f = (case parse_int0 v of Inl e \<Rightarrow> Inl (ErrMsg (num_error_text e)) | Inr i \<Rightarrow> Inr (upd i f))"
| "set_flag (BoolFlag upd) v f = (case parse_bool v of None \<Rightarrow> Inl (ErrMsg ''parse error'') | Some b \<Rightarrow> Inr (upd b f))"
| "set_flag (VarFlag upd) v f = (case upd v f of (Some e, f') \<Rightarrow> Inl e | (None, f') \<Rightarrow> Inr f')"

fun is_bool_flag :: "'f flag_value \<Rightarrow> bool" where
  "is_bool_flag (BoolFlag upd) = True"
| "is_bool_flag _ = False"

definition ErrHelp :: go_error where
  "ErrHelp = ErrMsg ''flag: help requested''"

datatype 'f flag_step = FlagStop "string list" | FlagError go_error | FlagSeen "string list" 'f

text \<open>The name and the value of an argument: the value follows the first equals sign that is not the first byte.\<close>

definition split_value :: "string \<Rightarrow> string \<times> string option" where
  "split_value name =
     (case name of
        [] \<Rightarrow> ([], None)
      | c # cs \<Rightarrow>
         (case find_index ((=) (CHR ''='')) cs of
            None \<Rightarrow> (name, None)
          | Some i \<Rightarrow> (c # take i cs, Some (drop (Suc i) cs))))"

definition invalid_value :: "string \<Rightarrow> string \<Rightarrow> go_error \<Rightarrow> go_error" where
  "invalid_value name v e = ErrMsg (''invalid value '' @ go_quote v @ '' for flag -'' @ name @ '': '' @ err_text e)"

definition apply_flag :: "string \<Rightarrow> 'f flag_value \<Rightarrow> string option \<Rightarrow> string list \<Rightarrow> 'f \<Rightarrow> 'f flag_step" where
  "apply_flag name fv value rest f =
     (if is_bool_flag fv
      then (case value of
              Some v \<Rightarrow>
                (case set_flag fv v f of
                   Inl e \<Rightarrow> FlagError (ErrMsg (''invalid boolean value '' @ go_quote v @ '' for -'' @ name @ '': '' @ err_text e))
                 | Inr f' \<Rightarrow> FlagSeen rest f')
            | None \<Rightarrow>
                (case set_flag fv ''true'' f of
                   Inl e \<Rightarrow> FlagError (ErrMsg (''invalid boolean flag '' @ name @ '': '' @ err_text e))
                 | Inr f' \<Rightarrow> FlagSeen rest f'))
      else (case value of
              Some v \<Rightarrow> (case set_flag fv v f of Inl e \<Rightarrow> FlagError (invalid_value name v e) | Inr f' \<Rightarrow> FlagSeen rest f')
            | None \<Rightarrow>
               (case rest of
                  [] \<Rightarrow> FlagError (ErrMsg (''flag needs an argument: -'' @ name))
                | v # rest' \<Rightarrow>
                   (case set_flag fv v f of Inl e \<Rightarrow> FlagError (invalid_value name v e) | Inr f' \<Rightarrow> FlagSeen rest' f'))))"

definition parse_one :: "(string \<times> 'f flag_value) list \<Rightarrow> string list \<Rightarrow> 'f \<Rightarrow> 'f flag_step" where
  "parse_one formal args f =
     (case args of
        [] \<Rightarrow> FlagStop []
      | s # rest \<Rightarrow>
         if length s < 2 \<or> hd s \<noteq> CHR ''-'' then FlagStop args
         else if s = ''--'' then FlagStop rest
         else let name = drop (if s ! 1 = CHR ''-'' then 2 else 1) s in
           if name = [] \<or> hd name = CHR ''-'' \<or> hd name = CHR ''=''
           then FlagError (ErrMsg (''bad flag syntax: '' @ s))
           else let (name, value) = split_value name in
             case map_of formal name of
               None \<Rightarrow> FlagError (if name = ''help'' \<or> name = ''h'' then ErrHelp
                   else ErrMsg (''flag provided but not defined: -'' @ name))
             | Some fv \<Rightarrow> apply_flag name fv value rest f)"

lemma apply_flag_shorter: "apply_flag name fv value rest f = FlagSeen r f' \<Longrightarrow> length r \<le> length rest"
  by (auto simp: apply_flag_def split: if_splits option.splits list.splits sum.splits)

lemma parse_one_shorter: "parse_one formal args f = FlagSeen rest f' \<Longrightarrow> length rest < length args"
  by (auto simp: parse_one_def Let_def split: list.splits if_splits prod.splits option.splits dest!: apply_flag_shorter)

function parse_flags :: "(string \<times> 'f flag_value) list \<Rightarrow> string list \<Rightarrow> 'f \<Rightarrow> (string list \<times> 'f) result" where
  "parse_flags formal args f =
     (case parse_one formal args f of
        FlagStop rest \<Rightarrow> Inr (rest, f)
      | FlagError e \<Rightarrow> Inl e
      | FlagSeen rest f' \<Rightarrow> parse_flags formal rest f')"
  by pat_completeness auto
termination
  by (relation "measure (\<lambda>(_, args, _). length args)") (auto dest: parse_one_shorter)

declare parse_flags.simps [simp del]

section \<open>Printed integers are read back\<close>

lemma uint_digits_append:
  "uint_digits base acc (xs @ ys) =
     (case uint_digits base acc xs of Inl e \<Rightarrow> Inl e | Inr v \<Rightarrow> uint_digits base v ys)"
  by (induction xs arbitrary: acc) (auto split: option.splits)

lemma digit_value_digit: "d < 10 \<Longrightarrow> digit_value (digit_char d) = Some d"
  by (simp add: digit_value_def is_digit_digit_char byte_digit_char)

lemma digit_not_underscore: "is_digit c \<Longrightarrow> c \<noteq> CHR ''_''"
  by (auto simp: is_digit_def byte_def)

lemma uint_digits_nat_to_str: "n < 2 ^ 64 \<Longrightarrow> uint_digits 10 0 (nat_to_str n) = Inr n"
proof (induction n rule: nat_to_str.induct)
  case (1 n)
  have d: "digit_char k \<noteq> CHR ''_''" if "k < 10" for k
    using digit_not_underscore [OF is_digit_digit_char [OF that]] .
  show ?case
  proof (cases "n < 10")
    case True
    then show ?thesis using d [OF True] 1(2) by (subst nat_to_str.simps) (simp add: digit_value_digit)
  next
    case False
    then have "uint_digits 10 0 (nat_to_str (n div 10)) = Inr (n div 10)" using 1 by simp
    with False 1(2) d [of "n mod 10"] show ?thesis
      by (subst nat_to_str.simps) (simp add: uint_digits_append digit_value_digit)
  qed
qed

lemma nat_to_str_leading: "0 < n \<Longrightarrow> hd (nat_to_str n) \<noteq> CHR ''0''"
proof (induction n rule: nat_to_str.induct)
  case (1 n)
  have z: "byte CHR ''0'' = 48" by (simp add: byte_def)
  show ?case
  proof (cases "n < 10")
    case True
    then show ?thesis
      using 1(2) byte_digit_char [OF True] z by (subst nat_to_str.simps) auto
  next
    case False
    with 1 show ?thesis by (subst nat_to_str.simps) (simp add: hd_append)
  qed
qed

lemma parse_uint0_nat_to_str:
  assumes "n < 2 ^ 64"
  shows "parse_uint0 (nat_to_str n) = Inr n"
proof (cases "n = 0")
  case True
  have "nat_to_str 0 = ''0''" by code_simp
  then show ?thesis using True by (simp add: parse_uint0_def int_base_def)
next
  case False
  obtain c cs where c: "nat_to_str n = c # cs" by (cases "nat_to_str n") auto
  with False nat_to_str_leading [of n] have "int_base (nat_to_str n) = (10, nat_to_str n)"
    by (simp add: int_base_def)
  moreover have "CHR ''_'' \<notin> set (nat_to_str n)"
    using nat_to_str_digits [of "CHR ''_''" n] digit_not_underscore by blast
  ultimately show ?thesis
    using uint_digits_nat_to_str [OF assms] by (simp add: parse_uint0_def)
qed

lemma parse_int0_itoa:
  assumes "min_int64 \<le> i" and "i \<le> max_int64"
  shows "parse_int0 (itoa i) = Inr i"
proof (cases "i < 0")
  case True
  have "nat (- i) < 2 ^ 64" using assms True by (simp add: min_int64_def)
  with True assms show ?thesis
    by (simp add: parse_int0_def itoa_def parse_uint0_nat_to_str min_int64_def)
next
  case False
  have n: "nat i < 2 ^ 64" using assms by (simp add: max_int64_def)
  obtain c cs where c: "nat_to_str (nat i) = c # cs" by (cases "nat_to_str (nat i)") auto
  then have "is_digit c" using nat_to_str_digits [of c "nat i"] by simp
  with False assms c parse_uint0_nat_to_str [OF n] show ?thesis
    using digit_not_sign [of c] by (simp add: parse_int0_def itoa_def max_int64_def)
qed

section \<open>Rendered flags are read back\<close>

definition render_flag :: "string \<times> string \<Rightarrow> string" where
  "render_flag nv = ''--'' @ fst nv @ ''='' @ snd nv"

definition flag_name_ok :: "string \<Rightarrow> bool" where
  "flag_name_ok n \<longleftrightarrow> n \<noteq> [] \<and> hd n \<noteq> CHR ''-'' \<and> CHR ''='' \<notin> set n"

lemma split_value_render: "flag_name_ok n \<Longrightarrow> split_value (n @ ''='' @ v) = (n, Some v)"
proof -
  assume n: "flag_name_ok n"
  then obtain c cs where cs: "n = c # cs" by (cases n) (auto simp: flag_name_ok_def)
  with n have "find_index ((=) (CHR ''='')) (cs @ ''='' @ v) = Some (length cs)"
    by (auto simp: find_index_Some nth_append flag_name_ok_def in_set_conv_nth)
  with cs show ?thesis by (simp add: split_value_def)
qed

lemma parse_one_render:
  assumes "flag_name_ok n" and "map_of formal n = Some fv" and "set_flag fv v f = Inr f'"
  shows "parse_one formal (render_flag (n, v) # args) f = FlagSeen args f'"
proof -
  have n: "n \<noteq> []" "hd n \<noteq> CHR ''-''" using assms(1) by (simp_all add: flag_name_ok_def)
  then have n3: "hd n \<noteq> CHR ''=''" using assms(1) list.set_sel(1) [of n] unfolding flag_name_ok_def by metis
  have "apply_flag n fv (Some v) args f = FlagSeen args f'"
    using assms(3) by (simp add: apply_flag_def)
  then show ?thesis
    using n n3 assms(2) split_value_render [OF assms(1), of v] by (simp add: parse_one_def render_flag_def)
qed

fun set_flags :: "(string \<times> 'f flag_value) list \<Rightarrow> (string \<times> string) list \<Rightarrow> 'f \<Rightarrow> 'f option" where
  "set_flags formal [] f = Some f"
| "set_flags formal ((n, v) # xs) f =
     (case map_of formal n of
        None \<Rightarrow> None
      | Some fv \<Rightarrow> (case set_flag fv v f of Inl e \<Rightarrow> None | Inr f' \<Rightarrow> set_flags formal xs f'))"

lemma parse_flags_render:
  "list_all (\<lambda>(n, v). flag_name_ok n) xs \<Longrightarrow> set_flags formal xs f = Some f' \<Longrightarrow>
     parse_flags formal (map render_flag xs) f = Inr ([], f')"
proof (induction formal xs f rule: set_flags.induct)
  case (1 formal f)
  then show ?case by (subst parse_flags.simps) (simp add: parse_one_def)
next
  case (2 formal n v xs f)
  then obtain fv g where fv: "map_of formal n = Some fv" "set_flag fv v f = Inr g" "set_flags formal xs g = Some f'"
    by (auto split: option.splits sum.splits)
  with 2 have "parse_flags formal (map render_flag xs) g = Inr ([], f')" by simp
  moreover have "parse_one formal (render_flag (n, v) # map render_flag xs) f = FlagSeen (map render_flag xs) g"
    using 2(2) fv by (intro parse_one_render) simp_all
  ultimately show ?case by (subst parse_flags.simps) simp
qed

lemma set_flags_append:
  "set_flags formal (xs @ ys) f = Option.bind (set_flags formal xs f) (set_flags formal ys)"
  by (induction formal xs f rule: set_flags.induct) (auto split: option.splits sum.splits)

end
