(* ===== verification/PeerFlags.thy ===== *)
theory PeerFlags
  imports Model
begin

text \<open>
  The \<open>--peer\<close> flags of \<open>vitis converse\<close>, \<open>src/internal/cli/converse_npeer.go\<close>: the hand-written
  parser of comma-separated \<open>key=value\<close> lists with quoted values, the declaration of one peer,
  and the validated configuration of an N-peer conversation.  The parser's index into the
  input is the length of the input minus what is left of it.
\<close>

section \<open>Key-value lists\<close>

record kv_pair =
  kv_key :: string
  kv_value :: string

text \<open>The loop behind an opening quote: the value and what follows the closing quote.\<close>

fun read_quoted :: "string \<Rightarrow> (string \<times> string) option" where
  "read_quoted [] = None"
| "read_quoted (c # cs) =
     (if c = backslash \<and> cs \<noteq> [] \<and> (hd cs = dquote \<or> hd cs = backslash)
      then map_option (apfst (Cons (hd cs))) (read_quoted (tl cs))
      else if c = dquote then Some ([], cs)
      else map_option (apfst (Cons c)) (read_quoted cs))"

definition key_stop :: "char \<Rightarrow> bool" where
  "key_stop c \<longleftrightarrow> c = CHR ''='' \<or> c = CHR '',''"

text \<open>The value behind the equals sign: quoted, or everything up to the next comma.\<close>

definition read_value :: "string \<Rightarrow> string \<Rightarrow> string \<Rightarrow> (string \<times> string) result" where
  "read_value raw key s =
     (if s \<noteq> [] \<and> hd s = dquote
      then (case read_quoted (tl s) of
              None \<Rightarrow> Inl (ErrMsg (''unterminated quoted value for key '' @ go_quote key @ '' in '' @ go_quote raw))
            | Some (v, rest) \<Rightarrow> Inr (v, rest))
      else Inr (trim_space (takeWhile (\<lambda>c. c \<noteq> CHR '','') s), dropWhile (\<lambda>c. c \<noteq> CHR '','') s))"

text \<open>One iteration: a pair, and what the next iteration starts from (\<open>None\<close> at the end of input).\<close>

definition read_pair :: "string \<Rightarrow> string \<Rightarrow> (kv_pair \<times> string) result" where
  "read_pair raw s =
     (let after = dropWhile (\<lambda>c. \<not> key_stop c) s in
      if after = [] \<or> hd after \<noteq> CHR ''=''
      then Inl (ErrMsg (''expected '' @ [CHR 0x27, CHR ''='', CHR 0x27] @ '' after key starting at position ''
             @ itoa (int (length raw - length s)) @ '' in '' @ go_quote raw))
      else let key = trim_space (takeWhile (\<lambda>c. \<not> key_stop c) s) in
        if key = [] then Inl (ErrMsg (''empty key in '' @ go_quote raw))
        else case read_value raw key (tl after) of
            Inl e \<Rightarrow> Inl e
          | Inr (v, rest) \<Rightarrow>
             (if rest = [] then Inr (\<lparr>kv_key = key, kv_value = v\<rparr>, [])
              else if hd rest = CHR '','' then Inr (\<lparr>kv_key = key, kv_value = v\<rparr>, tl rest)
              else Inl (ErrMsg (''expected '' @ [CHR 0x27, CHR '','', CHR 0x27]
                     @ '' or end of input after value for key '' @ go_quote key @ '' in '' @ go_quote raw))))"

lemma read_quoted_shorter: "read_quoted s = Some (v, rest) \<Longrightarrow> length rest < length s"
proof (induction s arbitrary: v rest rule: read_quoted.induct)
  case (2 c cs)
  show ?case
  proof (cases "c = backslash \<and> cs \<noteq> [] \<and> (hd cs = dquote \<or> hd cs = backslash)")
    case True
    with "2.prems" obtain v' where "read_quoted (tl cs) = Some (v', rest)" by auto
    from "2.IH"(1) [OF True this] show ?thesis by auto
  next
    case False
    show ?thesis
    proof (cases "c = dquote")
      case True
      with "2.prems" False show ?thesis by auto
    next
      case nq: False
      with "2.prems" False obtain v' where "read_quoted cs = Some (v', rest)" by auto
      from "2.IH"(2) [OF False nq this] show ?thesis by simp
    qed
  qed
qed simp

lemma read_value_length: "read_value raw key s = Inr (v, rest) \<Longrightarrow> length rest \<le> length s"
  by (auto simp: read_value_def length_dropWhile_le dest!: read_quoted_shorter split: if_splits option.splits)

lemma read_pair_shorter: "read_pair raw s = Inr (kv, rest) \<Longrightarrow> length rest < length s"
proof -
  assume r: "read_pair raw s = Inr (kv, rest)"
  let ?after = "dropWhile (\<lambda>c. \<not> key_stop c) s"
  from r have ne: "?after \<noteq> []" by (auto simp: read_pair_def Let_def split: if_splits)
  from r obtain key v rest' where "read_value raw key (tl ?after) = Inr (v, rest')" "length rest \<le> length rest'"
    by (auto simp: read_pair_def Let_def split: if_splits sum.splits)
  from read_value_length [OF this(1)] this(2) ne length_dropWhile_le [of "\<lambda>c. \<not> key_stop c" s]
  show "length rest < length s"
    by (cases ?after) auto
qed

function parse_kv_from :: "string \<Rightarrow> string \<Rightarrow> kv_pair list result" where
  "parse_kv_from raw s =
     (let s1 = dropWhile (\<lambda>c. c = sp \<or> c = tab) s in
      if s1 = [] then Inr []
      else case read_pair raw s1 of
          Inl e \<Rightarrow> Inl e
        | Inr (kv, rest) \<Rightarrow>
           (case parse_kv_from raw rest of Inl e \<Rightarrow> Inl e | Inr kvs \<Rightarrow> Inr (kv # kvs)))"
  by pat_completeness auto
termination
proof (relation "measure (\<lambda>(raw, s). length s)", goal_cases)
  case (2 raw s s1 kvr kv rest)
  then have "length rest < length s1" by (auto dest: read_pair_shorter)
  moreover have "length s1 \<le> length s" using 2(1) length_dropWhile_le by blast
  ultimately show ?case by simp
qed simp

declare parse_kv_from.simps [simp del]

definition parse_key_value_list :: "string \<Rightarrow> kv_pair list result" where
  "parse_key_value_list raw = parse_kv_from raw raw"

section \<open>One peer\<close>

record peer_decl =
  pd_id :: peer_id
  pd_provider :: string
  pd_seed :: string
  pd_options :: str_map

definition option_keys :: "string list" where
  "option_keys = [''model'', ''reasoning-effort'', ''cwd'', ''home'']"

definition allowed_peer_keys :: "string list" where
  "allowed_peer_keys = [''id'', ''provider'', ''seed''] @ option_keys"

definition set_peer_key :: "kv_pair \<Rightarrow> peer_decl \<Rightarrow> peer_decl" where
  "set_peer_key kv pd =
     (if kv_key kv = ''id'' then pd\<lparr>pd_id := kv_value kv\<rparr>
      else if kv_key kv = ''provider'' then pd\<lparr>pd_provider := kv_value kv\<rparr>
      else if kv_key kv = ''seed'' then pd\<lparr>pd_seed := kv_value kv\<rparr>
      else pd\<lparr>pd_options := map_put (kv_key kv) (kv_value kv) (pd_options pd)\<rparr>)"

fun apply_peer_keys :: "kv_pair list \<Rightarrow> peer_decl \<Rightarrow> peer_decl result" where
  "apply_peer_keys [] pd = Inr pd"
| "apply_peer_keys (kv # kvs) pd =
     (if kv_key kv \<notin> set allowed_peer_keys
      then Inl (ErrMsg (''--peer: unknown key '' @ go_quote (kv_key kv)
             @ '' (allowed: id, provider, seed, model, reasoning-effort, cwd, home)''))
      else apply_peer_keys kvs (set_peer_key kv pd))"

definition zero_peer_decl :: peer_decl where
  "zero_peer_decl = \<lparr>pd_id = [], pd_provider = [], pd_seed = [], pd_options = []\<rparr>"

definition check_peer_decl :: "string \<Rightarrow> peer_decl \<Rightarrow> peer_decl result" where
  "check_peer_decl raw pd =
     (if pd_id pd = [] then Inl (ErrMsg (''--peer: missing required key id (got '' @ go_quote raw @ '')''))
      else case peer_id_validate (pd_id pd) of
          Some e \<Rightarrow> Inl (ErrWrap (''--peer: invalid id '' @ go_quote (pd_id pd) @ '': '') e)
        | None \<Rightarrow>
           (if pd_provider pd = []
            then Inl (ErrMsg (''--peer id='' @ pd_id pd @ '': missing required key provider''))
            else Inr pd))"

definition parse_peer_spec :: "string \<Rightarrow> peer_decl result" where
  "parse_peer_spec raw =
     (case parse_key_value_list raw of
        Inl e \<Rightarrow> Inl e
      | Inr pairs \<Rightarrow>
         (case apply_peer_keys pairs zero_peer_decl of
            Inl e \<Rightarrow> Inl e
          | Inr pd \<Rightarrow> check_peer_decl raw pd))"

section \<open>The whole configuration\<close>

record n_peer_config =
  npc_peers :: "peer_decl list"
  npc_opener_id :: peer_id

definition max_n_peers :: nat where "max_n_peers = 16"

text \<open>The loop over the flags: the errors so far, the accepted peers, the ids seen.\<close>

definition n_peer_step ::
    "string \<Rightarrow> string \<Rightarrow> go_error list \<times> peer_decl list \<times> peer_id list
      \<Rightarrow> go_error list \<times> peer_decl list \<times> peer_id list" where
  "n_peer_step broadcast_seed raw = (\<lambda>(errs, peers, seen).
     case parse_peer_spec raw of
       Inl e \<Rightarrow> (errs @ [e], peers, seen)
     | Inr pd0 \<Rightarrow>
        (if pd_id pd0 \<in> set seen
         then (errs @ [ErrMsg (''--peer: duplicate id '' @ go_quote (pd_id pd0))], peers, seen)
         else let pd = (if pd_seed pd0 = [] then pd0\<lparr>pd_seed := broadcast_seed\<rparr> else pd0);
                  errs' = (if pd_seed pd = []
                    then errs @ [ErrMsg (''--peer id='' @ pd_id pd
                      @ '': missing seed (provide seed= in --peer or set --seed for broadcast)'')]
                    else errs)
              in (errs', peers @ [pd], seen @ [pd_id pd])))"

definition n_peer_count_errors :: "string list \<Rightarrow> go_error list" where
  "n_peer_count_errors raws =
     (if length raws < 2
      then [ErrMsg (''--peer: need at least 2 peers, got '' @ itoa (int (length raws)))] else [])
     @ (if length raws > max_n_peers
      then [ErrMsg (''--peer: too many peers ('' @ itoa (int (length raws)) @ ''), max is ''
              @ itoa (int max_n_peers))] else [])"

text \<open>\<open>errors.Join\<close>: the texts, one per line.\<close>

definition join_errors :: "go_error list \<Rightarrow> go_error" where
  "join_errors errs = ErrMsg (str_join [nl] (map err_text errs))"

definition parse_n_peer_specs :: "string list \<Rightarrow> string \<Rightarrow> string \<Rightarrow> n_peer_config result" where
  "parse_n_peer_specs raws broadcast_seed opener =
     (let (errs, peers, seen) = fold (n_peer_step broadcast_seed) raws (n_peer_count_errors raws, [], []);
          (opener_id, errs) =
            (if opener = [] \<or> opener = ''a'' then (if peers = [] then [] else pd_id (hd peers), errs)
             else (opener, if opener \<in> set seen then errs
               else errs @ [ErrMsg (''--opener: id '' @ go_quote opener
                 @ '' is not declared in any --peer flag'')]))
      in if errs \<noteq> [] then Inl (join_errors errs)
         else Inr \<lparr>npc_peers = peers, npc_opener_id = opener_id\<rparr>)"

definition to_v2_conversation :: "n_peer_config \<Rightarrow> peer_participant list \<times> str_map" where
  "to_v2_conversation c =
     (map (\<lambda>p. \<lparr>part_id = pd_id p,
        part_spec = \<lparr>ps_uri = ''provider:'' @ pd_provider p, ps_options = pd_options p\<rparr>\<rparr>) (npc_peers c),
      fold (\<lambda>p. map_put (pd_id p) (pd_seed p)) (npc_peers c) [])"

section \<open>What is accepted is well-formed\<close>

definition options_ok :: "str_map \<Rightarrow> bool" where
  "options_ok m \<longleftrightarrow> distinct (map fst m) \<and> set (map fst m) \<subseteq> set option_keys"

definition peer_decl_ok :: "peer_decl \<Rightarrow> bool" where
  "peer_decl_ok pd \<longleftrightarrow> peer_id_regex (pd_id pd) \<and> pd_provider pd \<noteq> [] \<and> options_ok (pd_options pd)"

lemma options_ok_map_put: "options_ok m \<Longrightarrow> k \<in> set option_keys \<Longrightarrow> options_ok (map_put k v m)"
  by (simp add: options_ok_def distinct_map_put keys_map_put del: set_map)

lemma set_peer_key_options:
  assumes "kv_key kv \<in> set allowed_peer_keys" and "options_ok (pd_options pd)"
  shows "options_ok (pd_options (set_peer_key kv pd))"
proof -
  have "kv_key kv \<in> set option_keys"
    if "kv_key kv \<noteq> ''id''" "kv_key kv \<noteq> ''provider''" "kv_key kv \<noteq> ''seed''"
    using assms(1) that unfolding allowed_peer_keys_def set_append list.set by blast
  moreover have "pd_options (set_peer_key kv pd) =
      (if kv_key kv = ''id'' \<or> kv_key kv = ''provider'' \<or> kv_key kv = ''seed'' then pd_options pd
       else map_put (kv_key kv) (kv_value kv) (pd_options pd))"
    by (simp add: set_peer_key_def)
  ultimately show ?thesis using assms(2) options_ok_map_put by presburger
qed

lemma apply_peer_keys_options:
  "apply_peer_keys kvs pd = Inr pd' \<Longrightarrow> options_ok (pd_options pd) \<Longrightarrow> options_ok (pd_options pd')"
  by (induction kvs arbitrary: pd) (auto simp: set_peer_key_options split: if_splits)

lemma parse_peer_spec_ok:
  assumes "parse_peer_spec raw = Inr pd"
  shows "peer_decl_ok pd"
proof -
  from assms obtain pairs pd0 where k: "apply_peer_keys pairs zero_peer_decl = Inr pd0"
    and c: "check_peer_decl raw pd0 = Inr pd"
    by (auto simp: parse_peer_spec_def split: sum.splits)
  from c have pd: "pd = pd0" "peer_id_regex (pd_id pd)" "pd_provider pd \<noteq> []"
    by (auto simp: check_peer_decl_def peer_id_validate_def split: if_splits option.splits)
  have "options_ok (pd_options pd)"
    unfolding pd(1) by (rule apply_peer_keys_options [OF k]) (simp add: zero_peer_decl_def options_ok_def)
  with pd show ?thesis by (simp add: peer_decl_ok_def)
qed

text \<open>The invariant of the loop over the flags.\<close>

definition n_peer_loop_ok :: "go_error list \<times> peer_decl list \<times> peer_id list \<Rightarrow> bool" where
  "n_peer_loop_ok = (\<lambda>(errs, peers, seen).
     seen = map pd_id peers \<and> distinct seen \<and> list_all peer_decl_ok peers \<and>
     (errs = [] \<longrightarrow> list_all (\<lambda>p. pd_seed p \<noteq> []) peers))"

lemma n_peer_step_ok:
  assumes "n_peer_loop_ok st"
  shows "n_peer_loop_ok (n_peer_step seed raw st)"
    and "fst (n_peer_step seed raw st) = [] \<Longrightarrow>
      fst st = [] \<and> length (fst (snd (n_peer_step seed raw st))) = Suc (length (fst (snd st)))"
proof -
  obtain errs peers seen where st: "st = (errs, peers, seen)" by (cases st)
  have ok: "peer_decl_ok pd" if "parse_peer_spec raw = Inr pd" for pd
    using that by (rule parse_peer_spec_ok)
  then have ok': "peer_decl_ok (pd\<lparr>pd_seed := x\<rparr>)" if "parse_peer_spec raw = Inr pd" for pd x
    using that by (simp add: peer_decl_ok_def)
  show "n_peer_loop_ok (n_peer_step seed raw st)"
    using assms ok ok' by (auto simp: st n_peer_loop_ok_def n_peer_step_def Let_def split: sum.splits)
  show "fst (n_peer_step seed raw st) = [] \<Longrightarrow>
      fst st = [] \<and> length (fst (snd (n_peer_step seed raw st))) = Suc (length (fst (snd st)))"
    by (auto simp: st n_peer_step_def Let_def split: sum.splits if_splits)
qed

lemma n_peer_fold_ok:
  "n_peer_loop_ok st \<Longrightarrow> n_peer_loop_ok (fold (n_peer_step seed) raws st) \<and>
     (fst (fold (n_peer_step seed) raws st) = [] \<longrightarrow> fst st = [] \<and>
        length (fst (snd (fold (n_peer_step seed) raws st))) = length (fst (snd st)) + length raws)"
proof (induction raws arbitrary: st)
  case (Cons raw raws)
  from Cons.IH [OF n_peer_step_ok(1) [OF Cons.prems]] n_peer_step_ok(2) [OF Cons.prems]
  show ?case by fastforce
qed simp

lemma parse_n_peer_specs_ok:
  assumes "parse_n_peer_specs raws seed opener = Inr cfg"
  shows "length (npc_peers cfg) = length raws \<and> 2 \<le> length raws \<and> length raws \<le> 16 \<and>
    distinct (map pd_id (npc_peers cfg)) \<and>
    list_all (\<lambda>p. peer_decl_ok p \<and> pd_seed p \<noteq> []) (npc_peers cfg) \<and>
    npc_opener_id cfg \<in> set (map pd_id (npc_peers cfg))"
proof -
  obtain errs peers seen where
    f: "fold (n_peer_step seed) raws (n_peer_count_errors raws, [], []) = (errs, peers, seen)"
    by (cases "fold (n_peer_step seed) raws (n_peer_count_errors raws, [], [])")
  have inv: "n_peer_loop_ok (n_peer_count_errors raws, [], [])" by (simp add: n_peer_loop_ok_def)
  note fo = n_peer_fold_ok [OF inv, of seed raws, unfolded f, simplified]
  from assms f have e: "errs = []" and p: "npc_peers cfg = peers"
    and o: "npc_opener_id cfg = (if opener = [] \<or> opener = ''a'' then if peers = [] then [] else pd_id (hd peers)
      else opener)"
    and s: "\<not> (opener = [] \<or> opener = ''a'') \<Longrightarrow> opener \<in> set seen"
    by (auto simp: parse_n_peer_specs_def Let_def split: if_splits)
  from fo e have len: "length peers = length raws" and cnt: "n_peer_count_errors raws = []"
    and ok: "seen = map pd_id peers" "distinct seen" "list_all peer_decl_ok peers"
      "list_all (\<lambda>p. pd_seed p \<noteq> []) peers"
    by (auto simp: n_peer_loop_ok_def)
  from cnt have n: "2 \<le> length raws" "length raws \<le> 16"
    by (auto simp: n_peer_count_errors_def max_n_peers_def split: if_splits)
  from n len have ne: "peers \<noteq> []" by auto
  have "npc_opener_id cfg \<in> set seen"
  proof (cases "opener = [] \<or> opener = ''a''")
    case True
    with ne o ok(1) show ?thesis by simp
  next
    case False
    then have "npc_opener_id cfg = opener" using o by (simp only: if_False)
    with s [OF False] show ?thesis by simp
  qed
  with p len n ok show ?thesis by (auto simp: list_all_iff)
qed

text \<open>
  C22. Every configuration that the \<open>--peer\<close> flags are accepted as is well-formed: one peer per
  flag, 2 to 16 of them, with distinct ids of the documented form, a provider, a seed and only
  the documented options, and the opener is one of them.
\<close>

theorem n_peer_config_wellformed:
  assumes "parse_n_peer_specs raws seed opener = Inr cfg"
  shows "length (npc_peers cfg) = length raws \<and> 2 \<le> length raws \<and> length raws \<le> 16 \<and>
    distinct (map pd_id (npc_peers cfg)) \<and>
    list_all (\<lambda>p. peer_decl_ok p \<and> pd_seed p \<noteq> []) (npc_peers cfg) \<and>
    npc_opener_id cfg \<in> set (map pd_id (npc_peers cfg))"
  by (rule parse_n_peer_specs_ok [OF assms])

section \<open>A printer for peer flags\<close>

text \<open>Every value quoted, with quotes and backslashes escaped.\<close>

definition escape_value :: "string \<Rightarrow> string" where
  "escape_value v = concat (map (\<lambda>c. if c = dquote \<or> c = backslash then [backslash, c] else [c]) v)"

definition show_pair :: "kv_pair \<Rightarrow> string" where
  "show_pair kv = kv_key kv @ CHR ''='' # dquote # escape_value (kv_value kv) @ [dquote]"

definition show_pairs :: "kv_pair list \<Rightarrow> string" where
  "show_pairs kvs = str_join '','' (map show_pair kvs)"

definition peer_pairs :: "peer_decl \<Rightarrow> kv_pair list" where
  "peer_pairs pd =
     \<lparr>kv_key = ''id'', kv_value = pd_id pd\<rparr> # \<lparr>kv_key = ''provider'', kv_value = pd_provider pd\<rparr>
     # \<lparr>kv_key = ''seed'', kv_value = pd_seed pd\<rparr>
     # map (\<lambda>(k, v). \<lparr>kv_key = k, kv_value = v\<rparr>) (pd_options pd)"

definition key_ok :: "string \<Rightarrow> bool" where
  "key_ok k \<longleftrightarrow> k \<noteq> [] \<and> trim_space k = k \<and> list_all (\<lambda>c. \<not> key_stop c) k \<and> hd k \<noteq> sp \<and> hd k \<noteq> tab"

lemma read_quoted_escape: "read_quoted (escape_value v @ dquote # rest) = Some (v, rest)"
  by (induction v) (auto simp: escape_value_def)

lemma read_pair_show:
  assumes k: "key_ok (kv_key kv)" and rest: "rest = [] \<or> hd rest = CHR '',''"
  shows "read_pair raw (show_pair kv @ rest) = Inr (kv, tl rest)"
proof -
  let ?v = "dquote # escape_value (kv_value kv) @ dquote # rest"
  have s: "show_pair kv @ rest = kv_key kv @ CHR ''='' # ?v" by (simp add: show_pair_def)
  have t: "takeWhile (\<lambda>c. \<not> key_stop c) (kv_key kv @ CHR ''='' # ?v) = kv_key kv"
    "dropWhile (\<lambda>c. \<not> key_stop c) (kv_key kv @ CHR ''='' # ?v) = CHR ''='' # ?v"
    using k by (auto simp: key_ok_def list_all_iff key_stop_def takeWhile_append2 dropWhile_append2)
  have v: "read_value raw (kv_key kv) ?v = Inr (kv_value kv, rest)"
    by (simp add: read_value_def read_quoted_escape)
  have k': "trim_space (kv_key kv) = kv_key kv" "kv_key kv \<noteq> []" using k by (auto simp: key_ok_def)
  show ?thesis
    unfolding read_pair_def s t list.sel k'(1) v Let_def using k'(2) rest by auto
qed

lemma show_pair_start:
  "key_ok (kv_key kv) \<Longrightarrow> dropWhile (\<lambda>c. c = sp \<or> c = tab) (show_pair kv @ rest) = show_pair kv @ rest \<and>
     show_pair kv \<noteq> []"
  by (cases "kv_key kv") (auto simp: key_ok_def show_pair_def)

lemma parse_kv_show:
  "list_all (\<lambda>kv. key_ok (kv_key kv)) kvs \<Longrightarrow> parse_kv_from raw (show_pairs kvs) = Inr kvs"
proof (induction kvs)
  case Nil
  then show ?case by (subst parse_kv_from.simps) (simp add: show_pairs_def)
next
  case (Cons kv kvs)
  define rest where "rest = (if kvs = [] then [] else CHR '','' # show_pairs kvs)"
  have sh: "show_pairs (kv # kvs) = show_pair kv @ rest"
    by (auto simp: show_pairs_def str_join_Cons rest_def)
  have k: "key_ok (kv_key kv)" using Cons.prems by simp
  have r: "read_pair raw (show_pair kv @ rest) = Inr (kv, tl rest)"
    by (rule read_pair_show [OF k]) (simp add: rest_def)
  have "parse_kv_from raw (tl rest) = Inr kvs"
  proof (cases "kvs = []")
    case True
    then show ?thesis by (simp add: rest_def parse_kv_from.simps)
  next
    case False
    with Cons show ?thesis by (simp add: rest_def)
  qed
  with r show_pair_start [OF k, of rest] show ?case
    unfolding sh by (subst parse_kv_from.simps) simp
qed

lemma map_put_new: "k \<notin> set (map fst m) \<Longrightarrow> map_put k v m = m @ [(k, v)]"
  by (induction m) auto

lemma set_peer_key_option:
  "k \<in> set option_keys \<Longrightarrow>
     set_peer_key \<lparr>kv_key = k, kv_value = v\<rparr> pd = pd\<lparr>pd_options := map_put k v (pd_options pd)\<rparr>"
  by (auto simp: option_keys_def set_peer_key_def)

lemma apply_peer_options:
  "options_ok (pd_options pd @ m) \<Longrightarrow>
     apply_peer_keys (map (\<lambda>(k, v). \<lparr>kv_key = k, kv_value = v\<rparr>) m) pd = Inr (pd\<lparr>pd_options := pd_options pd @ m\<rparr>)"
proof (induction m arbitrary: pd)
  case (Cons kv m)
  obtain k v where kv: "kv = (k, v)" by (cases kv)
  have k: "k \<in> set option_keys" "k \<notin> set (map fst (pd_options pd))"
    using Cons.prems by (auto simp: options_ok_def kv)
  then have a: "k \<in> set allowed_peer_keys" by (simp add: allowed_peer_keys_def)
  have "options_ok (pd_options (pd\<lparr>pd_options := pd_options pd @ [(k, v)]\<rparr>) @ m)"
    using Cons.prems by (simp add: kv)
  from Cons.IH [OF this] k a show ?case
    by (simp add: kv set_peer_key_option map_put_new)
qed simp

lemma key_ok_allowed: "k \<in> set allowed_peer_keys \<Longrightarrow> key_ok k"
proof -
  have "list_all key_ok allowed_peer_keys" by code_simp
  then show "k \<in> set allowed_peer_keys \<Longrightarrow> key_ok k" by (auto simp: list_all_iff)
qed

text \<open>
  C33. Quoting is lossless: a peer declaration with any provider, seed and option values, printed
  with every value quoted (quotes and backslashes escaped), is parsed back to itself, whatever
  commas, quotes, equals signs or blanks the values hold.
\<close>

theorem peer_spec_roundtrip:
  assumes "peer_decl_ok pd"
  shows "parse_peer_spec (show_pairs (peer_pairs pd)) = Inr pd"
proof -
  have o: "options_ok (pd_options pd)" and i: "peer_id_regex (pd_id pd)" "pd_provider pd \<noteq> []"
    using assms by (simp_all add: peer_decl_ok_def)
  have keys: "kv_key kv \<in> set allowed_peer_keys" if "kv \<in> set (peer_pairs pd)" for kv
    using that o by (auto simp: peer_pairs_def options_ok_def allowed_peer_keys_def)
  then have "parse_key_value_list (show_pairs (peer_pairs pd)) = Inr (peer_pairs pd)"
    unfolding parse_key_value_list_def
    by (intro parse_kv_show) (simp add: list_all_iff key_ok_allowed)
  moreover have "apply_peer_keys (peer_pairs pd) zero_peer_decl = Inr pd"
  proof -
    have a: "''id'' \<in> set allowed_peer_keys" "''provider'' \<in> set allowed_peer_keys"
      "''seed'' \<in> set allowed_peer_keys" by (simp_all add: allowed_peer_keys_def)
    have "apply_peer_keys (peer_pairs pd) zero_peer_decl =
        apply_peer_keys (map (\<lambda>(k, v). \<lparr>kv_key = k, kv_value = v\<rparr>) (pd_options pd)) (pd\<lparr>pd_options := []\<rparr>)"
      using a by (cases pd) (simp add: peer_pairs_def set_peer_key_def zero_peer_decl_def)
    also have "\<dots> = Inr pd"
      using apply_peer_options [of "pd\<lparr>pd_options := []\<rparr>" "pd_options pd"] o by simp
    finally show ?thesis .
  qed
  ultimately show ?thesis
    using i peer_id_regex_nonempty [OF i(1)]
    by (simp add: parse_peer_spec_def check_peer_decl_def peer_id_validate_def)
qed

section \<open>Concrete flags\<close>

definition alice_decl :: peer_decl where
  "alice_decl = \<lparr>pd_id = ''alice'', pd_provider = ''codex'', pd_seed = ''hi, =x'',
     pd_options = [(''model'', ''m'')]\<rparr>"

lemma alice_ok: "peer_decl_ok alice_decl"
  by code_simp

theorem peer_spec_roundtrip_witness:
  "peer_decl_ok alice_decl \<and> parse_peer_spec (show_pairs (peer_pairs alice_decl)) = Inr alice_decl"
  using peer_spec_roundtrip [OF alice_ok] alice_ok by blast

definition two_flags :: "string list" where
  "two_flags = [''id=alice,provider=codex'', ''id=bob,provider=claude-code,seed=go'']"

lemma two_flags_accepted:
  "parse_n_peer_specs two_flags ''hello'' ''bob'' =
     Inr \<lparr>npc_peers = [\<lparr>pd_id = ''alice'', pd_provider = ''codex'', pd_seed = ''hello'', pd_options = []\<rparr>,
            \<lparr>pd_id = ''bob'', pd_provider = ''claude-code'', pd_seed = ''go'', pd_options = []\<rparr>],
          npc_opener_id = ''bob''\<rparr>"
  by code_simp

theorem n_peer_config_wellformed_witness:
  "2 \<le> length two_flags \<and> ''bob'' \<in> set (map pd_id
     [\<lparr>pd_id = ''alice'', pd_provider = ''codex'', pd_seed = ''hello'', pd_options = []\<rparr>,
      \<lparr>pd_id = ''bob'', pd_provider = ''claude-code'', pd_seed = ''go'', pd_options = []\<rparr>])"
  using n_peer_config_wellformed [OF two_flags_accepted] by simp

end
