(* ===== verification/ConverseCli.thy ===== *)
theory ConverseCli
  imports Broker PeerFlags GoPath
begin

text \<open>
  The \<open>converse\<close> command, \<open>src/internal/cli/converse.go\<close> and \<open>converse_npeer_run.go\<close>, after the
  parsing of the argument vector, which theory \<open>CommandLine\<close> puts in front: the repeatable flags, the validation of
  the flag values in the order of the code, the conversation and the broker dependencies they
  are turned into, the streaming of turns and the exit code.  The file system is asked through
  \<open>stat\<close> (an error, or whether the path is a directory); opening the store, running the broker and
  encoding the result are parameters of the command.
\<close>

section \<open>Flags\<close>

record converse_flags =
  fl_peer_a :: string
  fl_peer_b :: string
  fl_seed :: string
  fl_seed_a :: string
  fl_seed_b :: string
  fl_opener :: string
  fl_max_turns :: int
  fl_terminator :: string
  fl_sentinel :: string
  fl_per_turn_timeout :: int
  fl_overall_timeout :: int
  fl_bus :: string
  fl_log_backend :: string
  fl_log_path :: string
  fl_working_directory :: string
  fl_stream_turns :: bool
  fl_style :: string
  fl_peer_a_opts :: str_map
  fl_peer_b_opts :: str_map
  fl_peers :: "string list"

text \<open>The defaults of the flag definitions.\<close>

definition default_flags :: converse_flags where
  "default_flags =
     \<lparr>fl_peer_a = [], fl_peer_b = [], fl_seed = [], fl_seed_a = [], fl_seed_b = [], fl_opener = ''a'',
      fl_max_turns = 50, fl_terminator = ''sentinel'', fl_sentinel = ''<<END>>'',
      fl_per_turn_timeout = 300, fl_overall_timeout = 0, fl_bus = ''inproc'', fl_log_backend = ''file'',
      fl_log_path = ''./logs'', fl_working_directory = [], fl_stream_turns = True, fl_style = ''normal'',
      fl_peer_a_opts = [], fl_peer_b_opts = [], fl_peers = []\<rparr>"

definition repeatable_flag_set :: "string \<Rightarrow> str_map \<Rightarrow> go_error option \<times> str_map" where
  "repeatable_flag_set value values =
     (case str_index value ''='' of
        None \<Rightarrow> (Some (ErrMsg (''expected key=value, got '' @ go_quote value)), values)
      | Some idx \<Rightarrow>
         (if idx = 0 then (Some (ErrMsg (''expected key=value, got '' @ go_quote value)), values)
          else (None, map_put (take idx value) (drop (idx + 1) value) values)))"

definition string_slice_flag_set :: "string \<Rightarrow> string list \<Rightarrow> string list" where
  "string_slice_flag_set value values = values @ [value]"

definition merge_options :: "str_map \<Rightarrow> string \<Rightarrow> str_map" where
  "merge_options opts wd =
     (if wd \<noteq> [] \<and> map_get opts ''cwd'' = [] then map_put ''cwd'' wd opts else opts)"

fun converse_first_non_empty :: "string list \<Rightarrow> string" where
  "converse_first_non_empty [] = []"
| "converse_first_non_empty (v # vs) = (if v \<noteq> [] then v else converse_first_non_empty vs)"

section \<open>Validation\<close>

text \<open>
  Both paths check a list of conditions in order and print the message of the first that
  fails; a message is what follows \<open>converse: \<close> on standard error.
\<close>

fun first_failure :: "(bool \<times> string) list \<Rightarrow> string option" where
  "first_failure [] = None"
| "first_failure ((bad, msg) # checks) = (if bad then Some msg else first_failure checks)"

definition unsupported :: "string \<Rightarrow> string \<Rightarrow> string \<Rightarrow> string" where
  "unsupported what value only = what @ '' '' @ go_quote value @ '' not supported in this build ('' @ only @ '' only)''"

definition style_message :: "string \<Rightarrow> string" where
  "style_message s = ''--style '' @ go_quote s
     @ '' is not valid (use normal, caveman-lite, caveman-full, or caveman-ultra)''"

definition two_peer_checks :: "converse_flags \<Rightarrow> (bool \<times> string) list" where
  "two_peer_checks f =
     [(fl_peer_a f = [] \<or> fl_peer_b f = [],
         ''--peer-a and --peer-b are required (or use --peer for N-peer mode)''),
      (fl_seed f = [] \<and> (fl_seed_a f = [] \<or> fl_seed_b f = []), ''provide --seed or both --seed-a and --seed-b''),
      (fl_seed f \<noteq> [] \<and> (fl_seed_a f \<noteq> [] \<or> fl_seed_b f \<noteq> []),
         ''--seed is mutually exclusive with --seed-a/--seed-b''),
      (fl_opener f \<noteq> ''a'' \<and> fl_opener f \<noteq> ''b'', ''--opener must be a or b''),
      (fl_max_turns f < 1 \<or> fl_max_turns f > 500, ''--max-turns must be in [1,500]''),
      (fl_terminator f \<noteq> ''sentinel'', unsupported ''terminator'' (fl_terminator f) ''sentinel''),
      (fl_bus f \<noteq> ''inproc'', unsupported ''bus'' (fl_bus f) ''inproc''),
      (fl_log_backend f \<noteq> ''file'', unsupported ''log-backend'' (fl_log_backend f) ''file''),
      (\<not> is_valid_style (fl_style f), style_message (fl_style f)),
      (fl_per_turn_timeout f < 1, ''--per-turn-timeout must be positive''),
      (fl_per_turn_timeout f > 3600, ''--per-turn-timeout must be at most 3600 seconds''),
      (fl_overall_timeout f > 86400, ''--overall-timeout must be at most 86400 seconds (24h)'')]"

definition n_peer_checks :: "converse_flags \<Rightarrow> (bool \<times> string) list" where
  "n_peer_checks f =
     [(fl_terminator f \<noteq> ''sentinel'', unsupported ''terminator'' (fl_terminator f) ''sentinel''),
      (fl_bus f \<noteq> ''inproc'', unsupported ''bus'' (fl_bus f) ''inproc''),
      (fl_log_backend f \<noteq> ''file'', unsupported ''log-backend'' (fl_log_backend f) ''file''),
      (\<not> is_valid_style (fl_style f), style_message (fl_style f)),
      (fl_max_turns f < 1 \<or> fl_max_turns f > 500, ''--max-turns must be in [1,500]''),
      (fl_per_turn_timeout f < 1 \<or> fl_per_turn_timeout f > 3600, ''--per-turn-timeout must be in [1,3600]''),
      (fl_overall_timeout f > 86400, ''--overall-timeout must be at most 86400 seconds (24h)'')]"

text \<open>The default of the overall timeout, with the guard against overflow.\<close>

definition resolve_overall_timeout :: "converse_flags \<Rightarrow> string + int" where
  "resolve_overall_timeout f =
     (if fl_overall_timeout f = 0 then
        (if fl_max_turns f > 0 \<and> fl_per_turn_timeout f > 0 \<and>
            fl_per_turn_timeout f > max_int64 div fl_max_turns f
         then Inl ''--max-turns * --per-turn-timeout would overflow; set --overall-timeout explicitly''
         else Inr (wrap64 (fl_max_turns f * fl_per_turn_timeout f)))
      else Inr (fl_overall_timeout f))"

definition check_working_directory :: "(string \<Rightarrow> bool result) \<Rightarrow> string \<Rightarrow> string + string" where
  "check_working_directory stat wd =
     (if wd = [] then Inr []
      else let wd = path_clean wd in
        case stat wd of
          Inl e \<Rightarrow> Inl (''--working-directory '' @ go_quote wd @ '': '' @ err_text e)
        | Inr is_dir \<Rightarrow>
           if is_dir then Inr wd else Inl (''--working-directory '' @ go_quote wd @ '' is not a directory''))"

definition flag_checks ::
    "(bool \<times> string) list \<Rightarrow> (string \<Rightarrow> bool result) \<Rightarrow> converse_flags \<Rightarrow> string + (int \<times> string)" where
  "flag_checks checks stat f =
     (case first_failure checks of
        Some msg \<Rightarrow> Inl msg
      | None \<Rightarrow>
         (case resolve_overall_timeout f of
            Inl msg \<Rightarrow> Inl msg
          | Inr overall \<Rightarrow>
             (case check_working_directory stat (fl_working_directory f) of
                Inl msg \<Rightarrow> Inl msg
              | Inr wd \<Rightarrow> Inr (overall, wd))))"

section \<open>The conversation and the broker\<close>

definition two_peer_conversation ::
    "string \<Rightarrow> go_time \<Rightarrow> int \<Rightarrow> string \<Rightarrow> converse_flags \<Rightarrow> conversation" where
  "two_peer_conversation cid now overall wd f =
     zero_conversation\<lparr>conv_id := cid, conv_created_at := now, conv_status := ConvRunning,
       conv_max_turns := fl_max_turns f, conv_per_turn_timeout := fl_per_turn_timeout f,
       conv_overall_timeout := overall,
       conv_terminator := \<lparr>term_kind = ''sentinel'', term_sentinel = fl_sentinel f, term_judge_uri = []\<rparr>,
       conv_peer_a := \<lparr>ps_uri = fl_peer_a f, ps_options = merge_options (fl_peer_a_opts f) wd\<rparr>,
       conv_peer_b := \<lparr>ps_uri = fl_peer_b f, ps_options = merge_options (fl_peer_b_opts f) wd\<rparr>,
       conv_seed_a := converse_first_non_empty [fl_seed_a f, fl_seed f],
       conv_seed_b := converse_first_non_empty [fl_seed_b f, fl_seed f],
       conv_opener := fl_opener f, conv_reply_style := fl_style f\<rparr>"

definition inject_cwd :: "string \<Rightarrow> peer_participant \<Rightarrow> peer_participant" where
  "inject_cwd wd p =
     p\<lparr>part_spec := (part_spec p)\<lparr>ps_options := merge_options (ps_options (part_spec p)) wd\<rparr>\<rparr>"

definition n_peer_conversation ::
    "string \<Rightarrow> go_time \<Rightarrow> int \<Rightarrow> string \<Rightarrow> n_peer_config \<Rightarrow> converse_flags \<Rightarrow> conversation" where
  "n_peer_conversation cid now overall wd cfg f =
     zero_conversation\<lparr>conv_id := cid, conv_schema_version := 2, conv_created_at := now,
       conv_status := ConvRunning, conv_max_turns := fl_max_turns f,
       conv_per_turn_timeout := fl_per_turn_timeout f, conv_overall_timeout := overall,
       conv_terminator := \<lparr>term_kind = ''sentinel'', term_sentinel = fl_sentinel f, term_judge_uri = []\<rparr>,
       conv_peers := map (inject_cwd wd) (fst (to_v2_conversation cfg)),
       conv_seeds := snd (to_v2_conversation cfg),
       conv_opener_id := npc_opener_id cfg, conv_reply_style := fl_style f\<rparr>"

text \<open>The broker dependencies; transports are created for the declared peers, in order.\<close>

definition two_peer_config ::
    "(string \<Rightarrow> bool result) \<Rightarrow> string \<Rightarrow> go_time \<Rightarrow> converse_flags \<Rightarrow> string + broker_deps" where
  "two_peer_config stat cid now f =
     (case flag_checks (two_peer_checks f) stat f of
        Inl msg \<Rightarrow> Inl msg
      | Inr (overall, wd) \<Rightarrow> Inr (new_broker (two_peer_conversation cid now overall wd f) 0 None [] []))"

definition n_peer_deps :: "conversation \<Rightarrow> broker_deps" where
  "n_peer_deps conv = new_broker conv 0 None (map part_id (conv_peers conv)) (map part_id (conv_peers conv))"

definition run_n_peer_config ::
    "(string \<Rightarrow> bool result) \<Rightarrow> string \<Rightarrow> go_time \<Rightarrow> converse_flags \<Rightarrow> string + broker_deps" where
  "run_n_peer_config stat cid now f =
     (case parse_n_peer_specs (fl_peers f) (fl_seed f) (fl_opener f) of
        Inl e \<Rightarrow> Inl (err_text e)
      | Inr cfg \<Rightarrow>
         (case flag_checks (n_peer_checks f) stat f of
            Inl msg \<Rightarrow> Inl msg
          | Inr (overall, wd) \<Rightarrow> Inr (n_peer_deps (n_peer_conversation cid now overall wd cfg f))))"

definition converse_exit :: "conversation_status \<Rightarrow> nat" where
  "converse_exit status =
     (if status \<in> {ConvCompletedSentinel, ConvCompletedJudge, ConvMaxTurnsHit, ConvInterrupted} then 0 else 1)"

text \<open>
  From the broker on: exit code and what goes to standard error.  \<open>Run\<close> never returns an error next to
  its result, so the branch for it does not occur.
\<close>

definition run_broker ::
    "(string \<Rightarrow> go_error option) \<Rightarrow> (broker_deps \<Rightarrow> final_result) \<Rightarrow> (final_result \<Rightarrow> go_error option)
      \<Rightarrow> string \<Rightarrow> broker_deps \<Rightarrow> nat \<times> string" where
  "run_broker open_store run encode log_path deps =
     (case open_store (path_clean log_path) of
        Some e \<Rightarrow> (1, ''converse: store init: '' @ err_text e)
      | None \<Rightarrow>
         (let res = run deps in
          case encode res of
            Some e \<Rightarrow> (1, ''converse: encode result: '' @ err_text e)
          | None \<Rightarrow> (converse_exit (conv_status (fr_conversation res)), [])))"

definition run_n_peer_converse ::
    "(string \<Rightarrow> bool result) \<Rightarrow> (string \<Rightarrow> go_error option) \<Rightarrow> (broker_deps \<Rightarrow> final_result)
      \<Rightarrow> (final_result \<Rightarrow> go_error option) \<Rightarrow> string \<Rightarrow> go_time \<Rightarrow> converse_flags \<Rightarrow> nat \<times> string" where
  "run_n_peer_converse stat open_store run encode cid now f =
     (case run_n_peer_config stat cid now f of
        Inl msg \<Rightarrow> (2, ''converse: '' @ msg)
      | Inr deps \<Rightarrow> run_broker open_store run encode (fl_log_path f) deps)"

definition converse_command ::
    "(string \<Rightarrow> bool result) \<Rightarrow> (string \<Rightarrow> go_error option) \<Rightarrow> (broker_deps \<Rightarrow> final_result)
      \<Rightarrow> (final_result \<Rightarrow> go_error option) \<Rightarrow> string \<Rightarrow> go_time \<Rightarrow> converse_flags \<Rightarrow> nat \<times> string" where
  "converse_command stat open_store run encode cid now f =
     (if fl_peers f \<noteq> [] then
        (if fl_peer_a f \<noteq> [] \<or> fl_peer_b f \<noteq> [] then (2, ''converse: cannot mix --peer with --peer-a/--peer-b'')
         else run_n_peer_converse stat open_store run encode cid now f)
      else (case two_peer_config stat cid now f of
              Inl msg \<Rightarrow> (2, ''converse: '' @ msg)
            | Inr deps \<Rightarrow> run_broker open_store run encode (fl_log_path f) deps))"

text \<open>Both modes at once: the broker the flags describe, or the message of the first failed check.\<close>

definition converse_config ::
    "(string \<Rightarrow> bool result) \<Rightarrow> string \<Rightarrow> go_time \<Rightarrow> converse_flags \<Rightarrow> string + broker_deps" where
  "converse_config stat cid now f =
     (if fl_peers f \<noteq> [] then
        (if fl_peer_a f \<noteq> [] \<or> fl_peer_b f \<noteq> [] then Inl ''cannot mix --peer with --peer-a/--peer-b''
         else run_n_peer_config stat cid now f)
      else two_peer_config stat cid now f)"

lemma converse_command_config:
  "converse_command stat open_store run encode cid now f =
     (case converse_config stat cid now f of
        Inl msg \<Rightarrow> (2, ''converse: '' @ msg)
      | Inr deps \<Rightarrow> run_broker open_store run encode (fl_log_path f) deps)"
  by (simp add: converse_command_def run_n_peer_converse_def converse_config_def)

text \<open>The streaming goroutine: the turns it writes for the messages it reads until the channel closes.\<close>

definition stream_turns_to :: "bus_message list \<Rightarrow> conversation_turn list" where
  "stream_turns_to msgs = List.map_filter (\<lambda>m. unmarshal_turn (bm_payload m)) msgs"

section \<open>What accepted flags guarantee\<close>

lemma first_failure_None: "first_failure cs = None \<longleftrightarrow> list_all (\<lambda>(bad, msg). \<not> bad) cs"
  by (induction cs rule: first_failure.induct) auto

lemma flag_checks_cases:
  assumes "flag_checks checks stat f = Inr (overall, wd)"
  shows "list_all (\<lambda>(bad, msg). \<not> bad) checks" and "resolve_overall_timeout f = Inr overall"
  using assms by (auto simp: flag_checks_def first_failure_None split: option.splits sum.splits)

text \<open>The two kinds of accepted command lines.\<close>

lemma converse_config_cases [consumes 1, case_names two n]:
  assumes "converse_config stat cid now f = Inr d"
  obtains overall wd where "d = new_broker (two_peer_conversation cid now overall wd f) 0 None [] []"
      "resolve_overall_timeout f = Inr overall"
      "1 \<le> fl_max_turns f" "fl_max_turns f \<le> 500" "1 \<le> fl_per_turn_timeout f" "fl_per_turn_timeout f \<le> 3600"
      "fl_overall_timeout f \<le> 86400" "fl_opener f = ''a'' \<or> fl_opener f = ''b''"
  | cfg overall wd where "d = n_peer_deps (n_peer_conversation cid now overall wd cfg f)"
      "parse_n_peer_specs (fl_peers f) (fl_seed f) (fl_opener f) = Inr cfg"
      "resolve_overall_timeout f = Inr overall"
      "1 \<le> fl_max_turns f" "fl_max_turns f \<le> 500" "1 \<le> fl_per_turn_timeout f" "fl_per_turn_timeout f \<le> 3600"
      "fl_overall_timeout f \<le> 86400"
proof (cases "fl_peers f = []")
  case True
  with assms obtain overall wd where c: "flag_checks (two_peer_checks f) stat f = Inr (overall, wd)"
    and d: "d = new_broker (two_peer_conversation cid now overall wd f) 0 None [] []"
    by (auto simp: converse_config_def two_peer_config_def split: sum.splits)
  show thesis
    by (rule that(1) [OF d flag_checks_cases(2) [OF c]])
       (use flag_checks_cases(1) [OF c] in \<open>auto simp: two_peer_checks_def\<close>)
next
  case False
  with assms obtain cfg overall wd where p: "parse_n_peer_specs (fl_peers f) (fl_seed f) (fl_opener f) = Inr cfg"
    and c: "flag_checks (n_peer_checks f) stat f = Inr (overall, wd)"
    and d: "d = n_peer_deps (n_peer_conversation cid now overall wd cfg f)"
    by (auto simp: converse_config_def run_n_peer_config_def split: sum.splits if_splits)
  show thesis
    by (rule that(2) [OF d p flag_checks_cases(2) [OF c]])
       (use flag_checks_cases(1) [OF c] in \<open>auto simp: n_peer_checks_def\<close>)
qed

lemma inject_cwd_id [simp]: "part_id (inject_cwd wd p) = part_id p"
  by (simp add: inject_cwd_def)

lemma n_peer_deps_ids:
  "map part_id (conv_peers (n_peer_conversation cid now overall wd cfg f)) = map pd_id (npc_peers cfg)"
  by (simp add: n_peer_conversation_def to_v2_conversation_def comp_def)

lemma accepted_deps:
  assumes "converse_config stat cid now f = Inr d"
  shows "bd_policy d = addressed_next" "conv_turns_consumed (bd_conversation d) = 0"
    "conv_max_turns (bd_conversation d) = fl_max_turns f" "1 \<le> fl_max_turns f" "fl_max_turns f \<le> 500"
    "opener_slot d (bd_conversation d) \<in> set (peer_ids d)"
    "n_peer_mode d \<Longrightarrow> bd_peer_order d \<noteq> [] \<and> bd_peers_by_id d = bd_peer_order d \<and>
       opener_slot d (bd_conversation d) \<in> set (bd_peers_by_id d)"
proof -
  have "bd_policy d = addressed_next \<and> conv_turns_consumed (bd_conversation d) = 0 \<and>
    conv_max_turns (bd_conversation d) = fl_max_turns f \<and> 1 \<le> fl_max_turns f \<and> fl_max_turns f \<le> 500 \<and>
    opener_slot d (bd_conversation d) \<in> set (peer_ids d) \<and>
    (n_peer_mode d \<longrightarrow> bd_peer_order d \<noteq> [] \<and> bd_peers_by_id d = bd_peer_order d \<and>
       opener_slot d (bd_conversation d) \<in> set (bd_peers_by_id d))"
    using assms
  proof (cases rule: converse_config_cases)
    case (two overall wd)
    then show ?thesis
      by (auto simp: new_broker_def two_peer_conversation_def zero_conversation_def n_peer_mode_def peer_ids_def
          opener_slot_def status_defs)
  next
    case (n cfg overall wd)
    have ids: "map part_id (conv_peers (n_peer_conversation cid now overall wd cfg f)) = map pd_id (npc_peers cfg)"
      by (rule n_peer_deps_ids)
    from parse_n_peer_specs_ok [OF n(2)]
    have op: "npc_opener_id cfg \<in> set (map pd_id (npc_peers cfg))" and ne: "npc_peers cfg \<noteq> []"
      and ok: "list_all (\<lambda>p. peer_decl_ok p \<and> pd_seed p \<noteq> []) (npc_peers cfg)" by auto
    have ne': "npc_opener_id cfg \<noteq> []"
      using op ok by (fastforce simp: list_all_iff peer_decl_ok_def dest: peer_id_regex_nonempty)
    have fields: "conv_turns_consumed (n_peer_conversation cid now overall wd cfg f) = 0"
      "conv_max_turns (n_peer_conversation cid now overall wd cfg f) = fl_max_turns f"
      "conv_opener_id (n_peer_conversation cid now overall wd cfg f) = npc_opener_id cfg"
      by (simp_all add: n_peer_conversation_def zero_conversation_def)
    show ?thesis
      using n(4,5) op ne ne' unfolding n(1) n_peer_deps_def ids
      by (simp add: new_broker_def fields n_peer_mode_def peer_ids_def opener_slot_def)
  qed
  then show "bd_policy d = addressed_next" "conv_turns_consumed (bd_conversation d) = 0"
    "conv_max_turns (bd_conversation d) = fl_max_turns f" "1 \<le> fl_max_turns f" "fl_max_turns f \<le> 500"
    "opener_slot d (bd_conversation d) \<in> set (peer_ids d)"
    "n_peer_mode d \<Longrightarrow> bd_peer_order d \<noteq> [] \<and> bd_peers_by_id d = bd_peer_order d \<and>
       opener_slot d (bd_conversation d) \<in> set (bd_peers_by_id d)"
    by blast+
qed

lemma turn_chain_speakers:
  assumes "turn_chain opener ts" and "opener \<in> S" and "\<forall>t \<in> set ts. ct_to_id t \<in> S" and "t \<in> set ts"
  shows "ct_from_id t \<in> S"
proof -
  obtain i where i: "i < length ts" "t = ts ! i" using assms(4) by (auto simp: in_set_conv_nth)
  show ?thesis
  proof (cases i)
    case 0
    with i assms(1,2) show ?thesis by (auto simp: turn_chain_def)
  next
    case (Suc j)
    with i assms(1,3) show ?thesis by (auto simp: turn_chain_def)
  qed
qed

text \<open>
  From the command line to the end of a conversation: whatever flags \<open>vitis converse\<close> accepts,
  in two-peer or N-peer mode, the broker it sets up returns without a panic for every behaviour of
  peers, store, bus and terminator, within the requested number of turns, which is at most 500,
  and only declared peers speak and are addressed.
\<close>

theorem accepted_flags_run:
  assumes "converse_config stat cid now f = Inr d" and "\<And>w. fst (op_random ops w) \<noteq> None"
  shows "\<exists>r w'. broker_run ops d w = Some (r, w') \<and> int (length (fr_turns r)) \<le> fl_max_turns f \<and>
    fl_max_turns f \<le> 500 \<and>
    (\<forall>t \<in> set (fr_turns r). ct_from_id t \<in> set (peer_ids d) \<and> ct_to_id t \<in> set (peer_ids d))"
proof -
  note a = accepted_deps [OF assms(1)]
  have "broker_run ops d w \<noteq> None"
    by (rule addressed.broker_run_returns) (use a assms(2) in auto)
  then obtain r w' where r: "broker_run ops d w = Some (r, w')" by auto
  from broker_run_counted [OF r a(2)] a(3,4) have len: "int (length (fr_turns r)) \<le> fl_max_turns f" by simp
  from addressed.broker_run_routed [OF r a(1)] a(6) have
    "\<forall>t \<in> set (fr_turns r). ct_from_id t \<in> set (peer_ids d) \<and> ct_to_id t \<in> set (peer_ids d)"
    using turn_chain_speakers by blast
  with r len a(5) show ?thesis by blast
qed

text \<open>
  Timeouts never overflow: with accepted flags and an overall timeout that is not negative,
  the guard against overflow never fires, and the two durations of the conversation are exact
  and positive: the per-turn timeout is at most an hour, the overall one at most 500 hours.
\<close>

theorem accepted_timeouts:
  assumes "converse_config stat cid now f = Inr d" and "0 \<le> fl_overall_timeout f"
  shows "per_turn_timeout_duration (bd_conversation d) = fl_per_turn_timeout f * 1000000000 \<and>
    overall_timeout_duration (bd_conversation d) =
      (if fl_overall_timeout f = 0 then fl_max_turns f * fl_per_turn_timeout f else fl_overall_timeout f)
        * 1000000000 \<and>
    0 < per_turn_timeout_duration (bd_conversation d) \<and>
    per_turn_timeout_duration (bd_conversation d) \<le> 3600 * 1000000000 \<and>
    0 < overall_timeout_duration (bd_conversation d) \<and>
    overall_timeout_duration (bd_conversation d) \<le> 500 * 3600 * 1000000000"
proof -
  obtain overall where o: "resolve_overall_timeout f = Inr overall"
    and m: "1 \<le> fl_max_turns f" "fl_max_turns f \<le> 500"
    and p: "1 \<le> fl_per_turn_timeout f" "fl_per_turn_timeout f \<le> 3600" and ov: "fl_overall_timeout f \<le> 86400"
    and c: "conv_per_turn_timeout (bd_conversation d) = fl_per_turn_timeout f"
      "conv_overall_timeout (bd_conversation d) = overall"
    using assms(1)
    by (cases rule: converse_config_cases)
       (auto simp: new_broker_def n_peer_deps_def two_peer_conversation_def n_peer_conversation_def)
  have b: "1 \<le> fl_max_turns f * fl_per_turn_timeout f" "fl_max_turns f * fl_per_turn_timeout f \<le> 500 * 3600"
    using m p mult_mono [of 1 "fl_max_turns f" 1 "fl_per_turn_timeout f"]
      mult_mono [of "fl_max_turns f" 500 "fl_per_turn_timeout f" 3600] by auto
  have "overall = (if fl_overall_timeout f = 0 then fl_max_turns f * fl_per_turn_timeout f else fl_overall_timeout f)"
    using o b wrap64_id [of "fl_max_turns f * fl_per_turn_timeout f"]
    by (auto simp: resolve_overall_timeout_def min_int64_def max_int64_def split: if_splits)
  then show ?thesis
    using b p ov assms(2) wrap64_id [of "overall * 1000000000"] wrap64_id [of "fl_per_turn_timeout f * 1000000000"]
    by (auto simp: per_turn_timeout_duration_def overall_timeout_duration_def c min_int64_def max_int64_def)
qed

section \<open>Seeds in N-peer mode\<close>

lemma seed_for_n_peer: "seed_for (n_peer_conversation cid now overall wd cfg f) slot = []"
  by (simp add: seed_for_def n_peer_conversation_def zero_conversation_def)

text \<open>
  In N-peer mode the seeds never reach a peer: the first envelope of a conversation that the
  \<open>--peer\<close> flags set up has an empty seed, whatever seeds were declared, and no envelope depends
  on the seeds of the conversation.
\<close>

theorem n_peer_seeds_unused:
  "build_envelope_turn1 (n_peer_conversation cid now overall wd cfg f) slot marker =
     build_envelope_turn1 ((n_peer_conversation cid now overall wd cfg f)\<lparr>conv_seeds := seeds\<rparr>) slot marker \<and>
   env_body (build_envelope_turn1 (n_peer_conversation cid now overall wd cfg f) slot marker) =
     env_briefing (build_envelope_turn1 (n_peer_conversation cid now overall wd cfg f) slot marker)
     @ [nl, nl] @ render_body cid 1 (fl_max_turns f) ''seed'' [] marker \<and>
   build_envelope_turn_n (n_peer_conversation cid now overall wd cfg f) i from reply marker =
     build_envelope_turn_n ((n_peer_conversation cid now overall wd cfg f)\<lparr>conv_seeds := seeds\<rparr>) i from reply marker"
proof -
  have id: "conv_id (n_peer_conversation cid now overall wd cfg f) = cid"
    "conv_max_turns (n_peer_conversation cid now overall wd cfg f) = fl_max_turns f"
    by (simp_all add: n_peer_conversation_def)
  have seed: "seed_for (c\<lparr>conv_seeds := seeds\<rparr>) slot = seed_for c slot" for c
    by (simp add: seed_for_def)
  show ?thesis
    unfolding build_envelope_turn1_def build_envelope_turn_n_def Let_def seed seed_for_n_peer id by (simp add: id)
qed

section \<open>Concrete command lines\<close>

definition demo_flags :: converse_flags where
  "demo_flags = default_flags\<lparr>fl_peers := two_flags, fl_seed := ''hello'', fl_opener := ''bob'', fl_max_turns := 3\<rparr>"

lemma demo_flags_accepted:
  "\<exists>d. converse_config (\<lambda>_. Inr True) ''c'' 1 demo_flags = Inr d"
proof -
  have p: "parse_n_peer_specs (fl_peers demo_flags) (fl_seed demo_flags) (fl_opener demo_flags) \<noteq> Inl e" for e
    by (simp add: demo_flags_def two_flags_accepted)
  have c: "flag_checks (n_peer_checks demo_flags) (\<lambda>_. Inr True) demo_flags \<noteq> Inl e" for e
    by (simp add: flag_checks_def n_peer_checks_def demo_flags_def default_flags_def is_valid_style_def
        resolve_overall_timeout_def check_working_directory_def max_int64_def StyleNormal_def)
  have "fl_peers demo_flags \<noteq> []" "fl_peer_a demo_flags = []" "fl_peer_b demo_flags = []"
    by (simp_all add: demo_flags_def default_flags_def two_flags_def)
  then show ?thesis
    using p c by (auto simp: converse_config_def run_n_peer_config_def split: sum.splits)
qed

theorem accepted_flags_run_witness:
  "\<exists>d r w'. converse_config (\<lambda>_. Inr True) ''c'' 1 demo_flags = Inr d \<and>
     broker_run quiet_ops d () = Some (r, w') \<and> int (length (fr_turns r)) \<le> 3"
proof -
  obtain d where d: "converse_config (\<lambda>_. Inr True) ''c'' 1 demo_flags = Inr d" using demo_flags_accepted by blast
  have "fl_max_turns demo_flags = 3" by (simp add: demo_flags_def)
  with accepted_flags_run [OF d quiet_ready(2), of "()"] d show ?thesis by auto
qed

theorem accepted_timeouts_witness:
  "\<exists>d. converse_config (\<lambda>_. Inr True) ''c'' 1 demo_flags = Inr d \<and>
     overall_timeout_duration (bd_conversation d) = 900 * 1000000000"
proof -
  obtain d where d: "converse_config (\<lambda>_. Inr True) ''c'' 1 demo_flags = Inr d" using demo_flags_accepted by blast
  have f: "fl_max_turns demo_flags = 3" "fl_overall_timeout demo_flags = 0" "fl_per_turn_timeout demo_flags = 300"
    by (simp_all add: demo_flags_def default_flags_def)
  have "0 \<le> fl_overall_timeout demo_flags" by (simp add: f)
  from accepted_timeouts [OF d this] d show ?thesis by (simp add: f)
qed

end
