(* ===== verification/Orchestrator.thy ===== *)
theory Orchestrator
  imports Util Adapters Terminal
begin

text \<open>
  Single-shot runs, \<open>src/internal/orchestrator\<close>: the completion loop that watches a process until
  its adapter reports a terminal observation or the context ends, and \<open>Run\<close> around it.  Store,
  terminal, clock and environment are a record of operations on a world; each iteration of the
  loop is driven by the case its \<open>select\<close> picks.  \<open>None\<close> means that the loop is still waiting.
  The record always has its operations, so the check of \<open>Run\<close> for missing dependencies has no
  counterpart.
\<close>

section \<open>The completion loop\<close>

datatype loop_wake =
    WakeCtxDone
  | WakeOutput stream_event
  | WakeOutputClosed
  | WakeDone "exit_result option"
  | WakeTick go_time go_time

text \<open>
  A receive from the done channel yields the exit result once; the process then closes the
  channel, and every later receive yields nothing (\<open>WakeDone None\<close>). A tick carries the two
  clock readings of its case.
\<close>

record 'w run_ops =
  ro_now :: "'w \<Rightarrow> go_time \<times> 'w"
  ro_random :: "'w \<Rightarrow> string result \<times> 'w"
  ro_read_file :: "'w \<Rightarrow> string \<Rightarrow> string result"
  ro_home_dir :: "'w \<Rightarrow> string result"
  ro_spawn :: "spawn_spec \<Rightarrow> 'w \<Rightarrow> go_error option \<times> 'w"
  ro_write :: "string \<Rightarrow> 'w \<Rightarrow> go_error option \<times> 'w"
  ro_terminate :: "int \<Rightarrow> 'w \<Rightarrow> 'w"
  ro_create_session :: "session \<Rightarrow> 'w \<Rightarrow> go_error option \<times> 'w"
  ro_update_session :: "string \<Rightarrow> session_patch \<Rightarrow> 'w \<Rightarrow> go_error option \<times> 'w"
  ro_append_turn :: "turn \<Rightarrow> 'w \<Rightarrow> go_error option \<times> 'w"
  ro_peek_turns :: "string \<Rightarrow> int \<Rightarrow> 'w \<Rightarrow> turn list result"
  ro_append_stream_event :: "stored_stream_event \<Rightarrow> 'w \<Rightarrow> go_error option \<times> 'w"

record completion_result =
  cr_observation :: transcript_observation
  cr_transcript :: transcript
  cr_exit_code :: "int option"

definition timeout_observation :: transcript_observation where
  "timeout_observation = observation RunTimeout True 100 ''context deadline exceeded'' ''timeout''"

text \<open>\<open>Duration.Milliseconds\<close> truncates toward zero.\<close>

definition to_millis :: "duration \<Rightarrow> int" where
  "to_millis d = (if d \<ge> 0 then d div 1000000 else - ((- d) div 1000000))"

definition tick_context :: "go_time \<Rightarrow> go_time \<Rightarrow> go_time \<Rightarrow> transcript \<Rightarrow> int option \<Rightarrow> completion_context" where
  "tick_context start now1 now2 tr code =
     \<lparr>cc_raw_tail = tr_tail tr, cc_normalized_tail = tail_normalized tr,
      cc_elapsed_ms = to_millis (time_sub now1 start), cc_idle_ms = to_millis (idle_since now2 tr),
      cc_exit_code = code, cc_bytes_seen = tr_bytes_seen tr, cc_last_write_ms = 0\<rparr>"

fun completion_loop ::
    "'w run_ops \<Rightarrow> adapter \<Rightarrow> string \<Rightarrow> bool \<Rightarrow> go_time \<Rightarrow> loop_wake list \<Rightarrow> transcript \<Rightarrow> int option \<Rightarrow> 'w
      \<Rightarrow> (completion_result \<times> 'w) option" where
  "completion_loop ops prov sid debug start [] tr code w = None"
| "completion_loop ops prov sid debug start (WakeCtxDone # wakes) tr code w =
     Some (\<lparr>cr_observation = timeout_observation, cr_transcript = tr, cr_exit_code = code\<rparr>,
           ro_terminate ops 5000 w)"
| "completion_loop ops prov sid debug start (WakeOutputClosed # wakes) tr code w =
     completion_loop ops prov sid debug start wakes tr code w"
| "completion_loop ops prov sid debug start (WakeOutput ev # wakes) tr code w =
     completion_loop ops prov sid debug start wakes (transcript_append ev tr) code
       (if debug then snd (ro_append_stream_event ops \<lparr>sse_session_id = sid, sse_timestamp = se_timestamp ev,
          sse_kind = se_kind ev, sse_data = se_data ev\<rparr> w) else w)"
| "completion_loop ops prov sid debug start (WakeDone res # wakes) tr code w =
     (let c = (case res of None \<Rightarrow> 0 | Some r \<Rightarrow> ex_code r)
      in completion_loop ops prov sid debug start wakes (record_exit c tr) (Some c) w)"
| "completion_loop ops prov sid debug start (WakeTick now1 now2 # wakes) tr code w =
     (case ad_observe prov (tick_context start now1 now2 tr code) of
        None \<Rightarrow> completion_loop ops prov sid debug start wakes tr code w
      | Some ob \<Rightarrow>
         if ob_terminal ob
         then Some (\<lparr>cr_observation = ob, cr_transcript = tr, cr_exit_code = code\<rparr>, w)
         else completion_loop ops prov sid debug start wakes tr code
           (if ob_status ob = RunPermissionPrompt then snd (ro_write ops [cr] w) else w))"

definition wait_for_completion_loop ::
    "'w run_ops \<Rightarrow> adapter \<Rightarrow> string \<Rightarrow> bool \<Rightarrow> loop_wake list \<Rightarrow> 'w \<Rightarrow> (completion_result \<times> 'w) option" where
  "wait_for_completion_loop ops prov sid debug wakes w =
     (let (start, w1) = ro_now ops w
      in completion_loop ops prov sid debug start wakes (new_transcript (64 * 1024)) None w1)"

section \<open>Run\<close>

text \<open>An error of \<open>Run\<close>: a \<open>RunError\<close>, or a plain error.\<close>

datatype run_failure = RunErr run_error | PlainErr go_error

definition fail :: "error_code \<Rightarrow> string \<Rightarrow> run_failure" where
  "fail code msg = RunErr \<lparr>re_code = code, re_message = msg\<rparr>"

definition default_int :: "int \<Rightarrow> int \<Rightarrow> int" where
  "default_int d n = (if n \<le> 0 then d else n)"

definition normalize_request :: "run_request \<Rightarrow> run_request" where
  "normalize_request r =
     r\<lparr>rq_provider := (if rq_provider r = [] then ''claude-code'' else rq_provider r),
       rq_timeout_sec := default_int 600 (rq_timeout_sec r),
       rq_peek_last := default_int 10 (rq_peek_last r),
       rq_terminal_cols := default_int 80 (rq_terminal_cols r),
       rq_terminal_rows := default_int 24 (rq_terminal_rows r)\<rparr>"

definition resolve_prompt :: "(string \<Rightarrow> string result) \<Rightarrow> run_request \<Rightarrow> run_failure + string" where
  "resolve_prompt read r =
     (if rq_prompt r \<noteq> [] \<and> rq_prompt_file r \<noteq> []
      then Inl (fail ErrorConfig ''exactly one of --prompt or --prompt-file must be set'')
      else if rq_prompt r \<noteq> [] then Inr (rq_prompt r)
      else if rq_prompt_file r \<noteq> [] then
        (if str_contains (path_clean (rq_prompt_file r)) ''..''
         then Inl (PlainErr (ErrMsg (''prompt-file path must not contain '' @ [CHR 0x27] @ ''..'' @ [CHR 0x27]
           @ '': '' @ rq_prompt_file r)))
         else case read (rq_prompt_file r) of
             Inl e \<Rightarrow> Inl (fail ErrorInput (''read prompt file: '' @ err_text e))
           | Inr text \<Rightarrow> Inr text)
      else Inl (fail ErrorConfig ''missing prompt input''))"

definition run_env :: "run_request \<Rightarrow> str_map \<Rightarrow> str_map" where
  "run_env r env0 =
     (let env1 = (if rq_model r \<noteq> [] then map_put ''VITIS_MODEL'' (rq_model r) env0 else env0)
      in if rq_reasoning_effort r \<noteq> [] then map_put ''VITIS_REASONING_EFFORT'' (rq_reasoning_effort r) env1
         else env1)"

definition run_home_dir :: "string result \<Rightarrow> run_request \<Rightarrow> string" where
  "run_home_dir home r =
     (if rq_home_dir r \<noteq> [] then rq_home_dir r else case home of Inl e \<Rightarrow> [] | Inr h \<Rightarrow> h)"

definition build_session ::
    "'w run_ops \<Rightarrow> adapter \<Rightarrow> run_request \<Rightarrow> str_map \<Rightarrow> string \<Rightarrow> string \<Rightarrow> 'w
      \<Rightarrow> (session \<times> spawn_spec) result \<times> 'w" where
  "build_session ops prov r env home prompt w =
     (let (random, w1) = ro_random ops w in
      case new_session_id random of
        Inl e \<Rightarrow> (Inl e, w1)
      | Inr sid \<Rightarrow>
         (let (now, w2) = ro_now ops w1
          in (Inr (\<lparr>ses_id = sid, ses_provider = rq_provider r, ses_status = RunRunning, ses_started_at = now,
                 ses_ended_at = None, ses_duration_ms = None, ses_exit_code = None,
                 ses_parser_confidence = None, ses_observation_confidence = None, ses_auth_mode = ''unknown'',
                 ses_blocked_reason = None, ses_bytes_captured = None, ses_warnings = [],
                 ses_terminal_cols = Some (rq_terminal_cols r), ses_terminal_rows = Some (rq_terminal_rows r)\<rparr>,
               ad_build_spawn_spec prov (rq_cwd r) env home (rq_terminal_cols r) (rq_terminal_rows r) prompt),
              w2)))"

definition empty_patch :: session_patch where
  "empty_patch = \<lparr>sp_status = None, sp_ended_at = None, sp_duration_ms = None, sp_exit_code = None,
     sp_parser_confidence = None, sp_observation_confidence = None, sp_auth_mode = None,
     sp_blocked_reason = None, sp_bytes_captured = None, sp_warnings = None, sp_terminal_cols = None,
     sp_terminal_rows = None\<rparr>"

definition blocked_status :: "run_status \<Rightarrow> bool" where
  "blocked_status s \<longleftrightarrow>
     s \<in> {RunBlockedOnInput, RunPermissionPrompt, RunAuthRequired, RunRateLimited}"

text \<open>The copy of the notes is a nil slice when there are none, which leaves the stored warnings alone.\<close>

definition assemble_result ::
    "go_time \<Rightarrow> session \<Rightarrow> transcript_observation \<Rightarrow> extraction_result \<Rightarrow> transcript \<Rightarrow> int option
      \<Rightarrow> run_result \<times> session_patch" where
  "assemble_result ended ses ob ex tr code =
     (let dur = to_millis (time_sub ended (ses_started_at ses));
          blocked = (if blocked_status (ob_status ob) then Some (ob_reason ob) else None)
      in (\<lparr>rr_session_id = ses_id ses, rr_provider = ses_provider ses, rr_status = ob_status ob,
           rr_response = er_response ex, rr_peek = [],
           rr_meta = \<lparr>rm_duration_ms = dur, rm_exit_code = code, rm_parser_confidence = er_parser_confidence ex,
             rm_observation_confidence = ob_confidence ob, rm_bytes_captured = tr_bytes_seen tr,
             rm_blocked_reason = blocked, rm_warnings = ob_evidence ob @ er_notes ex\<rparr>,
           rr_error = None\<rparr>,
          empty_patch\<lparr>sp_status := Some (ob_status ob), sp_ended_at := Some ended, sp_duration_ms := Some dur,
            sp_exit_code := code, sp_parser_confidence := Some (er_parser_confidence ex),
            sp_observation_confidence := Some (ob_confidence ob), sp_blocked_reason := blocked,
            sp_bytes_captured := Some (tr_bytes_seen tr),
            sp_warnings := (if er_notes ex = [] then None else Some (er_notes ex))\<rparr>))"

definition result_with_error ::
    "'w run_ops \<Rightarrow> string \<Rightarrow> string \<Rightarrow> run_status \<Rightarrow> int \<Rightarrow> run_error \<Rightarrow> 'w \<Rightarrow> run_failure + run_result" where
  "result_with_error ops sid provider status peek_last err w =
     (case ro_peek_turns ops sid peek_last w of
        Inl e \<Rightarrow> Inl (PlainErr e)
      | Inr peek \<Rightarrow> Inr \<lparr>rr_session_id = sid, rr_provider = provider, rr_status = status, rr_response = [],
          rr_peek = peek, rr_meta = \<lparr>rm_duration_ms = 0, rm_exit_code = None, rm_parser_confidence = 0,
            rm_observation_confidence = 0, rm_bytes_captured = 0, rm_blocked_reason = None, rm_warnings = []\<rparr>,
          rr_error = Some err\<rparr>)"

text \<open>The part of \<open>Run\<close> behind the completion loop.\<close>

definition finish_run ::
    "'w run_ops \<Rightarrow> adapter \<Rightarrow> run_request \<Rightarrow> session \<Rightarrow> completion_result \<Rightarrow> 'w
      \<Rightarrow> (run_failure + run_result) \<times> 'w" where
  "finish_run ops prov r ses lr w =
     (let tr = cr_transcript lr;
          ex = ad_extract_response prov (tr_full_raw tr) (transcript_normalized tr);
          (append_err, w2) =
            (if er_response ex \<noteq> []
             then let (now, w1) = ro_now ops w
                  in ro_append_turn ops \<lparr>tn_session_id = ses_id ses, tn_index = 1, tn_role = ''assistant'',
                       tn_content = er_response ex, tn_created_at = now\<rparr> w1
             else (None, w))
      in case append_err of
           Some e \<Rightarrow> (Inl (fail ErrorStore (err_text e)), w2)
         | None \<Rightarrow>
            (let (ended, w3) = ro_now ops w2;
                 (result, patch) = assemble_result ended ses (cr_observation lr) ex tr (cr_exit_code lr)
             in case ro_update_session ops (ses_id ses) patch w3 of
                  (Some e, w4) \<Rightarrow> (Inl (fail ErrorStore (err_text e)), w4)
                | (None, w4) \<Rightarrow>
                   (case ro_peek_turns ops (ses_id ses) (rq_peek_last r) w4 of
                      Inl e \<Rightarrow> (Inl (fail ErrorStore (err_text e)), w4)
                    | Inr peek \<Rightarrow> (Inr (result\<lparr>rr_peek := peek\<rparr>), w4))))"

text \<open>From the created session to the completion loop.\<close>

definition drive_session ::
    "'w run_ops \<Rightarrow> adapter \<Rightarrow> run_request \<Rightarrow> string \<Rightarrow> session \<Rightarrow> spawn_spec \<Rightarrow> loop_wake list \<Rightarrow> 'w
      \<Rightarrow> ((run_failure + run_result) \<times> 'w) option" where
  "drive_session ops prov r prompt ses spec wakes w =
     (let (now, w1) = ro_now ops w in
      case ro_append_turn ops \<lparr>tn_session_id = ses_id ses, tn_index = 0, tn_role = ''user'',
          tn_content = prompt, tn_created_at = now\<rparr> w1 of
        (Some e, w2) \<Rightarrow> Some (Inl (fail ErrorStore (err_text e)), w2)
      | (None, w2) \<Rightarrow>
         (case (if ss_prompt_in_args spec then (None, w2) else ro_write ops (ad_format_prompt prov prompt) w2) of
            (Some e, w3) \<Rightarrow>
              (let (ended, w4) = ro_now ops w3;
                   (ignored, w5) = ro_update_session ops (ses_id ses)
                     (empty_patch\<lparr>sp_status := Some RunFailed, sp_ended_at := Some ended,
                        sp_duration_ms := Some (to_millis (time_sub ended (ses_started_at ses)))\<rparr>) w4
               in Some (result_with_error ops (ses_id ses) (rq_provider r) RunFailed (rq_peek_last r)
                    \<lparr>re_code = ErrorPromptIO, re_message = err_text e\<rparr> w5, w5))
          | (None, w3) \<Rightarrow>
              map_option (\<lambda>(lr, w4). finish_run ops prov r ses lr w4)
                (wait_for_completion_loop ops prov (ses_id ses) (rq_debug_raw r) wakes w3)))"

definition orchestrator_run ::
    "'w run_ops \<Rightarrow> registry \<Rightarrow> run_request \<Rightarrow> loop_wake list \<Rightarrow> 'w
      \<Rightarrow> ((run_failure + run_result) \<times> 'w) option" where
  "orchestrator_run ops reg request wakes w =
     (let r = normalize_request request in
      case resolve_prompt (ro_read_file ops w) r of
        Inl e \<Rightarrow> Some (Inl e, w)
      | Inr prompt \<Rightarrow>
         (case registry_get (rq_provider r) reg of
            Inl e \<Rightarrow> Some (Inl (fail ErrorProvider (err_text e)), w)
          | Inr prov \<Rightarrow>
             (case load_env_file (ro_read_file ops w) (rq_env_file r) of
                Inl e \<Rightarrow> Some (Inl (fail ErrorConfig (err_text e)), w)
              | Inr env0 \<Rightarrow>
                 (case build_session ops prov r (run_env r env0) (run_home_dir (ro_home_dir ops w) r) prompt w of
                    (Inl e, w1) \<Rightarrow> Some (Inl (fail ErrorInternal (err_text e)), w1)
                  | (Inr (ses, spec), w1) \<Rightarrow>
                     (case ro_spawn ops spec w1 of
                        (Some e, w2) \<Rightarrow> Some (Inl (fail ErrorSpawn (err_text e)), w2)
                      | (None, w2) \<Rightarrow>
                         (case ro_create_session ops ses w2 of
                            (Some e, w3) \<Rightarrow>
                              Some (Inl (fail ErrorStore (''create session: '' @ err_text e)), ro_terminate ops 500 w3)
                          | (None, w3) \<Rightarrow> drive_session ops prov r prompt ses spec wakes w3))))))"

section \<open>The loop ends, and with what\<close>

definition wake_data :: "loop_wake \<Rightarrow> string" where
  "wake_data k = (case k of WakeOutput ev \<Rightarrow> se_data ev | _ \<Rightarrow> [])"

lemma transcript_append_raw: "tr_full_raw (transcript_append ev tr) = tr_full_raw tr @ se_data ev"
  by (simp add: transcript_append_def)

lemma record_exit_raw [simp]: "tr_full_raw (record_exit c tr) = tr_full_raw tr"
  by (simp add: record_exit_def)

text \<open>
  How a loop over the wake-ups ended: the transcript holds all output delivered before the last
  iteration, which was the end of the context or a tick with a terminal observation.
\<close>

definition loop_outcome ::
    "adapter \<Rightarrow> go_time \<Rightarrow> string \<Rightarrow> loop_wake list \<Rightarrow> completion_result \<Rightarrow> bool" where
  "loop_outcome prov start raw wakes res \<longleftrightarrow> ob_terminal (cr_observation res) \<and>
     (\<exists>k. k < length wakes \<and> tr_full_raw (cr_transcript res) = raw @ concat (map wake_data (take k wakes)) \<and>
        (wakes ! k = WakeCtxDone \<and> cr_observation res = timeout_observation \<or>
          (\<exists>now1 now2. wakes ! k = WakeTick now1 now2 \<and>
             ad_observe prov (tick_context start now1 now2 (cr_transcript res) (cr_exit_code res)) =
               Some (cr_observation res))))"

lemma loop_outcome_Cons:
  assumes "loop_outcome prov start (raw @ wake_data e) wakes res"
  shows "loop_outcome prov start raw (e # wakes) res"
proof -
  from assms obtain k where k: "k < length wakes"
    "tr_full_raw (cr_transcript res) = raw @ wake_data e @ concat (map wake_data (take k wakes))"
    "wakes ! k = WakeCtxDone \<and> cr_observation res = timeout_observation \<or>
          (\<exists>now1 now2. wakes ! k = WakeTick now1 now2 \<and>
             ad_observe prov (tick_context start now1 now2 (cr_transcript res) (cr_exit_code res)) =
               Some (cr_observation res))"
    by (auto simp: loop_outcome_def)
  with assms show ?thesis
    unfolding loop_outcome_def by (intro conjI exI [of _ "Suc k"]) simp_all
qed

lemma completion_loop_outcome:
  "completion_loop ops prov sid debug start wakes tr code w = Some (res, w') \<Longrightarrow>
     loop_outcome prov start (tr_full_raw tr) wakes res"
proof (induction ops prov sid debug start wakes tr code w rule: completion_loop.induct)
  case (2 ops prov sid debug start wakes tr code w)
  then show ?case
    by (auto simp: loop_outcome_def timeout_observation_def observation_def intro!: exI [of _ "0::nat"])
next
  case (6 ops prov sid debug start now1 now2 wakes tr code w)
  show ?case
  proof (cases "ad_observe prov (tick_context start now1 now2 tr code)")
    case None
    with 6 show ?thesis by (intro loop_outcome_Cons) (auto simp: wake_data_def)
  next
    case (Some ob)
    show ?thesis
    proof (cases "ob_terminal ob")
      case True
      with Some "6.prems" show ?thesis
        unfolding loop_outcome_def by (intro conjI exI [of _ 0]) auto
    next
      case False
      with Some 6 show ?thesis by (intro loop_outcome_Cons) (auto simp: wake_data_def)
    qed
  qed
qed (auto intro!: loop_outcome_Cons simp: wake_data_def transcript_append_raw Let_def)

lemma completion_loop_returns:
  "WakeCtxDone \<in> set wakes \<Longrightarrow> completion_loop ops prov sid debug start wakes tr code w \<noteq> None"
  by (induction ops prov sid debug start wakes tr code w rule: completion_loop.induct)
     (auto simp: Let_def split: option.splits)

text \<open>
  The completion loop ends at the latest when the context does, whatever output, exits and
  ticks come before; it then returns a terminal observation, the timeout or what the adapter
  reported at a tick for the returned transcript and exit code, and the transcript holds exactly
  the output delivered up to that moment.
\<close>

theorem completion_loop_ends:
  assumes "WakeCtxDone \<in> set wakes"
  shows "\<exists>res w' start. wait_for_completion_loop ops prov sid debug wakes w = Some (res, w') \<and>
    ob_terminal (cr_observation res) \<and>
    (\<exists>k < length wakes. tr_full_raw (cr_transcript res) = concat (map wake_data (take k wakes)) \<and>
       (wakes ! k = WakeCtxDone \<and> cr_observation res = timeout_observation \<or>
        (\<exists>now1 now2. wakes ! k = WakeTick now1 now2 \<and>
           ad_observe prov (tick_context start now1 now2 (cr_transcript res) (cr_exit_code res)) =
             Some (cr_observation res))))"
proof -
  obtain start w1 where now: "ro_now ops w = (start, w1)" by (cases "ro_now ops w")
  obtain res w' where r: "completion_loop ops prov sid debug start wakes (new_transcript (64 * 1024)) None w1 = Some (res, w')"
    using completion_loop_returns [OF assms] by (metis not_None_eq surj_pair)
  have "tr_full_raw (new_transcript (64 * 1024)) = []" by (simp add: new_transcript_def)
  with completion_loop_outcome [OF r] r now show ?thesis
    by (intro exI [of _ res] exI [of _ w'] exI [of _ start])
       (auto simp: wait_for_completion_loop_def loop_outcome_def)
qed

theorem completion_loop_ends_witness:
  "\<exists>res w'. wait_for_completion_loop
      \<lparr>ro_now = (\<lambda>w. (0, w)), ro_random = (\<lambda>w. (Inr [], w)), ro_read_file = (\<lambda>w p. Inr []),
       ro_home_dir = (\<lambda>w. Inr []), ro_spawn = (\<lambda>s w. (None, w)), ro_write = (\<lambda>s w. (None, w)),
       ro_terminate = (\<lambda>g w. Suc w), ro_create_session = (\<lambda>s w. (None, w)),
       ro_update_session = (\<lambda>s p w. (None, w)), ro_append_turn = (\<lambda>t w. (None, w)),
       ro_peek_turns = (\<lambda>s n w. Inr []), ro_append_stream_event = (\<lambda>e w. (None, w))\<rparr>
      (codex_adapter (\<lambda>_. [])) ''s'' False [WakeOutputClosed, WakeCtxDone] (0 :: nat) = Some (res, w') \<and>
     ob_terminal (cr_observation res)"
  using completion_loop_ends [of "[WakeOutputClosed, WakeCtxDone]"] by fastforce

section \<open>The exit code\<close>

text \<open>
  C36. An exit code does not survive the closed channel: when the loop receives from the done
  channel again before the next tick, which it does because a closed channel is always ready,
  the recorded code is zero whatever the process exited with, and a crashed Codex process is
  reported as completed.  Only if the tick comes first is it reported as crashed.
\<close>

theorem exit_code_lost:
  "completion_loop ops prov sid debug start (WakeDone (Some r) # WakeDone None # wakes) tr code w =
     completion_loop ops prov sid debug start (WakeDone (Some (r\<lparr>ex_code := 0\<rparr>)) # WakeDone None # wakes) tr code w \<and>
   (\<exists>res. completion_loop ops (codex_adapter getenv) sid debug start
       (WakeDone (Some r) # WakeDone None # WakeTick now1 now2 # wakes) tr code w = Some (res, w) \<and>
     ob_status (cr_observation res) = RunCompleted \<and> cr_exit_code res = Some 0) \<and>
   (ex_code r = 0 \<or> (\<exists>res. completion_loop ops (codex_adapter getenv) sid debug start
       (WakeDone (Some r) # WakeTick now1 now2 # wakes) tr code w = Some (res, w) \<and>
     ob_status (cr_observation res) = RunCrashed \<and> cr_exit_code res = Some (ex_code r)))"
proof -
  have twice: "record_exit a (record_exit b tr) = record_exit a tr" for a b
    by (simp add: record_exit_def)
  have obs: "cc_exit_code (tick_context start now1 now2 t c) = c" for t c
    by (simp add: tick_context_def)
  show ?thesis
    by (simp add: twice codex_adapter_def codex_observe_def obs observation_def Let_def)
qed

section \<open>Results\<close>

lemma adapters_status:
  "claude_observe ctx = Some ob \<Longrightarrow> ob_terminal ob \<Longrightarrow> run_status_is_terminal (ob_status ob)"
  "codex_observe ctx = Some ob \<Longrightarrow> ob_terminal ob \<Longrightarrow> run_status_is_terminal (ob_status ob)"
  by (auto simp: claude_observe_def codex_observe_def observation_def run_status_is_terminal_def Let_def
      split: if_splits option.splits)

lemma loop_status:
  assumes "completion_loop ops prov sid debug start wakes tr code w = Some (res, w')"
    and "prov = claude_adapter getenv \<or> prov = codex_adapter getenv"
  shows "run_status_is_terminal (ob_status (cr_observation res))"
proof -
  from completion_loop_outcome [OF assms(1)] have t: "ob_terminal (cr_observation res)"
    and "cr_observation res = timeout_observation \<or> (\<exists>ctx. ad_observe prov ctx = Some (cr_observation res))"
    by (auto simp: loop_outcome_def)
  moreover have "run_status_is_terminal (ob_status timeout_observation)"
    by (simp add: timeout_observation_def observation_def run_status_is_terminal_def)
  moreover have "ad_observe prov = claude_observe \<or> ad_observe prov = codex_observe"
    using assms(2) by (auto simp: claude_adapter_def codex_adapter_def)
  ultimately show ?thesis using adapters_status by metis
qed

lemma registry_two:
  "registry_get pid (new_registry [claude_adapter getenv, codex_adapter getenv]) = Inr prov \<Longrightarrow>
     prov = claude_adapter getenv \<or> prov = codex_adapter getenv"
  by (auto simp: registry_get_def new_registry_def registry_register_def claude_adapter_def codex_adapter_def
      split: option.splits if_splits)

definition result_ok :: "run_result \<Rightarrow> bool" where
  "result_ok res \<longleftrightarrow> run_status_is_terminal (rr_status res) \<and>
     (case rr_error res of
        None \<Rightarrow> (rm_blocked_reason (rr_meta res) \<noteq> None \<longleftrightarrow> blocked_status (rr_status res))
      | Some e \<Rightarrow> rr_status res = RunFailed \<and> re_code e = ErrorPromptIO \<and> rr_response res = [])"

lemma assemble_result_ok:
  "run_status_is_terminal (ob_status ob) \<Longrightarrow> result_ok ((fst (assemble_result ended ses ob ex tr code))\<lparr>rr_peek := p\<rparr>)"
  by (simp add: assemble_result_def Let_def result_ok_def)

lemma finish_run_ok:
  assumes "finish_run ops prov r ses lr w = (Inr res, w')"
    and "run_status_is_terminal (ob_status (cr_observation lr))"
  shows "result_ok res"
proof -
  from assms(1) obtain ended ex tr p where
    "res = (fst (assemble_result ended ses (cr_observation lr) ex tr (cr_exit_code lr)))\<lparr>rr_peek := p\<rparr>"
    by (auto simp: finish_run_def Let_def split_beta split: prod.splits option.splits sum.splits)
  with assemble_result_ok [OF assms(2)] show ?thesis by simp
qed

lemma result_with_error_ok:
  "result_with_error ops sid provider RunFailed n \<lparr>re_code = ErrorPromptIO, re_message = m\<rparr> w = Inr res \<Longrightarrow> result_ok res"
  by (auto simp: result_with_error_def result_ok_def run_status_is_terminal_def split: sum.splits)

lemma drive_session_ok:
  assumes "drive_session ops prov r prompt ses spec wakes w = Some (Inr res, w')"
    and "prov = claude_adapter getenv \<or> prov = codex_adapter getenv"
  shows "result_ok res"
proof -
  have fin: "result_ok res" if "wait_for_completion_loop ops prov (ses_id ses) dbg wakes w3 = Some (lr, w4)"
    "finish_run ops prov r ses lr w4 = (Inr res, w')" for dbg w3 lr w4
  proof (rule finish_run_ok [OF that(2)])
    show "run_status_is_terminal (ob_status (cr_observation lr))"
      using that(1) loop_status [OF _ assms(2)]
      by (auto simp: wait_for_completion_loop_def Let_def split: prod.splits)
  qed
  from assms(1) show ?thesis
    by (auto simp: drive_session_def Let_def dest: fin result_with_error_ok
        split: prod.splits option.splits if_splits)
qed


text \<open>A run whose prompt cannot be written: a process that has gone away at once.\<close>

definition broken_ops :: "unit run_ops" where
  "broken_ops =
     \<lparr>ro_now = (\<lambda>w. (5, w)), ro_random = (\<lambda>w. (Inr ''abcdefgh'', w)), ro_read_file = (\<lambda>w p. Inl (ErrMsg ''none'')),
      ro_home_dir = (\<lambda>w. Inr ''/root''), ro_spawn = (\<lambda>s w. (None, w)), ro_write = (\<lambda>s w. (Some (ErrMsg ''EIO''), w)),
      ro_terminate = (\<lambda>g w. w), ro_create_session = (\<lambda>s w. (None, w)),
      ro_update_session = (\<lambda>s p w. (None, w)), ro_append_turn = (\<lambda>t w. (None, w)),
      ro_peek_turns = (\<lambda>s n w. Inr []), ro_append_stream_event = (\<lambda>e w. (None, w))\<rparr>"

definition demo_request :: run_request where
  "demo_request = \<lparr>rq_provider = [], rq_prompt = ''hi'', rq_prompt_file = [], rq_timeout_sec = 0,
     rq_cwd = [], rq_env_file = [], rq_log_backend = ''file'', rq_log_path = [], rq_database_url = [],
     rq_peek_last = 0, rq_debug_raw = False, rq_terminal_cols = 0, rq_terminal_rows = 0, rq_home_dir = [],
     rq_model = [], rq_reasoning_effort = []\<rparr>"

lemma demo_run:
  "\<exists>res. orchestrator_run broken_ops (new_registry [claude_adapter getenv, codex_adapter getenv]) demo_request [] () =
     Some (Inr res, ())"
proof -
  let ?r = "normalize_request demo_request"
  have r: "rq_prompt ?r = ''hi''" "rq_prompt_file ?r = []" "rq_provider ?r = ''claude-code''" "rq_env_file ?r = []"
    by (simp_all add: normalize_request_def demo_request_def)
  have reg: "registry_get ''claude-code'' (new_registry [claude_adapter getenv, codex_adapter getenv]) =
      Inr (claude_adapter getenv)"
    by (simp add: registry_get_def new_registry_def registry_register_def claude_adapter_def codex_adapter_def)
  have spec: "ss_prompt_in_args (ad_build_spawn_spec (claude_adapter getenv) cwd env home cols rows prompt) = False"
    for cwd env home cols rows prompt
    by (simp add: claude_adapter_def claude_build_spawn_spec_def split_beta Let_def)
  have prompt: "resolve_prompt f ?r = Inr ''hi''" for f by (simp add: resolve_prompt_def r)
  have env: "load_env_file f [] = Inr []" for f by (simp add: load_env_file_def)
  show ?thesis
    by (simp add: orchestrator_run_def Let_def prompt r(3,4) reg env build_session_def broken_ops_def
        new_session_id_def drive_session_def spec result_with_error_def)
qed


end
