(* ===== verification/SingleRun.thy ===== *)
theory SingleRun
  imports Orchestrator FileStore
begin

text \<open>
  A single-shot run over a session store: what \<open>src/internal/orchestrator/orchestrator.go\<close> leaves
  behind in the store it is given.  The interface of the store is a locale; the file store
  interprets it, and terminal, clock and adapter stay arbitrary.
\<close>

section \<open>A run wired to a store\<close>

text \<open>The operations of a run, with the store's on the first component of the world.\<close>

definition store_ops ::
    "(session \<Rightarrow> 's \<Rightarrow> go_error option \<times> 's) \<Rightarrow> (string \<Rightarrow> session_patch \<Rightarrow> 's \<Rightarrow> go_error option \<times> 's)
      \<Rightarrow> (turn \<Rightarrow> 's \<Rightarrow> go_error option \<times> 's) \<Rightarrow> (string \<Rightarrow> int \<Rightarrow> 's \<Rightarrow> turn list result)
      \<Rightarrow> (stored_stream_event \<Rightarrow> 's \<Rightarrow> go_error option \<times> 's) \<Rightarrow> 'v run_ops \<Rightarrow> ('s \<times> 'v) run_ops" where
  "store_ops create update append_one peek event base =
     \<lparr>ro_now = (\<lambda>(s, v). let (t, v') = ro_now base v in (t, (s, v'))),
      ro_random = (\<lambda>(s, v). let (x, v') = ro_random base v in (x, (s, v'))),
      ro_read_file = (\<lambda>(s, v). ro_read_file base v),
      ro_home_dir = (\<lambda>(s, v). ro_home_dir base v),
      ro_spawn = (\<lambda>spec (s, v). let (e, v') = ro_spawn base spec v in (e, (s, v'))),
      ro_write = (\<lambda>bs (s, v). let (e, v') = ro_write base bs v in (e, (s, v'))),
      ro_terminate = (\<lambda>ms (s, v). (s, ro_terminate base ms v)),
      ro_create_session = (\<lambda>ses (s, v). let (e, s') = create ses s in (e, (s', v))),
      ro_update_session = (\<lambda>sid p (s, v). let (e, s') = update sid p s in (e, (s', v))),
      ro_append_turn = (\<lambda>t (s, v). let (e, s') = append_one t s in (e, (s', v))),
      ro_peek_turns = (\<lambda>sid n (s, v). peek sid n s),
      ro_append_stream_event = (\<lambda>ev (s, v). let (e, s') = event ev s in (e, (s', v)))\<rparr>"

text \<open>The turns a run records: the prompt, and the response if there is one.\<close>

definition run_turns :: "string \<Rightarrow> string \<Rightarrow> run_result \<Rightarrow> turn list \<Rightarrow> bool" where
  "run_turns sid prompt res ts \<longleftrightarrow>
     map (\<lambda>t. (tn_session_id t, tn_index t, tn_role t, tn_content t)) ts =
       (sid, 0, ''user'', prompt)
       # (if rr_response res = [] then [] else [(sid, 1, ''assistant'', rr_response res)])"

definition matches_result :: "run_result \<Rightarrow> session \<Rightarrow> bool" where
  "matches_result res ses \<longleftrightarrow>
     ses_status ses = to_valid_utf8 (rr_status res) \<and>
     ses_duration_ms ses = Some (rm_duration_ms (rr_meta res)) \<and>
     (rm_exit_code (rr_meta res) = None \<or> ses_exit_code ses = rm_exit_code (rr_meta res)) \<and>
     ses_parser_confidence ses = Some (rm_parser_confidence (rr_meta res)) \<and>
     ses_observation_confidence ses = Some (rm_observation_confidence (rr_meta res)) \<and>
     ses_bytes_captured ses = Some (rm_bytes_captured (rr_meta res))"

lemma patched_session:
  "ses_status (valid_session (apply_session_patch p x)) = to_valid_utf8 (patch_val (sp_status p) (ses_status x))"
  "ses_duration_ms (valid_session (apply_session_patch p x)) = patch_opt (sp_duration_ms p) (ses_duration_ms x)"
  "ses_exit_code (valid_session (apply_session_patch p x)) = patch_opt (sp_exit_code p) (ses_exit_code x)"
  "ses_parser_confidence (valid_session (apply_session_patch p x)) = patch_opt (sp_parser_confidence p) (ses_parser_confidence x)"
  "ses_observation_confidence (valid_session (apply_session_patch p x)) =
     patch_opt (sp_observation_confidence p) (ses_observation_confidence x)"
  "ses_bytes_captured (valid_session (apply_session_patch p x)) = patch_opt (sp_bytes_captured p) (ses_bytes_captured x)"
  unfolding valid_session_def apply_session_patch_def by simp_all

lemma assemble_fields:
  assumes "assemble_result ended ses ob ex tr code = (res, patch)"
  shows "rr_response res = er_response ex" "rr_session_id res = ses_id ses" "rr_error res = None"
    "sp_status patch = Some (rr_status res)" "sp_duration_ms patch = Some (rm_duration_ms (rr_meta res))"
    "sp_exit_code patch = rm_exit_code (rr_meta res)"
    "sp_parser_confidence patch = Some (rm_parser_confidence (rr_meta res))"
    "sp_observation_confidence patch = Some (rm_observation_confidence (rr_meta res))"
    "sp_bytes_captured patch = Some (rm_bytes_captured (rr_meta res))" "sp_ended_at patch = Some ended"
proof -
  have "res = fst (assemble_result ended ses ob ex tr code)" "patch = snd (assemble_result ended ses ob ex tr code)"
    using assms by simp_all
  then show "rr_response res = er_response ex" "rr_session_id res = ses_id ses" "rr_error res = None"
    "sp_status patch = Some (rr_status res)" "sp_duration_ms patch = Some (rm_duration_ms (rr_meta res))"
    "sp_exit_code patch = rm_exit_code (rr_meta res)"
    "sp_parser_confidence patch = Some (rm_parser_confidence (rr_meta res))"
    "sp_observation_confidence patch = Some (rm_observation_confidence (rr_meta res))"
    "sp_bytes_captured patch = Some (rm_bytes_captured (rr_meta res))" "sp_ended_at patch = Some ended"
    unfolding assemble_result_def Let_def by simp_all
qed

lemma assemble_matches:
  assumes "assemble_result ended ses ob ex tr code = (res, patch)"
  shows "matches_result res (valid_session (apply_session_patch patch ses'))"
  unfolding matches_result_def patched_session assemble_fields(4-9) [OF assms] patch_val_def patch_opt_def
  by (cases "rm_exit_code (rr_meta res)") simp_all

section \<open>The interface of a session store\<close>

locale session_store =
  fixes create :: "session \<Rightarrow> 's \<Rightarrow> go_error option \<times> 's"
    and update :: "string \<Rightarrow> session_patch \<Rightarrow> 's \<Rightarrow> go_error option \<times> 's"
    and append_one :: "turn \<Rightarrow> 's \<Rightarrow> go_error option \<times> 's"
    and peek :: "string \<Rightarrow> int \<Rightarrow> 's \<Rightarrow> turn list result"
    and event :: "stored_stream_event \<Rightarrow> 's \<Rightarrow> go_error option \<times> 's"
    and ses_of :: "'s \<Rightarrow> string \<Rightarrow> session option"
    and log_of :: "'s \<Rightarrow> string \<Rightarrow> turn option list"
    and ok :: "string \<Rightarrow> bool"
  assumes create_ses: "create ses s = (None, s') \<Longrightarrow> ok (ses_id ses) \<Longrightarrow>
      ses_of s' (ses_id ses) = Some (valid_session ses) \<and> log_of s' (ses_id ses) = log_of s (ses_id ses)"
    and update_ses: "update i p s = (None, s') \<Longrightarrow> ok i \<Longrightarrow>
      ses_of s' i = map_option (\<lambda>x. valid_session (apply_session_patch p x)) (ses_of s i) \<and> log_of s' i = log_of s i"
    and append_ses: "append_one t s = (None, s') \<Longrightarrow> ok (tn_session_id t) \<Longrightarrow>
      log_of s' (tn_session_id t) = log_of s (tn_session_id t) @ [Some (valid_session_turn t)] \<and>
      ses_of s' (tn_session_id t) = ses_of s (tn_session_id t)"
    and event_ses: "event ev s = (e, s') \<Longrightarrow> ok i \<Longrightarrow> ok (sse_session_id ev) \<Longrightarrow>
      ses_of s' i = ses_of s i \<and> log_of s' i = log_of s i"
begin

lemma store_ops_sel:
  "ro_now (store_ops create update append_one peek event base) (s, v) = (let (t, v') = ro_now base v in (t, (s, v')))"
  "ro_write (store_ops create update append_one peek event base) bs (s, v) = (let (e, v') = ro_write base bs v in (e, (s, v')))"
  "ro_terminate (store_ops create update append_one peek event base) ms (s, v) = (s, ro_terminate base ms v)"
  "ro_create_session (store_ops create update append_one peek event base) ses (s, v) = (let (e, s') = create ses s in (e, (s', v)))"
  "ro_update_session (store_ops create update append_one peek event base) i p (s, v) = (let (e, s') = update i p s in (e, (s', v)))"
  "ro_append_turn (store_ops create update append_one peek event base) t (s, v) = (let (e, s') = append_one t s in (e, (s', v)))"
  "ro_peek_turns (store_ops create update append_one peek event base) i n (s, v) = peek i n s"
  "ro_append_stream_event (store_ops create update append_one peek event base) ev (s, v) = (let (e, s') = event ev s in (e, (s', v)))"
  "ro_spawn (store_ops create update append_one peek event base) spec (s, v) = (let (e, v') = ro_spawn base spec v in (e, (s, v')))"
  "ro_random (store_ops create update append_one peek event base) (s, v) = (let (x, v') = ro_random base v in (x, (s, v')))"
  by (simp_all add: store_ops_def)

definition same_session :: "string \<Rightarrow> 's \<times> 'v \<Rightarrow> 's \<times> 'v \<Rightarrow> bool" where
  "same_session i w w' \<longleftrightarrow> ses_of (fst w') i = ses_of (fst w) i \<and> log_of (fst w') i = log_of (fst w) i"

text \<open>While the completion loop runs, the store changes at most its raw events.\<close>

lemma completion_loop_same_session:
  assumes "ok sid"
  shows "completion_loop (store_ops create update append_one peek event base) prov sid debug start wakes tr code w
      = Some (res, w') \<Longrightarrow> same_session sid w w'"
proof (induction wakes arbitrary: tr code w)
  case (Cons e wakes)
  obtain s v where w: "w = (s, v)" by (cases w)
  have trans: "same_session sid w w1 \<Longrightarrow> same_session sid w1 w' \<Longrightarrow> same_session sid w w'" for w1
    by (simp add: same_session_def)
  show ?case
  proof (cases e)
    case WakeCtxDone
    with Cons.prems show ?thesis by (auto simp: w store_ops_sel same_session_def)
  next
    case (WakeOutput ev)
    let ?w1 = "if debug then snd (ro_append_stream_event (store_ops create update append_one peek event base)
      \<lparr>sse_session_id = sid, sse_timestamp = se_timestamp ev, sse_kind = se_kind ev, sse_data = se_data ev\<rparr> w) else w"
    have "same_session sid w ?w1"
      using event_ses [OF surjective_pairing assms, of "\<lparr>sse_session_id = sid, sse_timestamp = se_timestamp ev,
          sse_kind = se_kind ev, sse_data = se_data ev\<rparr>" s] assms
      by (auto simp: same_session_def w store_ops_sel Let_def case_prod_beta')
    moreover have "same_session sid ?w1 w'" using Cons.prems WakeOutput by (intro Cons.IH) simp
    ultimately show ?thesis by (rule trans)
  next
    case WakeOutputClosed
    with Cons show ?thesis by simp
  next
    case (WakeDone r)
    with Cons show ?thesis by (simp add: Let_def)
  next
    case (WakeTick now1 now2)
    show ?thesis
    proof (cases "ad_observe prov (tick_context start now1 now2 tr code)")
      case None
      with Cons WakeTick show ?thesis by simp
    next
      case (Some ob)
      let ?w1 = "if ob_status ob = RunPermissionPrompt
        then snd (ro_write (store_ops create update append_one peek event base) [cr] w) else w"
      have w1: "same_session sid w ?w1" by (simp add: same_session_def w store_ops_sel Let_def case_prod_beta')
      show ?thesis
      proof (cases "ob_terminal ob")
        case True
        with Cons.prems WakeTick Some show ?thesis by (simp add: same_session_def)
      next
        case False
        with Cons.prems WakeTick Some have "same_session sid ?w1 w'" by (intro Cons.IH) simp
        with w1 show ?thesis by (rule trans)
      qed
    qed
  qed
qed simp

lemma wait_same_session:
  assumes "ok sid"
    and "wait_for_completion_loop (store_ops create update append_one peek event base) prov sid debug wakes (s, v)
      = Some (res, (s', v'))"
  shows "ses_of s' sid = ses_of s sid" and "log_of s' sid = log_of s sid"
proof -
  obtain t v1 where t: "ro_now base v = (t, v1)" by (cases "ro_now base v")
  have "same_session sid (s, v1) (s', v')"
    by (rule completion_loop_same_session [OF assms(1)])
      (use assms(2) in \<open>simp add: wait_for_completion_loop_def store_ops_sel t Let_def\<close>)
  then show "ses_of s' sid = ses_of s sid" "log_of s' sid = log_of s sid" by (simp_all add: same_session_def)
qed

text \<open>Behind the loop: the response is appended, the session patched, the turns read back.\<close>

lemma finish_run_recorded:
  assumes "finish_run (store_ops create update append_one peek event base) prov r ses lr (s, v) = (Inr res, (s', v'))"
    and "ok (ses_id ses)" and "ses_of s (ses_id ses) = Some ses0"
  shows "\<exists>ts x. rr_session_id res = ses_id ses \<and>
    map (\<lambda>t. (tn_session_id t, tn_index t, tn_role t, tn_content t)) ts =
      (if rr_response res = [] then [] else [(ses_id ses, 1, ''assistant'', rr_response res)]) \<and>
    log_of s' (ses_id ses) = log_of s (ses_id ses) @ map (Some \<circ> valid_session_turn) ts \<and>
    ses_of s' (ses_id ses) = Some x \<and> matches_result res x \<and>
    peek (ses_id ses) (rq_peek_last r) s' = Inr (rr_peek res) \<and> rr_error res = None"
proof -
  define tr where "tr = cr_transcript lr"
  define ex where "ex = ad_extract_response prov (tr_full_raw tr) (transcript_normalized tr)"
  obtain now v1 where now: "ro_now base v = (now, v1)" by (cases "ro_now base v")
  define t where "t = \<lparr>tn_session_id = ses_id ses, tn_index = 1, tn_role = ''assistant'',
    tn_content = er_response ex, tn_created_at = now\<rparr>"
  define ts where "ts = (if er_response ex = [] then [] else [t])"
  obtain e1 s1 where a: "(if er_response ex = [] then (None, s) else append_one t s) = (e1, s1)" by fastforce
  define v2 where "v2 = (if er_response ex = [] then v else v1)"
  obtain ended v3 where ended: "ro_now base v2 = (ended, v3)" by (cases "ro_now base v2")
  obtain res0 patch where asm: "assemble_result ended ses (cr_observation lr) ex tr (cr_exit_code lr) = (res0, patch)"
    by (cases "assemble_result ended ses (cr_observation lr) ex tr (cr_exit_code lr)")
  obtain e2 s2 where u: "update (ses_id ses) patch s1 = (e2, s2)" by (cases "update (ses_id ses) patch s1")
  have step: "(let (append_err, w2) = (if er_response ex \<noteq> []
      then let (now, w1) = ro_now (store_ops create update append_one peek event base) (s, v)
           in ro_append_turn (store_ops create update append_one peek event base)
             \<lparr>tn_session_id = ses_id ses, tn_index = 1, tn_role = ''assistant'',
              tn_content = er_response ex, tn_created_at = now\<rparr> w1
      else (None, (s, v))) in F append_err w2) = F e1 (s1, v2)" for F :: "_ \<Rightarrow> _ \<Rightarrow> 'zz"
    using a by (cases "er_response ex = []") (auto simp: store_ops_sel now t_def v2_def)
  from assms(1) have "e1 = None" "e2 = None" and res: "\<exists>p. peek (ses_id ses) (rq_peek_last r) s2 = Inr p \<and> res = res0\<lparr>rr_peek := p\<rparr>"
    and s': "s' = s2"
    unfolding finish_run_def tr_def [symmetric] ex_def [symmetric] Let_def [of tr] Let_def [of ex] step
    by (auto simp: store_ops_sel ended asm u Let_def split: option.splits sum.splits)
  have log1: "log_of s1 (ses_id ses) = log_of s (ses_id ses) @ map (Some \<circ> valid_session_turn) ts \<and>
      ses_of s1 (ses_id ses) = ses_of s (ses_id ses)"
    using a \<open>e1 = None\<close> append_ses [of t s s1] assms(2)
    by (cases "er_response ex = []") (simp_all add: ts_def t_def)
  note m = assemble_matches [OF asm] assemble_fields(1,2) [OF asm]
  from update_ses [OF u [unfolded \<open>e2 = None\<close>] assms(2)] log1 assms(3)
  have "ses_of s2 (ses_id ses) = Some (valid_session (apply_session_patch patch ses0))"
    "log_of s2 (ses_id ses) = log_of s (ses_id ses) @ map (Some \<circ> valid_session_turn) ts" by simp_all
  moreover note assemble_fields(3) [OF asm]
  moreover obtain p where "peek (ses_id ses) (rq_peek_last r) s2 = Inr p" "res = res0\<lparr>rr_peek := p\<rparr>" using res by blast
  moreover have "matches_result (res0\<lparr>rr_peek := p\<rparr>) x = matches_result res0 x" for p x by (simp add: matches_result_def)
  ultimately show ?thesis using m s' by (auto simp: ts_def t_def intro!: exI [of _ ts])
qed

lemma result_with_error_error: "result_with_error ops i prov st n err w = Inr res \<Longrightarrow> rr_error res \<noteq> None"
  by (auto simp: result_with_error_def split: sum.splits)

lemma drive_session_recorded:
  assumes "drive_session (store_ops create update append_one peek event base) prov r prompt ses spec wakes (s, v)
      = Some (Inr res, (s', v'))" and "rr_error res = None"
    and "ok (ses_id ses)" and "ses_of s (ses_id ses) = Some ses0"
  shows "\<exists>ts x. rr_session_id res = ses_id ses \<and> run_turns (ses_id ses) prompt res ts \<and>
    log_of s' (ses_id ses) = log_of s (ses_id ses) @ map (Some \<circ> valid_session_turn) ts \<and>
    ses_of s' (ses_id ses) = Some x \<and> matches_result res x \<and>
    peek (ses_id ses) (rq_peek_last r) s' = Inr (rr_peek res)"
proof -
  let ?ops = "store_ops create update append_one peek event base"
  obtain now v1 where now: "ro_now base v = (now, v1)" by (cases "ro_now base v")
  define t where "t = \<lparr>tn_session_id = ses_id ses, tn_index = 0, tn_role = ''user'',
    tn_content = prompt, tn_created_at = now\<rparr>"
  obtain e1 s1 where a: "append_one t s = (e1, s1)" by (cases "append_one t s")
  obtain e2 w2 where w: "(if ss_prompt_in_args spec then (None, (s1, v1))
      else ro_write ?ops (ad_format_prompt prov prompt) (s1, v1)) = (e2, w2)"
    by (cases "if ss_prompt_in_args spec then (None, (s1, v1))
      else ro_write ?ops (ad_format_prompt prov prompt) (s1, v1)")
  have w2: "fst w2 = s1" using w by (auto simp: store_ops_sel Let_def split: if_splits prod.splits)
  have "e1 = None" using assms(1) a by (auto simp: drive_session_def store_ops_sel now t_def [symmetric] Let_def split: option.splits)
  have head: "drive_session ?ops prov r prompt ses spec wakes (s, v) =
    (case e2 of Some e \<Rightarrow>
        (let (ended, w4) = ro_now ?ops w2;
             (ignored, w5) = ro_update_session ?ops (ses_id ses)
               (empty_patch\<lparr>sp_status := Some RunFailed, sp_ended_at := Some ended,
                  sp_duration_ms := Some (to_millis (time_sub ended (ses_started_at ses)))\<rparr>) w4
         in Some (result_with_error ?ops (ses_id ses) (rq_provider r) RunFailed (rq_peek_last r)
              \<lparr>re_code = ErrorPromptIO, re_message = err_text e\<rparr> w5, w5))
     | None \<Rightarrow> map_option (\<lambda>(lr, w4). finish_run ?ops prov r ses lr w4)
         (wait_for_completion_loop ?ops prov (ses_id ses) (rq_debug_raw r) wakes w2))"
    unfolding drive_session_def
    by (simp add: store_ops_sel(1,6) now t_def [symmetric] a \<open>e1 = None\<close> Let_def w split: option.split)
  have "e2 = None"
  proof (rule ccontr)
    assume "e2 \<noteq> None"
    with assms(1,2) head show False
      by (auto simp: Let_def split: prod.splits dest!: result_with_error_error)
  qed
  with assms(1) head obtain lr s4 v4 where
    l: "wait_for_completion_loop ?ops prov (ses_id ses) (rq_debug_raw r) wakes (s1, snd w2) = Some (lr, (s4, v4))"
    and f: "finish_run ?ops prov r ses lr (s4, v4) = (Inr res, (s', v'))"
    using w2 by (cases w2) auto
  have s1: "log_of s1 (ses_id ses) = log_of s (ses_id ses) @ [Some (valid_session_turn t)]" "ses_of s1 (ses_id ses) = Some ses0"
    using append_ses [OF a [unfolded \<open>e1 = None\<close>]] assms(3,4) by (simp_all add: t_def)
  note loop = wait_same_session [OF assms(3) l]
  obtain ts x where ts: "rr_session_id res = ses_id ses"
      "map (\<lambda>t. (tn_session_id t, tn_index t, tn_role t, tn_content t)) ts =
        (if rr_response res = [] then [] else [(ses_id ses, 1, ''assistant'', rr_response res)])"
      "log_of s' (ses_id ses) = log_of s4 (ses_id ses) @ map (Some \<circ> valid_session_turn) ts"
      "ses_of s' (ses_id ses) = Some x" "matches_result res x" "peek (ses_id ses) (rq_peek_last r) s' = Inr (rr_peek res)"
    using finish_run_recorded [OF f assms(3)] loop(1) s1(2) by auto
  have "run_turns (ses_id ses) prompt res (t # ts)" using ts(2) by (simp add: run_turns_def t_def)
  with ts loop s1 show ?thesis by (intro exI [of _ "t # ts"] exI [of _ x]) simp
qed

lemma run_recorded:
  assumes "orchestrator_run (store_ops create update append_one peek event base) reg request wakes (s, v)
      = Some (Inr res, (s', v'))" and "rr_error res = None"
    and "\<forall>i raw. new_session_id raw = Inr i \<longrightarrow> ok i"
  shows "\<exists>prompt ts x. resolve_prompt (ro_read_file base v) (normalize_request request) = Inr prompt \<and>
    (\<exists>raw. new_session_id raw = Inr (rr_session_id res)) \<and> run_turns (rr_session_id res) prompt res ts \<and>
    log_of s' (rr_session_id res) = log_of s (rr_session_id res) @ map (Some \<circ> valid_session_turn) ts \<and>
    ses_of s' (rr_session_id res) = Some x \<and> matches_result res x \<and>
    peek (rr_session_id res) (rq_peek_last (normalize_request request)) s' = Inr (rr_peek res)"
proof -
  let ?ops = "store_ops create update append_one peek event base"
  let ?r = "normalize_request request"
  have rd: "ro_read_file ?ops (s, v) = ro_read_file base v" by (simp add: store_ops_def)
  from assms(1) obtain prompt prov env0 ses spec w1 w2 w3 where
    p: "resolve_prompt (ro_read_file base v) ?r = Inr prompt"
    and b: "build_session ?ops prov ?r env0 (run_home_dir (ro_home_dir ?ops (s, v)) ?r) prompt (s, v) = (Inr (ses, spec), w1)"
    and sp: "ro_spawn ?ops spec w1 = (None, w2)"
    and c: "ro_create_session ?ops ses w2 = (None, w3)"
    and d: "drive_session ?ops prov ?r prompt ses spec wakes w3 = Some (Inr res, (s', v'))"
    by (auto simp: orchestrator_run_def rd Let_def split: sum.splits prod.splits option.splits)
  have new: "\<exists>raw. new_session_id raw = Inr (ses_id ses)" and w1: "fst w1 = s"
    using b by (auto simp: build_session_def store_ops_sel Let_def split: prod.splits sum.splits)
  with assms(3) have ok: "ok (ses_id ses)" by blast
  have w2: "fst w2 = s" using sp w1 by (cases w1) (auto simp: store_ops_sel Let_def split: prod.splits)
  obtain s3 v3 where w3: "w3 = (s3, v3)" by (cases w3)
  have c3: "create ses s = (None, s3)" using c w2 w3 by (cases w2) (auto simp: store_ops_sel Let_def split: prod.splits)
  note created = create_ses [OF c3 ok]
  from drive_session_recorded [OF d [unfolded w3] assms(2) ok conjunct1 [OF created]] created new p show ?thesis by auto
qed

end

section \<open>The file store as a session store\<close>

definition ses_at :: "file_store \<Rightarrow> file_sys \<Rightarrow> string \<Rightarrow> session option" where
  "ses_at s fs i = (case fs_lookup fs (session_path s i) of
     None \<Rightarrow> None | Some c \<Rightarrow> Option.bind (as_doc c) unmarshal_session)"

definition session_log :: "file_store \<Rightarrow> file_sys \<Rightarrow> string \<Rightarrow> turn option list" where
  "session_log s fs i = (case fs_lookup fs (turn_path s i) of
     None \<Rightarrow> [] | Some c \<Rightarrow> map (\<lambda>(j, n). Option.bind j unmarshal_session_turn) (as_lines c))"

lemma append_jsonl_other:
  "append_jsonl faults len path v fs = (e, fs') \<Longrightarrow> q \<noteq> path \<Longrightarrow> fs_lookup fs' q = fs_lookup fs q"
  by (auto simp: append_jsonl_def Let_def split: sum.splits option.splits if_splits)

lemma update_session_lookup:
  assumes "update_session faults s i p fs = (None, fs')" and "q \<noteq> session_path s i @ ''.tmp''"
  shows "\<exists>x j. ses_at s fs i = Some x \<and> marshal_session (apply_session_patch p x) = Inr j \<and>
    fs_lookup fs' q = (if q = session_path s i then Some (Doc (Some j)) else fs_lookup fs q)"
proof -
  from assms(1) obtain x where r: "read_json faults unmarshal_session (session_path s i) fs = Inr x"
    and w: "write_json_atomic faults (session_path s i) (marshal_session (apply_session_patch p x)) fs = (None, fs')"
    by (auto simp: update_session_def split: sum.splits)
  from r have "ses_at s fs i = Some x"
    by (auto simp: read_json_def read_file_def ses_at_def split: sum.splits option.splits)
  with write_json_atomic_Inr [OF w assms(2)] show ?thesis by blast
qed

interpretation files: session_store "create_session faults s" "update_session faults s" "append_turn faults text_len s"
  "peek_turns faults srt s" "append_stream_event faults text_len s" "ses_at s" "session_log s" id_ok
  for faults text_len srt s
proof (unfold_locales, goal_cases)
  case (1 ses fs fs')
  note d = session_paths_differ [OF 1(2,2), of s]
  from write_json_atomic_Inr [OF 1(1) [unfolded create_session_def] d(6)]
    write_json_atomic_Inr [OF 1(1) [unfolded create_session_def] d(7)] d(3)
  show ?case by (auto simp: ses_at_def session_log_def session_roundtrip)
next
  case (2 i p fs fs')
  note d = session_paths_differ [OF 2(2,2), of s]
  from update_session_lookup [OF 2(1) d(6)] update_session_lookup [OF 2(1) d(7)] d(3)
  show ?case by (auto simp: ses_at_def [of s fs'] session_log_def session_roundtrip)
next
  case (3 t fs fs')
  note d = session_paths_differ [OF 3(2,2), of s]
  from append_jsonl_Inr [OF 3(1) [unfolded append_turn_def], of "turn_path s (tn_session_id t)"]
    append_jsonl_Inr [OF 3(1) [unfolded append_turn_def], of "session_path s (tn_session_id t)"] d(3)
  show ?case by (auto simp: ses_at_def session_log_def session_turn_roundtrip split: option.splits)
next
  case (4 ev fs e fs' i)
  note d = session_paths_differ [OF 4(3,2), of s]
  have "fs_lookup fs' (session_path s i) = fs_lookup fs (session_path s i)"
    "fs_lookup fs' (turn_path s i) = fs_lookup fs (turn_path s i)"
    using 4(1) append_jsonl_other [of faults _ _ _ fs e fs'] d(4,5)
    by (auto simp: append_stream_event_def split: if_splits)
  then show ?case by (simp add: ses_at_def session_log_def)
qed

lemma scan_lines_Inr:
  "scan_lines lim what decode ls = Inr xs \<Longrightarrow> map (\<lambda>(j, n). Option.bind j decode) ls = map Some xs"
  by (induction ls arbitrary: xs rule: scan_lines.induct) (auto split: if_splits option.splits sum.splits)

lemma peek_session_log:
  assumes "slice_sort srt" and "peek_turns faults srt s sid n fs = Inr xs"
    and "session_log s fs sid = map (Some \<circ> valid_session_turn) ts" and "sorted_wrt (<) (map tn_index ts)"
  shows "xs = last_n n (map valid_session_turn ts)"
proof (cases "fs_lookup fs (turn_path s sid)")
  case None
  with assms(2,3) show ?thesis by (simp add: peek_turns_def peek_lines_def session_log_def last_n_def)
next
  case (Some c)
  with assms(2) obtain ys where ys: "scan_lines max_scan_token_size ''turn'' unmarshal_session_turn (as_lines c) = Inr ys"
    "xs = last_n n (srt tn_index ys)"
    by (auto simp: peek_turns_def peek_lines_def split: option.splits sum.splits)
  from scan_lines_Inr [OF ys(1)] assms(3) Some have "map Some ys = map Some (map valid_session_turn ts)"
    by (simp add: session_log_def)
  then have "ys = map valid_session_turn ts" by (simp only: map_injective inj_Some)
  moreover have "map tn_index (map valid_session_turn ts) = map tn_index ts" by (simp add: valid_session_turn_def)
  with assms(4) have "sorted_wrt (<) (map tn_index (map valid_session_turn ts))" by (simp only:)
  note slice_sort.srt_ascending [OF assms(1) this]
  ultimately show ?thesis using ys(2) by (simp only:)
qed

lemma run_turns_ascending: "run_turns sid prompt res ts \<Longrightarrow> sorted_wrt (<) (map tn_index ts)"
  by (auto simp: run_turns_def split: if_splits)

lemma session_id_ok:
  assumes "new_session_id raw = Inr i"
  shows "id_ok i" "i \<noteq> []"
proof -
  obtain bs where i: "i = ''sess_'' @ hex_encode bs" using assms by (auto simp: new_session_id_def split: sum.splits)
  have "\<not> is_hex slash" by (simp add: is_hex_def)
  with hex_encode_hex [of bs] have "slash \<notin> set (hex_encode bs)" unfolding list_all_iff by blast
  then show "id_ok i" "i \<noteq> []" unfolding i id_ok_def by simp_all
qed

text \<open>
  What a run reports is what its store holds: when a single-shot run over the file store
  returns a result without an error, then, whatever terminal, adapter and clock did and whatever
  other calls of the operating system fail, the session document read back has the status, duration,
  exit code, confidences and byte count of the result, and the turns the result shows are the
  last of the stored ones, which are the prompt and, if there is one, the response.
\<close>

theorem run_persisted:
  assumes "\<And>key xs. mset (srt key xs) = mset xs" "\<And>key xs. sorted (map key (srt key xs))"
    and "orchestrator_run (store_ops (create_session faults s) (update_session faults s) (append_turn faults text_len s)
        (peek_turns faults srt s) (append_stream_event faults text_len s) base) reg request wakes (fs, v)
      = Some (Inr res, (fs', v'))"
    and "rr_error res = None" and "fs_lookup fs (turn_path s (rr_session_id res)) = None"
  shows "\<exists>prompt ts ses. resolve_prompt (ro_read_file base v) (normalize_request request) = Inr prompt \<and>
    run_turns (rr_session_id res) prompt res ts \<and>
    rr_peek res = last_n (rq_peek_last (normalize_request request)) (map valid_session_turn ts) \<and>
    get_session no_faults s (rr_session_id res) fs' = Inr (Some ses) \<and> matches_result res ses"
proof -
  have id: "\<forall>i raw. new_session_id raw = Inr i \<longrightarrow> id_ok i" using session_id_ok(1) by blast
  obtain prompt ts ses where p: "resolve_prompt (ro_read_file base v) (normalize_request request) = Inr prompt"
    and ts: "run_turns (rr_session_id res) prompt res ts"
    and log: "session_log s fs' (rr_session_id res) = session_log s fs (rr_session_id res) @ map (Some \<circ> valid_session_turn) ts"
    and ses: "ses_at s fs' (rr_session_id res) = Some ses" "matches_result res ses"
    and pk: "peek_turns faults srt s (rr_session_id res) (rq_peek_last (normalize_request request)) fs' = Inr (rr_peek res)"
    using files.run_recorded [OF assms(3,4) id] by blast
  have "session_log s fs' (rr_session_id res) = map (Some \<circ> valid_session_turn) ts"
    using log assms(5) by (simp add: session_log_def)
  from peek_session_log [OF slice_sort.intro [OF assms(1,2)] pk this run_turns_ascending [OF ts]]
  have "rr_peek res = last_n (rq_peek_last (normalize_request request)) (map valid_session_turn ts)" .
  moreover have "get_session no_faults s (rr_session_id res) fs' = Inr (Some ses)"
    using ses(1) by (auto simp: ses_at_def get_session_def get_doc_def no_faults_def split: option.splits)
  ultimately show ?thesis using p ts ses(2) by blast
qed

section \<open>A run that times out\<close>

lemma create_session_ok:
  assumes "json_time_ok (ses_started_at x)" "opt_time_ok (ses_ended_at x)"
  shows "fst (create_session no_faults s x fs) = None"
  using assms by (simp add: create_session_def marshal_session_def write_json_atomic_def no_faults_def Let_def)

lemma update_session_ok:
  assumes "ses_at s fs i = Some x" "json_time_ok (ses_started_at x)" "opt_time_ok (ses_ended_at x)" "opt_time_ok (sp_ended_at p)"
  shows "fst (update_session no_faults s i p fs) = None"
proof -
  have "read_json no_faults unmarshal_session (session_path s i) fs = Inr x"
    using assms(1) by (auto simp: ses_at_def read_json_def read_file_def no_faults_def split: option.splits)
  moreover have "marshal_session (apply_session_patch p x) = Inr (JObj (session_fields (apply_session_patch p x)))"
    using assms(2-4) by (auto simp: marshal_session_def apply_session_patch_def patch_opt_def split: option.splits)
  ultimately show ?thesis by (simp add: update_session_def write_json_atomic_def no_faults_def Let_def)
qed

definition healthy_ops :: "unit run_ops" where
  "healthy_ops = broken_ops\<lparr>ro_write := (\<lambda>bs w. (None, w))\<rparr>"

definition healthy_store_ops :: "(file_sys \<times> unit) run_ops" where
  "healthy_store_ops = store_ops (create_session no_faults demo_store) (update_session no_faults demo_store)
     (append_turn no_faults (\<lambda>_. 100) demo_store) (peek_turns no_faults sort_key demo_store)
     (append_stream_event no_faults (\<lambda>_. 100) demo_store) healthy_ops"

lemma healthy_sel:
  "ro_now healthy_store_ops (fs, v) = (5, (fs, v))"
  "ro_write healthy_store_ops bs (fs, v) = (None, (fs, v))"
  "ro_terminate healthy_store_ops ms (fs, v) = (fs, v)"
  "ro_spawn healthy_store_ops spec (fs, v) = (None, (fs, v))"
  "ro_random healthy_store_ops (fs, v) = (Inr ''abcdefgh'', (fs, v))"
  "ro_create_session healthy_store_ops x (fs, v) = (let (e, fs') = create_session no_faults demo_store x fs in (e, (fs', v)))"
  "ro_update_session healthy_store_ops i p (fs, v) = (let (e, fs') = update_session no_faults demo_store i p fs in (e, (fs', v)))"
  "ro_append_turn healthy_store_ops t (fs, v) =
     (let (e, fs') = append_turn no_faults (\<lambda>_. 100) demo_store t fs in (e, (fs', v)))"
  "ro_peek_turns healthy_store_ops i n (fs, v) = peek_turns no_faults sort_key demo_store i n fs"
  by (simp_all add: healthy_store_ops_def store_ops_def healthy_ops_def broken_ops_def)

lemma healthy_finish:
  assumes "id_ok (ses_id ses)" "json_time_ok (ses_started_at ses)" "opt_time_ok (ses_ended_at ses)"
    "create_session no_faults demo_store ses fs0 = (None, fs1)" "\<forall>q. fs_lookup fs0 q = None"
    "append_turn no_faults (\<lambda>_. 100) demo_store \<lparr>tn_session_id = ses_id ses, tn_index = 0, tn_role = ''user'',
       tn_content = prompt, tn_created_at = 5\<rparr> fs1 = (None, fs2)"
    and lr: "lr = \<lparr>cr_observation = timeout_observation, cr_transcript = new_transcript 65536, cr_exit_code = None\<rparr>"
  shows "\<exists>res w'. finish_run healthy_store_ops (claude_adapter getenv) r ses lr (fs2, ()) = (Inr res, w') \<and>
    rr_error res = None \<and> rr_session_id res = ses_id ses"
proof -
  note d = session_paths_differ [OF assms(1,1), of demo_store]
  have at2: "ses_at demo_store fs2 (ses_id ses) = Some (valid_session ses)"
    using files.append_ses [OF assms(6)] files.create_ses [OF assms(4,1)] assms(1) by simp
  have log1: "fs_lookup fs1 (turn_path demo_store (ses_id ses)) = None"
    using write_json_atomic_Inr [OF assms(4) [unfolded create_session_def] d(7)] d(3)
    assms(5) by auto
  have log2: "\<exists>j t. unmarshal_session_turn j = Some t \<and> fs_lookup fs2 (turn_path demo_store (ses_id ses)) = Some (Lines [(Some j, 100)])"
    using append_jsonl_Inr [OF assms(6) [unfolded append_turn_def], of "turn_path demo_store (ses_id ses)"] log1
    by (auto simp: session_turn_roundtrip)
  obtain res patch where asm: "assemble_result 5 ses timeout_observation (extraction [] 10 [''empty transcript''])
      (new_transcript 65536) None = (res, patch)"
    by (cases "assemble_result 5 ses timeout_observation (extraction [] 10 [''empty transcript'']) (new_transcript 65536) None")
  have res: "sp_ended_at patch = Some 5" "rr_error res = None" "rr_session_id res = ses_id ses"
    by (simp_all add: assemble_fields [OF asm])
  obtain e3 fs3 where u: "update_session no_faults demo_store (ses_id ses) patch fs2 = (e3, fs3)" by fastforce
  have "e3 = None"
    using update_session_ok [OF at2, of patch] u assms(2,3) res(1)
    by (auto simp: valid_session_def opt_time_ok_def json_time_ok_def)
  have log3: "fs_lookup fs3 (turn_path demo_store (ses_id ses)) = fs_lookup fs2 (turn_path demo_store (ses_id ses))"
    using update_session_lookup [OF u [unfolded \<open>e3 = None\<close>] d(7)] d(3) by auto
  obtain p where p: "peek_turns no_faults sort_key demo_store (ses_id ses) (rq_peek_last r) fs3 = Inr p"
    using log2 unfolding peek_turns_def peek_lines_def log3 by (auto simp: no_faults_def max_scan_token_size_def)
  have ex: "ad_extract_response (claude_adapter getenv) (tr_full_raw (new_transcript 65536)) (transcript_normalized (new_transcript 65536))
      = extraction [] 10 [''empty transcript'']"
    by (simp add: claude_adapter_def claude_extract_response_def new_transcript_def transcript_normalized_def
        normalize_pty_text_def trim_space_Nil Let_def)
  have er: "er_response (extraction [] 10 [''empty transcript'']) = []" by (simp add: extraction_def)
  show ?thesis
    unfolding finish_run_def lr
    by (simp add: ex er healthy_sel asm u \<open>e3 = None\<close> p res Let_def)
qed

lemma healthy_run:
  assumes fs0: "\<forall>q. fs_lookup fs0 q = None"
    and req: "rq_prompt req = ''hi''" "rq_prompt_file req = []" "rq_provider req = []" "rq_env_file req = []"
  shows "\<exists>res fs'. orchestrator_run healthy_store_ops (new_registry [claude_adapter getenv, codex_adapter getenv]) req
     [WakeCtxDone] (fs0, ()) = Some (Inr res, (fs', ())) \<and> rr_error res = None"
proof -
  let ?r = "normalize_request req"
  let ?prov = "claude_adapter getenv"
  have r: "rq_prompt ?r = ''hi''" "rq_prompt_file ?r = []" "rq_provider ?r = ''claude-code''" "rq_env_file ?r = []"
    by (simp_all add: normalize_request_def req)
  have reg: "registry_get ''claude-code'' (new_registry [claude_adapter getenv, codex_adapter getenv]) = Inr ?prov"
    by (simp add: registry_get_def new_registry_def registry_register_def claude_adapter_def codex_adapter_def)
  have spec: "ss_prompt_in_args (ad_build_spawn_spec ?prov cwd env home cols rows prompt) = False"
    for cwd env home cols rows prompt
    by (simp add: claude_adapter_def claude_build_spawn_spec_def split_beta Let_def)
  have prompt: "resolve_prompt f ?r = Inr ''hi''" for f by (simp add: resolve_prompt_def r)
  have env: "load_env_file f [] = Inr []" for f by (simp add: load_env_file_def)
  obtain ses sp where b: "build_session healthy_store_ops ?prov ?r (run_env ?r [])
      (run_home_dir (ro_home_dir healthy_store_ops (fs0, ())) ?r) ''hi'' (fs0, ()) = (Inr (ses, sp), (fs0, ()))"
    and ses: "ses_started_at ses = 5" "ses_ended_at ses = None" "id_ok (ses_id ses)" "ss_prompt_in_args sp = False"
    using session_id_ok(1) [of "Inr ''abcdefgh''"]
    by (auto simp: build_session_def healthy_sel Let_def spec new_session_id_def)
  have t: "json_time_ok 5" by (simp add: json_time_ok_def)
  obtain e1 fs1 where c: "create_session no_faults demo_store ses fs0 = (e1, fs1)" by fastforce
  have e1: "e1 = None" using create_session_ok [of ses demo_store fs0] c ses t by (simp add: opt_time_ok_def)
  obtain e2 fs2 where a: "append_turn no_faults (\<lambda>_. 100) demo_store \<lparr>tn_session_id = ses_id ses, tn_index = 0, tn_role = ''user'',
       tn_content = ''hi'', tn_created_at = 5\<rparr> fs1 = (e2, fs2)" by fastforce
  have e2: "e2 = None"
    using a t by (auto simp: append_turn_def append_jsonl_def marshal_session_turn_def no_faults_def Let_def)
  have loop: "wait_for_completion_loop healthy_store_ops ?prov (ses_id ses) dbg [WakeCtxDone] (fs2, ()) =
      Some (\<lparr>cr_observation = timeout_observation, cr_transcript = new_transcript 65536, cr_exit_code = None\<rparr>, (fs2, ()))" for dbg
    by (simp add: wait_for_completion_loop_def healthy_sel)
  obtain res w' where f: "finish_run healthy_store_ops ?prov ?r ses
      \<lparr>cr_observation = timeout_observation, cr_transcript = new_transcript 65536, cr_exit_code = None\<rparr> (fs2, ()) = (Inr res, w')"
    "rr_error res = None"
    using healthy_finish [OF ses(3) _ _ c [unfolded e1] fs0 a [unfolded e2] refl, of getenv ?r] ses t
    by (auto simp: opt_time_ok_def)
  have "orchestrator_run healthy_store_ops (new_registry [claude_adapter getenv, codex_adapter getenv]) req
      [WakeCtxDone] (fs0, ()) = drive_session healthy_store_ops ?prov ?r ''hi'' ses sp [WakeCtxDone] (fs1, ())"
    by (simp add: orchestrator_run_def Let_def prompt r(3,4) reg env b healthy_sel c e1)
  also have "\<dots> = Some (finish_run healthy_store_ops ?prov ?r ses
      \<lparr>cr_observation = timeout_observation, cr_transcript = new_transcript 65536, cr_exit_code = None\<rparr> (fs2, ()))"
    by (simp add: drive_session_def healthy_sel a e2 ses(4) loop Let_def)
  finally show ?thesis using f by (cases w') auto
qed

theorem run_persisted_witness:
  "\<exists>res fs'. orchestrator_run healthy_store_ops (new_registry [claude_adapter (\<lambda>_. []), codex_adapter (\<lambda>_. [])]) demo_request
     [WakeCtxDone] (empty_fs, ()) = Some (Inr res, (fs', ())) \<and>
   (\<exists>ses. get_session no_faults demo_store (rr_session_id res) fs' = Inr (Some ses) \<and> matches_result res ses)"
proof -
  obtain res fs' where r: "orchestrator_run healthy_store_ops (new_registry [claude_adapter (\<lambda>_. []), codex_adapter (\<lambda>_. [])])
      demo_request [WakeCtxDone] (empty_fs, ()) = Some (Inr res, (fs', ()))" "rr_error res = None"
    using healthy_run [of empty_fs demo_request "\<lambda>_. []"] by (auto simp: empty_fs_def fs_lookup_def demo_request_def)
  have n: "fs_lookup empty_fs (turn_path demo_store (rr_session_id res)) = None" by (simp add: empty_fs_def fs_lookup_def)
  from run_persisted [OF _ _ r(1) [unfolded healthy_store_ops_def] r(2) n] r(1) show ?thesis by auto
qed

end
