(* ===== verification/Commands.thy ===== *)
theory Commands
  imports SingleRun ConverseCli Watch
begin

text \<open>
  The other commands of the program: \<open>vitis run\<close>, \<open>peek\<close>, \<open>serve\<close> and \<open>doctor\<close>
  (\<open>src/internal/cli\<close>), the dispatch on the command name (\<open>src/cmd/vitis/main.go\<close>) and the
  validated run configuration of \<open>src/internal/config\<close>.  A command starts from the values of its
  flags; what it prints is a value, and what it finds in its surroundings is a parameter.
\<close>

section \<open>Results on standard output\<close>

definition zero_meta :: result_meta where
  "zero_meta = \<lparr>rm_duration_ms = 0, rm_exit_code = None, rm_parser_confidence = 0, rm_observation_confidence = 0,
     rm_bytes_captured = 0, rm_blocked_reason = None, rm_warnings = []\<rparr>"

definition error_result :: "error_code \<Rightarrow> string \<Rightarrow> run_result" where
  "error_result code msg =
     \<lparr>rr_session_id = [], rr_provider = [], rr_status = RunFailed, rr_response = [], rr_peek = [],
      rr_meta = zero_meta, rr_error = Some \<lparr>re_code = code, re_message = msg\<rparr>\<rparr>"

text \<open>\<open>RenderDoctor\<close>: the text of its three lines.\<close>

definition render_doctor :: "bool \<Rightarrow> string \<Rightarrow> string \<Rightarrow> string" where
  "render_doctor available path detail =
     ''provider_available='' @ (if available then ''true'' else ''false'') @ [nl]
     @ ''provider_path='' @ path @ [nl] @ ''detail='' @ detail @ [nl]"

section \<open>Run\<close>

text \<open>Opening a store: the database store is a parameter, the file store is the modelled one.\<close>

datatype 'db open_store = FileBackend file_store | DbBackend 'db

definition build_store ::
    "os_faults \<Rightarrow> (string \<Rightarrow> 'db result) \<Rightarrow> string \<Rightarrow> string \<Rightarrow> string \<Rightarrow> bool \<Rightarrow> file_sys
      \<Rightarrow> 'db open_store result \<times> file_sys" where
  "build_store faults open_db backend log_path db_url debug_raw fs =
     (if backend = ''db''
      then ((case open_db db_url of Inl e \<Rightarrow> Inl e | Inr db \<Rightarrow> Inr (DbBackend db)), fs)
      else (case new_store faults log_path debug_raw fs of
              (Inl e, fs') \<Rightarrow> (Inl e, fs')
            | (Inr s, fs') \<Rightarrow> (Inr (FileBackend s), fs')))"

definition run_flag_error :: "run_request \<Rightarrow> string option" where
  "run_flag_error req =
     (if rq_log_backend req \<noteq> ''file'' \<and> rq_log_backend req \<noteq> ''db'' then Some ''log-backend must be file or db''
      else if rq_log_backend req = ''db'' \<and> rq_database_url req = []
      then Some ''database-url is required when log-backend=db'' else None)"

definition default_cwd :: "string result \<Rightarrow> run_request \<Rightarrow> run_request" where
  "default_cwd getwd req =
     (if rq_cwd req = [] then (case getwd of Inl e \<Rightarrow> req | Inr d \<Rightarrow> req\<lparr>rq_cwd := d\<rparr>) else req)"

definition failure_result :: "run_failure \<Rightarrow> run_result" where
  "failure_result f = (case f of
     RunErr e \<Rightarrow> error_result (re_code e) (re_message e)
   | PlainErr e \<Rightarrow> error_result ErrorInternal (err_text e))"

text \<open>
  \<open>RunCommand\<close> behind the parsed flags: the exit code and the result it prints, or \<open>None\<close> while the
  run is still waiting.  \<open>run\<close> is the orchestrator over the opened store, and \<open>write_failure\<close> the error of writing the final result.
\<close>

definition run_command ::
    "os_faults \<Rightarrow> (string \<Rightarrow> 'db result) \<Rightarrow> string result
      \<Rightarrow> ('db open_store \<Rightarrow> run_request \<Rightarrow> file_sys \<Rightarrow> ((run_failure + run_result) \<times> file_sys) option)
      \<Rightarrow> (run_result \<Rightarrow> go_error option) \<Rightarrow> run_request \<Rightarrow> file_sys \<Rightarrow> ((nat \<times> run_result) \<times> file_sys) option" where
  "run_command faults open_db getwd run write_failure req fs =
     (case run_flag_error req of
        Some msg \<Rightarrow> Some ((2, error_result ErrorConfig msg), fs)
      | None \<Rightarrow>
         (case build_store faults open_db (rq_log_backend req) (rq_log_path req) (rq_database_url req)
             (rq_debug_raw req) fs of
            (Inl e, fs1) \<Rightarrow> Some ((2, error_result ErrorConfig (err_text e)), fs1)
          | (Inr store, fs1) \<Rightarrow>
             map_option (\<lambda>(outcome, fs2). (case outcome of
                 Inl f \<Rightarrow> (1, failure_result f)
               | Inr res \<Rightarrow> (if write_failure res \<noteq> None then 1 else if rr_error res \<noteq> None then 1 else 0, res), fs2))
               (run store (default_cwd getwd req) fs1)))"

text \<open>The orchestrator over the store that was opened; runs over the database are a parameter.\<close>

definition orchestrate ::
    "os_faults \<Rightarrow> (json \<Rightarrow> nat) \<Rightarrow> ((turn \<Rightarrow> int) \<Rightarrow> turn list \<Rightarrow> turn list) \<Rightarrow> 'v run_ops \<Rightarrow> registry \<Rightarrow> loop_wake list \<Rightarrow> 'v
      \<Rightarrow> ('db \<Rightarrow> run_request \<Rightarrow> file_sys \<Rightarrow> ((run_failure + run_result) \<times> file_sys) option)
      \<Rightarrow> 'db open_store \<Rightarrow> run_request \<Rightarrow> file_sys \<Rightarrow> ((run_failure + run_result) \<times> file_sys) option" where
  "orchestrate faults text_len srt base reg wakes v db_run store req fs =
     (case store of
        DbBackend db \<Rightarrow> db_run db req fs
      | FileBackend s \<Rightarrow>
         map_option (\<lambda>(outcome, (fs', v')). (outcome, fs'))
           (orchestrator_run (store_ops (create_session faults s) (update_session faults s) (append_turn faults text_len s)
              (peek_turns faults srt s) (append_stream_event faults text_len s) base) reg req wakes (fs, v)))"

section \<open>Peek\<close>

datatype peek_output = PeekError run_result | PeekTurns string "turn list"

definition peek_store ::
    "os_faults \<Rightarrow> ((turn \<Rightarrow> int) \<Rightarrow> turn list \<Rightarrow> turn list) \<Rightarrow> ('db \<Rightarrow> string \<Rightarrow> int \<Rightarrow> turn list result)
      \<Rightarrow> 'db open_store \<Rightarrow> string \<Rightarrow> int \<Rightarrow> file_sys \<Rightarrow> turn list result" where
  "peek_store faults srt db_peek store sid n fs =
     (case store of DbBackend db \<Rightarrow> db_peek db sid n | FileBackend s \<Rightarrow> peek_turns faults srt s sid n fs)"

definition peek_command ::
    "os_faults \<Rightarrow> (string \<Rightarrow> 'db result) \<Rightarrow> ('db open_store \<Rightarrow> string \<Rightarrow> int \<Rightarrow> file_sys \<Rightarrow> turn list result)
      \<Rightarrow> string \<Rightarrow> int \<Rightarrow> string \<Rightarrow> string \<Rightarrow> string \<Rightarrow> file_sys \<Rightarrow> (nat \<times> peek_output) \<times> file_sys" where
  "peek_command faults open_db peek sid last_turns backend log_path db_url fs =
     (if sid = [] then ((2, PeekError (error_result ErrorConfig ''session-id is required'')), fs)
      else (case build_store faults open_db backend log_path db_url False fs of
              (Inl e, fs1) \<Rightarrow> ((2, PeekError (error_result ErrorConfig (err_text e))), fs1)
            | (Inr store, fs1) \<Rightarrow>
               (case peek store sid last_turns fs1 of
                  Inl e \<Rightarrow> ((1, PeekError (error_result ErrorNotFound (err_text e))), fs1)
                | Inr ts \<Rightarrow> ((0, PeekTurns sid ts), fs1))))"

section \<open>Serve\<close>

record serve_config =
  sc_api :: api_config
  sc_port :: int
  sc_store_root :: string
  sc_warning :: bool

definition serve_setup ::
    "os_faults \<Rightarrow> int \<Rightarrow> string \<Rightarrow> string \<Rightarrow> string \<Rightarrow> file_sys
      \<Rightarrow> (nat \<times> string + serve_config \<times> file_store) \<times> file_sys" where
  "serve_setup faults port log_path api_key cors fs =
     (let clean = path_clean log_path in
      if port < 1 \<or> port > 65535 then (Inl (2, ''serve: --port must be in [1,65535]''), fs)
      else if clean = [] \<or> clean = ''.'' then (Inl (2, ''serve: --log-path must not be empty''), fs)
      else (case mkdir_all faults clean fs of
              (Some e, fs1) \<Rightarrow> (Inl (1, ''serve: create log directory: '' @ err_text e), fs1)
            | (None, fs1) \<Rightarrow>
               (case new_store faults clean False fs1 of
                  (Inl e, fs2) \<Rightarrow> (Inl (1, ''serve: store init: '' @ err_text e), fs2)
                | (Inr s, fs2) \<Rightarrow>
                    (Inr (\<lparr>sc_api = \<lparr>ac_api_key = api_key, ac_cors_origin = cors\<rparr>, sc_port = port,
                        sc_store_root = clean, sc_warning = (api_key = [])\<rparr>, s), fs2))))"

text \<open>\<open>listen\<close> binds the address, \<open>serve\<close> is how serving ends.\<close>

definition serve_command ::
    "os_faults \<Rightarrow> (string \<Rightarrow> go_error option) \<Rightarrow> (serve_config \<Rightarrow> file_store \<Rightarrow> serve_end)
      \<Rightarrow> int \<Rightarrow> string \<Rightarrow> string \<Rightarrow> string \<Rightarrow> file_sys \<Rightarrow> nat \<times> file_sys" where
  "serve_command faults listen serve port log_path api_key cors fs =
     (case serve_setup faults port log_path api_key cors fs of
        (Inl (code, msg), fs1) \<Rightarrow> (code, fs1)
      | (Inr (cfg, s), fs1) \<Rightarrow>
         (case new_server listen port of
            Inl e \<Rightarrow> (1, fs1)
          | Inr srv \<Rightarrow> (case listen_and_serve (serve cfg s) of Some e \<Rightarrow> (1, fs1) | None \<Rightarrow> (0, fs1))))"

section \<open>Doctor\<close>

record rtk_status =
  rtk_available :: bool
  rtk_path :: string
  rtk_version :: string
  rtk_hook_installed :: bool
  rtk_hook_install_command :: string
  rtk_note :: string

definition rtk_markers :: "string list" where
  "rtk_markers = [''rtk-rewrite'', ''rtk rewrite'', ''RTK.md'']"

definition rtk_hook_paths :: "string \<Rightarrow> string \<Rightarrow> string list" where
  "rtk_hook_paths provider home =
     (if provider = ''claude-code'' \<or> provider = ''claudecode''
      then [path_join [home, ''.claude'', ''settings.json''], path_join [home, ''.claude'', ''settings.local.json'']]
      else if provider = ''codex''
      then [path_join [home, ''.codex'', ''config.toml''], path_join [home, ''.codex'', ''settings.json''],
            path_join [home, ''.codex'', ''AGENTS.md'']]
      else [])"

definition is_rtk_hook_installed :: "(string \<Rightarrow> string result) \<Rightarrow> string \<Rightarrow> string \<Rightarrow> bool" where
  "is_rtk_hook_installed read provider home \<longleftrightarrow> home \<noteq> [] \<and>
     list_ex (\<lambda>p. case read p of Inl e \<Rightarrow> False | Inr data \<Rightarrow> list_ex (str_contains data) rtk_markers)
       (rtk_hook_paths provider home)"

definition rtk_install_command :: "string \<Rightarrow> string" where
  "rtk_install_command provider = (if provider = ''codex'' then ''rtk init -g --codex'' else ''rtk init -g'')"

text \<open>\<open>look_path\<close> finds an executable, \<open>version\<close> runs it with \<open>--version\<close>; the em dash is three bytes.\<close>

definition detect_rtk ::
    "(string \<Rightarrow> string result) \<Rightarrow> (string \<Rightarrow> string result) \<Rightarrow> string \<Rightarrow> (string \<Rightarrow> string result) \<Rightarrow> string \<Rightarrow> rtk_status" where
  "detect_rtk look_path version home read provider =
     (case look_path ''rtk'' of
        Inl e \<Rightarrow> \<lparr>rtk_available = False, rtk_path = [], rtk_version = [], rtk_hook_installed = False,
          rtk_hook_install_command = [], rtk_note = ''rtk binary not found on PATH. Install for 60-90% token savings on agent shell commands: https://github.com/rtk-ai/rtk#installation''\<rparr>
      | Inr path \<Rightarrow>
         (let v = (case version path of Inl e \<Rightarrow> [] | Inr out \<Rightarrow> trim_space out);
              cmd = rtk_install_command provider
          in if is_rtk_hook_installed read provider home
             then \<lparr>rtk_available = True, rtk_path = path, rtk_version = v, rtk_hook_installed = True,
               rtk_hook_install_command = [], rtk_note = ''rtk is active for this provider '' @ em_dash
                 @ '' shell commands the agent runs will be auto-compressed''\<rparr>
             else \<lparr>rtk_available = True, rtk_path = path, rtk_version = v, rtk_hook_installed = False,
               rtk_hook_install_command = cmd,
               rtk_note = ''rtk is installed but the hook is not active for this provider. Run: '' @ cmd\<rparr>))"

definition provider_command :: "(string \<Rightarrow> string) \<Rightarrow> string \<Rightarrow> string \<times> string list" where
  "provider_command getenv provider =
     (if provider = [] \<or> provider = ''claude-code'' then claude_resolve_command getenv []
      else if provider = ''codex'' then codex_resolve_command getenv []
      else (provider, []))"

datatype doctor_report =
    ProviderMissing string string rtk_status
  | ProviderFound string string "string list" string rtk_status

text \<open>\<open>combined_output\<close> is what the provider prints when asked for its version, and whether that failed.\<close>

definition doctor_command ::
    "(string \<Rightarrow> string) \<Rightarrow> (string \<Rightarrow> string result) \<Rightarrow> (string \<Rightarrow> string list \<Rightarrow> string \<times> go_error option) \<Rightarrow> (string \<Rightarrow> rtk_status)
      \<Rightarrow> string \<Rightarrow> nat \<times> doctor_report" where
  "doctor_command getenv look_path combined_output rtk provider =
     (let (command, args) = provider_command getenv provider in
      case look_path command of
        Inl e \<Rightarrow> (1, ProviderMissing provider (err_text e) (rtk provider))
      | Inr path \<Rightarrow>
         (let (out, err) = combined_output path (args @ [''--version'']);
              detail = (case err of None \<Rightarrow> trim_space out
                | Some e \<Rightarrow> if trim_space out = [] then err_text e else trim_space out)
          in (0, ProviderFound provider path args detail (rtk provider))))"

section \<open>The run configuration\<close>

record run_config =
  rc_prompt :: string
  rc_prompt_file :: string
  rc_cwd :: string
  rc_timeout_sec :: int
  rc_log_backend :: string
  rc_log_path :: string
  rc_database_url :: string
  rc_debug_raw :: bool
  rc_cols :: int
  rc_rows :: int

definition run_config_validate :: "run_config \<Rightarrow> go_error option" where
  "run_config_validate c =
     (if rc_prompt c = [] \<and> rc_prompt_file c = [] then Some (ErrMsg ''one of --prompt or --prompt-file must be set'')
      else if rc_prompt c \<noteq> [] \<and> rc_prompt_file c \<noteq> [] then Some (ErrMsg ''--prompt and --prompt-file are mutually exclusive'')
      else if rc_timeout_sec c \<le> 0 then Some (ErrMsg (''timeout must be > 0, got '' @ itoa (rc_timeout_sec c)))
      else if rc_log_backend c = ''file''
      then (if rc_log_path c = [] then Some (ErrMsg ''--log-path must be set when --log-backend=file'') else None)
      else if rc_log_backend c = ''postgres''
      then (if rc_database_url c = [] then Some (ErrMsg ''--database-url must be set when --log-backend=postgres'') else None)
      else if rc_log_backend c = ''db''
      then (if rc_database_url c = [] then Some (ErrMsg ''--database-url must be set when --log-backend=db'') else None)
      else Some (ErrMsg (''unknown --log-backend '' @ go_quote (rc_log_backend c) @ ''; must be file, postgres, or db'')))"

definition to_run_request :: "string \<Rightarrow> run_config \<Rightarrow> run_request" where
  "to_run_request provider c =
     \<lparr>rq_provider = provider, rq_prompt = rc_prompt c, rq_prompt_file = rc_prompt_file c,
      rq_timeout_sec = rc_timeout_sec c, rq_cwd = rc_cwd c, rq_env_file = [], rq_log_backend = rc_log_backend c,
      rq_log_path = rc_log_path c, rq_database_url = rc_database_url c, rq_peek_last = 0,
      rq_debug_raw = rc_debug_raw c, rq_terminal_cols = rc_cols c, rq_terminal_rows = rc_rows c, rq_home_dir = [],
      rq_model = [], rq_reasoning_effort = []\<rparr>"

text \<open>
  A valid configuration for the backends that \<open>vitis run\<close> knows passes the checks of the command
  and resolves to a prompt or to an error of reading the prompt file.
\<close>

lemma validated_config_accepted:
  assumes "run_config_validate c = None" and "rc_log_backend c \<noteq> ''postgres''"
  shows "run_flag_error (to_run_request provider c) = None"
    and "normalize_request (to_run_request provider c) =
      (to_run_request (if provider = [] then ''claude-code'' else provider) c)\<lparr>rq_peek_last := 10,
        rq_terminal_cols := default_int 80 (rc_cols c), rq_terminal_rows := default_int 24 (rc_rows c)\<rparr>"
    and "rc_prompt_file c = [] \<Longrightarrow> resolve_prompt read (to_run_request provider c) = Inr (rc_prompt c)"
  using assms
  by (auto simp: run_config_validate_def run_flag_error_def to_run_request_def normalize_request_def default_int_def
      resolve_prompt_def split: if_splits)

section \<open>The program\<close>

text \<open>\<open>run\<close> of the main package: the exit code of the command that the first argument names.\<close>

definition vitis_main :: "(string \<Rightarrow> string list \<Rightarrow> nat) \<Rightarrow> string list \<Rightarrow> nat \<times> string" where
  "vitis_main command args =
     (case args of
        [] \<Rightarrow> (2, ''usage: vitis <run|peek|converse|doctor|serve>'')
      | name # rest \<Rightarrow>
         if name \<in> set [''run'', ''peek'', ''converse'', ''doctor'', ''serve''] then (command name rest, [])
         else (2, ''unknown command '' @ go_quote name))"

section \<open>Run, then peek\<close>

lemma mkdir_each_lookup: "mkdir_each faults ds fs = (e, fs') \<Longrightarrow> fs_lookup fs' q = fs_lookup fs q"
  by (induction faults ds fs arbitrary: fs' rule: mkdir_each.induct)
     (auto simp: mkdir_all_def split: option.splits)

lemma new_store_Inr:
  assumes "new_store faults root debug fs = (Inr s, fs')"
  shows "root \<noteq> [] \<and> s = \<lparr>st_root = root, st_debug_raw = debug\<rparr> \<and> (\<forall>q. fs_lookup fs' q = fs_lookup fs q)"
proof (cases "root = []")
  case True
  with assms show ?thesis by (simp add: new_store_def)
next
  case False
  let ?s = "\<lparr>st_root = root, st_debug_raw = debug\<rparr>"
  obtain e fs1 where m: "mkdir_each faults [sessions_dir ?s, turns_dir ?s, raw_dir ?s] fs = (e, fs1)" by fastforce
  with assms False mkdir_each_lookup [OF m] show ?thesis
    by (cases e) (auto simp: new_store_def Let_def simp del: mkdir_each.simps)
qed

lemma peek_turns_any:
  assumes "slice_sort srt" and "peek_turns faults srt s sid m fs = Inr ys"
    and "session_log s fs sid = map (Some \<circ> valid_session_turn) ts" and "sorted_wrt (<) (map tn_index ts)"
    and "st_root s' = st_root s" and "\<forall>q. fs_lookup fs' q = fs_lookup fs q"
  shows "peek_turns no_faults srt s' sid n fs' = Inr (last_n n (map valid_session_turn ts))"
proof -
  have p: "turn_path s' sid = turn_path s sid" by (simp add: turn_path_def turns_dir_def assms(5))
  have "\<exists>zs. peek_turns no_faults srt s' sid n fs' = Inr zs"
    using assms(2,6) by (auto simp: peek_turns_def peek_lines_def p no_faults_def split: option.splits sum.splits)
  then obtain zs where z: "peek_turns no_faults srt s' sid n fs' = Inr zs" by blast
  have "session_log s' fs' sid = map (Some \<circ> valid_session_turn) ts"
    using assms(3,6) by (simp add: session_log_def p)
  from peek_session_log [OF assms(1) z this assms(4)] z show ?thesis by simp
qed

lemma new_store_lookup:
  assumes "root \<noteq> []"
  shows "\<exists>fs'. new_store no_faults root debug fs = (Inr \<lparr>st_root = root, st_debug_raw = debug\<rparr>, fs') \<and>
    (\<forall>q. fs_lookup fs' q = fs_lookup fs q)"
proof -
  let ?s = "\<lparr>st_root = root, st_debug_raw = debug\<rparr>"
  have ok: "fst (mkdir_each no_faults ds fs) = None" for ds fs
    by (induction ds arbitrary: fs) (simp_all add: mkdir_all_def no_faults_def)
  obtain fs' where m: "mkdir_each no_faults [sessions_dir ?s, turns_dir ?s, raw_dir ?s] fs = (None, fs')"
    using ok [of "[sessions_dir ?s, turns_dir ?s, raw_dir ?s]" fs] by (metis prod.collapse)
  then have "new_store no_faults root debug fs = (Inr ?s, fs')"
    unfolding new_store_def Let_def m using assms by simp
  from new_store_Inr [OF this] this show ?thesis by blast
qed

text \<open>An exit code of zero: a store was opened and the run returned a result without an error.\<close>

lemma run_command_zero:
  assumes "run_command faults open_db getwd run write_failure req fs = Some ((0, res), fs2)"
  shows "\<exists>store fs1. build_store faults open_db (rq_log_backend req) (rq_log_path req) (rq_database_url req)
      (rq_debug_raw req) fs = (Inr store, fs1) \<and>
    run store (default_cwd getwd req) fs1 = Some (Inr res, fs2) \<and> rr_error res = None"
proof -
  have flag: "run_flag_error req = None"
    using assms unfolding run_command_def by (cases "run_flag_error req") simp_all
  obtain st fs1 where b: "build_store faults open_db (rq_log_backend req) (rq_log_path req) (rq_database_url req)
      (rq_debug_raw req) fs = (st, fs1)" by fastforce
  obtain store where st: "st = Inr store"
    using assms unfolding run_command_def flag b by (cases st) simp_all
  obtain out fs' where r: "run store (default_cwd getwd req) fs1 = Some (out, fs')"
    using assms unfolding run_command_def flag b st by (cases "run store (default_cwd getwd req) fs1") auto
  have "out = Inr res" "rr_error res = None" "fs' = fs2"
    using assms unfolding run_command_def flag b st option.case prod.case sum.case r
    by (cases out; simp split: if_splits)+
  with b st r show ?thesis by blast
qed

text \<open>
  C8. What \<open>vitis run\<close> prints can be read back with \<open>vitis peek\<close>: after a run with the file
  backend that exits with 0, a peek at the printed session id with the same log path exits
  with 0 and prints the last turns of the run, the prompt and the response, whatever terminal, adapter
  and clock did.
\<close>

theorem run_then_peek:
  assumes "\<And>key xs. mset (srt key xs) = mset xs" "\<And>key xs. sorted (map key (srt key xs))"
    and "run_command faults open_db getwd (orchestrate faults text_len srt base reg wakes v db_run) write_failure req fs
      = Some ((0, res), fs2)"
    and "rq_log_backend req = ''file''"
    and "\<And>debug. fs_lookup fs (turn_path \<lparr>st_root = rq_log_path req, st_debug_raw = debug\<rparr> (rr_session_id res)) = None"
  shows "\<exists>prompt ts fs3. resolve_prompt (ro_read_file base v) (normalize_request (default_cwd getwd req)) = Inr prompt \<and>
    run_turns (rr_session_id res) prompt res ts \<and>
    peek_command no_faults open_db (peek_store no_faults srt db_peek) (rr_session_id res) n ''file'' (rq_log_path req) db_url fs2
      = ((0, PeekTurns (rr_session_id res) (last_n n (map valid_session_turn ts))), fs3)"
proof -
  let ?s = "\<lparr>st_root = rq_log_path req, st_debug_raw = rq_debug_raw req\<rparr>"
  let ?ops = "store_ops (create_session faults ?s) (update_session faults ?s) (append_turn faults text_len ?s)
    (peek_turns faults srt ?s) (append_stream_event faults text_len ?s) base"
  obtain store fs1 where b: "build_store faults open_db ''file'' (rq_log_path req) (rq_database_url req) (rq_debug_raw req) fs =
      (Inr store, fs1)"
    and o: "orchestrate faults text_len srt base reg wakes v db_run store (default_cwd getwd req) fs1 = Some (Inr res, fs2)"
    and err: "rr_error res = None"
    using run_command_zero [OF assms(3)] unfolding assms(4) by blast
  obtain s0 fs0 where n0: "new_store faults (rq_log_path req) (rq_debug_raw req) fs = (s0, fs0)" by fastforce
  with b obtain s1 where "s0 = Inr s1" "store = FileBackend s1" "fs0 = fs1"
    unfolding build_store_def n0 by (cases s0) simp_all
  with n0 new_store_Inr have ns: "new_store faults (rq_log_path req) (rq_debug_raw req) fs = (Inr ?s, fs1)"
    "rq_log_path req \<noteq> []" and store: "store = FileBackend ?s" by blast+
  obtain v2 where run: "orchestrator_run ?ops reg (default_cwd getwd req) wakes (fs1, v) = Some (Inr res, (fs2, v2))"
    using o unfolding store orchestrate_def by auto
  have fs1: "fs_lookup fs1 q = fs_lookup fs q" for q using new_store_Inr [OF ns(1)] by simp
  have id: "\<forall>i raw. new_session_id raw = Inr i \<longrightarrow> id_ok i" using session_id_ok(1) by blast
  obtain prompt ts where p: "resolve_prompt (ro_read_file base v) (normalize_request (default_cwd getwd req)) = Inr prompt"
    and new: "\<exists>raw. new_session_id raw = Inr (rr_session_id res)"
    and ts: "run_turns (rr_session_id res) prompt res ts"
    and log: "session_log ?s fs2 (rr_session_id res) = session_log ?s fs1 (rr_session_id res) @ map (Some \<circ> valid_session_turn) ts"
    and pk: "peek_turns faults srt ?s (rr_session_id res) (rq_peek_last (normalize_request (default_cwd getwd req))) fs2
      = Inr (rr_peek res)"
    using files.run_recorded [OF run err id] by blast
  have log2: "session_log ?s fs2 (rr_session_id res) = map (Some \<circ> valid_session_turn) ts"
    using log assms(5) by (simp add: session_log_def fs1)
  obtain fs3 where s2: "new_store no_faults (rq_log_path req) False fs2 = (Inr \<lparr>st_root = rq_log_path req, st_debug_raw = False\<rparr>, fs3)"
    and fs3: "\<forall>q. fs_lookup fs3 q = fs_lookup fs2 q"
    using new_store_lookup [OF ns(2)] by blast
  have "peek_turns no_faults srt \<lparr>st_root = rq_log_path req, st_debug_raw = False\<rparr> (rr_session_id res) n fs3 =
      Inr (last_n n (map valid_session_turn ts))"
    by (rule peek_turns_any [OF slice_sort.intro [OF assms(1,2)] pk log2 run_turns_ascending [OF ts] _ fs3]) simp
  moreover have "rr_session_id res \<noteq> []" using new session_id_ok(2) by blast
  ultimately have "peek_command no_faults open_db (peek_store no_faults srt db_peek) (rr_session_id res) n ''file'' (rq_log_path req) db_url fs2
      = ((0, PeekTurns (rr_session_id res) (last_n n (map valid_session_turn ts))), fs3)"
    by (simp add: peek_command_def build_store_def s2 peek_store_def)
  with p ts show ?thesis by blast
qed

definition logged_request :: run_request where
  "logged_request = demo_request\<lparr>rq_log_path := ''logs'', rq_cwd := ''/w''\<rparr>"

lemma logged_run:
  "\<exists>res fs2. run_command no_faults (\<lambda>_. Inr ()) (Inr ''/w'') (orchestrate no_faults (\<lambda>_. 100) sort_key healthy_ops
      (new_registry [claude_adapter (\<lambda>_. []), codex_adapter (\<lambda>_. [])]) [WakeCtxDone] () (\<lambda>_ _ _. None)) (\<lambda>_. None)
      logged_request empty_fs = Some ((0, res), fs2)"
proof -
  have rq: "rq_log_backend logged_request = ''file''" "rq_log_path logged_request = ''logs''" "rq_debug_raw logged_request = False"
    "default_cwd (Inr ''/w'') logged_request = logged_request" "run_flag_error logged_request = None"
    by (simp_all add: logged_request_def demo_request_def default_cwd_def run_flag_error_def)
  obtain fs1 where ns: "new_store no_faults ''logs'' False empty_fs = (Inr demo_store, fs1)"
    and fs1: "\<forall>q. fs_lookup fs1 q = fs_lookup empty_fs q"
    using new_store_lookup [of "''logs''" False empty_fs] by (auto simp: demo_store_def)
  have "\<forall>q. fs_lookup fs1 q = None" using fs1 by (simp add: empty_fs_def fs_lookup_def)
  then obtain res fs2 where r: "orchestrator_run healthy_store_ops (new_registry [claude_adapter (\<lambda>_. []), codex_adapter (\<lambda>_. [])])
      logged_request [WakeCtxDone] (fs1, ()) = Some (Inr res, (fs2, ()))" "rr_error res = None"
    using healthy_run [of fs1 logged_request "\<lambda>_. []"] by (auto simp: logged_request_def demo_request_def)
  have b: "build_store no_faults (\<lambda>_. Inr ()) ''file'' ''logs'' d False empty_fs = (Inr (FileBackend demo_store), fs1)" for d
    by (simp add: build_store_def ns)
  show ?thesis
    unfolding run_command_def rq b option.case prod.case sum.case orchestrate_def open_store.case
    using r unfolding healthy_store_ops_def by simp
qed

theorem run_then_peek_witness:
  "\<exists>res fs2 ts fs3. run_command no_faults (\<lambda>_. Inr ()) (Inr ''/w'') (orchestrate no_faults (\<lambda>_. 100) sort_key healthy_ops
      (new_registry [claude_adapter (\<lambda>_. []), codex_adapter (\<lambda>_. [])]) [WakeCtxDone] () (\<lambda>_ _ _. None)) (\<lambda>_. None)
      logged_request empty_fs = Some ((0, res), fs2) \<and>
    peek_command no_faults (\<lambda>_. Inr ()) (peek_store no_faults sort_key (\<lambda>_ _ _. Inr [])) (rr_session_id res) 5 ''file'' ''logs'' [] fs2
      = ((0, PeekTurns (rr_session_id res) ts), fs3)"
proof -
  obtain res fs2 where r: "run_command no_faults (\<lambda>_. Inr ()) (Inr ''/w'') (orchestrate no_faults (\<lambda>_. 100) sort_key healthy_ops
      (new_registry [claude_adapter (\<lambda>_. []), codex_adapter (\<lambda>_. [])]) [WakeCtxDone] () (\<lambda>_ _ _. None)) (\<lambda>_. None)
      logged_request empty_fs = Some ((0, res), fs2)" using logged_run by blast
  have rq: "rq_log_backend logged_request = ''file''" "rq_log_path logged_request = ''logs''"
    by (simp_all add: logged_request_def demo_request_def)
  have n: "fs_lookup empty_fs q = None" for q by (simp add: empty_fs_def fs_lookup_def)
  from run_then_peek [OF _ _ r rq(1) n, where n = 5 and db_peek = "\<lambda>_ _ _. Inr []" and db_url = "[]"] r show ?thesis unfolding rq(2) by auto
qed

end
