(* ===== verification/CommandLine.thy ===== *)
theory CommandLine
  imports GoFlags ConverseCli Commands
begin

text \<open>
  The commands from their argument vectors on: the flag sets that \<open>src/internal/cli\<close> declares, parsed
  by the flag package of theory \<open>GoFlags\<close>, in front of the commands of the theories \<open>ConverseCli\<close> and
  \<open>Commands\<close>.  Arguments after the flags are ignored, as the commands do.
\<close>

section \<open>Converse\<close>

definition converse_formal :: "(string \<times> converse_flags flag_value) list" where
  "converse_formal =
     [(''peer-a'', StrFlag (\<lambda>v f. f\<lparr>fl_peer_a := v\<rparr>)),
      (''peer-b'', StrFlag (\<lambda>v f. f\<lparr>fl_peer_b := v\<rparr>)),
      (''seed'', StrFlag (\<lambda>v f. f\<lparr>fl_seed := v\<rparr>)),
      (''seed-a'', StrFlag (\<lambda>v f. f\<lparr>fl_seed_a := v\<rparr>)),
      (''seed-b'', StrFlag (\<lambda>v f. f\<lparr>fl_seed_b := v\<rparr>)),
      (''opener'', StrFlag (\<lambda>v f. f\<lparr>fl_opener := v\<rparr>)),
      (''max-turns'', IntFlag (\<lambda>v f. f\<lparr>fl_max_turns := v\<rparr>)),
      (''terminator'', StrFlag (\<lambda>v f. f\<lparr>fl_terminator := v\<rparr>)),
      (''sentinel'', StrFlag (\<lambda>v f. f\<lparr>fl_sentinel := v\<rparr>)),
      (''per-turn-timeout'', IntFlag (\<lambda>v f. f\<lparr>fl_per_turn_timeout := v\<rparr>)),
      (''overall-timeout'', IntFlag (\<lambda>v f. f\<lparr>fl_overall_timeout := v\<rparr>)),
      (''bus'', StrFlag (\<lambda>v f. f\<lparr>fl_bus := v\<rparr>)),
      (''log-backend'', StrFlag (\<lambda>v f. f\<lparr>fl_log_backend := v\<rparr>)),
      (''log-path'', StrFlag (\<lambda>v f. f\<lparr>fl_log_path := v\<rparr>)),
      (''working-directory'', StrFlag (\<lambda>v f. f\<lparr>fl_working_directory := v\<rparr>)),
      (''stream-turns'', BoolFlag (\<lambda>v f. f\<lparr>fl_stream_turns := v\<rparr>)),
      (''style'', StrFlag (\<lambda>v f. f\<lparr>fl_style := v\<rparr>)),
      (''peer-a-opt'', VarFlag (\<lambda>v f. let (e, m) = repeatable_flag_set v (fl_peer_a_opts f) in (e, f\<lparr>fl_peer_a_opts := m\<rparr>))),
      (''peer-b-opt'', VarFlag (\<lambda>v f. let (e, m) = repeatable_flag_set v (fl_peer_b_opts f) in (e, f\<lparr>fl_peer_b_opts := m\<rparr>))),
      (''peer'', VarFlag (\<lambda>v f. (None, f\<lparr>fl_peers := string_slice_flag_set v (fl_peers f)\<rparr>)))]"

text \<open>\<open>ConverseCommand\<close>: the exit code and the message on standard error; the usage text is left out.\<close>

definition converse_main ::
    "(string \<Rightarrow> bool result) \<Rightarrow> (string \<Rightarrow> go_error option) \<Rightarrow> (broker_deps \<Rightarrow> final_result)
      \<Rightarrow> (final_result \<Rightarrow> go_error option) \<Rightarrow> string \<Rightarrow> go_time \<Rightarrow> string list \<Rightarrow> nat \<times> string" where
  "converse_main stat open_store run encode cid now args =
     (case parse_flags converse_formal args default_flags of
        Inl e \<Rightarrow> (2, err_text e)
      | Inr (rest, f) \<Rightarrow> converse_command stat open_store run encode cid now f)"

section \<open>Run, peek, serve and doctor\<close>

definition default_request :: run_request where
  "default_request =
     \<lparr>rq_provider = ''claude-code'', rq_prompt = [], rq_prompt_file = [], rq_timeout_sec = 600, rq_cwd = [],
      rq_env_file = [], rq_log_backend = ''file'', rq_log_path = ''./logs'', rq_database_url = [],
      rq_peek_last = 10, rq_debug_raw = False, rq_terminal_cols = 80, rq_terminal_rows = 24, rq_home_dir = [],
      rq_model = [], rq_reasoning_effort = []\<rparr>"

definition run_formal :: "(string \<times> run_request flag_value) list" where
  "run_formal =
     [(''provider'', StrFlag (\<lambda>v r. r\<lparr>rq_provider := v\<rparr>)),
      (''prompt'', StrFlag (\<lambda>v r. r\<lparr>rq_prompt := v\<rparr>)),
      (''prompt-file'', StrFlag (\<lambda>v r. r\<lparr>rq_prompt_file := v\<rparr>)),
      (''timeout'', IntFlag (\<lambda>v r. r\<lparr>rq_timeout_sec := v\<rparr>)),
      (''peek-last'', IntFlag (\<lambda>v r. r\<lparr>rq_peek_last := v\<rparr>)),
      (''working-directory'', StrFlag (\<lambda>v r. r\<lparr>rq_cwd := v\<rparr>)),
      (''env-file'', StrFlag (\<lambda>v r. r\<lparr>rq_env_file := v\<rparr>)),
      (''log-backend'', StrFlag (\<lambda>v r. r\<lparr>rq_log_backend := v\<rparr>)),
      (''log-path'', StrFlag (\<lambda>v r. r\<lparr>rq_log_path := v\<rparr>)),
      (''database-url'', StrFlag (\<lambda>v r. r\<lparr>rq_database_url := v\<rparr>)),
      (''debug-raw'', BoolFlag (\<lambda>v r. r\<lparr>rq_debug_raw := v\<rparr>)),
      (''terminal-cols'', IntFlag (\<lambda>v r. r\<lparr>rq_terminal_cols := v\<rparr>)),
      (''terminal-rows'', IntFlag (\<lambda>v r. r\<lparr>rq_terminal_rows := v\<rparr>)),
      (''home-dir'', StrFlag (\<lambda>v r. r\<lparr>rq_home_dir := v\<rparr>)),
      (''model'', StrFlag (\<lambda>v r. r\<lparr>rq_model := v\<rparr>)),
      (''reasoning-effort'', StrFlag (\<lambda>v r. r\<lparr>rq_reasoning_effort := v\<rparr>))]"

definition run_main ::
    "os_faults \<Rightarrow> (string \<Rightarrow> 'db result) \<Rightarrow> string result
      \<Rightarrow> ('db open_store \<Rightarrow> run_request \<Rightarrow> file_sys \<Rightarrow> ((run_failure + run_result) \<times> file_sys) option)
      \<Rightarrow> (run_result \<Rightarrow> go_error option) \<Rightarrow> string list \<Rightarrow> file_sys \<Rightarrow> ((nat \<times> run_result) \<times> file_sys) option" where
  "run_main faults open_db getwd run write_failure args fs =
     (case parse_flags run_formal args default_request of
        Inl e \<Rightarrow> Some ((2, error_result ErrorConfig (err_text e)), fs)
      | Inr (rest, req) \<Rightarrow> run_command faults open_db getwd run write_failure req fs)"

record peek_flags =
  pf_session_id :: string
  pf_last :: int
  pf_log_backend :: string
  pf_log_path :: string
  pf_database_url :: string

definition default_peek_flags :: peek_flags where
  "default_peek_flags = \<lparr>pf_session_id = [], pf_last = 10, pf_log_backend = ''file'', pf_log_path = ''./logs'',
     pf_database_url = []\<rparr>"

definition peek_formal :: "(string \<times> peek_flags flag_value) list" where
  "peek_formal =
     [(''session-id'', StrFlag (\<lambda>v p. p\<lparr>pf_session_id := v\<rparr>)),
      (''last'', IntFlag (\<lambda>v p. p\<lparr>pf_last := v\<rparr>)),
      (''log-backend'', StrFlag (\<lambda>v p. p\<lparr>pf_log_backend := v\<rparr>)),
      (''log-path'', StrFlag (\<lambda>v p. p\<lparr>pf_log_path := v\<rparr>)),
      (''database-url'', StrFlag (\<lambda>v p. p\<lparr>pf_database_url := v\<rparr>))]"

definition peek_main ::
    "os_faults \<Rightarrow> (string \<Rightarrow> 'db result) \<Rightarrow> ('db open_store \<Rightarrow> string \<Rightarrow> int \<Rightarrow> file_sys \<Rightarrow> turn list result)
      \<Rightarrow> string list \<Rightarrow> file_sys \<Rightarrow> (nat \<times> peek_output) \<times> file_sys" where
  "peek_main faults open_db peek args fs =
     (case parse_flags peek_formal args default_peek_flags of
        Inl e \<Rightarrow> ((2, PeekError (error_result ErrorConfig (err_text e))), fs)
      | Inr (rest, p) \<Rightarrow>
          peek_command faults open_db peek (pf_session_id p) (pf_last p) (pf_log_backend p) (pf_log_path p)
            (pf_database_url p) fs)"

record serve_flags =
  sf_port :: int
  sf_log_path :: string
  sf_api_key :: string
  sf_cors_origin :: string

definition serve_formal :: "(string \<times> serve_flags flag_value) list" where
  "serve_formal =
     [(''port'', IntFlag (\<lambda>v s. s\<lparr>sf_port := v\<rparr>)),
      (''log-path'', StrFlag (\<lambda>v s. s\<lparr>sf_log_path := v\<rparr>)),
      (''api-key'', StrFlag (\<lambda>v s. s\<lparr>sf_api_key := v\<rparr>)),
      (''cors-origin'', StrFlag (\<lambda>v s. s\<lparr>sf_cors_origin := v\<rparr>))]"

definition serve_main ::
    "os_faults \<Rightarrow> (string \<Rightarrow> go_error option) \<Rightarrow> (serve_config \<Rightarrow> file_store \<Rightarrow> serve_end) \<Rightarrow> string list \<Rightarrow> file_sys
      \<Rightarrow> nat \<times> file_sys" where
  "serve_main faults listen serve args fs =
     (case parse_flags serve_formal args
         \<lparr>sf_port = 8080, sf_log_path = ''./logs'', sf_api_key = [], sf_cors_origin = []\<rparr> of
        Inl e \<Rightarrow> (2, fs)
      | Inr (rest, s) \<Rightarrow>
          serve_command faults listen serve (sf_port s) (sf_log_path s) (sf_api_key s) (sf_cors_origin s) fs)"

definition doctor_formal :: "(string \<times> string flag_value) list" where
  "doctor_formal = [(''provider'', StrFlag (\<lambda>v p. v))]"

definition doctor_main ::
    "(string \<Rightarrow> string) \<Rightarrow> (string \<Rightarrow> string result) \<Rightarrow> (string \<Rightarrow> string list \<Rightarrow> string \<times> go_error option) \<Rightarrow> (string \<Rightarrow> rtk_status)
      \<Rightarrow> string list \<Rightarrow> nat \<times> (run_result + doctor_report)" where
  "doctor_main getenv look_path combined_output rtk args =
     (case parse_flags doctor_formal args ''claude-code'' of
        Inl e \<Rightarrow> (2, Inl (error_result ErrorConfig (err_text e)))
      | Inr (rest, provider) \<Rightarrow>
          (let (code, report) = doctor_command getenv look_path combined_output rtk provider in (code, Inr report)))"

section \<open>Every configuration can be written on the command line\<close>

definition plain_flags :: "converse_flags \<Rightarrow> (string \<times> string) list" where
  "plain_flags f =
     [(''peer-a'', fl_peer_a f),
      (''peer-b'', fl_peer_b f),
      (''seed'', fl_seed f),
      (''seed-a'', fl_seed_a f),
      (''seed-b'', fl_seed_b f),
      (''opener'', fl_opener f),
      (''max-turns'', itoa (fl_max_turns f)),
      (''terminator'', fl_terminator f),
      (''sentinel'', fl_sentinel f),
      (''per-turn-timeout'', itoa (fl_per_turn_timeout f)),
      (''overall-timeout'', itoa (fl_overall_timeout f)),
      (''bus'', fl_bus f),
      (''log-backend'', fl_log_backend f),
      (''log-path'', fl_log_path f),
      (''working-directory'', fl_working_directory f),
      (''stream-turns'', if fl_stream_turns f then ''true'' else ''false''),
      (''style'', fl_style f)]"

definition render_converse :: "converse_flags \<Rightarrow> string list" where
  "render_converse f = map render_flag
     (plain_flags f @ map (\<lambda>(k, v). (''peer-a-opt'', k @ ''='' @ v)) (fl_peer_a_opts f)
      @ map (\<lambda>(k, v). (''peer-b-opt'', k @ ''='' @ v)) (fl_peer_b_opts f) @ map (Pair ''peer'') (fl_peers f))"

text \<open>Options as the flags can express them: distinct keys, not empty and without an equals sign.\<close>

definition opts_ok :: "str_map \<Rightarrow> bool" where
  "opts_ok m \<longleftrightarrow> distinct (map fst m) \<and> list_all (\<lambda>(k, v). k \<noteq> [] \<and> CHR ''='' \<notin> set k) m"

lemma converse_lookup:
  "map_of converse_formal ''peer-a'' = Some (StrFlag (\<lambda>v f. f\<lparr>fl_peer_a := v\<rparr>))"
  "map_of converse_formal ''peer-b'' = Some (StrFlag (\<lambda>v f. f\<lparr>fl_peer_b := v\<rparr>))"
  "map_of converse_formal ''seed'' = Some (StrFlag (\<lambda>v f. f\<lparr>fl_seed := v\<rparr>))"
  "map_of converse_formal ''seed-a'' = Some (StrFlag (\<lambda>v f. f\<lparr>fl_seed_a := v\<rparr>))"
  "map_of converse_formal ''seed-b'' = Some (StrFlag (\<lambda>v f. f\<lparr>fl_seed_b := v\<rparr>))"
  "map_of converse_formal ''opener'' = Some (StrFlag (\<lambda>v f. f\<lparr>fl_opener := v\<rparr>))"
  "map_of converse_formal ''max-turns'' = Some (IntFlag (\<lambda>v f. f\<lparr>fl_max_turns := v\<rparr>))"
  "map_of converse_formal ''terminator'' = Some (StrFlag (\<lambda>v f. f\<lparr>fl_terminator := v\<rparr>))"
  "map_of converse_formal ''sentinel'' = Some (StrFlag (\<lambda>v f. f\<lparr>fl_sentinel := v\<rparr>))"
  "map_of converse_formal ''per-turn-timeout'' = Some (IntFlag (\<lambda>v f. f\<lparr>fl_per_turn_timeout := v\<rparr>))"
  "map_of converse_formal ''overall-timeout'' = Some (IntFlag (\<lambda>v f. f\<lparr>fl_overall_timeout := v\<rparr>))"
  "map_of converse_formal ''bus'' = Some (StrFlag (\<lambda>v f. f\<lparr>fl_bus := v\<rparr>))"
  "map_of converse_formal ''log-backend'' = Some (StrFlag (\<lambda>v f. f\<lparr>fl_log_backend := v\<rparr>))"
  "map_of converse_formal ''log-path'' = Some (StrFlag (\<lambda>v f. f\<lparr>fl_log_path := v\<rparr>))"
  "map_of converse_formal ''working-directory'' = Some (StrFlag (\<lambda>v f. f\<lparr>fl_working_directory := v\<rparr>))"
  "map_of converse_formal ''stream-turns'' = Some (BoolFlag (\<lambda>v f. f\<lparr>fl_stream_turns := v\<rparr>))"
  "map_of converse_formal ''style'' = Some (StrFlag (\<lambda>v f. f\<lparr>fl_style := v\<rparr>))"
  "map_of converse_formal ''peer-a-opt'' = Some (VarFlag (\<lambda>v f. let (e, m) = repeatable_flag_set v (fl_peer_a_opts f) in (e, f\<lparr>fl_peer_a_opts := m\<rparr>)))"
  "map_of converse_formal ''peer-b-opt'' = Some (VarFlag (\<lambda>v f. let (e, m) = repeatable_flag_set v (fl_peer_b_opts f) in (e, f\<lparr>fl_peer_b_opts := m\<rparr>)))"
  "map_of converse_formal ''peer'' = Some (VarFlag (\<lambda>v f. (None, f\<lparr>fl_peers := string_slice_flag_set v (fl_peers f)\<rparr>)))"
  by (simp_all add: converse_formal_def)

lemma set_plain_flags:
  assumes "list_all (\<lambda>i. min_int64 \<le> i \<and> i \<le> max_int64) [fl_max_turns f, fl_per_turn_timeout f, fl_overall_timeout f]"
  shows "set_flags converse_formal (plain_flags f) g =
    Some (f\<lparr>fl_peer_a_opts := fl_peer_a_opts g, fl_peer_b_opts := fl_peer_b_opts g, fl_peers := fl_peers g\<rparr>)"
proof -
  have b: "parse_bool (if x then ''true'' else ''false'') = Some x" for x
    by (cases x) (simp_all add: parse_bool_def)
  have i: "parse_int0 (itoa (fl_max_turns f)) = Inr (fl_max_turns f)"
    "parse_int0 (itoa (fl_per_turn_timeout f)) = Inr (fl_per_turn_timeout f)"
    "parse_int0 (itoa (fl_overall_timeout f)) = Inr (fl_overall_timeout f)"
    using assms by (simp_all add: parse_int0_itoa)
  show ?thesis
    unfolding plain_flags_def set_flags.simps converse_lookup option.case set_flag.simps i b sum.case
    by (cases f, cases g) simp
qed

lemma repeatable_set_render:
  assumes "k \<noteq> []" and "CHR ''='' \<notin> set k"
  shows "repeatable_flag_set (k @ ''='' @ v) m = (None, map_put k v m)"
proof -
  have "str_index (k @ ''='' @ v) ''='' = Some (length k)"
    using assms(2) by (auto simp: str_index_Some_iff has_prefix_def drop_append nth_append
        in_set_conv_nth take_Suc_conv_app_nth hd_drop_conv_nth take_Suc hd_append)
  with assms(1) show ?thesis by (simp add: repeatable_flag_set_def)
qed

lemma set_opts_a:
  "opts_ok (fl_peer_a_opts g @ m) \<Longrightarrow>
     set_flags converse_formal (map (\<lambda>(k, v). (''peer-a-opt'', k @ ''='' @ v)) m) g =
       Some (g\<lparr>fl_peer_a_opts := fl_peer_a_opts g @ m\<rparr>)"
proof (induction m arbitrary: g)
  case (Cons kv m)
  obtain k v where kv: "kv = (k, v)" by (cases kv)
  with Cons.prems have k: "k \<noteq> []" "CHR ''='' \<notin> set k" "k \<notin> fst ` set (fl_peer_a_opts g)"
    by (auto simp: opts_ok_def)
  have "opts_ok (fl_peer_a_opts (g\<lparr>fl_peer_a_opts := fl_peer_a_opts g @ [kv]\<rparr>) @ m)"
    using Cons.prems by simp
  note IH = Cons.IH [OF this]
  show ?case
    using IH by (simp add: kv converse_lookup repeatable_set_render [OF k(1,2), simplified] map_put_new [simplified, OF k(3)])
qed simp

lemma set_opts_b:
  "opts_ok (fl_peer_b_opts g @ m) \<Longrightarrow>
     set_flags converse_formal (map (\<lambda>(k, v). (''peer-b-opt'', k @ ''='' @ v)) m) g =
       Some (g\<lparr>fl_peer_b_opts := fl_peer_b_opts g @ m\<rparr>)"
proof (induction m arbitrary: g)
  case (Cons kv m)
  obtain k v where kv: "kv = (k, v)" by (cases kv)
  with Cons.prems have k: "k \<noteq> []" "CHR ''='' \<notin> set k" "k \<notin> fst ` set (fl_peer_b_opts g)"
    by (auto simp: opts_ok_def)
  have "opts_ok (fl_peer_b_opts (g\<lparr>fl_peer_b_opts := fl_peer_b_opts g @ [kv]\<rparr>) @ m)"
    using Cons.prems by simp
  note IH = Cons.IH [OF this]
  show ?case
    using IH by (simp add: kv converse_lookup repeatable_set_render [OF k(1,2), simplified] map_put_new [simplified, OF k(3)])
qed simp

lemma set_peers:
  "set_flags converse_formal (map (Pair ''peer'') ps) g = Some (g\<lparr>fl_peers := fl_peers g @ ps\<rparr>)"
  by (induction ps arbitrary: g) (simp_all add: converse_lookup string_slice_flag_set_def)

lemma render_names_ok:
  "list_all (\<lambda>(n, v). flag_name_ok n) (plain_flags f)"
  "flag_name_ok ''peer-a-opt''" "flag_name_ok ''peer-b-opt''" "flag_name_ok ''peer''"
  by (simp_all add: plain_flags_def flag_name_ok_def)

lemma parse_render_converse:
  assumes "opts_ok (fl_peer_a_opts f)" and "opts_ok (fl_peer_b_opts f)"
    and "list_all (\<lambda>i. min_int64 \<le> i \<and> i \<le> max_int64) [fl_max_turns f, fl_per_turn_timeout f, fl_overall_timeout f]"
  shows "parse_flags converse_formal (render_converse f) default_flags = Inr ([], f)"
proof -
  have d: "fl_peer_a_opts default_flags = []" "fl_peer_b_opts default_flags = []" "fl_peers default_flags = []"
    by (simp_all add: default_flags_def)
  show ?thesis
    unfolding render_converse_def
  proof (rule parse_flags_render)
    show "list_all (\<lambda>(n, v). flag_name_ok n)
       (plain_flags f @ map (\<lambda>(k, v). (''peer-a-opt'', k @ ''='' @ v)) (fl_peer_a_opts f)
        @ map (\<lambda>(k, v). (''peer-b-opt'', k @ ''='' @ v)) (fl_peer_b_opts f) @ map (Pair ''peer'') (fl_peers f))"
      using render_names_ok by (auto simp: list_all_iff)
    show "set_flags converse_formal
       (plain_flags f @ map (\<lambda>(k, v). (''peer-a-opt'', k @ ''='' @ v)) (fl_peer_a_opts f)
        @ map (\<lambda>(k, v). (''peer-b-opt'', k @ ''='' @ v)) (fl_peer_b_opts f) @ map (Pair ''peer'') (fl_peers f))
       default_flags = Some f"
      using assms(1,2) by (simp add: set_flags_append set_plain_flags [OF assms(3)] d set_opts_a [simplified] set_opts_b [simplified] set_peers)
  qed
qed

text \<open>
  C39. Every configuration of \<open>vitis converse\<close> can be written on its command line: the flags printed
  one per argument are parsed back to exactly the same configuration, whatever texts the values
  hold (equals signs, dashes, quotes and line feeds included), if the integers have 64 bits and the
  option keys are distinct, not empty and without an equals sign.
\<close>

theorem converse_flags_roundtrip:
  assumes "opts_ok (fl_peer_a_opts f)" and "opts_ok (fl_peer_b_opts f)"
    and "list_all (\<lambda>i. min_int64 \<le> i \<and> i \<le> max_int64) [fl_max_turns f, fl_per_turn_timeout f, fl_overall_timeout f]"
  shows "parse_flags converse_formal (render_converse f) default_flags = Inr ([], f)"
  using assms by (rule parse_render_converse)

section \<open>Every command line\<close>

text \<open>
  C7. Every argument vector of \<open>vitis converse\<close>: it is either rejected with exit code 2 before
  anything is started, or the broker it describes returns without a panic, for every behaviour of
  peers, store, bus and terminator, after at most the requested number of turns, which is at
  most 500, with declared peers as speakers and addressees only; the exit code is then 1 if the
  store cannot be opened or the result not written, and otherwise tells whether the conversation
  came to an orderly end.
\<close>

theorem converse_command_line:
  assumes "\<And>w. fst (op_random ops w) \<noteq> None"
  shows "(\<exists>msg. converse_main stat open_store (\<lambda>d. fst (the (broker_run ops d w))) encode cid now args = (2, msg)) \<or>
    (\<exists>rest f d r w'. parse_flags converse_formal args default_flags = Inr (rest, f) \<and>
       converse_config stat cid now f = Inr d \<and> broker_run ops d w = Some (r, w') \<and>
       int (length (fr_turns r)) \<le> fl_max_turns f \<and> fl_max_turns f \<le> 500 \<and>
       (\<forall>t \<in> set (fr_turns r). ct_from_id t \<in> set (peer_ids d) \<and> ct_to_id t \<in> set (peer_ids d)) \<and>
       fst (converse_main stat open_store (\<lambda>d. fst (the (broker_run ops d w))) encode cid now args) =
         (if open_store (path_clean (fl_log_path f)) \<noteq> None \<or> encode r \<noteq> None then 1
          else converse_exit (conv_status (fr_conversation r))))"
proof (cases "parse_flags converse_formal args default_flags")
  case (Inl e)
  then show ?thesis by (simp add: converse_main_def)
next
  case (Inr x)
  obtain rest f where x: "x = (rest, f)" by (cases x)
  show ?thesis
  proof (cases "converse_config stat cid now f")
    case (Inl msg)
    with Inr x show ?thesis by (simp add: converse_main_def converse_command_config run_broker_def)
  next
    case cfg: (Inr d)
    obtain r w' where r: "broker_run ops d w = Some (r, w')" "int (length (fr_turns r)) \<le> fl_max_turns f"
      "fl_max_turns f \<le> 500"
      "\<forall>t \<in> set (fr_turns r). ct_from_id t \<in> set (peer_ids d) \<and> ct_to_id t \<in> set (peer_ids d)"
      using accepted_flags_run [OF cfg assms, of w] by blast
    moreover have "fst (converse_main stat open_store (\<lambda>d. fst (the (broker_run ops d w))) encode cid now args) =
        (if open_store (path_clean (fl_log_path f)) \<noteq> None \<or> encode r \<noteq> None then 1
         else converse_exit (conv_status (fr_conversation r)))"
      using Inr x cfg r(1) by (simp add: converse_main_def converse_command_config run_broker_def split: option.split)
    ultimately show ?thesis using Inr x cfg by blast
  qed
qed

section \<open>A concrete command line\<close>

lemma demo_flags_printable:
  "opts_ok (fl_peer_a_opts demo_flags)" "opts_ok (fl_peer_b_opts demo_flags)"
  "list_all (\<lambda>i. min_int64 \<le> i \<and> i \<le> max_int64)
    [fl_max_turns demo_flags, fl_per_turn_timeout demo_flags, fl_overall_timeout demo_flags]"
  by (simp_all add: demo_flags_def default_flags_def opts_ok_def min_int64_def max_int64_def)

theorem converse_flags_roundtrip_witness:
  "parse_flags converse_formal (render_converse demo_flags) default_flags = Inr ([], demo_flags)"
  by (rule converse_flags_roundtrip [OF demo_flags_printable])

theorem converse_command_line_witness:
  "\<exists>d r w'. converse_config (\<lambda>_. Inr True) ''c'' 1 demo_flags = Inr d \<and> broker_run quiet_ops d () = Some (r, w') \<and>
     int (length (fr_turns r)) \<le> 3 \<and>
     fst (converse_main (\<lambda>_. Inr True) (\<lambda>_. None) (\<lambda>d. fst (the (broker_run quiet_ops d ()))) (\<lambda>_. None) ''c'' 1
       (render_converse demo_flags)) = converse_exit (conv_status (fr_conversation r))"
proof -
  note p = parse_render_converse [OF demo_flags_printable]
  obtain d where d: "converse_config (\<lambda>_. Inr True) ''c'' 1 demo_flags = Inr d" using demo_flags_accepted by blast
  have m: "fl_max_turns demo_flags = 3" by (simp add: demo_flags_def)
  let ?main = "converse_main (\<lambda>_. Inr True) (\<lambda>_. None) (\<lambda>d. fst (the (broker_run quiet_ops d ()))) (\<lambda>_. None) ''c'' 1
       (render_converse demo_flags)"
  have "fst ?main \<noteq> 2" by (simp add: converse_main_def p converse_command_config run_broker_def d converse_exit_def Let_def)
  then have "?main \<noteq> (2, msg)" for msg by auto
  with converse_command_line [where ops = quiet_ops and w = "()" and stat = "\<lambda>_. Inr True" and open_store = "\<lambda>_. None"
      and encode = "\<lambda>_. None" and cid = "''c''" and now = 1 and args = "render_converse demo_flags", OF quiet_ready(2)]
  show ?thesis by (auto simp: p d m)
qed

end
