(* ===== verification/Postgres.thy ===== *)
theory Postgres
  imports Commands
begin

text \<open>
  The database store, \<open>src/internal/store/postgres/postgres_store.go\<close>.  The driver pgx and the
  server behind it are a parameter: a record of the calls the store makes, on a state of the
  server that is left open.  The SQL text of the source is kept as a value, statement by statement;
  what the driver and the server make of it enters the theorems as named hypotheses.  A Go value is
  bound to a parameter of a statement the way the driver documents it: a nil pointer is \<open>NULL\<close>, and
  the binding of a slice of strings, whose nil value is the empty list, is part of the driver.
\<close>

section \<open>Statements\<close>

datatype sql_value =
    SqlNull | SqlText string | SqlInt int | SqlFloat confidence | SqlTime go_time | SqlJson "string list"
  | SqlBytes string

record sql_column =
  col_name :: string
  col_type :: string
  col_not_null :: bool
  col_default :: "string option"

text \<open>
  The statements of the store: \<open>CREATE TABLE IF NOT EXISTS\<close> with its columns, primary key and
  foreign keys, \<open>CREATE [UNIQUE] INDEX\<close>, \<open>INSERT INTO table (columns) VALUES ($1, ...)\<close>,
  \<open>UPDATE table SET column = COALESCE($i, column), ... WHERE key = $1\<close> with the parameters from \<open>$2\<close>
  on, and \<open>SELECT columns FROM table WHERE key=$1 ORDER BY column DESC LIMIT $2\<close>.
\<close>

datatype sql =
    CreateTable string "sql_column list" string "(string \<times> string) list"
  | CreateIndex bool string string "string list"
  | InsertInto string "string list"
  | UpdateCoalesce string string "string list"
  | SelectDesc "string list" string string string

definition col :: "string \<Rightarrow> string \<Rightarrow> sql_column" where
  "col name type = \<lparr>col_name = name, col_type = type, col_not_null = False, col_default = None\<rparr>"

definition col_nn :: "string \<Rightarrow> string \<Rightarrow> sql_column" where
  "col_nn name type = (col name type)\<lparr>col_not_null := True\<rparr>"

definition migration_sql :: "sql list" where
  "migration_sql =
     [CreateTable ''sessions''
        [col ''session_id'' ''TEXT'', col_nn ''provider'' ''TEXT'', col_nn ''status'' ''TEXT'',
         col_nn ''started_at'' ''TIMESTAMPTZ'', col ''ended_at'' ''TIMESTAMPTZ'', col ''duration_ms'' ''BIGINT'',
         col ''exit_code'' ''INT'', col ''parser_confidence'' ''DOUBLE PRECISION'',
         col ''observation_confidence'' ''DOUBLE PRECISION'',
         (col_nn ''auth_mode'' ''TEXT'')\<lparr>col_default := Some ''unknown''\<rparr>,
         col ''blocked_reason'' ''TEXT'', col ''bytes_captured'' ''BIGINT'',
         (col_nn ''warnings'' ''JSONB'')\<lparr>col_default := Some ''[]''\<rparr>,
         col ''terminal_cols'' ''INT'', col ''terminal_rows'' ''INT'']
        ''session_id'' [],
      CreateTable ''turns''
        [col ''id'' ''BIGSERIAL'', col_nn ''session_id'' ''TEXT'', col_nn ''turn_index'' ''INT'',
         col_nn ''role'' ''TEXT'', col_nn ''content'' ''TEXT'', col_nn ''created_at'' ''TIMESTAMPTZ'']
        ''id'' [(''session_id'', ''sessions'')],
      CreateIndex True ''turns_session_turn_index_unique'' ''turns'' [''session_id'', ''turn_index''],
      CreateTable ''stream_events''
        [col ''id'' ''BIGSERIAL'', col_nn ''session_id'' ''TEXT'', col_nn ''timestamp'' ''TIMESTAMPTZ'',
         col_nn ''kind'' ''TEXT'', col_nn ''chunk_raw'' ''BYTEA'', col ''chunk_text'' ''TEXT'',
         (col_nn ''chunk_encoding'' ''TEXT'')\<lparr>col_default := Some ''raw''\<rparr>]
        ''id'' [(''session_id'', ''sessions'')],
      CreateIndex False ''stream_events_session_timestamp_index'' ''stream_events'' [''session_id'', ''timestamp'']]"

text \<open>The columns of a table that the migration declares \<open>NOT NULL\<close>.\<close>

definition not_null_columns :: "sql list \<Rightarrow> string \<Rightarrow> string list" where
  "not_null_columns stmts table =
     concat (map (\<lambda>s. case s of
       CreateTable t cols _ _ \<Rightarrow> if t = table then map col_name (filter col_not_null cols) else []
     | _ \<Rightarrow> []) stmts)"

section \<open>The store\<close>

record 'd pgx =
  drv_connect :: "string \<Rightarrow> 'd \<Rightarrow> go_error option \<times> 'd"
  drv_migrate :: "sql list \<Rightarrow> 'd \<Rightarrow> go_error option \<times> 'd"
  drv_exec :: "sql \<Rightarrow> sql_value list \<Rightarrow> 'd \<Rightarrow> go_error option \<times> 'd"
  drv_query :: "sql \<Rightarrow> sql_value list \<Rightarrow> 'd \<Rightarrow> (sql_value list list \<times> go_error option) result"
  drv_close :: "'d \<Rightarrow> 'd"
  drv_strings :: "string list \<Rightarrow> sql_value"
  drv_scan_error :: go_error

definition bind_opt :: "('a \<Rightarrow> sql_value) \<Rightarrow> 'a option \<Rightarrow> sql_value" where
  "bind_opt f x = (case x of None \<Rightarrow> SqlNull | Some v \<Rightarrow> f v)"

definition pg_new :: "'d pgx \<Rightarrow> string \<Rightarrow> 'd \<Rightarrow> go_error option \<times> 'd" where
  "pg_new px database_url d =
     (case drv_connect px database_url d of
        (Some e, d1) \<Rightarrow> (Some (ErrWrap ''connect postgres: '' e), d1)
      | (None, d1) \<Rightarrow>
         (case drv_migrate px migration_sql d1 of
            (Some e, d2) \<Rightarrow> (Some (ErrWrap ''apply migrations: '' e), drv_close px d2)
          | (None, d2) \<Rightarrow> (None, d2)))"

definition session_columns :: "string list" where
  "session_columns =
     [''session_id'', ''provider'', ''status'', ''started_at'', ''ended_at'', ''duration_ms'', ''exit_code'',
      ''parser_confidence'', ''observation_confidence'', ''auth_mode'', ''blocked_reason'', ''bytes_captured'',
      ''warnings'', ''terminal_cols'', ''terminal_rows'']"

definition session_args :: "(string list \<Rightarrow> sql_value) \<Rightarrow> session \<Rightarrow> sql_value list" where
  "session_args strings s =
     [SqlText (ses_id s), SqlText (ses_provider s), SqlText (ses_status s), SqlTime (ses_started_at s),
      bind_opt SqlTime (ses_ended_at s), bind_opt SqlInt (ses_duration_ms s), bind_opt SqlInt (ses_exit_code s),
      bind_opt SqlFloat (ses_parser_confidence s), bind_opt SqlFloat (ses_observation_confidence s),
      SqlText (ses_auth_mode s), bind_opt SqlText (ses_blocked_reason s), bind_opt SqlInt (ses_bytes_captured s),
      strings (ses_warnings s), bind_opt SqlInt (ses_terminal_cols s), bind_opt SqlInt (ses_terminal_rows s)]"

definition pg_create_session :: "'d pgx \<Rightarrow> session \<Rightarrow> 'd \<Rightarrow> go_error option \<times> 'd" where
  "pg_create_session px s d =
     drv_exec px (InsertInto ''sessions'' session_columns) (session_args (drv_strings px) s) d"

definition update_columns :: "string list" where
  "update_columns =
     [''status'', ''ended_at'', ''duration_ms'', ''exit_code'', ''parser_confidence'', ''observation_confidence'',
      ''auth_mode'', ''blocked_reason'', ''bytes_captured'', ''warnings'', ''terminal_cols'', ''terminal_rows'']"

definition update_args :: "(string list \<Rightarrow> sql_value) \<Rightarrow> session_patch \<Rightarrow> sql_value list" where
  "update_args strings p =
     [bind_opt SqlText (sp_status p), bind_opt SqlTime (sp_ended_at p), bind_opt SqlInt (sp_duration_ms p),
      bind_opt SqlInt (sp_exit_code p), bind_opt SqlFloat (sp_parser_confidence p),
      bind_opt SqlFloat (sp_observation_confidence p), bind_opt SqlText (sp_auth_mode p),
      bind_opt SqlText (sp_blocked_reason p), bind_opt SqlInt (sp_bytes_captured p),
      strings (case sp_warnings p of None \<Rightarrow> [] | Some ws \<Rightarrow> ws),
      bind_opt SqlInt (sp_terminal_cols p), bind_opt SqlInt (sp_terminal_rows p)]"

definition pg_update_session :: "'d pgx \<Rightarrow> string \<Rightarrow> session_patch \<Rightarrow> 'd \<Rightarrow> go_error option \<times> 'd" where
  "pg_update_session px sid p d =
     drv_exec px (UpdateCoalesce ''sessions'' ''session_id'' update_columns)
       (SqlText sid # update_args (drv_strings px) p) d"

definition turn_columns :: "string list" where
  "turn_columns = [''session_id'', ''turn_index'', ''role'', ''content'', ''created_at'']"

definition turn_args :: "turn \<Rightarrow> sql_value list" where
  "turn_args t = [SqlText (tn_session_id t), SqlInt (tn_index t), SqlText (tn_role t), SqlText (tn_content t),
     SqlTime (tn_created_at t)]"

definition pg_append_turn :: "'d pgx \<Rightarrow> turn \<Rightarrow> 'd \<Rightarrow> go_error option \<times> 'd" where
  "pg_append_turn px t d = drv_exec px (InsertInto ''turns'' turn_columns) (turn_args t) d"

text \<open>\<open>rows.Scan\<close> into the fields of a turn: a column of another type is an error.\<close>

fun scan_turn :: "go_error \<Rightarrow> sql_value list \<Rightarrow> turn result" where
  "scan_turn err [SqlText sid, SqlInt idx, SqlText role, SqlText content, SqlTime at] =
     Inr \<lparr>tn_session_id = sid, tn_index = idx, tn_role = role, tn_content = content, tn_created_at = at\<rparr>"
| "scan_turn err row = Inl err"

fun scan_turns :: "go_error \<Rightarrow> sql_value list list \<Rightarrow> turn list result" where
  "scan_turns err [] = Inr []"
| "scan_turns err (row # rows) =
     (case scan_turn err row of
        Inl e \<Rightarrow> Inl e
      | Inr t \<Rightarrow> (case scan_turns err rows of Inl e \<Rightarrow> Inl e | Inr ts \<Rightarrow> Inr (t # ts)))"

text \<open>
  \<open>PeekTurns\<close>; \<open>None\<close> is the panic of \<open>make\<close> when the capacity asked for is larger than \<open>max_cap\<close>,
  the largest one of a slice of turns.
\<close>

definition pg_peek_turns :: "int \<Rightarrow> 'd pgx \<Rightarrow> string \<Rightarrow> int \<Rightarrow> 'd \<Rightarrow> turn list result option" where
  "pg_peek_turns max_cap px sid n d =
     (let n = (if n \<le> 0 then 10 else n) in
      case drv_query px (SelectDesc turn_columns ''turns'' ''session_id'' ''turn_index'') [SqlText sid, SqlInt n] d of
        Inl e \<Rightarrow> Some (Inl e)
      | Inr (rows, rows_err) \<Rightarrow>
         (if n > max_cap then None
          else case scan_turns (drv_scan_error px) rows of
            Inl e \<Rightarrow> Some (Inl e)
          | Inr ts \<Rightarrow> (case rows_err of Some e \<Rightarrow> Some (Inl e) | None \<Rightarrow> Some (Inr (rev ts)))))"

definition event_columns :: "string list" where
  "event_columns = [''session_id'', ''timestamp'', ''kind'', ''chunk_raw'', ''chunk_text'', ''chunk_encoding'']"

definition event_args :: "stored_stream_event \<Rightarrow> sql_value list" where
  "event_args ev = [SqlText (sse_session_id ev), SqlTime (sse_timestamp ev),
     SqlText (stream_event_kind_str (sse_kind ev)), SqlBytes (sse_data ev), SqlText (sse_data ev), SqlText ''raw'']"

definition pg_append_stream_event :: "'d pgx \<Rightarrow> stored_stream_event \<Rightarrow> 'd \<Rightarrow> go_error option \<times> 'd" where
  "pg_append_stream_event px ev d = drv_exec px (InsertInto ''stream_events'' event_columns) (event_args ev) d"

definition pg_close :: "'d pgx \<Rightarrow> 'd \<Rightarrow> go_error option \<times> 'd" where
  "pg_close px d = (None, drv_close px d)"

text \<open>The operations on conversations and the listings are not implemented.\<close>

definition not_in_m1 :: "string \<Rightarrow> go_error" where
  "not_in_m1 name = ErrMsg (''postgres backend: '' @ name @ '' not implemented in M1 (plan 3 adds it)'')"

definition pg_create_conversation :: "conversation \<Rightarrow> 'd \<Rightarrow> go_error option \<times> 'd" where
  "pg_create_conversation c d = (Some (not_in_m1 ''CreateConversation''), d)"

definition pg_update_conversation :: "string \<Rightarrow> conversation_patch \<Rightarrow> 'd \<Rightarrow> go_error option \<times> 'd" where
  "pg_update_conversation cid p d = (Some (not_in_m1 ''UpdateConversation''), d)"

definition pg_append_conversation_turn :: "conversation_turn \<Rightarrow> 'd \<Rightarrow> go_error option \<times> 'd" where
  "pg_append_conversation_turn t d = (Some (not_in_m1 ''AppendConversationTurn''), d)"

definition pg_peek_conversation_turns :: "string \<Rightarrow> int \<Rightarrow> 'd \<Rightarrow> conversation_turn list result" where
  "pg_peek_conversation_turns cid n d = Inl (not_in_m1 ''PeekConversationTurns'')"

definition pg_list_sessions :: "session_filter \<Rightarrow> 'd \<Rightarrow> (session list \<times> int) result" where
  "pg_list_sessions f d = Inl (ErrMsg ''not implemented'')"

definition pg_list_conversations :: "conversation_filter \<Rightarrow> 'd \<Rightarrow> (conversation list \<times> int) result" where
  "pg_list_conversations f d = Inl (ErrMsg ''not implemented'')"

definition pg_get_session :: "string \<Rightarrow> 'd \<Rightarrow> session option result" where
  "pg_get_session sid d = Inl (ErrMsg ''not implemented'')"

definition pg_get_conversation :: "string \<Rightarrow> 'd \<Rightarrow> conversation option result" where
  "pg_get_conversation cid d = Inl (ErrMsg ''not implemented'')"

section \<open>Updating a row is patching a session\<close>

text \<open>The row of a session as the insert writes it, and what \<open>COALESCE\<close> makes of a row.\<close>

definition session_row :: "(string list \<Rightarrow> sql_value) \<Rightarrow> session \<Rightarrow> string \<Rightarrow> sql_value option" where
  "session_row strings s = map_of (zip session_columns (session_args strings s))"

definition coalesce_row ::
    "string list \<Rightarrow> sql_value list \<Rightarrow> (string \<Rightarrow> sql_value option) \<Rightarrow> string \<Rightarrow> sql_value option" where
  "coalesce_row cols vals row = (\<lambda>c. case map_of (zip cols vals) c of
     None \<Rightarrow> row c
   | Some v \<Rightarrow> if v = SqlNull then row c else Some v)"

lemma coalesce_opt:
  "(\<And>v. f v \<noteq> SqlNull) \<Longrightarrow>
     (if bind_opt f p = SqlNull then Some (bind_opt f x) else Some (bind_opt f p)) = Some (bind_opt f (patch_opt p x))"
  by (cases p) (auto simp: bind_opt_def patch_opt_def)

lemma coalesce_val:
  "(\<And>v. f v \<noteq> SqlNull) \<Longrightarrow>
     (if bind_opt f p = SqlNull then Some (f x) else Some (bind_opt f p)) = Some (f (patch_val p x))"
  by (cases p) (auto simp: bind_opt_def patch_val_def)

lemma session_row_columns:
  "session_row strings s ''session_id'' = Some (SqlText (ses_id s))"
  "session_row strings s ''provider'' = Some (SqlText (ses_provider s))"
  "session_row strings s ''status'' = Some (SqlText (ses_status s))"
  "session_row strings s ''started_at'' = Some (SqlTime (ses_started_at s))"
  "session_row strings s ''ended_at'' = Some (bind_opt SqlTime (ses_ended_at s))"
  "session_row strings s ''duration_ms'' = Some (bind_opt SqlInt (ses_duration_ms s))"
  "session_row strings s ''exit_code'' = Some (bind_opt SqlInt (ses_exit_code s))"
  "session_row strings s ''parser_confidence'' = Some (bind_opt SqlFloat (ses_parser_confidence s))"
  "session_row strings s ''observation_confidence'' = Some (bind_opt SqlFloat (ses_observation_confidence s))"
  "session_row strings s ''auth_mode'' = Some (SqlText (ses_auth_mode s))"
  "session_row strings s ''blocked_reason'' = Some (bind_opt SqlText (ses_blocked_reason s))"
  "session_row strings s ''bytes_captured'' = Some (bind_opt SqlInt (ses_bytes_captured s))"
  "session_row strings s ''warnings'' = Some (strings (ses_warnings s))"
  "session_row strings s ''terminal_cols'' = Some (bind_opt SqlInt (ses_terminal_cols s))"
  "session_row strings s ''terminal_rows'' = Some (bind_opt SqlInt (ses_terminal_rows s))"
  by (simp_all add: session_row_def session_columns_def session_args_def)

lemma update_row_columns:
  "map_of (zip update_columns (update_args strings p)) ''session_id'' = None"
  "map_of (zip update_columns (update_args strings p)) ''provider'' = None"
  "map_of (zip update_columns (update_args strings p)) ''status'' = Some (bind_opt SqlText (sp_status p))"
  "map_of (zip update_columns (update_args strings p)) ''started_at'' = None"
  "map_of (zip update_columns (update_args strings p)) ''ended_at'' = Some (bind_opt SqlTime (sp_ended_at p))"
  "map_of (zip update_columns (update_args strings p)) ''duration_ms'' = Some (bind_opt SqlInt (sp_duration_ms p))"
  "map_of (zip update_columns (update_args strings p)) ''exit_code'' = Some (bind_opt SqlInt (sp_exit_code p))"
  "map_of (zip update_columns (update_args strings p)) ''parser_confidence'' = Some (bind_opt SqlFloat (sp_parser_confidence p))"
  "map_of (zip update_columns (update_args strings p)) ''observation_confidence'' = Some (bind_opt SqlFloat (sp_observation_confidence p))"
  "map_of (zip update_columns (update_args strings p)) ''auth_mode'' = Some (bind_opt SqlText (sp_auth_mode p))"
  "map_of (zip update_columns (update_args strings p)) ''blocked_reason'' = Some (bind_opt SqlText (sp_blocked_reason p))"
  "map_of (zip update_columns (update_args strings p)) ''bytes_captured'' = Some (bind_opt SqlInt (sp_bytes_captured p))"
  "map_of (zip update_columns (update_args strings p)) ''warnings'' = Some (strings (case sp_warnings p of None \<Rightarrow> [] | Some ws \<Rightarrow> ws))"
  "map_of (zip update_columns (update_args strings p)) ''terminal_cols'' = Some (bind_opt SqlInt (sp_terminal_cols p))"
  "map_of (zip update_columns (update_args strings p)) ''terminal_rows'' = Some (bind_opt SqlInt (sp_terminal_rows p))"
  by (simp_all add: update_columns_def update_args_def)

lemma patched_fields:
  "ses_id (apply_session_patch p s) = ses_id s" "ses_provider (apply_session_patch p s) = ses_provider s"
  "ses_started_at (apply_session_patch p s) = ses_started_at s"
  "ses_status (apply_session_patch p s) = patch_val (sp_status p) (ses_status s)"
  "ses_ended_at (apply_session_patch p s) = patch_opt (sp_ended_at p) (ses_ended_at s)"
  "ses_duration_ms (apply_session_patch p s) = patch_opt (sp_duration_ms p) (ses_duration_ms s)"
  "ses_exit_code (apply_session_patch p s) = patch_opt (sp_exit_code p) (ses_exit_code s)"
  "ses_parser_confidence (apply_session_patch p s) = patch_opt (sp_parser_confidence p) (ses_parser_confidence s)"
  "ses_observation_confidence (apply_session_patch p s) =
     patch_opt (sp_observation_confidence p) (ses_observation_confidence s)"
  "ses_auth_mode (apply_session_patch p s) = patch_val (sp_auth_mode p) (ses_auth_mode s)"
  "ses_blocked_reason (apply_session_patch p s) = patch_opt (sp_blocked_reason p) (ses_blocked_reason s)"
  "ses_bytes_captured (apply_session_patch p s) = patch_opt (sp_bytes_captured p) (ses_bytes_captured s)"
  "ses_warnings (apply_session_patch p s) = patch_val (sp_warnings p) (ses_warnings s)"
  "ses_terminal_cols (apply_session_patch p s) = patch_opt (sp_terminal_cols p) (ses_terminal_cols s)"
  "ses_terminal_rows (apply_session_patch p s) = patch_opt (sp_terminal_rows p) (ses_terminal_rows s)"
  by (simp_all add: apply_session_patch_def)

lemma coalesce_row_None:
  "c \<notin> set session_columns \<Longrightarrow> session_row strings s c = None"
  "c \<notin> set session_columns \<Longrightarrow> map_of (zip update_columns (update_args strings p)) c = None"
proof -
  assume c: "c \<notin> set session_columns"
  then show "session_row strings s c = None"
    by (simp add: session_row_def map_of_eq_None_iff) (auto dest: set_zip_leftD)
  have "set update_columns \<subseteq> set session_columns" by (simp add: update_columns_def session_columns_def)
  with c have "c \<notin> set update_columns" by blast
  then show "map_of (zip update_columns (update_args strings p)) c = None"
    by (simp add: map_of_eq_None_iff) (auto dest: set_zip_leftD)
qed

text \<open>
  C20. The update statement implements the patch: applied to the row that \<open>CreateSession\<close> wrote for a
  session, the columns and parameters of \<open>UpdateSession\<close> give exactly the row of the patched
  session, the one the file store computes in memory. Column lists and parameter lists agree in
  order in both statements, and a field the patch leaves open keeps its value.
\<close>

theorem pg_update_refines:
  assumes "strings [] = SqlNull" and "\<forall>ws. ws \<noteq> [] \<longrightarrow> strings ws \<noteq> SqlNull" and "sp_warnings p \<noteq> Some []"
  shows "coalesce_row update_columns (update_args strings p) (session_row strings s) =
    session_row strings (apply_session_patch p s)"
proof (rule ext)
  fix c
  have w: "(if strings (case sp_warnings p of None \<Rightarrow> [] | Some ws \<Rightarrow> ws) = SqlNull then Some (strings (ses_warnings s))
      else Some (strings (case sp_warnings p of None \<Rightarrow> [] | Some ws \<Rightarrow> ws))) =
      Some (strings (patch_val (sp_warnings p) (ses_warnings s)))"
    using assms by (cases "sp_warnings p") (auto simp: patch_val_def)
  show "coalesce_row update_columns (update_args strings p) (session_row strings s) c =
      session_row strings (apply_session_patch p s) c"
  proof (cases "c \<in> set session_columns")
    case True
    then have "c = ''session_id'' \<or> c = ''provider'' \<or> c = ''status'' \<or> c = ''started_at'' \<or> c = ''ended_at'' \<or>
      c = ''duration_ms'' \<or> c = ''exit_code'' \<or> c = ''parser_confidence'' \<or> c = ''observation_confidence'' \<or>
      c = ''auth_mode'' \<or> c = ''blocked_reason'' \<or> c = ''bytes_captured'' \<or> c = ''warnings'' \<or>
      c = ''terminal_cols'' \<or> c = ''terminal_rows''"
      unfolding session_columns_def list.set insert_iff empty_iff simp_thms .
    then show ?thesis
      unfolding coalesce_row_def
      by (elim disjE; simp only: session_row_columns update_row_columns option.case patched_fields w;
          intro coalesce_opt coalesce_val; simp)
  next
    case False
    then show ?thesis by (simp add: coalesce_row_def coalesce_row_None)
  qed
qed

section \<open>Peeking\<close>

lemma scan_turn_args: "scan_turn err (turn_args t) = Inr t"
  by (simp add: turn_args_def)

lemma scan_turns_args: "scan_turns err (map turn_args ts) = Inr ts"
  by (induction ts) (simp_all add: scan_turn_args)

lemma rev_take_rev: "0 < k \<Longrightarrow> rev (take (nat k) (rev xs)) = last_n k xs"
  by (auto simp: last_n_def take_rev)

lemma pg_peek_rows:
  assumes "drv_query px (SelectDesc turn_columns ''turns'' ''session_id'' ''turn_index'')
      [SqlText sid, SqlInt (if n \<le> 0 then 10 else n)] d = Inr (map turn_args rows, None)"
    and "(if n \<le> 0 then 10 else n) \<le> max_cap"
  shows "pg_peek_turns max_cap px sid n d = Some (Inr (rev rows))"
  using assms by (simp add: pg_peek_turns_def Let_def scan_turns_args)

text \<open>
  C40. Both backends show the same turns: if the server holds the turns of a session that a file store
  holds, and answers the query of \<open>PeekTurns\<close> with the rows of the session in descending order of
  their index, at most as many as the limit, then \<open>PeekTurns\<close> of the database store gives what the
  file store gives, in ascending order, for every positive number of turns; without one the
  database store gives the last ten turns and the file store all of them.
\<close>

theorem pg_peek_agrees:
  assumes "\<And>key xs. mset (srt key xs) = mset xs" "\<And>key xs. sorted (map key (srt key xs))"
    and "peek_turns faults srt s sid n fs = Inr xs"
    and "session_log s fs sid = map (Some \<circ> valid_session_turn) ts" and "sorted_wrt (<) (map tn_index ts)"
    and "\<And>k. 0 < k \<Longrightarrow> drv_query px (SelectDesc turn_columns ''turns'' ''session_id'' ''turn_index'') [SqlText sid, SqlInt k] d =
      Inr (map turn_args (take (nat k) (rev (map valid_session_turn ts))), None)"
    and "10 \<le> max_cap" and "n \<le> max_cap"
  shows "pg_peek_turns max_cap px sid n d = Some (Inr (if 0 < n then xs else last_n 10 xs))"
proof -
  let ?k = "if n \<le> 0 then 10 else n" and ?ts = "map valid_session_turn ts"
  have xs: "xs = last_n n ?ts"
    by (rule peek_session_log [OF slice_sort.intro [OF assms(1,2)] assms(3,4,5)])
  have "pg_peek_turns max_cap px sid n d = Some (Inr (rev (take (nat ?k) (rev ?ts))))"
    by (rule pg_peek_rows) (use assms(6) [of ?k] assms(7,8) in auto)
  moreover have "rev (take (nat ?k) (rev ?ts)) = last_n ?k ?ts" by (rule rev_take_rev) simp
  moreover have "last_n ?k ?ts = (if 0 < n then xs else last_n 10 xs)"
    unfolding xs by (simp add: last_n_def)
  ultimately show ?thesis by (simp only:)
qed

section \<open>Runs over the database\<close>

text \<open>
  What \<open>vitis run\<close> does with the opened database store, for the commands of theory \<open>Commands\<close>; the
  panic of a peek has no place in the result of a run, so the peek is a parameter.
\<close>

definition pg_run ::
    "'d pgx \<Rightarrow> (string \<Rightarrow> int \<Rightarrow> 'd \<Rightarrow> turn list result) \<Rightarrow> 'v run_ops \<Rightarrow> registry \<Rightarrow> loop_wake list \<Rightarrow> 'v
      \<Rightarrow> 'd \<Rightarrow> run_request \<Rightarrow> file_sys \<Rightarrow> ((run_failure + run_result) \<times> file_sys) option" where
  "pg_run px peek base reg wakes v d req fs =
     map_option (\<lambda>(outcome, w). (outcome, fs))
       (orchestrator_run (store_ops (pg_create_session px) (pg_update_session px) (pg_append_turn px) peek
          (pg_append_stream_event px) base) reg req wakes (d, v))"

lemma warnings_not_null: "''warnings'' \<in> set (not_null_columns migration_sql ''sessions'')"
  by (simp add: not_null_columns_def migration_sql_def col_nn_def col_def)

lemma build_session_warnings: "build_session ops prov r env home prompt w = (Inr (ses, spec), w') \<Longrightarrow> ses_warnings ses = []"
  by (auto simp: build_session_def Let_def split: prod.splits sum.splits)

lemma session_args_warnings: "(''warnings'', strings (ses_warnings s)) \<in> set (zip session_columns (session_args strings s))"
  by (simp add: session_columns_def session_args_def)

lemma orchestrator_create_fails:
  assumes "\<And>ses w. ses_warnings ses = [] \<Longrightarrow> fst (ro_create_session ops ses w) \<noteq> None"
  shows "\<exists>f w'. orchestrator_run ops reg req wakes w = Some (Inl f, w')"
proof -
  have "\<exists>f w'. (case build_session ops prov r env home prompt w of
      (Inl e, w1) \<Rightarrow> Some (Inl (fail ErrorInternal (err_text e)), w1)
    | (Inr (ses, spec), w1) \<Rightarrow>
       (case ro_spawn ops spec w1 of
          (Some e, w2) \<Rightarrow> Some (Inl (fail ErrorSpawn (err_text e)), w2)
        | (None, w2) \<Rightarrow>
           (case ro_create_session ops ses w2 of
              (Some e, w3) \<Rightarrow> Some (Inl (fail ErrorStore (''create session: '' @ err_text e)), ro_terminate ops 500 w3)
            | (None, w3) \<Rightarrow> drive_session ops prov r prompt ses spec wakes w3))) = Some (Inl f, w')"
    for prov r env home prompt
  proof (cases "build_session ops prov r env home prompt w")
    case (Pair b w1)
    show ?thesis
    proof (cases b)
      case (Inr x)
      obtain ses spec where x: "x = (ses, spec)" by (cases x)
      with Pair Inr have "build_session ops prov r env home prompt w = (Inr (ses, spec), w1)" by simp
      then have "ses_warnings ses = []" by (rule build_session_warnings)
      note create = assms [OF this]
      obtain e w2 where sp: "ro_spawn ops spec w1 = (e, w2)" by (cases "ro_spawn ops spec w1")
      obtain e' w3 where "ro_create_session ops ses w2 = (Some e', w3)"
        using create [of w2] by (cases "ro_create_session ops ses w2") auto
      with Pair Inr x sp show ?thesis by (cases e) simp_all
    qed (simp add: Pair)
  qed
  then show ?thesis
    unfolding orchestrator_run_def Let_def
    by (auto split: option.split sum.split)
qed

text \<open>
  C19. \<open>vitis run\<close> with the database backend never records a run: the driver binds a nil slice as
  \<open>NULL\<close>, the migration declares the column for the warnings \<open>NOT NULL\<close>, and the session of a run is
  created with nil warnings. If the server rejects an insert that writes \<open>NULL\<close> to a column declared
  \<open>NOT NULL\<close>, then every such run ends at once with an error on its output and a nonzero exit code,
  whatever terminal, adapter and server do otherwise.
\<close>

theorem db_run_fails:
  assumes "drv_strings px [] = SqlNull"
    and "\<And>table cols vals c d. c \<in> set (not_null_columns migration_sql table) \<Longrightarrow> (c, SqlNull) \<in> set (zip cols vals) \<Longrightarrow>
      fst (drv_exec px (InsertInto table cols) vals d) \<noteq> None"
    and "rq_log_backend req = ''db''"
  shows "\<exists>code res fs'. run_command faults open_db getwd
      (orchestrate faults text_len srt base reg wakes v (pg_run px peek base reg wakes v)) write_failure req fs =
      Some ((code, res), fs') \<and> code \<noteq> 0 \<and> rr_error res \<noteq> None"
proof -
  have create: "fst (pg_create_session px ses d) \<noteq> None" if "ses_warnings ses = []" for ses d
    using assms(2) [OF warnings_not_null] session_args_warnings [of "drv_strings px" ses] that assms(1)
    by (simp add: pg_create_session_def)
  let ?ops = "store_ops (pg_create_session px) (pg_update_session px) (pg_append_turn px) peek (pg_append_stream_event px) base"
  have "fst (ro_create_session ?ops ses w) \<noteq> None" if "ses_warnings ses = []" for ses w
    using create [OF that, of "fst w"] by (cases w) (auto simp: store_ops_def split: prod.splits)
  note fails = orchestrator_create_fails [where ops = ?ops, OF this]
  have run: "\<exists>f. pg_run px peek base reg wakes v d r fs1 = Some (Inl f, fs1)" for d r fs1
    using fails [of reg r wakes "(d, v)"] by (auto simp: pg_run_def)
  have open_it: "build_store faults open_db ''db'' (rq_log_path req) (rq_database_url req) (rq_debug_raw req) fs =
      ((case open_db (rq_database_url req) of Inl e \<Rightarrow> Inl e | Inr db \<Rightarrow> Inr (DbBackend db)), fs)"
    by (simp add: build_store_def)
  show ?thesis
  proof (cases "run_flag_error req")
    case None
    show ?thesis
    proof (cases "open_db (rq_database_url req)")
      case (Inl e)
      with None show ?thesis by (simp add: run_command_def assms(3) open_it error_result_def)
    next
      case (Inr db)
      obtain f where "pg_run px peek base reg wakes v db (default_cwd getwd req) fs = Some (Inl f, fs)" using run by blast
      with None Inr show ?thesis
        by (cases f) (simp_all add: run_command_def assms(3) open_it orchestrate_def failure_result_def error_result_def)
    qed
  qed (simp add: run_command_def error_result_def)
qed

section \<open>A concrete server\<close>

text \<open>A server that checks \<open>NOT NULL\<close> on inserts and holds two turns of one session.\<close>

definition demo_session_turn :: "int \<Rightarrow> turn" where
  "demo_session_turn i = \<lparr>tn_session_id = ''s'', tn_index = i, tn_role = ''user'', tn_content = ''hi'', tn_created_at = 1\<rparr>"

definition demo_pgx :: "unit pgx" where
  "demo_pgx =
     \<lparr>drv_connect = (\<lambda>url d. (None, d)), drv_migrate = (\<lambda>stmts d. (None, d)),
      drv_exec = (\<lambda>stmt vals d. (case stmt of
         InsertInto table cols \<Rightarrow>
           (if list_ex (\<lambda>c. (c, SqlNull) \<in> set (zip cols vals)) (not_null_columns migration_sql table)
            then Some (ErrMsg ''null value in column'') else None)
       | _ \<Rightarrow> None, d)),
      drv_query = (\<lambda>stmt vals d. (case vals of
         [_, SqlInt k] \<Rightarrow> Inr (map turn_args (take (nat k) [demo_session_turn 1, demo_session_turn 0]), None)
       | _ \<Rightarrow> Inr ([], None))),
      drv_close = (\<lambda>d. d), drv_strings = (\<lambda>ws. if ws = [] then SqlNull else SqlJson ws),
      drv_scan_error = ErrMsg ''scan''\<rparr>"

definition db_request :: run_request where
  "db_request = demo_request\<lparr>rq_log_backend := ''db'', rq_database_url := ''postgres://x''\<rparr>"

theorem db_run_fails_witness:
  "\<exists>code res fs'. run_command no_faults (\<lambda>_. Inr ()) (Inr ''/w'')
      (orchestrate no_faults (\<lambda>_. 100) sort_key healthy_ops
        (new_registry [claude_adapter (\<lambda>_. []), codex_adapter (\<lambda>_. [])]) [WakeCtxDone] ()
        (pg_run demo_pgx (\<lambda>_ _ _. Inr []) healthy_ops
          (new_registry [claude_adapter (\<lambda>_. []), codex_adapter (\<lambda>_. [])]) [WakeCtxDone] ()))
      (\<lambda>_. None) db_request empty_fs = Some ((code, res), fs') \<and> code \<noteq> 0 \<and> rr_error res \<noteq> None"
  by (rule db_run_fails) (auto simp: demo_pgx_def db_request_def list_ex_iff)

definition demo_session :: session where
  "demo_session = \<lparr>ses_id = ''s'', ses_provider = ''codex'', ses_status = RunRunning, ses_started_at = 1,
     ses_ended_at = None, ses_duration_ms = None, ses_exit_code = None, ses_parser_confidence = None,
     ses_observation_confidence = None, ses_auth_mode = ''unknown'', ses_blocked_reason = None,
     ses_bytes_captured = None, ses_warnings = [''w''], ses_terminal_cols = Some 80, ses_terminal_rows = Some 24\<rparr>"

theorem pg_update_refines_witness:
  "coalesce_row update_columns (update_args (drv_strings demo_pgx) (empty_patch\<lparr>sp_exit_code := Some 3\<rparr>))
     (session_row (drv_strings demo_pgx) demo_session) ''exit_code'' = Some (SqlInt 3)"
proof -
  have "coalesce_row update_columns (update_args (drv_strings demo_pgx) (empty_patch\<lparr>sp_exit_code := Some 3\<rparr>))
      (session_row (drv_strings demo_pgx) demo_session) =
      session_row (drv_strings demo_pgx) (apply_session_patch (empty_patch\<lparr>sp_exit_code := Some 3\<rparr>) demo_session)"
    by (rule pg_update_refines) (simp_all add: demo_pgx_def empty_patch_def)
  then show ?thesis
    by (simp add: session_row_columns patched_fields patch_opt_def bind_opt_def)
qed

definition demo_turn_file :: file_sys where
  "demo_turn_file = fs_put (turn_path demo_store ''s'')
     (Lines (map (\<lambda>i. (Some (JObj (session_turn_fields (demo_session_turn i))), 100)) [0, 1])) empty_fs"

lemma demo_turn_json:
  "unmarshal_session_turn (JObj (session_turn_fields (demo_session_turn i))) = Some (valid_session_turn (demo_session_turn i))"
  by (rule session_turn_roundtrip) (simp add: marshal_session_turn_def json_time_ok_def demo_session_turn_def)

lemma demo_turn_valid: "valid_session_turn (demo_session_turn i) = demo_session_turn i"
proof -
  have "to_valid_utf8 ''s'' = ''s''" "to_valid_utf8 ''user'' = ''user''" "to_valid_utf8 ''hi'' = ''hi''"
    by (simp_all add: to_valid_utf8_ascii is_ascii_def byte_def)
  then show ?thesis by (simp add: valid_session_turn_def demo_session_turn_def)
qed

theorem pg_peek_agrees_witness:
  "pg_peek_turns 1000 demo_pgx ''s'' 1 () = Some (Inr [demo_session_turn 1])"
proof -
  let ?ts = "[demo_session_turn 0, demo_session_turn 1]"
  have lk: "fs_lookup demo_turn_file (turn_path demo_store ''s'') =
      Some (Lines (map (\<lambda>i. (Some (JObj (session_turn_fields (demo_session_turn i))), 100)) [0, 1]))"
    by (simp add: demo_turn_file_def)
  have log: "session_log demo_store demo_turn_file ''s'' = map (Some \<circ> valid_session_turn) ?ts"
    by (simp add: session_log_def lk demo_turn_json)
  have idx: "tn_index (demo_session_turn i) = i" for i by (simp add: demo_session_turn_def)
  have pk: "peek_turns no_faults sort_key demo_store ''s'' 1 demo_turn_file = Inr [demo_session_turn 1]"
    by (simp add: peek_turns_def peek_lines_def lk demo_turn_json demo_turn_valid max_scan_token_size_def no_faults_def
        idx last_n_def)
  have q: "drv_query demo_pgx (SelectDesc turn_columns ''turns'' ''session_id'' ''turn_index'') [SqlText ''s'', SqlInt k] () =
      Inr (map turn_args (take (nat k) (rev (map valid_session_turn ?ts))), None)" for k
    by (simp add: demo_pgx_def demo_turn_valid)
  from pg_peek_agrees [OF _ _ pk log _ q, of 1000] show ?thesis by (simp add: idx)
qed

end
