(* ===== verification/MockAgent.thy ===== *)
theory MockAgent
  imports Peers Policy Terminator
begin

text \<open>
  The scripted agent of the integration tests, \<open>src/internal/testutil/mockagent/main.go\<close>: a program
  that stands in for an agent command line behind a pseudo terminal.  Its standard input is the
  list of all bytes up to the end of file, its environment a partial function.  The delay before an
  answer changes no output and is left out.  The theory shows that the agent keeps the marker
  protocol: it answers each envelope once, and what it prints, read back through the terminal
  transport of theory \<open>Peers\<close>, is the turn it was configured to speak.
\<close>

section \<open>Reading envelopes\<close>

definition envelope_needle :: string where
  "envelope_needle = ''output the token ''"

definition extract_marker :: "string \<Rightarrow> string" where
  "extract_marker line =
     (case str_index line envelope_needle of
        None \<Rightarrow> []
      | Some idx \<Rightarrow>
         (let rest = drop (idx + length envelope_needle) line in
          case find_index (\<lambda>c. c \<in> {sp, cr, nl}) rest of
            None \<Rightarrow> []
          | Some e \<Rightarrow> take e rest))"

text \<open>\<open>ReadString('\\n')\<close>: the line with its delimiter, the input after it, and whether the end of the
  input came first.\<close>

definition read_string :: "string \<Rightarrow> string \<times> string \<times> bool" where
  "read_string inp =
     (case find_index ((=) nl) inp of
        None \<Rightarrow> (inp, [], True)
      | Some i \<Rightarrow> (take (Suc i) inp, drop (Suc i) inp, False))"

lemma read_string_shorter: "read_string inp = (line, rest, False) \<Longrightarrow> length rest < length inp"
  by (auto simp: read_string_def find_index_Some split: option.splits)

function read_envelope_marker :: "string \<Rightarrow> (string \<times> string) option" where
  "read_envelope_marker inp =
     (case read_string inp of (line, rest, eof) \<Rightarrow>
        if line \<noteq> [] \<and> extract_marker line \<noteq> [] then Some (extract_marker line, rest)
        else if eof then None else read_envelope_marker rest)"
  by pat_completeness auto
termination
  by (relation "measure length") (auto dest: read_string_shorter [OF sym])

declare read_envelope_marker.simps [simp del]

lemma read_envelope_marker_shorter:
  "read_envelope_marker inp = Some (m, rest) \<Longrightarrow> length rest < length inp"
proof (induction inp rule: read_envelope_marker.induct)
  case (1 inp)
  obtain line r eof where rs: "read_string inp = (line, r, eof)" by (cases "read_string inp")
  have "line \<noteq> [] \<Longrightarrow> length r < length inp" "\<not> eof \<Longrightarrow> length r < length inp"
    using rs by (auto simp: read_string_def find_index_Some split: option.splits)
  moreover have "(if line \<noteq> [] \<and> extract_marker line \<noteq> [] then Some (extract_marker line, r)
      else if eof then None else read_envelope_marker r) = Some (m, rest)"
    using 1(2) rs by (simp add: read_envelope_marker.simps [of inp])
  ultimately show ?case
    using 1(1) [OF rs [symmetric] refl] by (fastforce split: if_splits)
qed

section \<open>Answering\<close>

definition agent_body :: "string \<Rightarrow> int \<Rightarrow> string \<Rightarrow> int \<Rightarrow> string" where
  "agent_body response sentinel_at next_trailer turn =
     (let body = (if next_trailer \<noteq> [] then response @ nl # ''<<NEXT: '' @ next_trailer @ ''>>'' else response)
      in if sentinel_at > 0 \<and> turn = sentinel_at then body @ nl # ''<<END>>'' else body)"

definition agent_answer :: "string \<Rightarrow> string \<Rightarrow> int \<Rightarrow> string" where
  "agent_answer body marker turn = ''turn '' @ itoa turn @ '': '' @ body @ nl # marker @ [nl]"

function run_multi_turn :: "string \<Rightarrow> int \<Rightarrow> string \<Rightarrow> int \<Rightarrow> string \<Rightarrow> string list" where
  "run_multi_turn response sentinel_at next_trailer turn inp =
     (case read_envelope_marker inp of
        None \<Rightarrow> []
      | Some (marker, rest) \<Rightarrow>
          agent_answer (agent_body response sentinel_at next_trailer (turn + 1)) marker (turn + 1)
          # run_multi_turn response sentinel_at next_trailer (turn + 1) rest)"
  by pat_completeness auto
termination
  by (relation "measure (\<lambda>(_, _, _, _, inp). length inp)") (auto dest: read_envelope_marker_shorter)

declare run_multi_turn.simps [simp del]

section \<open>The program\<close>

text \<open>
  \<open>strconv.Atoi\<close> with its error thrown away: zero for malformed text, the nearest 64-bit value for a
  number out of range.
\<close>

definition atoi_value :: "string \<Rightarrow> int" where
  "atoi_value s =
     (case atoi s of
        Some v \<Rightarrow> v
      | None \<Rightarrow>
         (case s of
            [] \<Rightarrow> 0
          | c # cs \<Rightarrow>
             (let ds = (if c = CHR ''-'' \<or> c = CHR ''+'' then cs else s)
              in if ds = [] \<or> digits_value 0 ds = None then 0
                 else if c = CHR ''-'' then min_int64 else max_int64)))"

definition env_or :: "(string \<Rightarrow> string option) \<Rightarrow> string \<Rightarrow> string \<Rightarrow> string" where
  "env_or env key fallback = (case env key of Some value \<Rightarrow> value | None \<Rightarrow> fallback)"

text \<open>What a single-shot agent prints and its exit code.\<close>

definition single_shot :: "string \<Rightarrow> string \<Rightarrow> int \<Rightarrow> string \<times> int" where
  "single_shot mode response exit_code =
     (if mode = ''blocked'' then (''Continue? (y/n)'' @ [nl], exit_code)
      else if mode = ''auth'' then (''Authentication required. Please log in.'' @ [nl], exit_code)
      else if mode = ''rate_limit'' then (''You've hit your session limit'' @ [nl], exit_code)
      else if mode = ''ansi'' then (esc # ''[32m'' @ response @ esc # ''[0m'' @ [nl], exit_code)
      else if mode = ''partial''
      then ((if has_suffix response [nl] then take (length response - 1) response else response), exit_code)
      else if mode = ''crash'' then (''fatal: crashed'' @ [nl], if exit_code = 0 then 1 else exit_code)
      else (response @ [nl], exit_code))"

definition mock_main :: "(string \<Rightarrow> string option) \<Rightarrow> string \<Rightarrow> string \<times> int" where
  "mock_main env inp =
     (let mode = env_or env ''MOCK_MODE'' ''happy'';
          response = env_or env ''MOCK_RESPONSE'' ''mock response'';
          exit_code = atoi_value (env_or env ''MOCK_EXIT_CODE'' ''0'');
          multi_turn = (env_or env ''MOCK_MULTI_TURN'' ''0'' = ''1'');
          sentinel_at = atoi_value (env_or env ''MOCK_SENTINEL_AT_TURN'' ''0'');
          next_trailer = env_or env ''MOCK_NEXT_TRAILER'' []
      in if multi_turn then (concat (run_multi_turn response sentinel_at next_trailer 0 inp), 0)
         else single_shot mode response exit_code)"


section \<open>The agent answers each envelope once\<close>

text \<open>
  An envelope whose body ends with the instruction line for its marker and does not quote the
  instruction before.
\<close>

definition asks :: "envelope \<Rightarrow> bool" where
  "asks e \<longleftrightarrow>
     (let line = nl # marker_instruction (env_marker_token e);
          head = take (length (env_body e) - length line) (env_body e)
      in env_body e = head @ line \<and> \<not> str_contains head envelope_needle \<and>
         env_marker_token e \<noteq> [] \<and> list_all (\<lambda>c. c \<notin> {sp, cr, nl}) (env_marker_token e))"

lemma needle_chars: "nl \<notin> set envelope_needle" "envelope_needle \<noteq> []"
  by (simp_all add: envelope_needle_def)

lemma read_string_line: "nl \<notin> set l \<Longrightarrow> read_string (l @ nl # rest) = (l @ [nl], rest, False)"
proof -
  assume "nl \<notin> set l"
  then have "find_index ((=) nl) (l @ nl # rest) = Some (length l)"
    by (auto simp: find_index_Some nth_append in_set_conv_nth)
  then show ?thesis by (simp add: read_string_def)
qed

lemma extract_marker_none: "\<not> str_contains line envelope_needle \<Longrightarrow> extract_marker line = []"
  by (simp add: extract_marker_def str_contains_def split: option.splits)

lemma no_needle_line:
  "\<not> str_contains (x @ nl # y) envelope_needle \<longleftrightarrow>
     \<not> str_contains x envelope_needle \<and> \<not> str_contains y envelope_needle"
  using contains_sep [OF needle_chars] by blast

lemma read_past_head:
  "\<not> str_contains head envelope_needle \<Longrightarrow>
     read_envelope_marker (head @ nl # rest) = read_envelope_marker rest"
proof (induction "length head" arbitrary: head rule: less_induct)
  case less
  have skip: "read_envelope_marker (l @ nl # rest') = read_envelope_marker rest'"
    if "nl \<notin> set l" "\<not> str_contains l envelope_needle" for l rest'
  proof -
    have "\<not> str_contains (l @ [nl]) envelope_needle"
      using no_needle_line [of l "[]"] that(2) contains_set [of "[]" envelope_needle] needle_chars by auto
    then show ?thesis
      using read_string_line [OF that(1), of rest'] extract_marker_none
      by (subst read_envelope_marker.simps) simp
  qed
  show ?case
  proof (cases "nl \<in> set head")
    case True
    then obtain l h where h: "head = l @ nl # h" "nl \<notin> set l" by (meson split_list_first)
    with less(2) have "\<not> str_contains l envelope_needle" "\<not> str_contains h envelope_needle"
      by (simp_all add: no_needle_line)
    with h skip [of l "h @ nl # rest"] less(1) [of h] show ?thesis by simp
  next
    case False
    with skip less(2) show ?thesis by blast
  qed
qed

lemma extract_instruction:
  assumes "m \<noteq> []" and "list_all (\<lambda>c. c \<notin> {sp, cr, nl}) m"
  shows "extract_marker (marker_instruction m) = m"
proof -
  let ?w = "''When you finish your reply, ''"
  have "str_index (?w @ envelope_needle @ z) envelope_needle = Some 28" for z
    by (simp add: envelope_needle_def has_prefix_def)
  then have i: "str_index (marker_instruction m) envelope_needle = Some 28"
    by (simp add: marker_instruction_def envelope_needle_def)
  have d: "drop (28 + length envelope_needle) (marker_instruction m) = m @ sp # ''on its own line.'' @ [nl]"
    by (simp add: marker_instruction_def envelope_needle_def)
  have "find_index (\<lambda>c. c \<in> {sp, cr, nl}) (m @ sp # ''on its own line.'' @ [nl]) = Some (length m)"
    using assms(2) by (auto simp: find_index_Some nth_append list_all_length)
  with i d show ?thesis by (simp add: extract_marker_def Let_def)
qed

lemma read_asks:
  assumes "asks e"
  shows "read_envelope_marker (env_body e @ rest) = Some (env_marker_token e, rest)"
proof -
  let ?m = "env_marker_token e"
  obtain head where body: "env_body e = head @ nl # marker_instruction ?m"
    and head: "\<not> str_contains head envelope_needle"
    and m: "?m \<noteq> []" "list_all (\<lambda>c. c \<notin> {sp, cr, nl}) ?m"
    using assms by (auto simp: asks_def Let_def)
  let ?l = "''When you finish your reply, output the token '' @ ?m @ '' on its own line.''"
  have l: "marker_instruction ?m = ?l @ [nl]" by (simp add: marker_instruction_def)
  have "nl \<notin> set ?l" using m(2) by (auto simp: list_all_iff)
  from read_string_line [OF this, of rest] have
    "read_string (marker_instruction ?m @ rest) = (marker_instruction ?m, rest, False)"
    unfolding l by simp
  then have "read_envelope_marker (marker_instruction ?m @ rest) = Some (?m, rest)"
    using extract_instruction [OF m] m(1) l by (subst read_envelope_marker.simps) simp
  with read_past_head [OF head] body show ?thesis by simp
qed

lemma run_multi_turn_Cons:
  "asks e \<Longrightarrow> run_multi_turn response at tr k (env_body e @ rest) =
     agent_answer (agent_body response at tr (k + 1)) (env_marker_token e) (k + 1)
     # run_multi_turn response at tr (k + 1) rest"
  by (subst run_multi_turn.simps) (simp add: read_asks)

lemma upto_shift: "map (\<lambda>i. k + 1 + int i) [0..<Suc n] = (k + 1) # map (\<lambda>i. k + 1 + 1 + int i) [0..<n]"
  unfolding map_upt_Suc by (simp add: algebra_simps)

lemma run_multi_turn_asks:
  "list_all asks es \<Longrightarrow>
     run_multi_turn response at tr k (concat (map env_body es)) =
       map (\<lambda>(e, i). agent_answer (agent_body response at tr i) (env_marker_token e) i)
         (zip es (map (\<lambda>i. k + 1 + int i) [0..<length es]))"
proof (induction es arbitrary: k)
  case Nil
  have "read_envelope_marker [] = None"
    by (subst read_envelope_marker.simps) (simp add: read_string_def)
  then show ?case by (subst run_multi_turn.simps) simp
next
  case (Cons e es)
  then have "asks e" by simp
  with Cons show ?case by (simp add: run_multi_turn_Cons upto_shift del: upt_Suc)
qed

section \<open>The answer, read back through the terminal\<close>

definition agent_text :: "string \<Rightarrow> int \<Rightarrow> string \<Rightarrow> int \<Rightarrow> string" where
  "agent_text response sentinel_at next_trailer turn =
     ''turn '' @ itoa turn @ '': '' @ agent_body response sentinel_at next_trailer turn"

lemma itoa_digits: "c \<in> set (itoa k) \<Longrightarrow> c = CHR ''-'' \<or> is_digit c"
  using nat_to_str_digits by (auto simp: itoa_def split: if_splits)

lemma digit_kept: "is_digit c \<Longrightarrow> kept_byte c"
  by (simp add: is_digit_def kept_byte_def)

lemma minus_kept: "kept_byte CHR ''-''"
  by (simp add: kept_byte_def byte_def)

lemma agent_text_kept:
  assumes "list_all kept_byte response" and "list_all kept_byte tr"
  shows "list_all kept_byte (agent_text response at tr k)"
proof -
  have "list_all kept_byte (itoa k)"
    using itoa_digits [of _ k] digit_kept by (auto simp: list_all_iff intro: minus_kept)
  moreover have "list_all kept_byte ''turn ''" "list_all kept_byte '': ''" "list_all kept_byte (nl # ''<<NEXT: '')"
    "list_all kept_byte ''>>''" "list_all kept_byte (nl # ''<<END>>'')"
    by (simp_all add: kept_byte_def byte_def)
  ultimately show ?thesis
    using assms by (simp add: agent_text_def agent_body_def Let_def)
qed

lemma agent_text_no_marker:
  assumes tok: "new_marker_token (Some buf) = Some m"
    and "\<not> str_contains response m" and "\<not> str_contains tr m"
  shows "\<not> str_contains (agent_text response at tr k) m"
proof -
  note mc = marker_chars [OF tok]
  have m: "m = ''TURN_END_'' @ hex_encode buf"
    using tok by (simp add: new_marker_token_def MarkerPrefix_def)
  have "\<not> is_hex CHR ''>''" by (simp add: is_hex_def)
  then have "CHR ''>'' \<notin> set (hex_encode buf)"
    using hex_encode_hex [of buf] unfolding list_all_iff by blast
  then have gt: "CHR ''>'' \<notin> set m" unfolding m by simp
  have seps: "nl \<notin> set m" "sp \<notin> set m" and ne: "m \<noteq> []" and us: "CHR ''_'' \<in> set m"
    using mc(4) [of nl] mc(4) [of sp] mc(3) by auto
  have fixed: "\<not> str_contains x m" if "CHR ''_'' \<notin> set x" for x
    using that us contains_set [of x m] by blast
  have f: "\<not> str_contains ''turn'' m" "\<not> str_contains (itoa k @ '':'') m" "\<not> str_contains ''<<NEXT:'' m"
    "\<not> str_contains ''<<END>>'' m" "\<not> str_contains [] m" "\<not> str_contains ''>'' m"
    by (rule fixed; simp add: underscore_not_itoa)+
  have "\<not> str_contains (tr @ CHR ''>'' # ''>'') m"
    using assms(3) f(6) by (simp only: contains_sep [OF gt ne] simp_thms)
  then have n: "\<not> str_contains (''<<NEXT:'' @ sp # (tr @ ''>>'')) m"
    using f(3) by (simp only: contains_sep [OF seps(2) ne] simp_thms)
  have "\<not> str_contains (response @ nl # (''<<NEXT:'' @ sp # (tr @ ''>>''))) m"
    using assms(2) n by (simp only: contains_sep [OF seps(1) ne] simp_thms)
  then have b: "\<not> str_contains (if tr \<noteq> [] then response @ nl # ''<<NEXT: '' @ tr @ ''>>'' else response) m"
    using assms(2) by simp
  have "\<not> str_contains (agent_body response at tr k) m"
    using b f(4) by (simp add: agent_body_def Let_def contains_sep [OF seps(1) ne] del: append_assoc)
  then have "\<not> str_contains (''turn'' @ sp # ((itoa k @ '':'') @ sp # agent_body response at tr k)) m"
    using f(1,2) by (simp only: contains_sep [OF seps(2) ne] simp_thms)
  then show ?thesis by (simp add: agent_text_def)
qed

lemma agent_text_ends:
  assumes "response \<noteq> []" and "\<not> blank_char (last response)"
  shows "agent_text response at tr k \<noteq> []" and "hd (agent_text response at tr k) = CHR ''t''"
    and "\<not> blank_char (last (agent_text response at tr k))"
  using assms by (simp_all add: agent_text_def agent_body_def Let_def blank_char_def horiz_def)

lemma onlcr_last: "s \<noteq> [] \<Longrightarrow> last s \<noteq> nl \<Longrightarrow> onlcr s \<noteq> [] \<and> last (onlcr s) = last s"
proof (induction s)
  case (Cons c s)
  then show ?case by (cases s) (auto split: if_splits)
qed simp

lemma trim_blanks_onlcr:
  assumes "s \<noteq> []" and "\<not> blank_char (hd s)" and "\<not> blank_char (last s)"
  shows "trim_blanks (onlcr s @ [cr]) = onlcr s"
proof -
  have "last s \<noteq> nl" using assms(3) by auto
  then have l: "onlcr s \<noteq> []" "last (onlcr s) = last s" using onlcr_last [OF assms(1)] by blast+
  have "hd s \<noteq> nl" using assms(2) by auto
  then have "hd (onlcr s) = hd s" using assms(1) by (cases s) auto
  then have "dropWhile blank_char (onlcr s) = onlcr s"
    using l(1) assms(2) by (cases "onlcr s") auto
  with l assms(3) show ?thesis by (simp add: trim_blanks_snoc) (simp add: trim_blanks_def trim_end_id)
qed

text \<open>One answer as the terminal shows it, read by the process wrapper.\<close>

lemma agent_turn_captured:
  assumes tok: "new_marker_token (Some buf) = Some m"
    and env: "env = build_envelope_turn_n conv n from prev m"
    and fresh: "\<not> str_contains (conv_id conv) m" "\<not> str_contains from m" "\<not> str_contains prev m"
      "\<not> str_contains response m" "\<not> str_contains tr m"
    and resp: "response \<noteq> []" "\<not> blank_char (last response)"
    and p: "pp_buffer p = []" "pp_cursor p = 0" "\<not> pp_exited p"
    and chunks: "concat (concat groups) =
      onlcr (env_body env) @ onlcr (agent_answer (agent_body response at tr k) m k)"
    and size: "length (concat (concat groups)) \<le> max_buffer_bytes" and "0 < timeout"
  shows "converse_turn (\<lambda>_. None) (env_body env) m timeout
      (map (map (\<lambda>c. WakePump (PumpChunk c))) groups) None p =
    (Some (Inr (onlcr (agent_text response at tr k))), p\<lparr>pp_buffer := [], pp_cursor := 0\<rparr>)"
proof -
  let ?t = "agent_text response at tr k"
  have m: "nl \<notin> set m" "cr \<notin> set m" "m \<noteq> []"
    using marker_chars(4) [OF tok, of nl] marker_chars(4) [OF tok, of cr] marker_chars(3) [OF tok] by auto
  have e: "\<not> str_contains [] m" using m(3) by (simp add: str_contains_sublist)
  have "\<not> str_contains (onlcr ?t @ cr # []) m"
    using agent_text_no_marker [OF tok fresh(4,5)] contains_onlcr [OF m(1,2,3)] e
    by (simp only: contains_sep [OF m(2,3)] simp_thms) blast
  then have r: "\<not> str_contains (onlcr ?t @ [cr]) m" by simp
  have "agent_answer (agent_body response at tr k) m k = ?t @ nl # m @ [nl]"
    by (simp add: agent_answer_def agent_text_def)
  then have c: "concat (concat groups) = onlcr (env_body env) @ (onlcr ?t @ [cr]) @ [nl] @ m @ [cr, nl]"
    using chunks m(1) by (simp add: onlcr_append onlcr_no_nl)
  have h: "list_all horiz (takeWhile (\<lambda>c. c \<noteq> nl) [cr, nl])" by (simp add: horiz_def)
  have s: "length ([] :: string) + length (concat (concat groups)) \<le> max_buffer_bytes" using size by simp
  note t = agent_text_ends [OF resp, of at tr k]
  have "\<not> blank_char (hd ?t)" unfolding t(2) by (simp add: blank_char_def horiz_def)
  from trim_blanks_onlcr [OF t(1) this t(3)] show ?thesis
    using converse_turn_echo [OF tok env e fresh(1,2,3) r h p c s \<open>0 < timeout\<close>] by simp
qed

section \<open>A conversation with the agent\<close>

text \<open>
  The envelopes of a conversation delivered one after the other, each with the chunks of output
  that arrive for it.
\<close>

fun deliver_seq ::
    "go_time \<Rightarrow> go_time \<Rightarrow> (envelope \<times> string list list) list \<Rightarrow> provider_transport
      \<Rightarrow> (conversation_turn list \<times> provider_transport) option" where
  "deliver_seq t0 t1 [] t = Some ([], t)"
| "deliver_seq t0 t1 ((env, groups) # xs) t =
     (case provider_deliver (\<lambda>_. None) (map (map (\<lambda>c. WakePump (PumpChunk c))) groups) None t0 t1 env t of
        (Some (Inr turn), t') \<Rightarrow> map_option (\<lambda>(turns, t''). (turn # turns, t'')) (deliver_seq t0 t1 xs t')
      | _ \<Rightarrow> None)"

text \<open>
  One exchange over an echoing terminal: an envelope with a fresh marker, and chunks that make up
  its echo and the agent's answer.
\<close>

definition exchange :: "conversation \<Rightarrow> string \<Rightarrow> string \<Rightarrow> envelope \<times> string list list \<Rightarrow> string \<Rightarrow> bool" where
  "exchange conv response tr x answer \<longleftrightarrow>
     (case x of (env, groups) \<Rightarrow>
        (\<exists>buf n from prev. new_marker_token (Some buf) = Some (env_marker_token env) \<and>
           env = build_envelope_turn_n conv n from prev (env_marker_token env) \<and>
           list_all (\<lambda>s. \<not> str_contains s (env_marker_token env)) [conv_id conv, from, prev, response, tr]) \<and>
        asks env \<and> concat (concat groups) = onlcr (env_body env) @ onlcr answer \<and>
        length (concat (concat groups)) \<le> max_buffer_bytes)"

lemma exchange_deliver:
  assumes "exchange conv response tr (env, groups) (agent_answer (agent_body response at tr k) (env_marker_token env) k)"
    and "response \<noteq> []" "\<not> blank_char (last response)" "list_all kept_byte response" "list_all kept_byte tr"
    and t: "pt_process t = Some p" "0 < pt_per_turn_timeout t"
    and p: "pp_buffer p = []" "pp_cursor p = 0" "\<not> pp_exited p"
  shows "\<exists>turn. provider_deliver (\<lambda>_. None) (map (map (\<lambda>c. WakePump (PumpChunk c))) groups) None t0 t1 env t =
      (Some (Inr turn), t) \<and> ct_response turn = agent_text response at tr k"
proof -
  let ?m = "env_marker_token env"
  obtain buf n "from" prev where x: "new_marker_token (Some buf) = Some ?m"
      "env = build_envelope_turn_n conv n from prev ?m"
      "\<not> str_contains (conv_id conv) ?m" "\<not> str_contains from ?m" "\<not> str_contains prev ?m"
      "\<not> str_contains response ?m" "\<not> str_contains tr ?m"
    and c: "concat (concat groups) = onlcr (env_body env) @ onlcr (agent_answer (agent_body response at tr k) ?m k)"
      "length (concat (concat groups)) \<le> max_buffer_bytes"
    using assms(1) by (auto simp: exchange_def)
  have "p\<lparr>pp_buffer := [], pp_cursor := 0\<rparr> = p" using p by simp
  then have "converse_turn (\<lambda>_. None) (env_body env) ?m (pt_per_turn_timeout t)
      (map (map (\<lambda>c. WakePump (PumpChunk c))) groups) None p = (Some (Inr (onlcr (agent_text response at tr k))), p)"
    using agent_turn_captured [OF x assms(2,3) p c t(2)] by simp
  moreover have "normalize_pty_text (onlcr (agent_text response at tr k)) = agent_text response at tr k"
    using normalize_loop_onlcr [OF agent_text_kept [OF assms(4,5)]] by (simp add: normalize_pty_text_loop)
  moreover have "t\<lparr>pt_process := Some p\<rparr> = t" using t(1) by simp
  ultimately show ?thesis using t(1) by (simp add: provider_deliver_def)
qed

lemma deliver_seq_agent:
  assumes "list_all2 (exchange conv response tr) xs
      (run_multi_turn response at tr k (concat (map (\<lambda>x. env_body (fst x)) xs)))"
    and resp: "response \<noteq> []" "\<not> blank_char (last response)" "list_all kept_byte response" "list_all kept_byte tr"
    and t: "pt_process t = Some p" "0 < pt_per_turn_timeout t"
    and p: "pp_buffer p = []" "pp_cursor p = 0" "\<not> pp_exited p"
  shows "\<exists>turns. deliver_seq t0 t1 xs t = Some (turns, t) \<and>
    map ct_response turns = map (agent_text response at tr) (map (\<lambda>i. k + 1 + int i) [0..<length xs])"
  using assms(1)
proof (induction xs arbitrary: k)
  case (Cons x xs)
  obtain env groups where x: "x = (env, groups)" by (cases x)
  let ?rest = "concat (map (\<lambda>x. env_body (fst x)) xs)"
  have a: "asks env"
    using Cons.prems by (auto simp: x list_all2_Cons1 exchange_def)
  have e: "exchange conv response tr (env, groups)
      (agent_answer (agent_body response at tr (k + 1)) (env_marker_token env) (k + 1))"
    and l: "list_all2 (exchange conv response tr) xs (run_multi_turn response at tr (k + 1) ?rest)"
    using Cons.prems by (simp_all add: x run_multi_turn_Cons [OF a])
  from exchange_deliver [OF e resp t p, of t0 t1] obtain turn where
    "provider_deliver (\<lambda>_. None) (map (map (\<lambda>c. WakePump (PumpChunk c))) groups) None t0 t1 env t =
      (Some (Inr turn), t)" "ct_response turn = agent_text response at tr (k + 1)" by blast
  with Cons.IH [OF l] show ?case
    by (auto simp: x upto_shift simp del: upt_Suc)
qed simp

section \<open>What the policy and the terminator make of it\<close>

lemma trim_words_suffix: "suffix (trim_words ws s) s"
proof (induction ws s rule: trim_words.induct)
  case (1 ws s)
  show ?case
  proof (cases "find (\<lambda>w. w \<noteq> [] \<and> has_prefix s w) ws")
    case None
    then show ?thesis by (subst trim_words.simps) simp
  next
    case (Some w)
    from 1 [OF Some] have "suffix (trim_words ws (drop (length w) s)) s"
      using suffix_drop suffix_order.trans by blast
    with Some show ?thesis by (subst trim_words.simps) simp
  qed
qed

lemma trim_space_prefix:
  assumes "\<forall>w \<in> set space_encodings. \<not> has_prefix s w"
  shows "prefix (trim_space s) s"
proof -
  have "trim_words space_encodings s = s"
    using assms by (intro trim_words_done) (auto simp: has_prefix_iff)
  then show ?thesis
    using trim_words_suffix [of "map rev space_encodings" "rev s"]
    by (simp add: trim_space_def suffix_to_prefix)
qed

lemma starts_trim_space:
  assumes "s = c # r" and "32 < byte c" and "byte c < 128"
  shows "prefix (trim_space s) s"
proof (rule trim_space_prefix, rule ballI)
  fix w assume "w \<in> set space_encodings"
  then have "w \<noteq> [] \<and> (byte (hd w) \<le> 32 \<or> 128 \<le> byte (hd w))"
    by (auto simp: space_encodings_defs byte_def)
  with assms show "\<not> has_prefix s w" by (cases w) (auto simp: has_prefix_iff)
qed

lemma own_line_append:
  "token \<noteq> [] \<Longrightarrow>
     contains_on_own_line (x @ nl # y) token \<longleftrightarrow> contains_on_own_line x token \<or> contains_on_own_line y token"
  by (simp add: contains_on_own_line_def split_char_append)

lemma own_line_first:
  assumes "x = h # xs" "nl \<notin> set x" "32 < byte h" "byte h < 128" and "\<not> prefix default_sentinel (x @ takeWhile (\<lambda>c. c \<noteq> nl) s)"
    and "\<not> contains_on_own_line s default_sentinel"
  shows "\<not> contains_on_own_line (x @ s) default_sentinel"
proof -
  obtain l where l: "lines_of s = takeWhile (\<lambda>c. c \<noteq> nl) s # l" "lines_of (x @ s) = (x @ takeWhile (\<lambda>c. c \<noteq> nl) s) # l"
  proof (cases "nl \<in> set s")
    case True
    then obtain a b where s: "s = a @ nl # b" "nl \<notin> set a" by (meson split_list_first)
    have "lines_of (x @ a @ nl # b) = (x @ a) # lines_of b"
      using split_char_append [of nl "x @ a" b] split_char_no_sep [of nl "x @ a"] s(2) assms(2) by simp
    moreover have "takeWhile (\<lambda>c. c \<noteq> nl) s = a" using s by (auto simp: takeWhile_tail)
    ultimately show ?thesis
      using that [of "lines_of b"] s split_char_append [of nl a b] split_char_no_sep [of nl a] by simp
  next
    case False
    then have "takeWhile (\<lambda>c. c \<noteq> nl) s = s" by (auto simp: takeWhile_eq_all_conv)
    with False assms(2) that [of "[]"] split_char_no_sep [of nl s] split_char_no_sep [of nl "x @ s"]
    show ?thesis by simp
  qed
  have "prefix (trim_space (x @ takeWhile (\<lambda>c. c \<noteq> nl) s)) (x @ takeWhile (\<lambda>c. c \<noteq> nl) s)"
    by (rule starts_trim_space [OF _ assms(3,4)]) (simp add: assms(1))
  with assms(5) have "trim_space (x @ takeWhile (\<lambda>c. c \<noteq> nl) s) \<noteq> default_sentinel" by auto
  with assms(6) l show ?thesis by (simp add: contains_on_own_line_def)
qed

lemma agent_text_sentinel:
  assumes "\<not> contains_on_own_line response default_sentinel" and "nl \<notin> set tr"
  shows "contains_on_own_line (agent_text response at tr k) default_sentinel \<longleftrightarrow> 0 < at \<and> k = at"
proof -
  have "nl \<notin> set (itoa k)"
    using itoa_digits [of nl k] by (auto simp: is_digit_def byte_def)
  then have "\<not> contains_on_own_line ((''turn '' @ itoa k @ '': '') @ response) default_sentinel"
    by (intro own_line_first [OF _ _ _ _ _ assms(1), where h = "CHR ''t''"])
       (simp_all add: byte_def default_sentinel_def)
  moreover have "\<not> contains_on_own_line (''<<NEXT: '' @ tr @ ''>>'') default_sentinel"
  proof -
    have "prefix (trim_space (''<<NEXT: '' @ tr @ ''>>'')) (''<<NEXT: '' @ tr @ ''>>'')"
      by (rule starts_trim_space [where c = "CHR ''<''"]) (simp_all add: byte_def)
    then have "trim_space (''<<NEXT: '' @ tr @ ''>>'') \<noteq> default_sentinel"
      by (auto simp: default_sentinel_def)
    with assms(2) show ?thesis by (simp add: contains_on_own_line_def split_char_no_sep)
  qed
  moreover have "contains_on_own_line ''<<END>>'' default_sentinel" by code_simp
  moreover define x n e where "x = (''turn '' @ itoa k @ '': '') @ response"
    and "n = ''<<NEXT: '' @ tr @ ''>>''" and "e = ''<<END>>''"
  ultimately have p: "\<not> contains_on_own_line x default_sentinel" "\<not> contains_on_own_line n default_sentinel"
    "contains_on_own_line e default_sentinel" by simp_all
  have "agent_text response at tr k =
      (let b = (if tr \<noteq> [] then x @ nl # n else x) in if 0 < at \<and> k = at then b @ nl # e else b)"
    by (simp add: agent_text_def agent_body_def x_def n_def e_def Let_def)
  then show ?thesis
    using p by (simp add: Let_def own_line_append [OF default_sentinel_nonempty] del: append_assoc append_Cons)
qed

lemma id_char_kept: "is_id_char c \<Longrightarrow> kept_byte c \<and> c \<noteq> nl"
  by (auto simp: is_id_char_def is_lower_def is_digit_def kept_byte_def byte_def)

lemma agent_text_addressed:
  assumes "peer_id_regex tr" and "\<not> (0 < at \<and> k = at)"
  shows "parse_next_trailer (agent_text response at tr k) = Some tr"
proof -
  have "tr \<noteq> []" using assms(1) by (auto simp: peer_id_regex_def)
  moreover have "parse_next_trailer ((''turn '' @ itoa k @ '': '' @ response) @ nl # ''<<NEXT:'' @ [sp] @ tr @ [] @ ''>>'' @ []) = Some tr"
    by (rule parse_trailer_line [OF assms(1)]) (simp_all add: horiz_def)
  ultimately show ?thesis using assms(2) by (auto simp: agent_text_def agent_body_def)
qed

text \<open>
  C11. A scripted conversation, end to end: the agent reads the envelopes of a conversation from its
  standard input and its output comes back over an echoing terminal in arbitrary chunks. Delivering
  the envelopes through the terminal transport gives one turn per envelope, and the response of
  turn \<open>i\<close> is exactly the text configured for it: the sentinel terminator fires on the configured
  turn and on no other, and on every other turn the policy finds the configured addressee.
\<close>

theorem agent_conversation:
  assumes "list_all2 (exchange conv response tr) xs
      (run_multi_turn response at tr 0 (concat (map (\<lambda>x. env_body (fst x)) xs)))"
    and "response \<noteq> []" "\<not> blank_char (last response)" "list_all kept_byte response"
    and "\<not> contains_on_own_line response default_sentinel" and "peer_id_regex tr"
    and "provider_start spawner spec cid slot (new_provider timeout) = (None, t)"
  shows "\<exists>turns t'. deliver_seq t0 t1 xs t = Some (turns, t') \<and> length turns = length xs \<and>
    (\<forall>i < length turns. ct_response (turns ! i) = agent_text response at tr (int i + 1) \<and>
       (contains_on_own_line (ct_response (turns ! i)) default_sentinel \<longleftrightarrow> int i + 1 = at) \<and>
       (int i + 1 \<noteq> at \<longrightarrow> parse_next_trailer (ct_response (turns ! i)) = Some tr))"
proof -
  have tr: "nl \<notin> set tr" "list_all kept_byte tr"
    using peer_id_regex_chars [OF assms(6)] id_char_kept by (auto simp: list_all_iff)
  have t: "pt_process t = Some new_persistent_process" "0 < pt_per_turn_timeout t"
    using assms(7) by (auto simp: provider_start_def new_provider_def split: sum.splits)
  obtain turns where d: "deliver_seq t0 t1 xs t = Some (turns, t)"
    and r: "map ct_response turns = map (agent_text response at tr) (map (\<lambda>i. 0 + 1 + int i) [0..<length xs])"
    using deliver_seq_agent [OF assms(1-4) tr(2) t] by (auto simp: new_persistent_process_def)
  from r have len: "length turns = length xs" by (metis length_map length_upt minus_nat.diff_0)
  have "ct_response (turns ! i) = agent_text response at tr (int i + 1)" if "i < length turns" for i
    using arg_cong [OF r, of "\<lambda>l. l ! i"] that len by (simp add: add.commute)
  then show ?thesis
    using d len agent_text_sentinel [OF assms(5) tr(1)] agent_text_addressed [OF assms(6)]
    by (intro exI [of _ turns] exI [of _ t]) auto
qed

section \<open>A concrete conversation\<close>

definition agent_env :: "string \<Rightarrow> envelope" where
  "agent_env m = build_envelope_turn_n (zero_conversation\<lparr>conv_id := ''c''\<rparr>) 2 ''b'' ''hi'' m"

definition agent_exchange :: "int \<Rightarrow> string \<Rightarrow> envelope \<times> string list list" where
  "agent_exchange k m =
     (let out = onlcr (agent_answer (agent_body ''ok'' 2 ''bob'' k) m k)
      in (agent_env m, [[onlcr (env_body (agent_env m))], [take 5 out, drop 5 out]]))"

lemma agent_exchange_ok:
  assumes "new_marker_token (Some buf) = Some m"
    and "list_all (\<lambda>s. \<not> str_contains s m) [''c'', ''b'', ''hi'', ''ok'', ''bob'']"
    and "asks (agent_env m)" and "length (concat (concat (snd (agent_exchange k m)))) \<le> max_buffer_bytes"
  shows "exchange (zero_conversation\<lparr>conv_id := ''c''\<rparr>) ''ok'' ''bob'' (agent_exchange k m)
    (agent_answer (agent_body ''ok'' 2 ''bob'' k) m k)"
proof -
  have e: "env_marker_token (agent_env m) = m" by (simp add: agent_env_def build_envelope_turn_n_def)
  have "\<exists>buf n from prev. new_marker_token (Some buf) = Some m \<and>
      agent_env m = build_envelope_turn_n (zero_conversation\<lparr>conv_id := ''c''\<rparr>) n from prev m \<and>
      list_all (\<lambda>s. \<not> str_contains s m) [conv_id (zero_conversation\<lparr>conv_id := ''c''\<rparr>), from, prev, ''ok'', ''bob'']"
    using assms(1,2) by (intro exI [of _ buf] exI [of _ "2::int"] exI [of _ "''b''"] exI [of _ "''hi''"]) (simp add: agent_env_def)
  with assms(3,4) e show ?thesis by (simp add: exchange_def agent_exchange_def Let_def)
qed

lemma demo_facts:
  "new_marker_token (Some ''abcdef'') = Some ''TURN_END_616263646566''"
  "new_marker_token (Some ''012345'') = Some ''TURN_END_303132333435''"
  "list_all (\<lambda>s. \<not> str_contains s ''TURN_END_616263646566'') [''c'', ''b'', ''hi'', ''ok'', ''bob'']"
  "list_all (\<lambda>s. \<not> str_contains s ''TURN_END_303132333435'') [''c'', ''b'', ''hi'', ''ok'', ''bob'']"
  by code_simp+

lemma demo_asks: "asks (agent_env ''TURN_END_616263646566'')" "asks (agent_env ''TURN_END_303132333435'')"
  by code_simp+

lemma demo_reply:
  "''ok'' \<noteq> []" "\<not> blank_char (last ''ok'')" "list_all kept_byte ''ok''"
  "\<not> contains_on_own_line ''ok'' default_sentinel" "peer_id_regex ''bob''"
  by code_simp+

lemma demo_length:
  "length (concat (concat (snd (agent_exchange 1 ''TURN_END_616263646566'')))) \<le> max_buffer_bytes"
  "length (concat (concat (snd (agent_exchange 2 ''TURN_END_303132333435'')))) \<le> max_buffer_bytes"
  by (simp_all add: agent_exchange_def agent_env_def build_envelope_turn_n_def render_body_def marker_instruction_def
      itoa_def nat_to_str.simps digit_char_def has_suffix_def zero_conversation_def agent_answer_def agent_body_def
      max_buffer_bytes_def)

theorem agent_conversation_witness:
  "\<exists>turns t'. deliver_seq 1 2 [agent_exchange 1 ''TURN_END_616263646566'', agent_exchange 2 ''TURN_END_303132333435'']
      (snd (provider_start (\<lambda>_. Inr undefined) zero_peer_spec ''c'' ''a'' (new_provider 1000))) = Some (turns, t') \<and>
     length turns = 2 \<and> parse_next_trailer (ct_response (turns ! 0)) = Some ''bob'' \<and>
     contains_on_own_line (ct_response (turns ! 1)) default_sentinel"
proof -
  let ?m = "''TURN_END_616263646566''" and ?n = "''TURN_END_303132333435''"
  note tok = demo_facts(1,2) and free = demo_facts(3,4) and asks = demo_asks and len = demo_length
  have mk: "env_marker_token (agent_env m) = m" "fst (agent_exchange k m) = agent_env m" for k m
    by (simp_all add: agent_env_def build_envelope_turn_n_def agent_exchange_def Let_def)
  have "run_multi_turn ''ok'' 2 ''bob'' 0 (concat (map (\<lambda>x. env_body (fst x)) [agent_exchange 1 ?m, agent_exchange 2 ?n])) =
      [agent_answer (agent_body ''ok'' 2 ''bob'' 1) ?m 1, agent_answer (agent_body ''ok'' 2 ''bob'' 2) ?n 2]"
    using run_multi_turn_asks [of "[agent_env ?m, agent_env ?n]" "''ok''" 2 "''bob''" 0] asks by (simp add: mk)
  then have x: "list_all2 (exchange (zero_conversation\<lparr>conv_id := ''c''\<rparr>) ''ok'' ''bob'')
      [agent_exchange 1 ?m, agent_exchange 2 ?n]
      (run_multi_turn ''ok'' 2 ''bob'' 0 (concat (map (\<lambda>x. env_body (fst x)) [agent_exchange 1 ?m, agent_exchange 2 ?n])))"
    using agent_exchange_ok [OF tok(1) free(1) asks(1) len(1)] agent_exchange_ok [OF tok(2) free(2) asks(2) len(2)] by simp
  note r = demo_reply
  have s: "provider_start (\<lambda>_. Inr undefined) zero_peer_spec ''c'' ''a'' (new_provider 1000) =
      (None, snd (provider_start (\<lambda>_. Inr undefined) zero_peer_spec ''c'' ''a'' (new_provider 1000)))"
    by (simp add: provider_start_def new_provider_def)
  from agent_conversation [OF x r s, of 1 2] obtain turns t' where
    "deliver_seq 1 2 [agent_exchange 1 ?m, agent_exchange 2 ?n]
      (snd (provider_start (\<lambda>_. Inr undefined) zero_peer_spec ''c'' ''a'' (new_provider 1000))) = Some (turns, t')"
    "length turns = 2" "contains_on_own_line (ct_response (turns ! 1)) default_sentinel \<longleftrightarrow> int 1 + 1 = 2"
    "int 0 + 1 \<noteq> 2 \<longrightarrow> parse_next_trailer (ct_response (turns ! 0)) = Some ''bob''"
    by force
  then show ?thesis by auto
qed

end
