(* ===== verification/V1Compat.thy ===== *)
theory V1Compat
  imports FileStore Broker
begin

text \<open>
  The reader of version 1 conversations, \<open>src/internal/store/v1compat/reader.go\<close>.  A version 1
  document has no \<open>schema_version\<close> and describes exactly two peers, \<open>a\<close> and \<open>b\<close>, who speak
  alternately; the reader fills in the version 2 fields in memory.
\<close>

text \<open>\<open>Detect\<close>: the argument is the tree of the data, if it is JSON at all.\<close>

definition v1_detect :: "json option \<Rightarrow> bool" where
  "v1_detect data =
     (case Option.bind data (\<lambda>j. Option.bind (obj_fields j) (\<lambda>fs. get_int fs ''schema_version'')) of
        None \<Rightarrow> False
      | Some v \<Rightarrow> v < 2)"

definition upgrade_fields :: "conversation \<Rightarrow> conversation" where
  "upgrade_fields c =
     c\<lparr>conv_schema_version := 2,
       conv_peers := [\<lparr>part_id = ''a'', part_spec = conv_peer_a c\<rparr>, \<lparr>part_id = ''b'', part_spec = conv_peer_b c\<rparr>],
       conv_seeds := [(''a'', conv_seed_a c), (''b'', conv_seed_b c)],
       conv_opener_id := (if conv_opener c = [] then ''a'' else conv_opener c)\<rparr>"

definition upgrade_conversation :: "json option \<Rightarrow> conversation result" where
  "upgrade_conversation data =
     (case Option.bind data unmarshal_conversation of
        None \<Rightarrow> Inl json_decode_error
      | Some c \<Rightarrow> if conv_schema_version c \<ge> 2 then Inr c else Inr (upgrade_fields c))"

definition upgrade_turn :: "bool \<Rightarrow> conversation_turn \<Rightarrow> conversation_turn" where
  "upgrade_turn first t =
     (let t1 = t\<lparr>ct_from_id := ct_from t\<rparr>;
          t2 = (if ct_from_id t1 = ''a'' then t1\<lparr>ct_to_id := ''b''\<rparr>
                else if ct_from_id t1 = ''b'' then t1\<lparr>ct_to_id := ''a''\<rparr> else t1)
      in if ct_reason t2 = [] then t2\<lparr>ct_reason := (if first then TurnReasonOpener else TurnReasonAddressed)\<rparr> else t2)"

fun upgrade_turns :: "conversation_turn list \<Rightarrow> conversation_turn list" where
  "upgrade_turns [] = []"
| "upgrade_turns (t # ts) = upgrade_turn True t # map (upgrade_turn False) ts"

section \<open>Documents\<close>

lemma v1_detect_conversation:
  assumes "marshal_conversation c = Inr j"
  shows "v1_detect (Some j) \<longleftrightarrow> conv_schema_version c < 2"
proof -
  have "j = JObj (conversation_fields c)"
    using assms by (auto simp: marshal_conversation_def split: if_splits)
  then show ?thesis by (simp add: v1_detect_def conversation_field_values(2))
qed

text \<open>
  A stored version 1 document is recognised and upgraded, with its own fields kept; an upgraded
  conversation that is stored again is a version 2 document, which the reader leaves alone.
\<close>

theorem v1_document_upgraded:
  assumes "marshal_conversation c = Inr j" and "conv_schema_version c < 2"
  shows "v1_detect (Some j) \<and> upgrade_conversation (Some j) = Inr (upgrade_fields (valid_conversation c)) \<and>
    (\<exists>j2. marshal_conversation (upgrade_fields (valid_conversation c)) = Inr j2 \<and> \<not> v1_detect (Some j2) \<and>
      upgrade_conversation (Some j2) = Inr (valid_conversation (upgrade_fields (valid_conversation c))))"
proof -
  let ?u = "upgrade_fields (valid_conversation c)"
  have times: "json_time_ok (conv_created_at c)" "opt_time_ok (conv_ended_at c)"
    using assms(1) by (simp_all add: marshal_conversation_def split: if_splits)
  have u: "conv_created_at ?u = conv_created_at c" "conv_ended_at ?u = conv_ended_at c" "conv_schema_version ?u = 2"
    by (simp_all add: upgrade_fields_def valid_conversation_def)
  then obtain j2 where j2: "marshal_conversation ?u = Inr j2" using times by (simp add: marshal_conversation_def)
  have v: "conv_schema_version (valid_conversation x) = conv_schema_version x" for x
    by (simp add: valid_conversation_def)
  show ?thesis
    using conversation_roundtrip [OF assms(1)] conversation_roundtrip [OF j2] v1_detect_conversation [OF assms(1)]
      v1_detect_conversation [OF j2] assms(2) j2 u(3)
    by (simp add: upgrade_conversation_def v)
qed

section \<open>Turns\<close>

lemma upgrade_turn_fields:
  "ct_from_id (upgrade_turn b t) = ct_from t" "ct_from (upgrade_turn b t) = ct_from t"
  "ct_response (upgrade_turn b t) = ct_response t" "ct_index (upgrade_turn b t) = ct_index t"
  "ct_reason (upgrade_turn b t) = (if ct_reason t = [] then if b then TurnReasonOpener else TurnReasonAddressed else ct_reason t)"
  "ct_to_id (upgrade_turn b t) = (if ct_from t = ''a'' then ''b'' else if ct_from t = ''b'' then ''a'' else ct_to_id t)"
  by (simp_all add: upgrade_turn_def Let_def)

lemma upgrade_turns_nth: "i < length ts \<Longrightarrow> upgrade_turns ts ! i = upgrade_turn (i = 0) (ts ! i)"
  by (cases ts; cases i) simp_all

lemma upgrade_turns_length [simp]: "length (upgrade_turns ts) = length ts"
  by (cases ts) simp_all

lemma upgrade_turn_idem: "upgrade_turn b (upgrade_turn b t) = upgrade_turn b t"
proof -
  have "upgrade_turn b t = t\<lparr>ct_from_id := ct_from t,
      ct_to_id := (if ct_from t = ''a'' then ''b'' else if ct_from t = ''b'' then ''a'' else ct_to_id t),
      ct_reason := (if ct_reason t = [] then if b then TurnReasonOpener else TurnReasonAddressed else ct_reason t)\<rparr>" for t
    unfolding upgrade_turn_def Let_def
    by (cases "ct_reason t = []"; cases "ct_from t = ''a''"; cases "ct_from t = ''b''") simp_all
  moreover have "TurnReasonOpener \<noteq> []" "TurnReasonAddressed \<noteq> []" by (simp_all add: status_defs)
  ultimately show ?thesis by (cases "ct_reason t = []") simp_all
qed

lemma upgrade_turns_idem: "upgrade_turns (upgrade_turns ts) = upgrade_turns ts"
  by (rule nth_equalityI) (simp_all add: upgrade_turns_nth upgrade_turn_idem)

text \<open>The speakers of a version 1 log: the opener, then the two peers in turns.\<close>

definition alternates :: "peer_slot \<Rightarrow> conversation_turn list \<Rightarrow> bool" where
  "alternates opener ts \<longleftrightarrow>
     (\<forall>i < length ts. ct_from (ts ! i) = (if even i then opener else slot_other opener))"

text \<open>
  C38. Version 1 logs become version 2 logs: when two peers spoke alternately, the upgraded turns
  satisfy the routing invariant of the version 2 broker (the opener first, each turn spoken by the
  peer the turn before names, only \<open>a\<close> and \<open>b\<close> addressed), number, text and order of the turns are
  kept, and upgrading again changes nothing.
\<close>

theorem v1_log_routed:
  assumes "alternates opener ts" and "opener = PeerSlotA \<or> opener = PeerSlotB"
    and "ts = [] \<or> ct_reason (hd ts) \<in> {[], TurnReasonOpener}"
  shows "turn_chain opener (upgrade_turns ts) \<and> (\<forall>t \<in> set (upgrade_turns ts). ct_to_id t \<in> {''a'', ''b''}) \<and>
    map ct_response (upgrade_turns ts) = map ct_response ts \<and> map ct_index (upgrade_turns ts) = map ct_index ts \<and>
    upgrade_turns (upgrade_turns ts) = upgrade_turns ts"
proof (intro conjI)
  have speaker: "ct_from (ts ! i) = (if even i then opener else slot_other opener)" if "i < length ts" for i
    using assms(1) that by (simp add: alternates_def)
  have ab: "ct_from (ts ! i) = ''a'' \<or> ct_from (ts ! i) = ''b''" if "i < length ts" for i
    using speaker [OF that] assms(2) by (elim disjE) (simp_all add: slot_other_def status_defs split: if_splits)
  have to: "ct_to_id (upgrade_turns ts ! i) = slot_other (ct_from (ts ! i))" if "i < length ts" for i
    using ab [OF that] that by (elim disjE) (simp_all add: upgrade_turns_nth upgrade_turn_fields slot_other_def status_defs)
  have other: "slot_other (slot_other opener) = opener"
    using assms(2) by (elim disjE) (simp_all add: slot_other_def status_defs)
  show "turn_chain opener (upgrade_turns ts)"
    unfolding turn_chain_def
  proof (intro conjI impI allI)
    assume "upgrade_turns ts \<noteq> []"
    then have ne: "ts \<noteq> []" by auto
    then show "ct_from_id (upgrade_turns ts ! 0) = opener" using speaker [of 0]
      by (simp add: upgrade_turns_nth upgrade_turn_fields)
    from ne assms(3) have "ct_reason (ts ! 0) = [] \<or> ct_reason (ts ! 0) = TurnReasonOpener" by (simp add: hd_conv_nth)
    then show "ct_reason (upgrade_turns ts ! 0) = TurnReasonOpener" using ne
      by (elim disjE) (simp_all add: upgrade_turns_nth upgrade_turn_fields)
  next
    fix i
    assume i: "Suc i < length (upgrade_turns ts)"
    then show "ct_from_id (upgrade_turns ts ! Suc i) = ct_to_id (upgrade_turns ts ! i)"
      using speaker [of i] speaker [of "Suc i"] to [of i]
      by (cases "even i") (simp_all add: upgrade_turns_nth upgrade_turn_fields other)
  qed
  show "\<forall>t \<in> set (upgrade_turns ts). ct_to_id t \<in> {''a'', ''b''}"
  proof
    fix t
    assume "t \<in> set (upgrade_turns ts)"
    then obtain i where i: "i < length ts" "t = upgrade_turns ts ! i" by (auto simp: in_set_conv_nth)
    from ab [OF i(1)] show "ct_to_id t \<in> {''a'', ''b''}"
      unfolding i(2) to [OF i(1)] by (elim disjE) (simp_all add: slot_other_def status_defs)
  qed
  show "map ct_response (upgrade_turns ts) = map ct_response ts" "map ct_index (upgrade_turns ts) = map ct_index ts"
    by (auto intro!: nth_equalityI simp: upgrade_turns_nth upgrade_turn_fields)
qed (rule upgrade_turns_idem)

theorem v1_log_routed_witness:
  "turn_chain PeerSlotB (upgrade_turns [zero_conversation_turn\<lparr>ct_from := ''b''\<rparr>, zero_conversation_turn\<lparr>ct_from := ''a''\<rparr>])"
  by (rule v1_log_routed [THEN conjunct1])
    (auto simp: alternates_def nth_Cons' slot_other_def status_defs zero_conversation_turn_def)

end
