(* ===== verification/Runtime.thy ===== *)
theory Runtime
  imports Peers "HOL-Library.Word"
begin

text \<open>
  Processes behind a pseudo terminal: what \<open>Spawn\<close> of \<open>src/internal/terminal/runtime.go\<close> starts,
  and the two goroutines and channels of \<open>src/internal/terminal/process.go\<close> as a step relation.
  The start of the process is a parameter; the bytes the child writes, the moment it exits and
  the interleaving of the goroutines with the receivers are free.
\<close>

section \<open>Spawning\<close>

record launch =
  la_command :: string
  la_args :: "string list"
  la_dir :: string
  la_env :: "string list"
  la_rows :: "16 word"
  la_cols :: "16 word"

definition spawn_env :: "string list \<Rightarrow> spawn_spec \<Rightarrow> string list" where
  "spawn_env environ spec =
     environ @ (if ss_home_dir spec \<noteq> [] then [''HOME='' @ ss_home_dir spec] else [])
       @ map (\<lambda>(k, v). k @ ''='' @ v) (ss_env spec)"

text \<open>The conversion to 16 bits drops the high bits; a size of zero is replaced.\<close>

definition win_size :: "16 word \<Rightarrow> int \<Rightarrow> 16 word" where
  "win_size fallback n = (let w = word_of_int n in if w = 0 then fallback else w)"

definition runtime_spawn ::
    "string list \<Rightarrow> (launch \<Rightarrow> go_error option) \<Rightarrow> spawn_spec \<Rightarrow> launch result" where
  "runtime_spawn environ start spec =
     (if ss_command spec = [] then Inl (ErrMsg ''missing command'')
      else let l = \<lparr>la_command = ss_command spec, la_args = ss_args spec, la_dir = ss_cwd spec,
               la_env = spawn_env environ spec, la_rows = win_size 24 (ss_terminal_rows spec),
               la_cols = win_size 80 (ss_terminal_cols spec)\<rparr>
           in case start l of Some e \<Rightarrow> Inl (ErrWrap ''start pty: '' e) | None \<Rightarrow> Inr l)"

text \<open>What a child sees of its environment: \<open>os/exec\<close> keeps the last entry of a variable.\<close>

definition env_entry :: "string \<Rightarrow> string \<Rightarrow> string option" where
  "env_entry k e = (if has_prefix e (k @ ''='') then Some (drop (length k + 1) e) else None)"

definition env_value :: "string list \<Rightarrow> string \<Rightarrow> string option" where
  "env_value env k = (case rev (List.map_filter (env_entry k) env) of [] \<Rightarrow> None | v # vs \<Rightarrow> Some v)"

lemma env_entry_pair:
  assumes "CHR ''='' \<notin> set k" and "CHR ''='' \<notin> set k'"
  shows "env_entry k (k' @ ''='' @ v) = (if k = k' then Some v else None)"
proof (cases "k = k'")
  case True
  then show ?thesis by (simp add: env_entry_def has_prefix_def)
next
  case False
  have "\<not> has_prefix (k' @ ''='' @ v) (k @ ''='')"
  proof
    assume "has_prefix (k' @ ''='' @ v) (k @ ''='')"
    then obtain r where r: "k' @ ''='' @ v = k @ ''='' @ r" by (auto simp: has_prefix_iff prefix_def)
    have "takeWhile (\<lambda>c. c \<noteq> CHR ''='') (x @ ''='' @ y) = x" if "CHR ''='' \<notin> set x" for x y
      using that by (simp add: takeWhile_append)
    from this [OF assms(2), of v] this [OF assms(1), of r] r have "k' = k" by simp
    with False show False by simp
  qed
  with False show ?thesis by (simp add: env_entry_def)
qed

lemma env_value_append:
  "env_value (xs @ ys) k = (case env_value ys k of None \<Rightarrow> env_value xs k | Some v \<Rightarrow> Some v)"
  by (simp add: env_value_def List.map_filter_def split: list.splits)

lemma env_value_pairs:
  assumes "CHR ''='' \<notin> set k" and "\<forall>k' \<in> fst ` set m. CHR ''='' \<notin> set k'" and "distinct (map fst m)"
  shows "env_value (map (\<lambda>(k, v). k @ ''='' @ v) m) k = map_of m k"
  using assms(2,3)
proof (induction m)
  case Nil
  then show ?case by (simp add: env_value_def List.map_filter_simps)
next
  case (Cons e m)
  obtain k' v where e: "e = (k', v)" by (cases e)
  have one: "env_value [k' @ ''='' @ v] k = (if k = k' then Some v else None)"
    using env_entry_pair [OF assms(1), of k' v] Cons.prems(1) e
    by (auto simp: env_value_def List.map_filter_simps)
  have tail: "env_value (map (\<lambda>(k, v). k @ ''='' @ v) m) k = map_of m k" using Cons by simp
  have app: "env_value (map (\<lambda>(k, v). k @ ''='' @ v) (e # m)) k =
      (case map_of m k of None \<Rightarrow> env_value [k' @ ''='' @ v] k | Some v \<Rightarrow> Some v)"
    using env_value_append [of "[k' @ ''='' @ v]" "map (\<lambda>(k, v). k @ ''='' @ v) m" k] tail e by simp
  show ?case
  proof (cases "k = k'")
    case True
    then have "map_of m k = None" using Cons.prems(2) e by (auto simp: map_of_eq_None_iff)
    with app one True e show ?thesis by (simp del: append.simps)
  next
    case False
    with app one e show ?thesis by (auto simp del: append.simps split: option.splits)
  qed
qed

lemma spawn_env_value:
  assumes "CHR ''='' \<notin> set k" and "\<forall>k' \<in> fst ` set (ss_env spec). CHR ''='' \<notin> set k'"
    and "distinct (map fst (ss_env spec))"
  shows "env_value (spawn_env environ spec) k = (case map_of (ss_env spec) k of
      Some v \<Rightarrow> Some v
    | None \<Rightarrow> if k = ''HOME'' \<and> ss_home_dir spec \<noteq> [] then Some (ss_home_dir spec) else env_value environ k)"
proof -
  have "CHR ''='' \<notin> set ''HOME''" by simp
  from env_entry_pair [OF assms(1) this, of "ss_home_dir spec"]
  have home: "env_value [''HOME='' @ ss_home_dir spec] k = (if k = ''HOME'' then Some (ss_home_dir spec) else None)"
    by (auto simp: env_value_def List.map_filter_simps)
  have nil: "env_value [] k = None" by (simp add: env_value_def List.map_filter_simps)
  have h: "env_value (if ss_home_dir spec \<noteq> [] then [''HOME='' @ ss_home_dir spec] else []) k =
      (if k = ''HOME'' \<and> ss_home_dir spec \<noteq> [] then Some (ss_home_dir spec) else None)"
    unfolding if_distrib [of "\<lambda>e. env_value e k"] home nil by simp
  show ?thesis
    unfolding spawn_env_def env_value_append env_value_pairs [OF assms] h by (auto split: option.split)
qed

lemma build_peer_env_keys:
  "distinct (map fst (build_peer_env opts))" "\<forall>k \<in> fst ` set (build_peer_env opts). CHR ''='' \<notin> set k"
proof -
  have "distinct (map fst (fold env_option os m))" if "distinct (map fst m)" for os m
    using that by (induction os arbitrary: m) (auto simp: env_option_def Let_def distinct_map_put)
  from this [of "[]" opts] show "distinct (map fst (build_peer_env opts))"
    by (auto simp: build_peer_env_def Let_def distinct_map_put)
  have "fst ` set (build_peer_env opts) \<subseteq> set allowed_env_keys \<union> {''VITIS_MODEL'', ''VITIS_REASONING_EFFORT''}"
    using peer_env_allowed [of opts] by simp
  moreover have "\<forall>k \<in> set allowed_env_keys \<union> {''VITIS_MODEL'', ''VITIS_REASONING_EFFORT''}. CHR ''='' \<notin> set k"
    by (simp add: allowed_env_keys_def)
  ultimately show "\<forall>k \<in> fst ` set (build_peer_env opts). CHR ''='' \<notin> set k" by blast
qed



text \<open>The terminal never has zero rows or columns; sizes that do not fit 16 bits wrap around.\<close>

lemma uint_win_size:
  "uint (win_size f n) = (if n mod 65536 = 0 then uint f else n mod 65536)"
proof -
  have "uint (word_of_int n :: 16 word) = n mod 65536" by (simp add: uint_word_of_int)
  moreover from this have "(word_of_int n :: 16 word) = 0 \<longleftrightarrow> n mod 65536 = 0" by (metis uint_0_iff)
  ultimately show ?thesis by (simp add: win_size_def Let_def)
qed

section \<open>The goroutines of a process\<close>

text \<open>
  The reader goroutine holds at most one chunk it waits to send; the waiter goroutine first waits
  for the child, then closes the terminal, sends the exit result and closes its channel.
\<close>

datatype waiter = Waiting | TerminalClosed exit_result | ResultSent exit_result | WaiterDone exit_result

record pty_process =
  px_kernel :: string
  px_pending :: "stream_event option"
  px_output :: "stream_event list"
  px_output_closed :: bool
  px_waiter :: waiter
  px_done :: "exit_result list"
  px_done_closed :: bool

text \<open>What the outside has seen: the bytes the child wrote, and every receive from the two channels.\<close>

record pty_history =
  hx_written :: string
  hx_output :: "stream_event option list"
  hx_done :: "exit_result option list"

definition output_capacity :: nat where "output_capacity = 128"

definition new_process :: pty_process where
  "new_process = \<lparr>px_kernel = [], px_pending = None, px_output = [], px_output_closed = False,
     px_waiter = Waiting, px_done = [], px_done_closed = False\<rparr>"

definition read_chunk :: "nat \<Rightarrow> go_time \<Rightarrow> pty_process \<Rightarrow> pty_process" where
  "read_chunk n now p =
     p\<lparr>px_kernel := drop n (px_kernel p),
       px_pending := Some \<lparr>se_timestamp = now, se_kind = StreamEventOutput, se_data = take n (px_kernel p)\<rparr>\<rparr>"

definition exit_of :: "int + go_error option \<Rightarrow> exit_result" where
  "exit_of r = (case r of Inl code \<Rightarrow> \<lparr>ex_code = code, ex_err = None\<rparr> | Inr err \<Rightarrow> \<lparr>ex_code = 0, ex_err = err\<rparr>)"

text \<open>
  A receive from the done channel by the completion loop, by the pump of a persistent process or
  by \<open>Terminate\<close>: they share the channel.
\<close>

inductive pty_step :: "pty_process \<times> pty_history \<Rightarrow> pty_process \<times> pty_history \<Rightarrow> bool" where
  child_writes: "px_waiter p = Waiting \<Longrightarrow>
    pty_step (p, h) (p\<lparr>px_kernel := px_kernel p @ bs\<rparr>, h\<lparr>hx_written := hx_written h @ bs\<rparr>)"
| reads: "px_waiter p = Waiting \<Longrightarrow> px_pending p = None \<Longrightarrow> \<not> px_output_closed p \<Longrightarrow>
    0 < n \<Longrightarrow> n \<le> 4096 \<Longrightarrow> n \<le> length (px_kernel p) \<Longrightarrow> pty_step (p, h) (read_chunk n now p, h)"
| sends: "px_pending p = Some ev \<Longrightarrow> length (px_output p) < output_capacity \<Longrightarrow>
    pty_step (p, h) (p\<lparr>px_pending := None, px_output := px_output p @ [ev]\<rparr>, h)"
| read_fails: "px_pending p = None \<Longrightarrow> \<not> px_output_closed p \<Longrightarrow> pty_step (p, h) (p\<lparr>px_output_closed := True\<rparr>, h)"
| child_exits: "px_waiter p = Waiting \<Longrightarrow> pty_step (p, h) (p\<lparr>px_waiter := TerminalClosed (exit_of r)\<rparr>, h)"
| result_sent: "px_waiter p = TerminalClosed r \<Longrightarrow>
    pty_step (p, h) (p\<lparr>px_waiter := ResultSent r, px_done := px_done p @ [r]\<rparr>, h)"
| done_closed: "px_waiter p = ResultSent r \<Longrightarrow>
    pty_step (p, h) (p\<lparr>px_waiter := WaiterDone r, px_done_closed := True\<rparr>, h)"
| recv_output: "px_output p = ev # evs \<Longrightarrow>
    pty_step (p, h) (p\<lparr>px_output := evs\<rparr>, h\<lparr>hx_output := hx_output h @ [Some ev]\<rparr>)"
| recv_output_closed: "px_output p = [] \<Longrightarrow> px_output_closed p \<Longrightarrow>
    pty_step (p, h) (p, h\<lparr>hx_output := hx_output h @ [None]\<rparr>)"
| recv_done: "px_done p = r # rs \<Longrightarrow>
    pty_step (p, h) (p\<lparr>px_done := rs\<rparr>, h\<lparr>hx_done := hx_done h @ [Some r]\<rparr>)"
| recv_done_closed: "px_done p = [] \<Longrightarrow> px_done_closed p \<Longrightarrow>
    pty_step (p, h) (p, h\<lparr>hx_done := hx_done h @ [None]\<rparr>)"

text \<open>
  \<open>Terminate\<close>: only the first call does anything.  \<open>kill\<close> is the system call, \<open>is_process_done\<close> the
  test for \<open>os.ErrProcessDone\<close>, and \<open>exits_in_time\<close> says whether a receive from the done channel
  succeeds within the grace period.
\<close>

datatype kill_signal = SIGINT | SIGKILL

definition process_terminate ::
    "(kill_signal \<Rightarrow> go_error option) \<Rightarrow> (go_error \<Rightarrow> bool) \<Rightarrow> bool \<Rightarrow> bool \<Rightarrow> bool
      \<Rightarrow> go_error option \<times> bool \<times> kill_signal list" where
  "process_terminate kill is_process_done started exits_in_time used =
     (if used then (None, True, [])
      else if \<not> started then (None, True, [])
      else case kill SIGINT of
          Some e \<Rightarrow> if is_process_done e
            then (None, True, if exits_in_time then [SIGINT] else [SIGINT, SIGKILL])
            else (Some e, True, [SIGINT])
        | None \<Rightarrow> (None, True, if exits_in_time then [SIGINT] else [SIGINT, SIGKILL]))"

definition new_history :: pty_history where
  "new_history = \<lparr>hx_written = [], hx_output = [], hx_done = []\<rparr>"

text \<open>The results received so far, given the state of the waiter and the channel.\<close>

fun done_ok :: "waiter \<Rightarrow> exit_result list \<Rightarrow> bool \<Rightarrow> exit_result option list \<Rightarrow> bool" where
  "done_ok (ResultSent r) ch closed got \<longleftrightarrow> \<not> closed \<and> (ch = [r] \<and> got = [] \<or> ch = [] \<and> got = [Some r])"
| "done_ok (WaiterDone r) ch closed got \<longleftrightarrow> closed \<and>
     (ch = [r] \<and> got = [] \<or> ch = [] \<and> (\<exists>n. got = Some r # replicate n None))"
| "done_ok w ch closed got \<longleftrightarrow> \<not> closed \<and> ch = [] \<and> got = []"

fun pty_inv :: "pty_process \<times> pty_history \<Rightarrow> bool" where
  "pty_inv (p, h) \<longleftrightarrow>
     done_ok (px_waiter p) (px_done p) (px_done_closed p) (hx_done h) \<and>
     length (px_output p) \<le> output_capacity \<and>
     (px_output_closed p \<longrightarrow> px_pending p = None) \<and>
     (\<exists>evs n. hx_output h = map Some evs @ replicate n None \<and> (n > 0 \<longrightarrow> px_output_closed p \<and> px_output p = []) \<and>
        concat (map se_data (evs @ px_output p @ (case px_pending p of None \<Rightarrow> [] | Some ev \<Rightarrow> [ev]))) @ px_kernel p
          = hx_written h)"

lemma done_ok_recv_closed: "done_ok w [] True got \<Longrightarrow> done_ok w [] True (got @ [None])"
proof (cases w)
  case (WaiterDone r)
  moreover assume "done_ok w [] True got"
  ultimately obtain n where "got @ [None] = Some r # replicate n None @ [None]" by auto
  then have "got @ [None] = Some r # replicate (Suc n) None" by (simp add: replicate_append_same)
  with WaiterDone show ?thesis by (auto simp del: replicate_Suc)
qed auto

lemma pty_inv_step: "pty_step s s' \<Longrightarrow> pty_inv s \<Longrightarrow> pty_inv s'"
proof (induction rule: pty_step.induct)
  case (child_writes p h bs)
  then show ?case by fastforce
next
  case (reads p n h now)
  then obtain evs m where "hx_output h = map Some evs @ replicate m None" "m > 0 \<longrightarrow> px_output_closed p \<and> px_output p = []"
    "concat (map se_data (evs @ px_output p)) @ px_kernel p = hx_written h" by auto
  with reads show ?case by (auto simp: read_chunk_def intro!: exI [of _ evs] exI [of _ m])
next
  case (sends p ev h)
  then obtain evs m where "hx_output h = map Some evs @ replicate m None" "m > 0 \<longrightarrow> px_output_closed p \<and> px_output p = []"
    "concat (map se_data (evs @ px_output p @ [ev])) @ px_kernel p = hx_written h" by auto
  with sends show ?case by (auto simp: intro!: exI [of _ evs] exI [of _ m])
next
  case (read_fails p h)
  then obtain evs where "hx_output h = map Some evs" "concat (map se_data (evs @ px_output p)) @ px_kernel p = hx_written h"
    by auto
  with read_fails show ?case by (auto intro!: exI [of _ evs] exI [of _ "0::nat"])
next
  case (recv_output p ev evs h)
  then obtain evs' where "hx_output h = map Some evs'"
    "concat (map se_data (evs' @ px_output p @ (case px_pending p of None \<Rightarrow> [] | Some ev \<Rightarrow> [ev]))) @ px_kernel p = hx_written h"
    by auto
  with recv_output show ?case by (auto intro!: exI [of _ "evs' @ [ev]"] exI [of _ "0::nat"])
next
  case (recv_output_closed p h)
  then obtain evs m where "hx_output h = map Some evs @ replicate m None"
    "concat (map se_data (evs @ px_output p)) @ px_kernel p = hx_written h" by auto
  with recv_output_closed show ?case
    by (auto intro!: exI [of _ evs] exI [of _ "Suc m"] simp: replicate_append_same simp flip: replicate_Suc)
next
  case (recv_done p r rs h)
  then show ?case by (cases "px_waiter p") (auto intro: exI [of _ "0::nat"])
next
  case (recv_done_closed p h)
  then show ?case by (auto intro: done_ok_recv_closed)
qed auto

lemma pty_inv_reachable: "pty_step\<^sup>*\<^sup>* (new_process, new_history) s \<Longrightarrow> pty_inv s"
proof (induction rule: rtranclp_induct)
  case base
  show ?case by (auto simp: new_process_def new_history_def intro: exI [of _ "0::nat"])
qed (rule pty_inv_step)

text \<open>
  C26. The channels of a process, under every interleaving: the chunks received are, in order and
  without a gap, a prefix of what the child wrote, and nothing follows the close of the output
  channel; of all receives from the done channel, whoever makes them, the first yields the
  exit result and every later one the zero value of the closed channel.
\<close>

theorem process_channels:
  assumes "pty_step\<^sup>*\<^sup>* (new_process, new_history) (p, h)"
  shows "(\<exists>evs n rest. hx_output h = map Some evs @ replicate n None \<and>
      concat (map se_data evs) @ rest = hx_written h) \<and>
    (hx_done h = [] \<or> (\<exists>r n. hx_done h = Some r # replicate n None))"
proof -
  have inv: "pty_inv (p, h)" by (rule pty_inv_reachable [OF assms])
  then obtain evs n rest where "hx_output h = map Some evs @ replicate n None"
    "concat (map se_data evs) @ rest = hx_written h" by auto
  moreover have "hx_done h = [] \<or> (\<exists>r n. hx_done h = Some r # replicate n None)"
    using inv by (cases "px_waiter p") (auto intro: exI [of _ "0::nat"])
  ultimately show ?thesis by blast
qed

text \<open>
  Output can be lost: the waiter closes the terminal as soon as the child has exited, and what
  the reader has not fetched by then never reaches the output channel.
\<close>

definition lost_process :: pty_process where
  "lost_process = new_process\<lparr>px_kernel := ''bye'', px_waiter := TerminalClosed \<lparr>ex_code = 0, ex_err = None\<rparr>,
     px_output_closed := True\<rparr>"

lemma process_output_lost:
  "pty_step\<^sup>*\<^sup>* (new_process, new_history) (lost_process, new_history\<lparr>hx_written := ''bye'', hx_output := [None]\<rparr>)"
proof -
  have "pty_step\<^sup>*\<^sup>* (new_process, new_history) (new_process\<lparr>px_kernel := ''bye''\<rparr>, new_history\<lparr>hx_written := ''bye''\<rparr>)"
    using child_writes [of new_process new_history "''bye''"] by (simp add: new_process_def new_history_def r_into_rtranclp)
  also have "pty_step \<dots> (new_process\<lparr>px_kernel := ''bye'', px_waiter := TerminalClosed (exit_of (Inl 0))\<rparr>,
      new_history\<lparr>hx_written := ''bye''\<rparr>)"
    using child_exits [of "new_process\<lparr>px_kernel := ''bye''\<rparr>" "new_history\<lparr>hx_written := ''bye''\<rparr>" "Inl 0"]
    by (simp add: new_process_def)
  also have "pty_step \<dots> (lost_process, new_history\<lparr>hx_written := ''bye''\<rparr>)"
    using read_fails [of "new_process\<lparr>px_kernel := ''bye'', px_waiter := TerminalClosed (exit_of (Inl 0))\<rparr>"
        "new_history\<lparr>hx_written := ''bye''\<rparr>"]
    by (simp add: new_process_def lost_process_def exit_of_def)
  also have "pty_step \<dots> (lost_process, new_history\<lparr>hx_written := ''bye'', hx_output := [None]\<rparr>)"
    using recv_output_closed [of lost_process "new_history\<lparr>hx_written := ''bye''\<rparr>"]
    by (simp add: lost_process_def new_process_def new_history_def)
  finally show ?thesis .
qed

theorem process_channels_witness:
  "pty_step\<^sup>*\<^sup>* (new_process, new_history) (lost_process, new_history\<lparr>hx_written := ''bye'', hx_output := [None]\<rparr>) \<and>
   (\<exists>(evs :: stream_event list) n rest. [None] = map Some evs @ replicate n None \<and> concat (map se_data evs) @ rest = ''bye'')"
  using process_channels [OF process_output_lost] process_output_lost by simp

end
