(* ===== verification/Screen.thy ===== *)
theory Screen
  imports Terminal
begin

text \<open>
  The VT100 screen buffer of \<open>src/internal/terminal/screen.go\<close>.  Go's \<open>int\<close> has 64 bits: sums
  and differences that the parameters of an escape sequence enter are wrapped.  An index out of
  range panics, which is the result \<open>None\<close>; so a theorem that says \<open>Some\<close> says that the code
  does not panic.  The rows are values: the source moves row slices around inside a scroll
  region and replaces the vacated ones by fresh rows, so that no two rows share storage.
\<close>

type_synonym rune = nat

record screen =
  sc_cols :: int
  sc_height :: int
  sc_rows :: "rune list list"
  sc_cur_row :: int
  sc_cur_col :: int
  sc_saved :: "int \<times> int"
  sc_scroll_top :: int
  sc_scroll_bot :: int

definition new_screen :: "int \<Rightarrow> int \<Rightarrow> screen" where
  "new_screen cols height =
     \<lparr>sc_cols = (if cols \<le> 0 then 80 else cols), sc_height = height, sc_rows = [],
      sc_cur_row = 0, sc_cur_col = 0, sc_saved = (0, 0), sc_scroll_top = 0,
      sc_scroll_bot = (if height > 0 then height - 1 else 0)\<rparr>"

definition new_blank_row :: "screen \<Rightarrow> rune list" where
  "new_blank_row s = replicate (nat (sc_cols s)) 32"

definition ensure_row :: "int \<Rightarrow> screen \<Rightarrow> screen" where
  "ensure_row row s =
     s\<lparr>sc_rows := sc_rows s @ replicate (nat (row + 1) - length (sc_rows s)) (new_blank_row s)\<rparr>"

definition write_rune :: "rune \<Rightarrow> screen \<Rightarrow> screen" where
  "write_rune r s0 =
     (let s1 = (if sc_cur_row s0 < 0 then s0\<lparr>sc_cur_row := 0\<rparr> else s0);
          s2 = ensure_row (sc_cur_row s1) s1;
          s3 = (if 0 \<le> sc_cur_col s2 \<and> sc_cur_col s2 < sc_cols s2
                then s2\<lparr>sc_rows := (sc_rows s2)[nat (sc_cur_row s2) :=
                       (sc_rows s2 ! nat (sc_cur_row s2))[nat (sc_cur_col s2) := r]]\<rparr>
                else s2);
          s4 = s3\<lparr>sc_cur_col := wrap64 (sc_cur_col s3 + 1)\<rparr>
      in if sc_cur_col s4 \<ge> sc_cols s4
         then s4\<lparr>sc_cur_col := 0, sc_cur_row := wrap64 (sc_cur_row s4 + 1)\<rparr> else s4)"

section \<open>Scrolling\<close>

text \<open>
  Both loops of a scroll, in one: within the region the rows move by \<open>n\<close> and \<open>n\<close> blank rows
  appear at the other end.
\<close>

definition region_up :: "nat \<Rightarrow> 'a \<Rightarrow> 'a list \<Rightarrow> 'a list" where
  "region_up n blank region = drop n region @ replicate (min n (length region)) blank"

definition region_down :: "nat \<Rightarrow> 'a \<Rightarrow> 'a list \<Rightarrow> 'a list" where
  "region_down n blank region =
     replicate (min n (length region)) blank @ take (length region - n) region"

definition scroll_region ::
    "(nat \<Rightarrow> rune list \<Rightarrow> rune list list \<Rightarrow> rune list list) \<Rightarrow> int \<Rightarrow> screen \<Rightarrow> screen" where
  "scroll_region move n s0 =
     (if n \<le> 0 \<or> sc_height s0 = 0 then s0
      else let s = ensure_row (sc_scroll_bot s0) s0;
               top = nat (sc_scroll_top s);
               size = nat (sc_scroll_bot s - sc_scroll_top s + 1);
               rows = sc_rows s
           in s\<lparr>sc_rows := take top rows
                 @ move (nat n) (new_blank_row s) (take size (drop top rows))
                 @ drop (top + size) rows\<rparr>)"

definition do_scroll_up :: "int \<Rightarrow> screen \<Rightarrow> screen" where
  "do_scroll_up n s = scroll_region region_up n s"

definition do_scroll_down :: "int \<Rightarrow> screen \<Rightarrow> screen" where
  "do_scroll_down n s = scroll_region region_down n s"

section \<open>Erasing\<close>

text \<open>\<open>for j := lo; j < hi; j++ { s.rows[row][j] = ' ' }\<close>\<close>

definition blank_cells :: "int \<Rightarrow> int \<Rightarrow> int \<Rightarrow> screen \<Rightarrow> screen option" where
  "blank_cells row lo hi s =
     (if lo \<ge> hi then Some s
      else if row < 0 \<or> row \<ge> int (length (sc_rows s)) then None
      else let line = sc_rows s ! nat row in
        if lo < 0 \<or> hi > int (length line) then None
        else Some (s\<lparr>sc_rows := (sc_rows s)[nat row :=
          take (nat lo) line @ replicate (nat (hi - lo)) 32 @ drop (nat hi) line]\<rparr>))"

text \<open>\<open>for row := lo; row < hi; row++\<close> over whole rows, with \<open>hi\<close> at most the number of rows.\<close>

definition blank_rows :: "int \<Rightarrow> int \<Rightarrow> screen \<Rightarrow> screen option" where
  "blank_rows lo hi s =
     (if lo \<ge> hi then Some s
      else if lo < 0 then None
      else Some (s\<lparr>sc_rows := take (nat lo) (sc_rows s)
        @ map (\<lambda>r. replicate (length r) 32) (take (nat (hi - lo)) (drop (nat lo) (sc_rows s)))
        @ drop (nat hi) (sc_rows s)\<rparr>))"

definition erase_display :: "int \<Rightarrow> screen \<Rightarrow> screen option" where
  "erase_display n s =
     (let len = int (length (sc_rows s)) in
      if n = 0 then
        (if sc_cur_row s < len
         then Option.bind (blank_cells (sc_cur_row s) (sc_cur_col s) (sc_cols s) s)
                (blank_rows (wrap64 (sc_cur_row s + 1)) len)
         else Some s)
      else if n = 1 then
        Option.bind (blank_rows 0 (min (sc_cur_row s) len) s) (\<lambda>s'.
          if sc_cur_row s' < len
          then blank_cells (sc_cur_row s') 0 (min (sc_cur_col s' + 1) (sc_cols s')) s'
          else Some s')
      else if n = 2 \<or> n = 3 then blank_rows 0 len s
      else Some s)"

definition erase_line :: "int \<Rightarrow> screen \<Rightarrow> screen option" where
  "erase_line n s =
     (if sc_cur_row s < int (length (sc_rows s)) then
        (if n = 0 then blank_cells (sc_cur_row s) (sc_cur_col s) (sc_cols s) s
         else if n = 1
         then blank_cells (sc_cur_row s) 0 (min (sc_cur_col s + 1) (sc_cols s)) s
         else if n = 2 then
           (if sc_cur_row s < 0 then None
            else blank_rows (sc_cur_row s) (sc_cur_row s + 1) s)
         else Some s)
      else Some s)"

definition delete_chars :: "int \<Rightarrow> screen \<Rightarrow> screen option" where
  "delete_chars n s =
     (if sc_cur_row s < int (length (sc_rows s)) then
        (if sc_cur_row s < 0 then None
         else let row = sc_rows s ! nat (sc_cur_row s);
                  len = int (length row);
                  end_col = min (wrap64 (sc_cur_col s + n)) (sc_cols s)
           in if sc_cur_col s < 0 \<or> sc_cur_col s > len \<or> end_col < 0 \<or> end_col > len then None
              else let k = min (len - sc_cur_col s) (len - end_col);
                       moved = take (nat (sc_cur_col s)) row
                         @ take (nat k) (drop (nat end_col) row)
                         @ drop (nat (sc_cur_col s + k)) row;
                       from = max 0 (wrap64 (sc_cols s - n))
                   in Some (s\<lparr>sc_rows := (sc_rows s)[nat (sc_cur_row s) :=
                        (if from < sc_cols s
                         then take (nat from) moved @ replicate (nat (sc_cols s - from)) 32
                           @ drop (nat (sc_cols s)) moved
                         else moved)]\<rparr>))
      else Some s)"

section \<open>Escape sequences\<close>

definition parse_one :: "string \<Rightarrow> int \<Rightarrow> int" where
  "parse_one params def =
     (let p = trim_left params ''?'';
          p = (case str_index p '';'' of None \<Rightarrow> p | Some idx \<Rightarrow> take idx p)
      in if p = [] then def
         else case atoi p of None \<Rightarrow> def | Some v \<Rightarrow> if v = 0 then def else v)"

definition parse_pos :: "string \<Rightarrow> int \<Rightarrow> int" where
  "parse_pos p def = (if p = [] then def
     else case atoi p of None \<Rightarrow> def | Some v \<Rightarrow> if v > 0 then v else def)"

definition parse_two :: "string \<Rightarrow> int \<Rightarrow> int \<Rightarrow> int \<times> int" where
  "parse_two params def_a def_b =
     (case str_index params '';'' of
        None \<Rightarrow> (parse_pos params def_a, def_b)
      | Some idx \<Rightarrow> (parse_pos (take idx params) def_a, parse_pos (drop (idx + 1) params) def_b))"

definition clamp :: "int \<Rightarrow> int \<Rightarrow> int \<Rightarrow> int" where
  "clamp v lo hi = (if v < lo then lo else if v > hi then hi else v)"

definition set_margins :: "string \<Rightarrow> screen \<Rightarrow> screen" where
  "set_margins params s =
     (if sc_height s > 0 then
        (let (top, bot) = parse_two params 1 (sc_height s);
             t = clamp (top - 1) 0 (sc_height s - 1);
             b = clamp (bot - 1) 0 (sc_height s - 1)
         in s\<lparr>sc_scroll_top := (if t \<ge> b then 0 else t),
              sc_scroll_bot := (if t \<ge> b then sc_height s - 1 else b),
              sc_cur_row := 0, sc_cur_col := 0\<rparr>)
      else s)"

definition handle_csi :: "string \<Rightarrow> char \<Rightarrow> screen \<Rightarrow> screen option" where
  "handle_csi params final s =
     (let n1 = parse_one params 1; n0 = parse_one params 0 in
      if final = CHR ''H'' \<or> final = CHR ''f'' then
        (let (row, col) = parse_two params 1 1
         in Some (s\<lparr>sc_cur_row := clamp (row - 1) 0 65535,
                    sc_cur_col := clamp (col - 1) 0 (sc_cols s - 1)\<rparr>))
      else if final = CHR ''A'' then Some (s\<lparr>sc_cur_row := max 0 (wrap64 (sc_cur_row s - n1))\<rparr>)
      else if final = CHR ''B'' then Some (s\<lparr>sc_cur_row := wrap64 (sc_cur_row s + n1)\<rparr>)
      else if final = CHR ''C'' then
        Some (s\<lparr>sc_cur_col := min (sc_cols s - 1) (wrap64 (sc_cur_col s + n1))\<rparr>)
      else if final = CHR ''D'' then Some (s\<lparr>sc_cur_col := max 0 (wrap64 (sc_cur_col s - n1))\<rparr>)
      else if final = CHR ''E'' then
        Some (s\<lparr>sc_cur_col := 0, sc_cur_row := wrap64 (sc_cur_row s + n1)\<rparr>)
      else if final = CHR ''F'' then
        Some (s\<lparr>sc_cur_col := 0, sc_cur_row := max 0 (wrap64 (sc_cur_row s - n1))\<rparr>)
      else if final = CHR ''G'' then
        Some (s\<lparr>sc_cur_col := clamp (wrap64 (n1 - 1)) 0 (sc_cols s - 1)\<rparr>)
      else if final = CHR ''d'' then Some (s\<lparr>sc_cur_row := clamp (wrap64 (n1 - 1)) 0 65535\<rparr>)
      else if final = CHR ''J'' then erase_display n0 s
      else if final = CHR ''K'' then erase_line n0 s
      else if final = CHR ''P'' then delete_chars n1 s
      else if final = CHR ''s'' then Some (s\<lparr>sc_saved := (sc_cur_row s, sc_cur_col s)\<rparr>)
      else if final = CHR ''u'' then
        Some (s\<lparr>sc_cur_row := fst (sc_saved s), sc_cur_col := snd (sc_saved s)\<rparr>)
      else if final = CHR ''r'' then Some (set_margins params s)
      else if final = CHR ''S'' then Some (do_scroll_up n1 s)
      else if final = CHR ''T'' then Some (do_scroll_down n1 s)
      else Some s)"

section \<open>Writing bytes\<close>

definition line_feed :: "screen \<Rightarrow> screen" where
  "line_feed s =
     (if sc_height s > 0 \<and> sc_cur_row s = sc_scroll_bot s then do_scroll_up 1 s
      else s\<lparr>sc_cur_row := wrap64 (sc_cur_row s + 1)\<rparr>)"

definition back_space :: "screen \<Rightarrow> screen" where
  "back_space s = (if sc_cur_col s > 0 then s\<lparr>sc_cur_col := sc_cur_col s - 1\<rparr> else s)"

text \<open>
  One token of the input: what the bytes at the head ask for, and the bytes behind it.  The
  bytes of a CSI sequence below 0x40 are its parameters, the next byte is its final byte.
\<close>

datatype screen_token =
    TokSkip
  | TokCSI string char
  | TokReturn
  | TokFeed
  | TokBack
  | TokRune rune

definition csi_token :: "string \<Rightarrow> screen_token \<times> string" where
  "csi_token s =
     (case dropWhile (\<lambda>c. byte c < 0x40) s of
        [] \<Rightarrow> (TokSkip, [])
      | final # rest \<Rightarrow> (TokCSI (takeWhile (\<lambda>c. byte c < 0x40) s) final, rest))"

definition escape_token :: "string \<Rightarrow> screen_token \<times> string" where
  "escape_token s =
     (case s of
        [] \<Rightarrow> (TokSkip, [])
      | d # t \<Rightarrow>
          if d = CHR ''['' then csi_token t
          else if d = CHR '']'' then (TokSkip, skip_osc t)
          else if d = CHR ''('' \<or> d = CHR '')'' then (TokSkip, drop 1 t)
          else (TokSkip, t))"

definition next_token :: "char \<Rightarrow> string \<Rightarrow> screen_token \<times> string" where
  "next_token c s =
     (if c = esc then escape_token s
      else if c = cr then (TokReturn, s)
      else if c = nl then (TokFeed, s)
      else if byte c = 0x08 then (TokBack, s)
      else if byte c < 0x20 then (TokSkip, s)
      else (let (r, size) = utf8_decode (c # s) in
        if r = 0xFFFD \<and> size = 1 then (TokSkip, s) else (TokRune r, drop (size - 1) s)))"

definition apply_token :: "screen_token \<Rightarrow> screen \<Rightarrow> screen option" where
  "apply_token tok s =
     (case tok of
        TokSkip \<Rightarrow> Some s
      | TokCSI params final \<Rightarrow> handle_csi params final s
      | TokReturn \<Rightarrow> Some (s\<lparr>sc_cur_col := 0\<rparr>)
      | TokFeed \<Rightarrow> Some (line_feed s)
      | TokBack \<Rightarrow> Some (back_space s)
      | TokRune r \<Rightarrow> Some (write_rune r s))"

lemma next_token_length: "length (snd (next_token c s)) \<le> length s"
proof -
  have "length (snd (csi_token t)) \<le> length t" for t
    using length_dropWhile_le [of "\<lambda>c. byte c < 0x40" t]
    by (auto simp: csi_token_def split: list.splits)
  then have "length (snd (escape_token s)) \<le> length s"
    using skip_osc_length by (auto simp: escape_token_def le_SucI split: list.splits)
  then show ?thesis
    by (auto simp: next_token_def split: prod.splits)
qed

function screen_tokens :: "string \<Rightarrow> screen_token list" where
  "screen_tokens [] = []"
| "screen_tokens (c # s) = fst (next_token c s) # screen_tokens (snd (next_token c s))"
  by pat_completeness auto
termination
  by (relation "measure length") (auto simp: le_imp_less_Suc next_token_length)

fun apply_tokens :: "screen_token list \<Rightarrow> screen \<Rightarrow> screen option" where
  "apply_tokens [] s = Some s"
| "apply_tokens (t # ts) s = Option.bind (apply_token t s) (apply_tokens ts)"

definition screen_write :: "string \<Rightarrow> screen \<Rightarrow> screen option" where
  "screen_write bytes s = apply_tokens (screen_tokens bytes) s"

section \<open>Reading the screen\<close>

definition row_string :: "rune list \<Rightarrow> string" where
  "row_string row = concat (map utf8_encode row)"

definition screen_lines :: "screen \<Rightarrow> string list" where
  "screen_lines s = trim_end (\<lambda>l. l = []) (map (\<lambda>row. trim_right (row_string row) [sp]) (sc_rows s))"

definition screen_content :: "screen \<Rightarrow> string" where
  "screen_content s = str_join [nl] (screen_lines s)"

section \<open>The screen invariant\<close>

definition max_param :: int where
  "max_param = 2147483647"

definition screen_ok :: "int \<Rightarrow> screen \<Rightarrow> bool" where
  "screen_ok bound s \<longleftrightarrow>
     0 < sc_cols s \<and> sc_cols s \<le> max_param \<and>
     list_all (\<lambda>r. length r = nat (sc_cols s)) (sc_rows s) \<and>
     0 \<le> sc_cur_row s \<and> sc_cur_row s \<le> bound \<and> 0 \<le> sc_cur_col s \<and> sc_cur_col s < sc_cols s \<and>
     0 \<le> fst (sc_saved s) \<and> fst (sc_saved s) \<le> bound \<and>
     0 \<le> snd (sc_saved s) \<and> snd (sc_saved s) < sc_cols s \<and>
     0 \<le> sc_scroll_top s \<and> sc_scroll_top s \<le> sc_scroll_bot s"

text \<open>A sequence whose first parameter is not negative and not absurdly large.\<close>

definition tame :: "screen_token \<Rightarrow> bool" where
  "tame tok = (case tok of
     TokCSI params final \<Rightarrow> 0 \<le> parse_one params 1 \<and> parse_one params 1 \<le> max_param
   | _ \<Rightarrow> True)"

lemma blank_row_length [simp]: "length (new_blank_row s) = nat (sc_cols s)"
  by (simp add: new_blank_row_def)

lemma ensure_row_ok: "screen_ok b s \<Longrightarrow> screen_ok b (ensure_row row s)"
  by (auto simp: screen_ok_def ensure_row_def list_all_iff)

lemma ensure_row_fields [simp]:
  "sc_cols (ensure_row row s) = sc_cols s" "sc_height (ensure_row row s) = sc_height s"
  "sc_cur_row (ensure_row row s) = sc_cur_row s" "sc_cur_col (ensure_row row s) = sc_cur_col s"
  "sc_saved (ensure_row row s) = sc_saved s" "sc_scroll_top (ensure_row row s) = sc_scroll_top s"
  "sc_scroll_bot (ensure_row row s) = sc_scroll_bot s"
  "0 \<le> row \<Longrightarrow> row < int (length (sc_rows (ensure_row row s)))"
  by (simp_all add: ensure_row_def)

lemma rows_update_ok:
  "screen_ok b s \<Longrightarrow> list_all (\<lambda>r. length r = nat (sc_cols s)) rows \<Longrightarrow> screen_ok b (s\<lparr>sc_rows := rows\<rparr>)"
  by (simp add: screen_ok_def)

lemma list_all_update: "list_all P xs \<Longrightarrow> P x \<Longrightarrow> list_all P (xs[i := x])"
  by (auto simp: list_all_iff dest: set_update_subset_insert [THEN subsetD])

lemma list_all_nth: "list_all P xs \<Longrightarrow> i < length xs \<Longrightarrow> P (xs ! i)"
  by (simp add: list_all_iff)

lemma screen_ok_mono: "screen_ok b s \<Longrightarrow> b \<le> b' \<Longrightarrow> screen_ok b' s"
  by (auto simp: screen_ok_def)

lemma move_cursor_ok:
  "screen_ok b s \<Longrightarrow> 0 \<le> r \<Longrightarrow> r \<le> b \<Longrightarrow> 0 \<le> c \<Longrightarrow> c < sc_cols s \<Longrightarrow>
     screen_ok b (s\<lparr>sc_cur_row := r, sc_cur_col := c\<rparr>)"
  by (simp add: screen_ok_def)

lemma write_rune_ok:
  assumes "screen_ok b s" and "b < max_int64"
  shows "screen_ok (b + 1) (write_rune r s)"
proof -
  let ?s2 = "ensure_row (sc_cur_row s) s"
  let ?rows = "(sc_rows ?s2)[nat (sc_cur_row s) := (sc_rows ?s2 ! nat (sc_cur_row s))[nat (sc_cur_col s) := r]]"
  have ok2: "screen_ok (b + 1) ?s2"
    using screen_ok_mono [OF ensure_row_ok [OF assms(1)]] by simp
  have pos: "0 \<le> sc_cur_row s" "sc_cur_row s \<le> b" "0 \<le> sc_cur_col s" "sc_cur_col s < sc_cols s"
    "sc_cols s \<le> max_param"
    using assms(1) by (auto simp: screen_ok_def)
  then have lt: "nat (sc_cur_row s) < length (sc_rows ?s2)"
    using ensure_row_fields(8) [OF pos(1), of s] by linarith
  have all: "list_all (\<lambda>r. length r = nat (sc_cols s)) (sc_rows ?s2)"
    using ok2 by (simp add: screen_ok_def)
  have ok3: "screen_ok (b + 1) (?s2\<lparr>sc_rows := ?rows\<rparr>)"
    by (rule rows_update_ok [OF ok2])
       (use all list_all_nth [OF all lt] in \<open>auto intro!: list_all_update\<close>)
  have w: "wrap64 (sc_cur_col s + 1) = sc_cur_col s + 1" "wrap64 (sc_cur_row s + 1) = sc_cur_row s + 1"
    using pos assms(2) by (auto intro!: wrap64_id simp: max_param_def max_int64_def min_int64_def)
  have "write_rune r s = (if sc_cur_col s + 1 \<ge> sc_cols s
      then ?s2\<lparr>sc_rows := ?rows, sc_cur_row := sc_cur_row s + 1, sc_cur_col := 0\<rparr>
      else ?s2\<lparr>sc_rows := ?rows, sc_cur_row := sc_cur_row s, sc_cur_col := sc_cur_col s + 1\<rparr>)"
    using pos by (simp add: write_rune_def Let_def w)
  then show ?thesis
    using move_cursor_ok [OF ok3, of "sc_cur_row s + 1" 0]
      move_cursor_ok [OF ok3, of "sc_cur_row s" "sc_cur_col s + 1"] pos by auto
qed

lemma scroll_region_ok:
  assumes "screen_ok b s"
    and "\<And>n blank rows. set (move n blank rows) \<subseteq> insert blank (set rows)"
  shows "screen_ok b (scroll_region move n s)"
proof -
  let ?s = "ensure_row (sc_scroll_bot s) s"
  have ok: "screen_ok b ?s" by (rule ensure_row_ok [OF assms(1)])
  then have all: "\<And>r. r \<in> set (sc_rows ?s) \<Longrightarrow> length r = nat (sc_cols s)"
    by (simp add: screen_ok_def list_all_iff)
  have "list_all (\<lambda>r. length r = nat (sc_cols ?s)) (take top (sc_rows ?s)
      @ move k (new_blank_row ?s) (take size (drop top (sc_rows ?s))) @ drop (top + size) (sc_rows ?s))"
    for top size k
    using all assms(2) [of k "new_blank_row ?s" "take size (drop top (sc_rows ?s))"]
    by (auto simp: list_all_iff dest!: in_set_takeD in_set_dropD dest: subsetD)
  from rows_update_ok [OF ok this] assms(1) show ?thesis
    by (simp add: scroll_region_def Let_def)
qed

lemma do_scroll_ok:
  "screen_ok b s \<Longrightarrow> screen_ok b (do_scroll_up n s)"
  "screen_ok b s \<Longrightarrow> screen_ok b (do_scroll_down n s)"
  unfolding do_scroll_up_def do_scroll_down_def
  by (auto intro!: scroll_region_ok simp: region_up_def region_down_def
      dest: in_set_dropD in_set_takeD split: if_splits)

lemma blank_cells_ok:
  assumes "screen_ok b s" and "0 \<le> row" and "row < int (length (sc_rows s))"
    and "0 \<le> lo" and "hi \<le> sc_cols s"
  shows "\<exists>s'. blank_cells row lo hi s = Some s' \<and> screen_ok b s' \<and> length (sc_rows s') = length (sc_rows s)
    \<and> sc_cur_row s' = sc_cur_row s \<and> sc_cur_col s' = sc_cur_col s \<and> sc_cols s' = sc_cols s"
proof (cases "lo \<ge> hi")
  case True
  with assms show ?thesis by (simp add: blank_cells_def)
next
  case False
  let ?line = "sc_rows s ! nat row"
  have all: "list_all (\<lambda>r. length r = nat (sc_cols s)) (sc_rows s)"
    using assms(1) by (simp add: screen_ok_def)
  have row: "nat row < length (sc_rows s)"
    using assms(2,3) by linarith
  have len: "length ?line = nat (sc_cols s)"
    using list_all_nth [OF all row] .
  have hi: "\<not> hi > int (length ?line)"
    using len assms(4,5) False by linarith
  have "length (take (nat lo) ?line @ replicate (nat (hi - lo)) 32 @ drop (nat hi) ?line) = nat (sc_cols s)"
    using len assms(4,5) False by simp
  with rows_update_ok [OF assms(1) list_all_update [OF all this]] show ?thesis
    using False assms(2-4) hi by (simp add: blank_cells_def Let_def)
qed

lemma blank_rows_ok:
  assumes "screen_ok b s" and "0 \<le> lo" and "hi \<le> int (length (sc_rows s))"
  shows "\<exists>s'. blank_rows lo hi s = Some s' \<and> screen_ok b s' \<and> length (sc_rows s') = length (sc_rows s)
    \<and> sc_cur_row s' = sc_cur_row s \<and> sc_cur_col s' = sc_cur_col s \<and> sc_cols s' = sc_cols s"
proof (cases "lo \<ge> hi")
  case True
  with assms show ?thesis by (simp add: blank_rows_def)
next
  case False
  have "list_all (\<lambda>r. length r = nat (sc_cols s)) (take (nat lo) (sc_rows s)
      @ map (\<lambda>r. replicate (length r) 32) (take (nat (hi - lo)) (drop (nat lo) (sc_rows s)))
      @ drop (nat hi) (sc_rows s))"
    using assms(1) by (auto simp: screen_ok_def list_all_iff dest!: in_set_takeD in_set_dropD)
  from rows_update_ok [OF assms(1) this] False assms(2,3) show ?thesis
    by (simp add: blank_rows_def)
qed

lemma erase_ok:
  assumes "screen_ok b s" and "b < max_int64"
  shows "\<exists>s'. erase_display n s = Some s' \<and> screen_ok b s'"
    and "\<exists>s'. erase_line n s = Some s' \<and> screen_ok b s'"
proof -
  let ?len = "int (length (sc_rows s))"
  have pos: "0 \<le> sc_cur_row s" "0 \<le> sc_cur_col s" "sc_cur_row s \<le> b"
    using assms(1) by (auto simp: screen_ok_def)
  have w: "wrap64 (sc_cur_row s + 1) = sc_cur_row s + 1"
    using pos assms(2) by (auto intro!: wrap64_id simp: min_int64_def)
  have cells: "\<exists>s'. blank_cells (sc_cur_row s) lo hi s = Some s' \<and> screen_ok b s'
      \<and> length (sc_rows s') = length (sc_rows s) \<and> sc_cur_row s' = sc_cur_row s"
    if "sc_cur_row s < ?len" "0 \<le> lo" "hi \<le> sc_cols s" for lo hi
    using blank_cells_ok [OF assms(1) pos(1) that] by blast
  have rows: "\<exists>s'. blank_rows lo hi s = Some s' \<and> screen_ok b s'"
    if "0 \<le> lo" "hi \<le> ?len" for lo hi
    using blank_rows_ok [OF assms(1) that] by blast
  show "\<exists>s'. erase_line n s = Some s' \<and> screen_ok b s'"
    using cells [of "sc_cur_col s" "sc_cols s"] cells [of 0 "min (sc_cur_col s + 1) (sc_cols s)"]
      rows [of "sc_cur_row s" "sc_cur_row s + 1"] pos assms(1)
    by (auto simp: erase_line_def)
  have display0: "\<exists>s'. Option.bind (blank_cells (sc_cur_row s) (sc_cur_col s) (sc_cols s) s)
      (blank_rows (sc_cur_row s + 1) ?len) = Some s' \<and> screen_ok b s'" if lt: "sc_cur_row s < ?len"
  proof -
    obtain s1 where s1: "blank_cells (sc_cur_row s) (sc_cur_col s) (sc_cols s) s = Some s1"
      "screen_ok b s1" "length (sc_rows s1) = length (sc_rows s)"
      using cells [OF lt pos(2), of "sc_cols s"] by auto
    with blank_rows_ok [OF s1(2), of "sc_cur_row s + 1" ?len] pos(1) show ?thesis by auto
  qed
  have display1: "\<exists>s'. Option.bind (blank_rows 0 (min (sc_cur_row s) ?len) s) (\<lambda>s'.
      if sc_cur_row s' < ?len
      then blank_cells (sc_cur_row s') 0 (min (sc_cur_col s' + 1) (sc_cols s')) s'
      else Some s') = Some s' \<and> screen_ok b s'"
  proof -
    obtain s1 where s1: "blank_rows 0 (min (sc_cur_row s) ?len) s = Some s1" "screen_ok b s1"
      "length (sc_rows s1) = length (sc_rows s)" "sc_cur_row s1 = sc_cur_row s"
      using blank_rows_ok [OF assms(1), of 0 "min (sc_cur_row s) ?len"] by auto
    with blank_cells_ok [OF s1(2), of "sc_cur_row s1" 0 "min (sc_cur_col s1 + 1) (sc_cols s1)"] pos(1)
    show ?thesis by auto
  qed
  show "\<exists>s'. erase_display n s = Some s' \<and> screen_ok b s'"
    using display0 display1 rows [of 0 ?len] assms(1)
    by (cases "n = 0"; cases "n = 1"; cases "n = 2 \<or> n = 3") (simp_all add: erase_display_def Let_def w)
qed

lemma delete_chars_ok:
  assumes "screen_ok b s" and "0 \<le> n" and "n \<le> max_param"
  shows "\<exists>s'. delete_chars n s = Some s' \<and> screen_ok b s'"
proof (cases "sc_cur_row s < int (length (sc_rows s))")
  case True
  let ?row = "sc_rows s ! nat (sc_cur_row s)"
  have pos: "0 \<le> sc_cur_row s" "0 \<le> sc_cur_col s" "sc_cur_col s < sc_cols s" "sc_cols s \<le> max_param"
    and all: "list_all (\<lambda>r. length r = nat (sc_cols s)) (sc_rows s)"
    using assms(1) by (auto simp: screen_ok_def)
  have row: "nat (sc_cur_row s) < length (sc_rows s)"
    using True pos(1) by linarith
  have len: "length ?row = nat (sc_cols s)" by (rule list_all_nth [OF all row])
  have w: "wrap64 (sc_cur_col s + n) = sc_cur_col s + n" "wrap64 (sc_cols s - n) = sc_cols s - n"
    using pos assms(2,3) by (auto intro!: wrap64_id simp: max_param_def min_int64_def max_int64_def)
  define e where "e = min (sc_cur_col s + n) (sc_cols s)"
  define k where "k = min (int (length ?row) - sc_cur_col s) (int (length ?row) - e)"
  define moved where "moved = take (nat (sc_cur_col s)) ?row @ take (nat k) (drop (nat e) ?row)
      @ drop (nat (sc_cur_col s + k)) ?row"
  define start where "start = max 0 (sc_cols s - n)"
  have e: "0 \<le> e" "e \<le> sc_cols s" "sc_cur_col s \<le> e"
    using pos assms(2) by (auto simp: e_def)
  have k: "k = sc_cols s - e"
    using len e pos by (auto simp: k_def)
  have moved: "length moved = nat (sc_cols s)"
    using len k e pos by (simp add: moved_def)
  have "length (if start < sc_cols s then take (nat start) moved
      @ replicate (nat (sc_cols s - start)) 32 @ drop (nat (sc_cols s)) moved else moved) = nat (sc_cols s)"
    using moved by (auto simp: start_def)
  note ok = rows_update_ok [OF assms(1) list_all_update [OF all this], of "nat (sc_cur_row s)"]
  have guards: "(sc_cur_row s < 0) = False" "(sc_cur_col s < 0 \<or> sc_cur_col s > int (length ?row)
      \<or> e < 0 \<or> e > int (length ?row)) = False" "(sc_cur_row s < int (length (sc_rows s))) = True"
    using True pos len e by auto
  have "delete_chars n s = Some (s\<lparr>sc_rows := (sc_rows s)[nat (sc_cur_row s) :=
      (if start < sc_cols s then take (nat start) moved
        @ replicate (nat (sc_cols s - start)) 32 @ drop (nat (sc_cols s)) moved else moved)]\<rparr>)"
    unfolding delete_chars_def Let_def w e_def [symmetric] guards if_True if_False
      k_def [symmetric] moved_def [symmetric] start_def [symmetric] ..
  with ok show ?thesis by blast
qed (use assms in \<open>simp add: delete_chars_def\<close>)

lemma clamp_range: "lo \<le> hi \<Longrightarrow> lo \<le> clamp v lo hi \<and> clamp v lo hi \<le> hi"
  by (simp add: clamp_def)

lemma set_margins_ok: "screen_ok b s \<Longrightarrow> screen_ok b (set_margins params s)"
  using clamp_range [of 0 "sc_height s - 1"]
  by (auto simp: screen_ok_def set_margins_def Let_def split: prod.splits)

lemma handle_csi_ok:
  assumes ok: "screen_ok b s" and b: "65535 \<le> b" "b + max_param < max_int64"
    and n: "0 \<le> parse_one params 1" "parse_one params 1 \<le> max_param"
  shows "\<exists>s'. handle_csi params final s = Some s' \<and> screen_ok (b + max_param) s'"
proof -
  let ?n = "parse_one params 1" and ?b = "b + max_param"
  have pos: "0 \<le> sc_cur_row s" "sc_cur_row s \<le> b" "0 \<le> sc_cur_col s" "sc_cur_col s < sc_cols s"
    "sc_cols s \<le> max_param"
    using ok by (auto simp: screen_ok_def)
  have le: "b \<le> ?b" by (simp add: max_param_def)
  note ok' = screen_ok_mono [OF ok le]
  have w: "wrap64 (sc_cur_row s - ?n) = sc_cur_row s - ?n" "wrap64 (sc_cur_row s + ?n) = sc_cur_row s + ?n"
    "wrap64 (sc_cur_col s + ?n) = sc_cur_col s + ?n" "wrap64 (sc_cur_col s - ?n) = sc_cur_col s - ?n"
    "wrap64 (?n - 1) = ?n - 1"
    using pos n b by (auto intro!: wrap64_id simp: max_param_def min_int64_def max_int64_def)
  have c: "0 \<le> clamp v 0 (sc_cols s - 1) \<and> clamp v 0 (sc_cols s - 1) \<le> sc_cols s - 1"
    "0 \<le> clamp v 0 65535" "clamp v 0 65535 \<le> ?b" for v
    using pos b by (auto simp: clamp_def max_param_def)
  have moved: "screen_ok ?b (s\<lparr>sc_cur_row := r, sc_cur_col := k\<rparr>)"
    if "0 \<le> r" "r \<le> ?b" "0 \<le> k" "k < sc_cols s" for r k
    using move_cursor_ok [OF ok'] that by simp
  have row: "screen_ok ?b (s\<lparr>sc_cur_row := r\<rparr>)" if "0 \<le> r" "r \<le> ?b" for r
    using ok' that by (simp add: screen_ok_def)
  have col: "screen_ok ?b (s\<lparr>sc_cur_col := k\<rparr>)" if "0 \<le> k" "k < sc_cols s" for k
    using ok' that by (simp add: screen_ok_def)
  have saved: "screen_ok ?b (s\<lparr>sc_saved := (sc_cur_row s, sc_cur_col s)\<rparr>)"
    "screen_ok ?b (s\<lparr>sc_cur_row := fst (sc_saved s), sc_cur_col := snd (sc_saved s)\<rparr>)"
    using ok' by (simp_all add: screen_ok_def)
  have moved': "screen_ok ?b (s\<lparr>sc_cur_col := k, sc_cur_row := r\<rparr>)"
    if "0 \<le> r" "r \<le> ?b" "0 \<le> k" "k < sc_cols s" for r k
    using ok' that by (simp add: screen_ok_def)
  let ?P = "\<lambda>x. \<exists>s'. x = Some s' \<and> screen_ok ?b s'"
  have ite: "?P x \<Longrightarrow> ?P y \<Longrightarrow> ?P (if q then x else y)" for x y q by simp
  have ret: "screen_ok ?b x \<Longrightarrow> ?P (Some x)" for x by simp
  show ?thesis
    unfolding handle_csi_def Let_def w split_beta
    by (intro ite ret moved moved' row col saved set_margins_ok [OF ok'] do_scroll_ok [OF ok']
        erase_ok [OF ok' b(2)] delete_chars_ok [OF ok' n] ok')
       (use pos n b c max_param_def in auto)
qed

lemma line_feed_ok:
  assumes "screen_ok b s" and "b < max_int64"
  shows "screen_ok (b + 1) (line_feed s)"
proof -
  have "wrap64 (sc_cur_row s + 1) = sc_cur_row s + 1"
    using assms by (intro wrap64_id) (auto simp: screen_ok_def min_int64_def)
  then show ?thesis
    using do_scroll_ok(1) [OF screen_ok_mono [OF assms(1), of "b + 1"], of 1] assms(1)
    by (auto simp: line_feed_def screen_ok_def)
qed

lemma apply_token_ok:
  assumes ok: "screen_ok b s" and b: "65535 \<le> b" "b + max_param < max_int64" and "tame tok"
  shows "\<exists>s'. apply_token tok s = Some s' \<and> screen_ok (b + max_param) s'"
proof -
  have le: "b \<le> b + max_param" "b + 1 \<le> b + max_param" "b < max_int64"
    using b by (auto simp: max_param_def)
  have "screen_ok b (s\<lparr>sc_cur_col := 0\<rparr>)" "screen_ok b (back_space s)"
    using ok by (auto simp: screen_ok_def back_space_def)
  then show ?thesis
    using handle_csi_ok [OF ok b] assms(4) screen_ok_mono [OF _ le(1)] ok
      screen_ok_mono [OF line_feed_ok [OF ok le(3)] le(2)]
      screen_ok_mono [OF write_rune_ok [OF ok le(3)] le(2)]
    by (cases tok) (auto simp: apply_token_def tame_def)
qed

lemma apply_tokens_ok:
  "screen_ok b s \<Longrightarrow> 65535 \<le> b \<Longrightarrow> b + int (length ts) * max_param < max_int64 \<Longrightarrow>
     list_all tame ts \<Longrightarrow>
     \<exists>s'. apply_tokens ts s = Some s' \<and> screen_ok (b + int (length ts) * max_param) s'"
proof (induction ts arbitrary: b s)
  case (Cons t ts)
  have sum: "b + int (length (t # ts)) * max_param = (b + max_param) + int (length ts) * max_param"
    by (simp add: algebra_simps)
  have nn: "0 \<le> int (length ts) * max_param" "0 \<le> max_param" by (simp_all add: max_param_def)
  obtain s1 where s1: "apply_token t s = Some s1" "screen_ok (b + max_param) s1"
    using apply_token_ok [OF Cons.prems(1,2), of t] Cons.prems(3,4) nn sum by auto
  have "\<exists>s'. apply_tokens ts s1 = Some s' \<and>
      screen_ok ((b + max_param) + int (length ts) * max_param) s'"
    by (rule Cons.IH [OF s1(2)]) (use Cons.prems nn sum in auto)
  with s1(1) sum show ?case by (simp add: add.assoc)
qed simp

lemma new_screen_ok: "cols \<le> max_param \<Longrightarrow> 0 \<le> b \<Longrightarrow> screen_ok b (new_screen cols height)"
  by (auto simp: screen_ok_def new_screen_def max_param_def)

lemma screen_tokens_length: "length (screen_tokens bytes) \<le> length bytes"
proof (induction bytes rule: screen_tokens.induct)
  case (2 c s)
  then show ?case using next_token_length [of c s] by simp
qed simp

lemma screen_write_ok:
  assumes "cols \<le> max_param" and "list_all tame (screen_tokens bytes)"
    and "length bytes \<le> 2147483648"
  shows "\<exists>s. screen_write bytes (new_screen cols height) = Some s \<and>
    list_all (\<lambda>r. length r = nat (sc_cols s)) (sc_rows s) \<and>
    0 \<le> sc_cur_row s \<and> 0 \<le> sc_cur_col s \<and> sc_cur_col s < sc_cols s"
proof -
  have "int (length (screen_tokens bytes)) * max_param \<le> 2147483648 * max_param"
    using screen_tokens_length [of bytes] assms(3)
    by (intro mult_right_mono) (auto simp: max_param_def)
  then have "65535 + int (length (screen_tokens bytes)) * max_param < max_int64"
    by (simp add: max_param_def max_int64_def)
  from apply_tokens_ok [OF new_screen_ok [OF assms(1)] _ this assms(2), of height] show ?thesis
    by (auto simp: screen_write_def screen_ok_def)
qed



text \<open>
  The bound on the parameters is needed: a negative parameter of \<open>CSI B\<close> moves the cursor
  above the first row, and the next erase indexes the rows there.
\<close>

theorem screen_negative_parameter_panics:
  "screen_write ([esc] @ ''[-5B'' @ [esc] @ ''[K'') (new_screen 80 24) = None"
  by code_simp

end
