(* ===== verification/ScreenDebug.thy ===== *)
theory ScreenDebug
  imports Screen
begin

text \<open>
  The debug tool \<open>src/cmd/screendebug\<close>: it replays a recorded byte stream through the screen buffer
  of theory \<open>Screen\<close> and through the normalisation of theory \<open>Terminal\<close> and prints both.
\<close>

section \<open>The tool\<close>

text \<open>The verbs \<open>%3d\<close> and \<open>%q\<close> of one output line.\<close>

definition pad_index :: "nat \<Rightarrow> string" where
  "pad_index i = (let d = nat_to_str i in replicate (3 - length d) sp @ d)"

definition debug_line :: "nat \<times> string \<Rightarrow> string" where
  "debug_line = (\<lambda>(i, l). ''['' @ pad_index i @ ''] '' @ go_quote l @ [nl])"

definition debug_screen :: "string list \<Rightarrow> string" where
  "debug_screen ls = ''Screen content ('' @ nat_to_str (length ls) @ '' lines):'' @ [nl] @ concat (map debug_line (enumerate 0 ls))"

definition debug_normalized :: "string \<Rightarrow> string" where
  "debug_normalized raw =
     [nl] @ ''Normalized:'' @ [nl] @ replicate 80 (CHR ''-'') @ [nl] @
     concat (map debug_line (filter (\<lambda>(i, l). trim_space l \<noteq> []) (enumerate 0 (split_char nl (normalize_pty_text raw)))))"

text \<open>
  The exit code, the output and the error output; \<open>None\<close> is a panic, also the one of a missing
  argument.  \<open>read\<close> reads a file.
\<close>

definition screendebug_main :: "(string \<Rightarrow> string result) \<Rightarrow> string list \<Rightarrow> (nat \<times> string \<times> string) option" where
  "screendebug_main read args =
     (if length args < 2 then None
      else case read (args ! 1) of
          Inl e \<Rightarrow> Some (1, [], ''read: '' @ err_text e @ [nl])
        | Inr raw \<Rightarrow>
            map_option (\<lambda>scr. (0, debug_screen (screen_lines scr) @ debug_normalized raw, [])) (screen_write raw (new_screen 80 24)))"

section \<open>What it prints\<close>

text \<open>
  On a recording that the screen buffer can replay the tool ends with 0 and prints one line for every
  screen line and one for every line of the normalised text that is not blank.
\<close>

lemma screendebug_returns:
  assumes "read (args ! 1) = Inr raw" "2 \<le> length args"
    and "list_all tame (screen_tokens raw)" "length raw \<le> 2147483648"
  obtains scr where "screen_write raw (new_screen 80 24) = Some scr"
    "screendebug_main read args = Some (0, debug_screen (screen_lines scr) @ debug_normalized raw, [])"
  using screen_write_ok [OF _ assms(3,4), of 80 24] assms(1,2) that
  by (auto simp: screendebug_main_def max_param_def)

end
