(* ===== verification/Spec2Isabelle.thy ===== *)
theory Spec2Isabelle
  imports Served Frames Documents CommandLine Postgres MockAgent V1Compat Runtime ScreenDebug
begin

text \<open>
  Vitis: a verification development.

  \<^bold>\<open>The program.\<close> Vitis drives long-lived agent command lines (Claude Code, Codex) through pseudo
  terminals.  \<open>vitis converse\<close> lets two to sixteen of them talk to each other: the broker delivers
  an envelope to the active peer, captures its reply up to a fresh marker token, appends the turn
  to the store, publishes it on a bus, lets a terminator look at it and asks a policy who speaks
  next.  \<open>vitis run\<close> sends one prompt to one agent and watches its terminal until an adapter finds
  the run complete, blocked or failed; the session and its turns go to a store, from which
  \<open>vitis peek\<close> reads them back.  \<open>vitis serve\<close> shows the store over HTTP, with event streams.

  \<^bold>\<open>Foundations.\<close>
  \<^item> \<open>Prelude\<close>: Go's error values, 64-bit integers with wrap-around written out, instants and
    durations, and generic list operations.
  \<^item> \<open>GoStrings\<close>, \<open>GoText\<close>, \<open>GoPath\<close>: what the source uses of packages strings, bytes, strconv,
    unicode/utf8 and path/filepath.  A Go string is a list of bytes.
  \<^item> \<open>GoJson\<close>, \<open>GoTime\<close>: the texts of package encoding/json (escaping, layout, the parser) and of
    \<open>time.Time\<close> in JSON (RFC 3339 with nanoseconds, the proleptic Gregorian calendar).  What is
    written, compact or indented, is parsed back; a compact text has no line break.

  \<^bold>\<open>Data.\<close>
  \<^item> \<open>Model\<close>: the structs, constants and methods of \<open>src/internal/model\<close>.
  \<^item> \<open>Wire\<close>, \<open>StoreWire\<close>: the JSON documents as trees, with the struct tags (names, omitempty) and
    the replacement of invalid UTF-8 by \<open>encoding/json\<close>; round trips.  The stores work on these
    trees, and the length of a line is a function of the tree where a limit depends on it.
  \<^item> \<open>JsonText\<close>, \<open>Documents\<close>: the bytes behind the trees.  A Go type is a schema that decides what a
    number or a string stands for.  The log of a conversation as a file of lines and its document as
    an indented text are read back as the trees the store keeps, so the model of the store on
    trees refines to bytes.

  \<^bold>\<open>Conversations.\<close>
  \<^item> \<open>Policy\<close> (\<open>src/internal/conversation/policy\<close>): round robin, the \<open>NEXT\<close> trailer, the addressed
    policy.  The locale \<open>turn_policy\<close> states what the broker needs of a policy.
  \<^item> \<open>Bus\<close> (\<open>src/internal/bus\<close>): messages, topics and the in-process bus on a heap of subscriptions.
    The locale \<open>bounded_channel\<close> is a Go channel; the invariant holds in every reachable bus.
  \<^item> \<open>Terminator\<close> (\<open>src/internal/terminator/sentinel.go\<close>): the token test and the watch loop.
  \<^item> \<open>Envelope\<close> (\<open>marker.go\<close>, \<open>style.go\<close>, \<open>briefing.go\<close>, \<open>envelope.go\<close> of
    \<open>src/internal/conversation\<close>): the text a peer is sent.
  \<^item> \<open>Persistent\<close> (\<open>src/internal/peer/provider/persistent.go\<close>): reading one turn from a terminal
    that echoes its input.  The wake-ups of the select statement are a list of events, so a theorem
    for all lists covers every chunking and timing.
  \<^item> \<open>Peers\<close> (\<open>src/internal/peer\<close>): the transport interface as the locale \<open>peer_transport\<close>, with the
    scripted transport and the terminal transport as its instances, and the spawner.
  \<^item> \<open>Broker\<close> (\<open>src/internal/conversation/broker.go\<close>): the whole of \<open>Run\<close> over a record of operations
    of its environment, which the theorems leave free: limits, routing, termination without panic
    and the order of calls hold however peers, store, bus and terminator behave.
  \<^item> \<open>Converse\<close>: the broker on the real bus with the real sentinel and scripted peers; when the
    sentinel ends a conversation, what the store receives, how turns are numbered.
  \<^item> \<open>Recorded\<close>: the broker on the file store.  The store never steers a conversation, and a result
    without a store warning can be read back from disk.
  \<^item> \<open>Served\<close>: broker, file store and HTTP server together: the server answers with the conversation
    and the turns that the broker returned.
  \<^item> \<open>PeerFlags\<close>, \<open>ConverseCli\<close> (\<open>src/internal/cli/converse*.go\<close>): flag values, their validation and
    the broker they set up, two-peer and n-peer.
  \<^item> \<open>MockAgent\<close> (\<open>src/internal/testutil/mockagent\<close>): the agent the end-to-end tests start, against
    the marker protocol: what it prints behind an echoing terminal is captured as one turn per
    envelope with exactly the configured text.

  \<^bold>\<open>Single runs.\<close>
  \<^item> \<open>Terminal\<close>, \<open>Screen\<close>, \<open>Runtime\<close> (\<open>src/internal/terminal\<close>): text normalisation and transcripts;
    the screen buffer, whose writes give \<open>None\<close> where the code would index out of range; spawning
    and the two goroutines of a process as a step relation.  \<open>ScreenDebug\<close> is the debug tool
    \<open>src/cmd/screendebug\<close> on top of the screen buffer.
  \<^item> \<open>Adapters\<close> (\<open>src/internal/adapter\<close>): the regular expressions with a matcher proved against a
    reference semantics, command resolution, observation and extraction.
  \<^item> \<open>Util\<close>, \<open>Orchestrator\<close> (\<open>src/internal/util\<close>, \<open>src/internal/orchestrator\<close>): the completion loop
    over its wake-ups and \<open>Run\<close> over a record of operations.
  \<^item> \<open>SingleRun\<close>: \<open>Run\<close> over any store that satisfies the locale \<open>session_store\<close>.
  \<^item> \<open>Commands\<close> (\<open>src/internal/cli\<close>, \<open>src/internal/config\<close>, \<open>src/cmd/vitis\<close>): the commands behind
    their parsed flags.
  \<^item> \<open>GoFlags\<close>, \<open>CommandLine\<close>: what the source uses of package flag, and every command from its
    argument vector to its exit code; parsing inverts rendering.

  \<^bold>\<open>Stores and the API.\<close>
  \<^item> \<open>FileStore\<close> (\<open>src/internal/store/file\<close>): paths, atomic documents and JSON lines on a file system
    with faults; the locale \<open>conversation_log\<close> is its abstract specification.
  \<^item> \<open>Postgres\<close> (\<open>src/internal/store/postgres\<close>): the statements and their arguments over a driver
    (pgx) that is a record of parameters; the update statement gives the row of the patched session,
    peeking agrees with the file store, and under named hypotheses on the driver every database run
    ends with an error.
  \<^item> \<open>V1Compat\<close> (\<open>src/internal/store/v1compat\<close>): the upgrade of version 1 logs.
  \<^item> \<open>Api\<close>, \<open>Watch\<close> (\<open>src/internal/api\<close>): routing, middleware, handlers, the compare-and-swap counter
    of streams under every interleaving, the watcher and the streams.
  \<^item> \<open>Frames\<close>: the streams as bytes; a client reads exactly the events that were sent.

  \<^bold>\<open>Termination and fuel.\<close> Loops of the source that end by themselves are \<open>fun\<close> or \<open>function\<close> with a
  measure; the broker loop is a total \<open>function\<close> whose measure is the number of turns left.  Loops
  that wait for events recurse over the list of events and give \<open>None\<close> while the list is not long
  enough; the theorems on termination give the events that suffice (the end of the context, the
  deadline, the exit of the process).  A panic is \<open>None\<close> as well, so a theorem that a run returns
  excludes both.

  \<^bold>\<open>Parameters.\<close> Clocks, random bytes, the operating system's faults, the sort of package sort
  (any permutation that sorts; it need not be stable), the child process and the HTTP connection
  are arguments of the definitions.

  \<^bold>\<open>Not modelled.\<close> Sockets and timeouts of the HTTP server (the responses and the error it ends with
  are), the usage texts and \<open>String\<close> methods of package flag, which print flags only, and JSON texts
  that the program does not write itself as far as they need more than the schemas: names that
  differ in case, numbers with an exponent or more than two decimals where a confidence is
  expected.  The trees of HTTP bodies and of stream payloads have invalid UTF-8 replaced already, so
  their texts are exact for valid strings.  Locks and accessors of single fields (\<open>Raw\<close>, \<open>TailRaw\<close>,
  \<open>BytesSeen\<close>, \<open>Events\<close>) have no definition of their own: a locked section is one step, and a field
  is read where the code calls its accessor.
\<close>

end
